(* ===== verification/Prelude.thy ===== *)
theory Prelude
  imports Complex_Main "HOL-Library.Word" "HOL-Library.Monad_Syntax"
begin

text \<open>
  What every component shares: the type names of the C program, the loops of C as folds over
  the values of the loop variable, and the generic lemmas on them.

  A C program can fail where HOL cannot: a read or a write outside its object, a signed
  \<^verbatim>\<open>int\<close> that overflows, a failed assertion. Every such operation of the model
  returns an option, and \<^term>\<open>None\<close> is the failure. A loop whose body can fail is \<open>foldO\<close>; a loop
  whose body can also \<^verbatim>\<open>return\<close> from the enclosing function is \<open>foldR\<close>, with
  \<^term>\<open>Inl\<close> for the early return.
\<close>

unbundle bit_operations_syntax

named_theorems loop_simps \<open>unfolding rules of the loop combinators\<close>
named_theorems len_simps \<open>lengths of the arrays an operation returns\<close>

type_synonym u8 = "8 word"
type_synonym u16 = "16 word"
type_synonym u32 = "32 word"
type_synonym u64 = "64 word"

text \<open>Addresses of the client of Valgrind, and the size of the part of the address space that one secondary map covers.\<close>

type_synonym addr = u64

definition SM_SIZE :: addr where
  "SM_SIZE = 65536"


section \<open>Loops\<close>

primrec foldO :: "('i \<Rightarrow> 's \<Rightarrow> 's option) \<Rightarrow> 'i list \<Rightarrow> 's \<Rightarrow> 's option" where
  "foldO f [] s = Some s"
| "foldO f (x # xs) s = (case f x s of None \<Rightarrow> None | Some s' \<Rightarrow> foldO f xs s')"

primrec foldR :: "('i \<Rightarrow> 's \<Rightarrow> ('r + 's) option) \<Rightarrow> 'i list \<Rightarrow> 's \<Rightarrow> ('r + 's) option" where
  "foldR f [] s = Some (Inr s)"
| "foldR f (x # xs) s =
     (case f x s of None \<Rightarrow> None | Some (Inl r) \<Rightarrow> Some (Inl r) | Some (Inr s') \<Rightarrow> foldR f xs s')"

declare foldO.simps [loop_simps] foldR.simps [loop_simps]

lemma foldO_append: "foldO f (xs @ ys) s = (case foldO f xs s of None \<Rightarrow> None | Some t \<Rightarrow> foldO f ys t)"
  by (induction xs arbitrary: s) (auto split: option.splits)

text \<open>
  The rule for a counted loop: an invariant that holds at the first value of the counter and
  that every iteration keeps. The loop does not fail when no iteration does.
\<close>

lemma foldO_upt:
  assumes "P lo s" and "lo \<le> hi"
    and "\<And>i t. lo \<le> i \<Longrightarrow> i < hi \<Longrightarrow> P i t \<Longrightarrow> \<exists>u. f i t = Some u \<and> P (Suc i) u"
  shows "\<exists>t. foldO f [lo..<hi] s = Some t \<and> P hi t"
  using assms(2,1,3)
proof (induction hi rule: dec_induct)
  case base
  then show ?case by simp
next
  case (step m)
  have "\<exists>t. foldO f [lo..<m] s = Some t \<and> P m t"
    using step by simp
  then obtain t where "foldO f [lo..<m] s = Some t" "P m t"
    by blast
  then show ?case
    using step.prems(2)[of m t] step.hyps by (auto simp: foldO_append)
qed

lemma foldR_append:
  "foldR f (xs @ ys) s =
     (case foldR f xs s of None \<Rightarrow> None | Some (Inl r) \<Rightarrow> Some (Inl r) | Some (Inr t) \<Rightarrow> foldR f ys t)"
  by (induction xs arbitrary: s) (auto split: option.splits sum.splits)

lemma foldR_upt:
  assumes "P lo s" and "lo \<le> hi"
    and "\<And>i t. lo \<le> i \<Longrightarrow> i < hi \<Longrightarrow> P i t \<Longrightarrow>
           (\<exists>r. f i t = Some (Inl r) \<and> Q r) \<or> (\<exists>u. f i t = Some (Inr u) \<and> P (Suc i) u)"
  shows "(\<exists>r. foldR f [lo..<hi] s = Some (Inl r) \<and> Q r) \<or>
         (\<exists>t. foldR f [lo..<hi] s = Some (Inr t) \<and> P hi t)"
  using assms(2,1,3)
proof (induction hi rule: dec_induct)
  case base
  then show ?case by simp
next
  case (step m)
  have "(\<exists>r. foldR f [lo..<m] s = Some (Inl r) \<and> Q r) \<or>
        (\<exists>t. foldR f [lo..<m] s = Some (Inr t) \<and> P m t)"
    using step by simp
  then show ?case
  proof (elim disjE exE conjE)
    fix r assume "foldR f [lo..<m] s = Some (Inl r)" "Q r"
    then show ?thesis using step.hyps by (auto simp: foldR_append)
  next
    fix t assume t: "foldR f [lo..<m] s = Some (Inr t)" "P m t"
    with step.prems(2)[of m t] step.hyps
    have "(\<exists>r. f m t = Some (Inl r) \<and> Q r) \<or> (\<exists>u. f m t = Some (Inr u) \<and> P (Suc m) u)"
      by simp
    with t step.hyps show ?thesis by (auto simp: foldR_append)
  qed
qed

lemma foldO_rev_upt:
  assumes "P n s"
    and "\<And>i t. i < n \<Longrightarrow> P (Suc i) t \<Longrightarrow> \<exists>u. f i t = Some u \<and> P i u"
  shows "\<exists>t. foldO f (rev [0..<n]) s = Some t \<and> P 0 t"
  using assms
proof (induction n arbitrary: s)
  case 0
  then show ?case by simp
next
  case (Suc n)
  from Suc.prems(2)[of n s] Suc.prems(1) obtain u where u: "f n s = Some u" "P n u"
    by auto
  have "\<exists>t. foldO f (rev [0..<n]) u = Some t \<and> P 0 t"
    by (rule Suc.IH) (use u Suc.prems(2) in auto)
  with u show ?case by simp
qed

lemma foldO_fold:
  "(\<And>x s. x \<in> set xs \<Longrightarrow> f x s = Some (g x s)) \<Longrightarrow> foldO f xs s = Some (fold g xs s)"
  by (induction xs arbitrary: s) auto

lemma foldO_nested:
  "foldO (\<lambda>x. foldO (f x) ys) xs s = foldO (\<lambda>(x, y). f x y) (concat (map (\<lambda>x. map (Pair x) ys) xs)) s"
proof -
  have inner: "foldO (\<lambda>(x, y). f x y) (map (Pair x) ys) s = foldO (f x) ys s" for x s
    by (induction ys arbitrary: s) (auto split: option.splits)
  show ?thesis
    by (induction xs arbitrary: s) (auto simp: foldO_append inner split: option.splits)
qed

lemma foldR_foldO:
  assumes "\<And>x s u. x \<in> set xs \<Longrightarrow> f x s = Some (Inr u) \<Longrightarrow> g x (h s) = Some (h u)"
    and "foldR f xs s = Some (Inr t)"
  shows "foldO g xs (h s) = Some (h t)"
  using assms
proof (induction xs arbitrary: s)
  case (Cons x xs)
  from Cons.prems(2) obtain u where "f x s = Some (Inr u)" "foldR f xs u = Some (Inr t)"
    by (auto split: option.splits sum.splits)
  with Cons show ?case by simp
qed simp

text \<open>The early return of a loop is the early return of one of its iterations.\<close>

lemma foldR_Inl:
  assumes "\<And>x s r. x \<in> set xs \<Longrightarrow> f x s = Some (Inl r) \<Longrightarrow> Q r" and "foldR f xs s = Some (Inl r)"
  shows "Q r"
  using assms by (induction xs arbitrary: s) (fastforce split: option.splits sum.splits)+


section \<open>Machine words\<close>

lemma unat_ucast_mod:
  fixes w :: "'a::len word"
  shows "unat (ucast w :: 'b::len word) = unat w mod 2 ^ LENGTH('b)"
  by (simp add: unsigned_ucast_eq take_bit_eq_mod)

lemma uint_ucast_mod:
  fixes w :: "'a::len word"
  shows "uint (ucast w :: 'b::len word) = uint w mod 2 ^ LENGTH('b)"
  by (simp add: unsigned_ucast_eq take_bit_eq_mod)

lemma unat_drop_bit_div:
  fixes w :: "'a::len word"
  shows "unat (drop_bit k w) = unat w div 2 ^ k"
  by (simp only: unat_drop_bit_eq) (simp add: drop_bit_eq_div)

lemma unat_bound: "unat (w :: 'a::len word) < 2 ^ LENGTH('a)"
  by (rule unsigned_less)

lemma unat_minus_1: "unat (- 1 :: 'a::len word) = 2 ^ LENGTH('a) - 1"
  by (simp add: unsigned_minus_1_eq_mask mask_eq_exp_minus_1)

lemma unat_push_bit_mod:
  fixes w :: "'a::len word"
  shows "unat (push_bit k w) = unat w * 2 ^ k mod 2 ^ LENGTH('a)"
  by (simp only: unsigned_push_bit_eq) (simp add: take_bit_eq_mod push_bit_eq_mult)


section \<open>Data refinement\<close>

text \<open>
  A concrete step \<open>run\<close> implements an abstract step \<open>spec\<close> through an abstraction function, for the states of an invariant. The abstract step is
  \<^const>\<open>None\<close> where the contract makes no promise.
\<close>

locale data_refinement =
  fixes inv :: "'s \<Rightarrow> bool" and abstr :: "'s \<Rightarrow> 'a" and run :: "'op \<Rightarrow> 's \<Rightarrow> 's option" and spec :: "'op \<Rightarrow> 'a \<Rightarrow> 'a option"
  assumes step: "inv s \<Longrightarrow> spec r (abstr s) = Some a \<Longrightarrow> \<exists>s'. run r s = Some s' \<and> inv s' \<and> abstr s' = a"
begin

lemma runs:
  assumes "inv s" "foldO spec rs (abstr s) = Some a"
  shows "\<exists>s'. foldO run rs s = Some s' \<and> inv s' \<and> abstr s' = a"
  using assms
proof (induction rs arbitrary: s)
  case (Cons r rs)
  from Cons.prems(2) obtain a1 where a1: "spec r (abstr s) = Some a1" "foldO spec rs a1 = Some a" by (auto split: option.splits)
  from step[OF Cons.prems(1) a1(1)] obtain s1 where "run r s = Some s1" "inv s1" "abstr s1 = a1" by auto
  with Cons.IH[of s1] a1(2) show ?case by simp
qed simp

end

text \<open>The special case of requests that are allowed in every state: the abstract machine is a total function of those.\<close>

locale simulation =
  fixes inv :: "'s \<Rightarrow> bool" and abstr :: "'s \<Rightarrow> 'a" and run :: "'op \<Rightarrow> 's \<Rightarrow> 's option" and spec :: "'op \<Rightarrow> 'a \<Rightarrow> 'a"
    and fits :: "'op \<Rightarrow> bool"
  assumes step: "inv s \<Longrightarrow> fits r \<Longrightarrow> \<exists>s'. run r s = Some s' \<and> inv s' \<and> abstr s' = spec r (abstr s)"

sublocale simulation \<subseteq> partial: data_refinement inv abstr run "\<lambda>r a. if fits r then Some (spec r a) else None"
  by unfold_locales (use step in \<open>auto split: if_splits\<close>)

context simulation
begin

lemma spec_runs: "list_all fits rs \<Longrightarrow> foldO (\<lambda>r a. if fits r then Some (spec r a) else None) rs a = Some (fold spec rs a)"
  by (induction rs arbitrary: a) auto

lemma runs:
  assumes "inv s" "list_all fits rs"
  shows "\<exists>s'. foldO run rs s = Some s' \<and> inv s' \<and> abstr s' = fold spec rs (abstr s)"
  by (rule partial.runs[OF assms(1) spec_runs[OF assms(2)]])

end

end
