(* ===== verification/Arith_Ops.thy ===== *)
theory Arith_Ops
  imports Prelude
begin

text \<open>
  The operations of C's \<^verbatim>\<open>double\<close> that the programs use, as a record that every definition
  working on doubles takes as an argument. What holds for every such record (memory safety,
  control flow, independence of the order of the threads) holds for IEEE 754 arithmetic with
  whatever rounding, infinities and NaNs the machine has. What needs the laws of arithmetic (that
  the solution solves the system) is proved under the contract \<open>exact_arith\<close>, which the
  operations of any ordered field satisfy.
\<close>

record 'd fp_ops =
  fp_add :: "'d \<Rightarrow> 'd \<Rightarrow> 'd"
  fp_sub :: "'d \<Rightarrow> 'd \<Rightarrow> 'd"
  fp_mul :: "'d \<Rightarrow> 'd \<Rightarrow> 'd"
  fp_div :: "'d \<Rightarrow> 'd \<Rightarrow> 'd"
  fp_neg :: "'d \<Rightarrow> 'd"
  fabs :: "'d \<Rightarrow> 'd"
  fp_lt :: "'d \<Rightarrow> 'd \<Rightarrow> bool"
  fp_le :: "'d \<Rightarrow> 'd \<Rightarrow> bool"
  fp_of_int :: "int \<Rightarrow> 'd"
  fp_lit :: "int \<Rightarrow> nat \<Rightarrow> 'd"  \<comment> \<open>the literal m * 10^-e: \<^verbatim>\<open>1e-10\<close> is \<open>fp_lit 1 10\<close>\<close>

definition field_ops :: "'d::linordered_field fp_ops" where
  "field_ops =
     \<lparr>fp_add = (+), fp_sub = (-), fp_mul = (*), fp_div = (/), fp_neg = uminus, fabs = abs,
      fp_lt = (<), fp_le = (\<le>), fp_of_int = of_int, fp_lit = (\<lambda>m e. of_int m / 10 ^ e)\<rparr>"

text \<open>The contract of exact arithmetic.\<close>

locale exact_arith =
  fixes ops :: "'d::linordered_field fp_ops"
  assumes add_exact: "fp_add ops x y = x + y"
    and sub_exact: "fp_sub ops x y = x - y"
    and mul_exact: "fp_mul ops x y = x * y"
    and div_exact: "fp_div ops x y = x / y"
    and neg_exact: "fp_neg ops x = - x"
    and abs_exact: "fabs ops x = \<bar>x\<bar>"
    and lt_exact: "fp_lt ops x y \<longleftrightarrow> x < y"
    and le_exact: "fp_le ops x y \<longleftrightarrow> x \<le> y"
    and of_int_exact: "fp_of_int ops i = of_int i"
    and lit_exact: "fp_lit ops m e = of_int m / 10 ^ e"
begin

lemmas exact_simps = add_exact sub_exact mul_exact div_exact neg_exact abs_exact lt_exact le_exact
  of_int_exact lit_exact

end

interpretation field_arith: exact_arith "field_ops :: 'd::linordered_field fp_ops"
  by unfold_locales (simp_all add: field_ops_def)

end
