(* ===== verification/Dgesv.thy ===== *)
theory Dgesv
  imports Arith_Ops
begin

text \<open>
  The dense linear solvers: \<^verbatim>\<open>my_dgesv\<close> of \<^verbatim>\<open>src/dgesv.c\<close> (Gaussian elimination with partial
  pivoting and an OpenMP back substitution), of \<^verbatim>\<open>src/dgesv-optimal1.c\<close> (the same with another
  schedule) and of \<^verbatim>\<open>src/task1/dgesv.c\<close> (the serial one without pivoting).

  A matrix is the list of its entries in row-major order, as the C array is. An access
  \<^verbatim>\<open>a[i * w + j]\<close> is \<open>mget\<close> or \<open>mput\<close>: it fails (\<^term>\<open>None\<close>) when the index leaves the array or is
  not an \<^verbatim>\<open>int\<close>.
\<close>

section \<open>Arrays\<close>

definition in_array :: "'d list \<Rightarrow> nat \<Rightarrow> bool" where
  "in_array a x \<longleftrightarrow> x < length a \<and> int x < 2147483648"

definition mget :: "nat \<Rightarrow> 'd list \<Rightarrow> nat \<Rightarrow> nat \<Rightarrow> 'd option" where
  "mget w a i j = (if in_array a (i * w + j) then Some (a ! (i * w + j)) else None)"

definition mput :: "nat \<Rightarrow> 'd list \<Rightarrow> nat \<Rightarrow> nat \<Rightarrow> 'd \<Rightarrow> 'd list option" where
  "mput w a i j x = (if in_array a (i * w + j) then Some (a[i * w + j := x]) else None)"


section \<open>src/dgesv.c\<close>

text \<open>The search for the pivot row of column \<open>k\<close>; the loop carries \<^verbatim>\<open>(maxIndex, maxVal)\<close>.\<close>

definition pivot_step :: "'d fp_ops \<Rightarrow> nat \<Rightarrow> 'd list \<Rightarrow> nat \<Rightarrow> nat \<Rightarrow> nat \<times> 'd \<Rightarrow> (nat \<times> 'd) option" where
  "pivot_step ops n a k i = (\<lambda>(maxIndex, maxVal). do {
     x \<leftarrow> mget n a i k;
     Some (if fp_lt ops maxVal (fabs ops x) then (i, fabs ops x) else (maxIndex, maxVal))
   })"

definition find_pivot :: "'d fp_ops \<Rightarrow> nat \<Rightarrow> 'd list \<Rightarrow> nat \<Rightarrow> nat option" where
  "find_pivot ops n a k = do {
     x \<leftarrow> mget n a k k;
     (maxIndex, maxVal) \<leftarrow> foldO (pivot_step ops n a k) [Suc k..<n] (k, fabs ops x);
     Some maxIndex
   }"

text \<open>The exchange of rows \<open>k\<close> and \<open>m\<close> of a matrix with \<open>w\<close> columns.\<close>

definition swap_entry :: "nat \<Rightarrow> nat \<Rightarrow> nat \<Rightarrow> nat \<Rightarrow> 'd list \<Rightarrow> 'd list option" where
  "swap_entry w k m j a = do {
     tmp \<leftarrow> mget w a k j;
     x \<leftarrow> mget w a m j;
     a \<leftarrow> mput w a k j x;
     mput w a m j tmp
   }"

definition swap_rows :: "nat \<Rightarrow> nat \<Rightarrow> nat \<Rightarrow> 'd list \<Rightarrow> 'd list option" where
  "swap_rows w k m a = foldO (swap_entry w k m) [0..<w] a"

text \<open>Adding \<open>t\<close> times row \<open>k\<close> to row \<open>i\<close>, from column \<open>lo\<close> on.\<close>

definition add_entry :: "'d fp_ops \<Rightarrow> nat \<Rightarrow> 'd \<Rightarrow> nat \<Rightarrow> nat \<Rightarrow> nat \<Rightarrow> 'd list \<Rightarrow> 'd list option" where
  "add_entry ops w t k i j a = do {
     x \<leftarrow> mget w a i j;
     y \<leftarrow> mget w a k j;
     mput w a i j (fp_add ops x (fp_mul ops t y))
   }"

definition add_row :: "'d fp_ops \<Rightarrow> nat \<Rightarrow> nat \<Rightarrow> 'd \<Rightarrow> nat \<Rightarrow> nat \<Rightarrow> 'd list \<Rightarrow> 'd list option" where
  "add_row ops w lo t k i a = foldO (add_entry ops w t k i) [lo..<w] a"

definition elim_row ::
  "'d fp_ops \<Rightarrow> nat \<Rightarrow> nat \<Rightarrow> nat \<Rightarrow> nat \<Rightarrow> 'd list \<times> 'd list \<Rightarrow> ('d list \<times> 'd list) option" where
  "elim_row ops n nrhs k i = (\<lambda>(a, b). do {
     x \<leftarrow> mget n a i k;
     p \<leftarrow> mget n a k k;
     let t = fp_div ops (fp_neg ops x) p;
     a \<leftarrow> add_row ops n k t k i a;
     b \<leftarrow> add_row ops nrhs 0 t k i b;
     Some (a, b)
   })"

text \<open>The test \<^verbatim>\<open>fabs(p) < 1e-10\<close> that both phases make.\<close>

definition tiny :: "'d fp_ops \<Rightarrow> 'd \<Rightarrow> bool" where
  "tiny ops p = fp_lt ops (fabs ops p) (fp_lit ops 1 10)"

text \<open>One iteration of the elimination: pivot, exchange, test, eliminate below.\<close>

definition elim_step ::
  "'d fp_ops \<Rightarrow> nat \<Rightarrow> nat \<Rightarrow> nat \<Rightarrow> 'd list \<times> 'd list \<Rightarrow>
     ((int \<times> 'd list \<times> 'd list) + ('d list \<times> 'd list)) option" where
  "elim_step ops n nrhs k = (\<lambda>(a, b). do {
     maxIndex \<leftarrow> find_pivot ops n a k;
     a \<leftarrow> (if maxIndex \<noteq> k then swap_rows n k maxIndex a else Some a);
     b \<leftarrow> (if maxIndex \<noteq> k then swap_rows nrhs k maxIndex b else Some b);
     p \<leftarrow> mget n a k k;
     if tiny ops p then Some (Inl (-1, a, b))
     else map_option Inr (foldO (elim_row ops n nrhs k) [Suc k..<n] (a, b))
   })"

text \<open>
  Back substitution. \<open>back_row\<close> is the body of the \<^verbatim>\<open>i\<close> loop for column \<open>j\<close>; the state holds the
  right-hand sides and the shared \<^verbatim>\<open>error_flag\<close>, which is only ever set.
\<close>

definition back_term :: "'d fp_ops \<Rightarrow> nat \<Rightarrow> nat \<Rightarrow> 'd list \<Rightarrow> 'd list \<Rightarrow> nat \<Rightarrow> nat \<Rightarrow> nat \<Rightarrow> 'd \<Rightarrow> 'd option" where
  "back_term ops n nrhs a b j i k t = do {
     x \<leftarrow> mget n a i k;
     y \<leftarrow> mget nrhs b k j;
     Some (fp_sub ops t (fp_mul ops x y))
   }"

definition back_row ::
  "'d fp_ops \<Rightarrow> nat \<Rightarrow> nat \<Rightarrow> 'd list \<Rightarrow> nat \<Rightarrow> nat \<Rightarrow> 'd list \<times> int \<Rightarrow> ('d list \<times> int) option" where
  "back_row ops n nrhs a j i = (\<lambda>(b, error_flag). do {
     t \<leftarrow> mget nrhs b i j;
     t \<leftarrow> foldO (back_term ops n nrhs a b j i) [Suc i..<n] t;
     p \<leftarrow> mget n a i i;
     let error_flag = (if tiny ops p then 1 else error_flag);
     b \<leftarrow> mput nrhs b i j (fp_div ops t p);
     Some (b, error_flag)
   })"

definition back_col ::
  "'d fp_ops \<Rightarrow> nat \<Rightarrow> nat \<Rightarrow> 'd list \<Rightarrow> nat \<Rightarrow> 'd list \<times> int \<Rightarrow> ('d list \<times> int) option" where
  "back_col ops n nrhs a j = foldO (back_row ops n nrhs a j) (rev [0..<n])"

text \<open>
  The whole function. The bounds of the loops are C \<^verbatim>\<open>int\<close>s, so a negative size runs no iteration.
  The loop over the columns is taken here in the order of a single thread; \<open>dgesv_schedule\<close> below
  runs it in the order of an arbitrary interleaving of threads.
\<close>

definition forward_elim ::
  "'d fp_ops \<Rightarrow> int \<Rightarrow> int \<Rightarrow> 'd list \<Rightarrow> 'd list \<Rightarrow> ((int \<times> 'd list \<times> 'd list) + ('d list \<times> 'd list)) option" where
  "forward_elim ops n nrhs a b = foldR (elim_step ops (nat n) (nat nrhs)) [0..<nat (n - 1)] (a, b)"

definition my_dgesv ::
  "'d fp_ops \<Rightarrow> int \<Rightarrow> int \<Rightarrow> 'd list \<Rightarrow> 'd list \<Rightarrow> (int \<times> 'd list \<times> 'd list) option" where
  "my_dgesv ops n nrhs a b =
     (case forward_elim ops n nrhs a b of
        None \<Rightarrow> None
      | Some (Inl r) \<Rightarrow> Some r
      | Some (Inr (a, b)) \<Rightarrow> do {
          (b, error_flag) \<leftarrow> foldO (back_col ops (nat n) (nat nrhs) a) [0..<nat nrhs] (b, 0);
          Some (if error_flag \<noteq> 0 then -1 else 0, a, b)
        })"

text \<open>
  The parallel loop: a schedule is the sequence of (column, row) iterations in the order in which
  the threads run them. The threads of an OpenMP \<^verbatim>\<open>parallel for\<close> share out the columns; each runs
  the rows of its columns from the last to the first.
\<close>

type_synonym schedule = "(nat \<times> nat) list"

definition legal_schedule :: "nat \<Rightarrow> nat \<Rightarrow> schedule \<Rightarrow> bool" where
  "legal_schedule n nrhs sch \<longleftrightarrow>
     (\<forall>(j, i) \<in> set sch. j < nrhs) \<and>
     (\<forall>j < nrhs. map snd (filter (\<lambda>(j', i). j' = j) sch) = rev [0..<n])"

definition run_schedule ::
  "'d fp_ops \<Rightarrow> nat \<Rightarrow> nat \<Rightarrow> 'd list \<Rightarrow> schedule \<Rightarrow> 'd list \<times> int \<Rightarrow> ('d list \<times> int) option" where
  "run_schedule ops n nrhs a = foldO (\<lambda>(j, i). back_row ops n nrhs a j i)"

definition dgesv_schedule ::
  "'d fp_ops \<Rightarrow> int \<Rightarrow> int \<Rightarrow> schedule \<Rightarrow> 'd list \<Rightarrow> 'd list \<Rightarrow> (int \<times> 'd list \<times> 'd list) option" where
  "dgesv_schedule ops n nrhs sch a b =
     (case forward_elim ops n nrhs a b of
        None \<Rightarrow> None
      | Some (Inl r) \<Rightarrow> Some r
      | Some (Inr (a, b)) \<Rightarrow> do {
          (b, error_flag) \<leftarrow> run_schedule ops (nat n) (nat nrhs) a sch (b, 0);
          Some (if error_flag \<noteq> 0 then -1 else 0, a, b)
        })"


section \<open>src/dgesv-optimal1.c\<close>

text \<open>
  The earlier parallel version: the same elimination; its \<^verbatim>\<open>parallel for\<close> leaves the schedule to the
  implementation, so it too is run under an arbitrary one.
\<close>

definition optimal1_dgesv ::
  "'d fp_ops \<Rightarrow> int \<Rightarrow> int \<Rightarrow> schedule \<Rightarrow> 'd list \<Rightarrow> 'd list \<Rightarrow> (int \<times> 'd list \<times> 'd list) option" where
  "optimal1_dgesv ops n nrhs sch a b =
     (case foldR (elim_step ops (nat n) (nat nrhs)) [0..<nat (n - 1)] (a, b) of
        None \<Rightarrow> None
      | Some (Inl r) \<Rightarrow> Some r
      | Some (Inr (a, b)) \<Rightarrow> do {
          (b, error_flag) \<leftarrow> foldO (\<lambda>(j, i). back_row ops (nat n) (nat nrhs) a j i) sch (b, 0);
          Some (if error_flag \<noteq> 0 then -1 else 0, a, b)
        })"

lemma optimal1_is_schedule: "optimal1_dgesv ops n nrhs sch a b = dgesv_schedule ops n nrhs sch a b"
  by (simp add: optimal1_dgesv_def dgesv_schedule_def forward_elim_def run_schedule_def
      split: option.split sum.split)


section \<open>src/task1/dgesv.c\<close>

text \<open>The serial solver: no pivoting, and the back substitution returns at the first small pivot.\<close>

definition serial_elim_step ::
  "'d fp_ops \<Rightarrow> nat \<Rightarrow> nat \<Rightarrow> nat \<Rightarrow> 'd list \<times> 'd list \<Rightarrow>
     ((int \<times> 'd list \<times> 'd list) + ('d list \<times> 'd list)) option" where
  "serial_elim_step ops n nrhs k = (\<lambda>(a, b). do {
     p \<leftarrow> mget n a k k;
     if tiny ops p then Some (Inl (-1, a, b))
     else map_option Inr (foldO (elim_row ops n nrhs k) [Suc k..<n] (a, b))
   })"

definition serial_back_row ::
  "'d fp_ops \<Rightarrow> nat \<Rightarrow> nat \<Rightarrow> 'd list \<Rightarrow> nat \<Rightarrow> nat \<Rightarrow> 'd list \<Rightarrow>
     ((int \<times> 'd list \<times> 'd list) + 'd list) option" where
  "serial_back_row ops n nrhs a j i b = do {
     t \<leftarrow> mget nrhs b i j;
     t \<leftarrow> foldO (back_term ops n nrhs a b j i) [Suc i..<n] t;
     p \<leftarrow> mget n a i i;
     if tiny ops p then Some (Inl (-1, a, b))
     else map_option Inr (mput nrhs b i j (fp_div ops t p))
   }"

definition serial_back_col ::
  "'d fp_ops \<Rightarrow> nat \<Rightarrow> nat \<Rightarrow> 'd list \<Rightarrow> nat \<Rightarrow> 'd list \<Rightarrow>
     ((int \<times> 'd list \<times> 'd list) + 'd list) option" where
  "serial_back_col ops n nrhs a j = foldR (serial_back_row ops n nrhs a j) (rev [0..<n])"

definition serial_dgesv ::
  "'d fp_ops \<Rightarrow> int \<Rightarrow> int \<Rightarrow> 'd list \<Rightarrow> 'd list \<Rightarrow> (int \<times> 'd list \<times> 'd list) option" where
  "serial_dgesv ops n nrhs a b =
     (case foldR (serial_elim_step ops (nat n) (nat nrhs)) [0..<nat (n - 1)] (a, b) of
        None \<Rightarrow> None
      | Some (Inl r) \<Rightarrow> Some r
      | Some (Inr (a, b)) \<Rightarrow>
          (case foldR (serial_back_col ops (nat n) (nat nrhs) a) [0..<nat nrhs] b of
             None \<Rightarrow> None
           | Some (Inl r) \<Rightarrow> Some r
           | Some (Inr b) \<Rightarrow> Some (0, a, b)))"

end
