(* ===== verification/Dgesv_Loops.thy ===== *)
theory Dgesv_Loops
  imports Dgesv
begin

text \<open>
  What the loops of the solver compute, for every record of double operations: none of them
  fails on arrays of the right size, and each entry of the result is given in terms of the entries
  before. The back substitution is described column by column (\<open>col_run\<close>), which makes the order of
  the threads irrelevant.
\<close>

section \<open>Entries of a row-major array\<close>

definition ent :: "nat \<Rightarrow> 'd list \<Rightarrow> nat \<Rightarrow> nat \<Rightarrow> 'd" where
  "ent w a i j = a ! (i * w + j)"

definition shape :: "nat \<Rightarrow> nat \<Rightarrow> 'd list \<Rightarrow> bool" where
  "shape r w a \<longleftrightarrow> length a = r * w \<and> r * w \<le> 2 ^ 31"

lemma idx_less: "(i::nat) < r \<Longrightarrow> j < w \<Longrightarrow> i * w + j < r * w"
proof -
  assume "i < r" "j < w"
  then have "i * w + j < Suc i * w" by simp
  also have "\<dots> \<le> r * w" using \<open>i < r\<close> by (intro mult_le_mono1) simp
  finally show ?thesis .
qed

lemma idx_eq: "(j::nat) < w \<Longrightarrow> j' < w \<Longrightarrow> i * w + j = i' * w + j' \<longleftrightarrow> i = i' \<and> j = j'"
  by (metis add_right_cancel div_mult_self3 div_less add.commute add_0 not_less_zero mult.commute mod_mult_self3 mod_less)

lemma idx_cases: "x < r * w \<Longrightarrow> \<exists>i j. i < r \<and> j < w \<and> x = i * (w::nat) + j"
  by (rule exI[of _ "x div w"], rule exI[of _ "x mod w"])
    (auto simp: less_mult_imp_div_less intro: mod_less_divisor, metis mod_less_divisor mult_0_right not_less_zero not_gr_zero)

lemma shape_ext:
  assumes "shape r w a" "shape r w b" "\<And>i j. i < r \<Longrightarrow> j < w \<Longrightarrow> ent w a i j = ent w b i j"
  shows "a = b"
proof (rule nth_equalityI)
  show "length a = length b" using assms by (simp add: shape_def)
  fix x assume "x < length a"
  then obtain i j where "i < r" "j < w" "x = i * w + j"
    using assms(1) idx_cases by (metis shape_def)
  then show "a ! x = b ! x" using assms(3)[of i j] by (simp add: ent_def)
qed

lemma in_array_iff: "in_array a x \<longleftrightarrow> x < length a \<and> x < 2147483648"
  by (auto simp: in_array_def)

lemma mget_shape: "shape r w a \<Longrightarrow> i < r \<Longrightarrow> j < w \<Longrightarrow> mget w a i j = Some (ent w a i j)"
  using idx_less[of i r j w] by (auto simp: mget_def in_array_iff shape_def ent_def)

lemma mput_shape:
  assumes "shape r w a" "i < r" "j < w"
  shows "\<exists>a'. mput w a i j x = Some a' \<and> shape r w a' \<and>
           (\<forall>i' < r. \<forall>j' < w. ent w a' i' j' = (if i' = i \<and> j' = j then x else ent w a i' j'))"
  using assms idx_less[of i r j w]
  by (auto simp: mput_def in_array_iff shape_def ent_def nth_list_update idx_eq dest: idx_less[of _ r _ w])


section \<open>The loops of the elimination\<close>

lemma find_pivot_ok:
  assumes "shape n n a" "k < n"
  shows "\<exists>m. find_pivot ops n a k = Some m \<and> k \<le> m \<and> m < n"
proof -
  have "\<exists>t. foldO (pivot_step ops n a k) [Suc k..<n] (k, fabs ops (ent n a k k)) = Some t \<and>
            (k \<le> fst t \<and> fst t < n)"
    by (rule foldO_upt[where P = "\<lambda>i t. k \<le> fst t \<and> fst t < n"])
      (use assms in \<open>auto simp: pivot_step_def mget_shape[of n n] split: prod.splits\<close>)
  with assms show ?thesis by (auto simp: find_pivot_def mget_shape[of n n])
qed

lemma swap_rows_ok:
  assumes "shape r w a" "k < r" "m < r" "k \<noteq> m"
  shows "\<exists>a'. swap_rows w k m a = Some a' \<and> shape r w a' \<and>
           (\<forall>i < r. \<forall>j < w. ent w a' i j = ent w a (if i = k then m else if i = m then k else i) j)"
proof -
  let ?P = "\<lambda>c t. shape r w t \<and> (\<forall>i < r. \<forall>j < w.
     ent w t i j = ent w a (if j < c then if i = k then m else if i = m then k else i else i) j)"
  have "\<exists>t. foldO (swap_entry w k m) [0..<w] a = Some t \<and> ?P w t"
  proof (rule foldO_upt[where P = ?P])
    fix c t assume c: "c < w" and P: "?P c t"
    let ?x = "ent w t m c" and ?y = "ent w t k c"
    obtain t1 where t1: "mput w t k c ?x = Some t1" "shape r w t1"
      "\<forall>i' < r. \<forall>j' < w. ent w t1 i' j' = (if i' = k \<and> j' = c then ?x else ent w t i' j')"
      using mput_shape[of r w t k c ?x] P c assms by auto
    obtain t2 where t2: "mput w t1 m c ?y = Some t2" "shape r w t2"
      "\<forall>i' < r. \<forall>j' < w. ent w t2 i' j' = (if i' = m \<and> j' = c then ?y else ent w t1 i' j')"
      using mput_shape[of r w t1 m c ?y] t1(2) c assms by auto
    have "swap_entry w k m c t = Some t2"
      using P c assms t1(1) t2(1) by (simp add: swap_entry_def mget_shape[of r w t])
    moreover have "?P (Suc c) t2"
      using P t1(3) t2(2,3) assms c by (auto simp: less_Suc_eq)
    ultimately show "\<exists>u. swap_entry w k m c t = Some u \<and> ?P (Suc c) u" by blast
  qed (use assms in auto)
  then show ?thesis by (auto simp: swap_rows_def)
qed

lemma add_row_ok:
  assumes "shape r w a" "k < r" "i < r" "k \<noteq> i" "lo \<le> w"
  shows "\<exists>a'. add_row ops w lo t k i a = Some a' \<and> shape r w a' \<and>
           (\<forall>i' < r. \<forall>j < w. ent w a' i' j =
              (if i' = i \<and> lo \<le> j then fp_add ops (ent w a i j) (fp_mul ops t (ent w a k j))
               else ent w a i' j))"
proof -
  let ?P = "\<lambda>c s. shape r w s \<and> (\<forall>i' < r. \<forall>j < w. ent w s i' j =
     (if i' = i \<and> lo \<le> j \<and> j < c then fp_add ops (ent w a i j) (fp_mul ops t (ent w a k j))
      else ent w a i' j))"
  have "\<exists>s. foldO (add_entry ops w t k i) [lo..<w] a = Some s \<and> ?P w s"
  proof (rule foldO_upt[where P = ?P])
    fix c s assume c: "lo \<le> c" "c < w" and P: "?P c s"
    let ?x = "fp_add ops (ent w s i c) (fp_mul ops t (ent w s k c))"
    obtain s1 where s1: "mput w s i c ?x = Some s1" "shape r w s1"
      "\<forall>i' < r. \<forall>j' < w. ent w s1 i' j' = (if i' = i \<and> j' = c then ?x else ent w s i' j')"
      using mput_shape[of r w s i c ?x] P c assms by auto
    have "add_entry ops w t k i c s = Some s1"
      using P c assms s1(1) by (simp add: add_entry_def mget_shape[of r w s])
    moreover have "?P (Suc c) s1"
      using P s1(2,3) assms c by (auto simp: less_Suc_eq)
    ultimately show "\<exists>u. add_entry ops w t k i c s = Some u \<and> ?P (Suc c) u" by blast
  qed (use assms in auto)
  then show ?thesis by (auto simp: add_row_def)
qed

text \<open>\<open>mult ops n a k i\<close> is the factor \<^verbatim>\<open>t\<close> of row \<open>i\<close> in step \<open>k\<close>.\<close>

definition mult :: "'d fp_ops \<Rightarrow> nat \<Rightarrow> 'd list \<Rightarrow> nat \<Rightarrow> nat \<Rightarrow> 'd" where
  "mult ops n a k i = fp_div ops (fp_neg ops (ent n a i k)) (ent n a k k)"

definition elim_ent :: "'d fp_ops \<Rightarrow> nat \<Rightarrow> 'd list \<Rightarrow> nat \<Rightarrow> nat \<Rightarrow> 'd list \<Rightarrow> nat \<Rightarrow> nat \<Rightarrow> 'd" where
  "elim_ent ops n a k w c i j = fp_add ops (ent w c i j) (fp_mul ops (mult ops n a k i) (ent w c k j))"

lemma elim_row_ok:
  assumes "shape n n a" "shape n nrhs b" "k < n" "i < n" "k \<noteq> i"
  shows "\<exists>a' b'. elim_row ops n nrhs k i (a, b) = Some (a', b') \<and> shape n n a' \<and> shape n nrhs b' \<and>
     (\<forall>i' < n. \<forall>j < n. ent n a' i' j =
        (if i' = i \<and> k \<le> j then elim_ent ops n a k n a i j else ent n a i' j)) \<and>
     (\<forall>i' < n. \<forall>j < nrhs. ent nrhs b' i' j =
        (if i' = i then elim_ent ops n a k nrhs b i j else ent nrhs b i' j))"
proof -
  let ?t = "mult ops n a k i"
  obtain a' where "add_row ops n k ?t k i a = Some a'" "shape n n a'"
    "\<forall>i' < n. \<forall>j < n. ent n a' i' j =
      (if i' = i \<and> k \<le> j then fp_add ops (ent n a i j) (fp_mul ops ?t (ent n a k j)) else ent n a i' j)"
    using add_row_ok[of n n a k i k ops ?t] assms by auto
  moreover obtain b' where "add_row ops nrhs 0 ?t k i b = Some b'" "shape n nrhs b'"
    "\<forall>i' < n. \<forall>j < nrhs. ent nrhs b' i' j =
      (if i' = i then fp_add ops (ent nrhs b i j) (fp_mul ops ?t (ent nrhs b k j)) else ent nrhs b i' j)"
    using add_row_ok[of n nrhs b k i 0 ops ?t] assms by auto
  ultimately show ?thesis
    using assms by (simp add: elim_row_def elim_ent_def mult_def mget_shape[of n n])
qed

lemma elim_rows_ok:
  assumes "shape n n a" "shape n nrhs b" "k < n"
  shows "\<exists>a' b'. foldO (elim_row ops n nrhs k) [Suc k..<n] (a, b) = Some (a', b') \<and>
     shape n n a' \<and> shape n nrhs b' \<and>
     (\<forall>i < n. \<forall>j < n. ent n a' i j =
        (if k < i \<and> k \<le> j then elim_ent ops n a k n a i j else ent n a i j)) \<and>
     (\<forall>i < n. \<forall>j < nrhs. ent nrhs b' i j =
        (if k < i then elim_ent ops n a k nrhs b i j else ent nrhs b i j))"
proof -
  let ?P = "\<lambda>c t. shape n n (fst t) \<and> shape n nrhs (snd t) \<and>
     (\<forall>i < n. \<forall>j < n. ent n (fst t) i j =
        (if k < i \<and> i < c \<and> k \<le> j then elim_ent ops n a k n a i j else ent n a i j)) \<and>
     (\<forall>i < n. \<forall>j < nrhs. ent nrhs (snd t) i j =
        (if k < i \<and> i < c then elim_ent ops n a k nrhs b i j else ent nrhs b i j))"
  have "\<exists>t. foldO (elim_row ops n nrhs k) [Suc k..<n] (a, b) = Some t \<and> ?P n t"
  proof (rule foldO_upt[where P = ?P])
    fix c t assume c: "Suc k \<le> c" "c < n" and P: "?P c t"
    obtain a1 b1 where t: "t = (a1, b1)" by fastforce
    obtain a2 b2 where e: "elim_row ops n nrhs k c (a1, b1) = Some (a2, b2)" "shape n n a2" "shape n nrhs b2"
      "\<forall>i' < n. \<forall>j < n. ent n a2 i' j = (if i' = c \<and> k \<le> j then elim_ent ops n a1 k n a1 c j else ent n a1 i' j)"
      "\<forall>i' < n. \<forall>j < nrhs. ent nrhs b2 i' j = (if i' = c then elim_ent ops n a1 k nrhs b1 c j else ent nrhs b1 i' j)"
      using elim_row_ok[of n a1 nrhs b1 k c ops] P c assms t by auto
    have same: "elim_ent ops n a1 k n a1 c j = elim_ent ops n a k n a c j" if "j < n" for j
      using P c assms t that by (simp add: elim_ent_def mult_def)
    have same': "elim_ent ops n a1 k nrhs b1 c j = elim_ent ops n a k nrhs b c j" if "j < nrhs" for j
      using P c assms t that by (simp add: elim_ent_def mult_def)
    have "?P (Suc c) (a2, b2)"
      using P e(2-5) c t by (auto simp: less_Suc_eq same same')
    then show "\<exists>u. elim_row ops n nrhs k c t = Some u \<and> ?P (Suc c) u"
      using e(1) t by blast
  qed (use assms in auto)
  then show ?thesis by auto
qed


text \<open>
  One iteration of the elimination: either it stops at a small pivot, or it leaves arrays whose
  entries are those of the arrays with the pivot row in place, combined below row \<open>k\<close>.
\<close>

definition swapped :: "nat \<Rightarrow> nat \<Rightarrow> nat \<Rightarrow> nat" where
  "swapped k m i = (if i = k then m else if i = m then k else i)"

lemma elim_step_ok:
  assumes "shape n n a" "shape n nrhs b" "k < n"
  shows "\<exists>m a1 b1. find_pivot ops n a k = Some m \<and> k \<le> m \<and> m < n \<and>
     shape n n a1 \<and> shape n nrhs b1 \<and>
     (\<forall>i < n. \<forall>j < n. ent n a1 i j = ent n a (swapped k m i) j) \<and>
     (\<forall>i < n. \<forall>j < nrhs. ent nrhs b1 i j = ent nrhs b (swapped k m i) j) \<and>
     elim_step ops n nrhs k (a, b) =
       (if tiny ops (ent n a1 k k) then Some (Inl (-1, a1, b1))
        else map_option Inr (foldO (elim_row ops n nrhs k) [Suc k..<n] (a1, b1)))"
proof -
  obtain m where m: "find_pivot ops n a k = Some m" "k \<le> m" "m < n"
    using find_pivot_ok[of n a k ops] assms by blast
  show ?thesis
  proof (cases "m = k")
    case True
    then show ?thesis using m assms
      by (intro exI[of _ m] exI[of _ a] exI[of _ b])
        (auto simp: elim_step_def swapped_def mget_shape[of n n a])
  next
    case False
    obtain a1 where a1: "swap_rows n k m a = Some a1" "shape n n a1"
      "\<forall>i < n. \<forall>j < n. ent n a1 i j = ent n a (swapped k m i) j"
      using swap_rows_ok[of n n a k m] assms m False by (auto simp: swapped_def)
    obtain b1 where b1: "swap_rows nrhs k m b = Some b1" "shape n nrhs b1"
      "\<forall>i < n. \<forall>j < nrhs. ent nrhs b1 i j = ent nrhs b (swapped k m i) j"
      using swap_rows_ok[of n nrhs b k m] assms m False by (auto simp: swapped_def)
    show ?thesis using m a1 b1 False assms
      by (intro exI[of _ m] exI[of _ a1] exI[of _ b1])
        (auto simp: elim_step_def mget_shape[of n n a1])
  qed
qed

text \<open>The shapes survive the whole elimination.\<close>

lemma elim_step_shape:
  assumes "shape n n a" "shape n nrhs b" "k < n"
  shows "(\<exists>a' b'. elim_step ops n nrhs k (a, b) = Some (Inl (-1, a', b')) \<and> shape n n a' \<and> shape n nrhs b') \<or>
         (\<exists>a' b'. elim_step ops n nrhs k (a, b) = Some (Inr (a', b')) \<and> shape n n a' \<and> shape n nrhs b')"
proof -
  obtain m a1 b1 where s: "shape n n a1" "shape n nrhs b1"
    "elim_step ops n nrhs k (a, b) =
       (if tiny ops (ent n a1 k k) then Some (Inl (-1, a1, b1))
        else map_option Inr (foldO (elim_row ops n nrhs k) [Suc k..<n] (a1, b1)))"
    using elim_step_ok[OF assms, of ops] by blast
  with elim_rows_ok[OF s(1,2) assms(3), of ops] show ?thesis
    by (auto simp: s)
qed

lemma forward_elim_shape:
  fixes ops :: "'d fp_ops"
  assumes "shape (nat n) (nat n) a" "shape (nat n) (nat nrhs) b"
  shows "(\<exists>a' b'. forward_elim ops n nrhs a b = Some (Inl (-1, a', b')) \<and>
            shape (nat n) (nat n) a' \<and> shape (nat n) (nat nrhs) b') \<or>
         (\<exists>a' b'. forward_elim ops n nrhs a b = Some (Inr (a', b')) \<and>
            shape (nat n) (nat n) a' \<and> shape (nat n) (nat nrhs) b')"
proof -
  let ?S = "\<lambda>(a::'d list) (b::'d list). shape (nat n) (nat n) a \<and> shape (nat n) (nat nrhs) b"
  have "(\<exists>r. foldR (elim_step ops (nat n) (nat nrhs)) [0..<nat (n - 1)] (a, b) = Some (Inl r) \<and>
            (case r of (e, a', b') \<Rightarrow> e = -1 \<and> ?S a' b')) \<or>
        (\<exists>t. foldR (elim_step ops (nat n) (nat nrhs)) [0..<nat (n - 1)] (a, b) = Some (Inr t) \<and>
            (case t of (a', b') \<Rightarrow> ?S a' b'))"
  proof (rule foldR_upt)
    fix i t assume "i < nat (n - 1)" "case t of (a', b') \<Rightarrow> ?S a' b'"
    then show "(\<exists>r. elim_step ops (nat n) (nat nrhs) i t = Some (Inl r) \<and>
                 (case r of (e, a', b') \<Rightarrow> e = -1 \<and> ?S a' b')) \<or>
               (\<exists>u. elim_step ops (nat n) (nat nrhs) i t = Some (Inr u) \<and> (case u of (a', b') \<Rightarrow> ?S a' b'))"
      using elim_step_shape[of "nat n" "fst t" "nat nrhs" "snd t" i ops] by (auto simp: case_prod_beta)
  qed (use assms in auto)
  then show ?thesis by (auto simp: forward_elim_def)
qed


section \<open>The back substitution, column by column\<close>

definition back_val :: "'d fp_ops \<Rightarrow> nat \<Rightarrow> 'd list \<Rightarrow> (nat \<Rightarrow> 'd) \<Rightarrow> nat \<Rightarrow> 'd" where
  "back_val ops n a c i =
     fp_div ops (fold (\<lambda>k t. fp_sub ops t (fp_mul ops (ent n a i k) (c k))) [Suc i..<n] (c i)) (ent n a i i)"

definition col_step :: "'d fp_ops \<Rightarrow> nat \<Rightarrow> 'd list \<Rightarrow> nat \<Rightarrow> (nat \<Rightarrow> 'd) \<Rightarrow> nat \<Rightarrow> 'd" where
  "col_step ops n a i c = c(i := back_val ops n a c i)"

abbreviation col :: "nat \<Rightarrow> 'd list \<Rightarrow> nat \<Rightarrow> nat \<Rightarrow> 'd" where
  "col nrhs b j \<equiv> (\<lambda>l. ent nrhs b l j)"

lemma back_sum_ok:
  assumes "shape n n a" "shape n nrhs b" "j < nrhs" "i < n"
  shows "foldO (back_term ops n nrhs a b j i) [Suc i..<n] t =
     Some (fold (\<lambda>k t. fp_sub ops t (fp_mul ops (ent n a i k) (ent nrhs b k j))) [Suc i..<n] t)"
  by (rule foldO_fold) (use assms in \<open>auto simp: back_term_def mget_shape[of n n a] mget_shape[of n nrhs b]\<close>)

lemma back_row_ok:
  assumes "shape n n a" "shape n nrhs b" "j < nrhs" "i < n"
  shows "\<exists>b'. back_row ops n nrhs a j i (b, f) = Some (b', if tiny ops (ent n a i i) then 1 else f) \<and>
     shape n nrhs b' \<and>
     (\<forall>i' < n. \<forall>j' < nrhs. ent nrhs b' i' j' =
        (if j' = j then col_step ops n a i (col nrhs b j) i' else ent nrhs b i' j'))"
proof -
  obtain b' where "mput nrhs b i j (back_val ops n a (col nrhs b j) i) = Some b'" "shape n nrhs b'"
    "\<forall>i' < n. \<forall>j' < nrhs. ent nrhs b' i' j' =
       (if i' = i \<and> j' = j then back_val ops n a (col nrhs b j) i else ent nrhs b i' j')"
    using mput_shape[of n nrhs b i j] assms by blast
  then show ?thesis
    using assms back_sum_ok[OF assms]
    by (auto simp: back_row_def mget_shape[of n n a] mget_shape[of n nrhs b] back_val_def col_step_def)
qed

lemma col_step_cong:
  assumes "\<And>l. l < n \<Longrightarrow> c l = c' l" "i < n" "l < n"
  shows "col_step ops n a i c l = col_step ops n a i c' l"
proof -
  have "fold (\<lambda>k t. fp_sub ops t (fp_mul ops (ent n a i k) (c k))) [Suc i..<n] (c i) =
        fold (\<lambda>k t. fp_sub ops t (fp_mul ops (ent n a i k) (c' k))) [Suc i..<n] (c' i)"
    using assms by (intro fold_cong) auto
  with assms show ?thesis by (simp add: col_step_def back_val_def)
qed

lemma col_run_cong:
  assumes "\<And>l. l < n \<Longrightarrow> c l = c' l" "set is \<subseteq> {..<n}" "l < n"
  shows "fold (col_step ops n a) is c l = fold (col_step ops n a) is c' l"
  using assms
proof (induction "is" arbitrary: c c')
  case (Cons i "is")
  show ?case
    using Cons.prems by (simp, intro Cons.IH) (auto intro: col_step_cong)
qed simp

definition rows_of :: "nat \<Rightarrow> schedule \<Rightarrow> nat list" where
  "rows_of j sch = map snd (filter (\<lambda>(j', i). j' = j) sch)"

lemma run_schedule_ok:
  assumes "shape n n a" "shape n nrhs b" "set sch \<subseteq> {..<nrhs} \<times> {..<n}"
  shows "\<exists>b'. run_schedule ops n nrhs a sch (b, f) =
       Some (b', if \<exists>(j, i) \<in> set sch. tiny ops (ent n a i i) then 1 else f) \<and>
     shape n nrhs b' \<and>
     (\<forall>i < n. \<forall>j < nrhs. ent nrhs b' i j = fold (col_step ops n a) (rows_of j sch) (col nrhs b j) i)"
  using assms(2,3)
proof (induction sch arbitrary: b f)
  case Nil
  then show ?case by (simp add: run_schedule_def rows_of_def)
next
  case (Cons p sch)
  obtain j0 i0 where p: "p = (j0, i0)" by fastforce
  with Cons.prems have ji: "j0 < nrhs" "i0 < n" by auto
  have subs: "set sch \<subseteq> {..<nrhs} \<times> {..<n}" using Cons.prems(2) by simp
  let ?f = "if tiny ops (ent n a i0 i0) then 1 else f"
  obtain b1 where b1: "back_row ops n nrhs a j0 i0 (b, f) = Some (b1, ?f)" "shape n nrhs b1"
    "\<forall>i' < n. \<forall>j' < nrhs. ent nrhs b1 i' j' =
       (if j' = j0 then col_step ops n a i0 (col nrhs b j0) i' else ent nrhs b i' j')"
    using back_row_ok[OF assms(1) Cons.prems(1) ji] by blast
  obtain b' where b': "run_schedule ops n nrhs a sch (b1, ?f) =
       Some (b', if \<exists>(j, i) \<in> set sch. tiny ops (ent n a i i) then 1 else ?f)" "shape n nrhs b'"
     "\<forall>i < n. \<forall>j < nrhs. ent nrhs b' i j = fold (col_step ops n a) (rows_of j sch) (col nrhs b1 j) i"
    using Cons.IH[OF b1(2) subs, of ?f] by blast
  have sub: "set (rows_of j sch) \<subseteq> {..<n}" for j
    using Cons.prems(2) by (auto simp: rows_of_def)
  have ent': "ent nrhs b' i j = fold (col_step ops n a) (rows_of j (p # sch)) (col nrhs b j) i"
    if "i < n" "j < nrhs" for i j
  proof -
    have "ent nrhs b' i j = fold (col_step ops n a) (rows_of j sch) (col nrhs b1 j) i"
      using b'(3) that by blast
    also have "\<dots> = fold (col_step ops n a) (rows_of j sch)
        (if j = j0 then col_step ops n a i0 (col nrhs b j) else col nrhs b j) i"
      using b1(3) that sub[of j] by (intro col_run_cong) auto
    finally show ?thesis by (simp add: rows_of_def p)
  qed
  have "run_schedule ops n nrhs a (p # sch) (b, f) =
      Some (b', if \<exists>(j, i) \<in> set (p # sch). tiny ops (ent n a i i) then 1 else f)"
    using b1(1) b'(1) by (auto simp: run_schedule_def p)
  with b'(2) ent' show ?case by blast
qed

text \<open>The order of one thread is a legal schedule, and legal schedules agree on every column.\<close>

definition seq_schedule :: "nat \<Rightarrow> nat \<Rightarrow> schedule" where
  "seq_schedule n nrhs = concat (map (\<lambda>j. map (Pair j) (rev [0..<n])) [0..<nrhs])"

lemma rows_of_seq: "rows_of j (seq_schedule n nrhs) = (if j < nrhs then rev [0..<n] else [])"
proof -
  have same: "filter (\<lambda>(j', i). j' = j) (map (Pair j') ys) = (if j' = j then map (Pair j) ys else [])"
    for j' and ys :: "nat list"
    by (induction ys) auto
  have "filter (\<lambda>(j', i). j' = j) (seq_schedule n nrhs) = (if j < nrhs then map (Pair j) (rev [0..<n]) else [])"
    unfolding seq_schedule_def by (induction nrhs) (auto simp: same less_Suc_eq)
  then show ?thesis by (simp add: rows_of_def comp_def)
qed

lemma legal_schedule_iff:
  "legal_schedule n nrhs sch \<longleftrightarrow>
     (\<forall>(j, i) \<in> set sch. j < nrhs) \<and> (\<forall>j < nrhs. rows_of j sch = rev [0..<n])"
  by (simp add: legal_schedule_def rows_of_def)

lemma legal_seq: "legal_schedule n nrhs (seq_schedule n nrhs)"
  by (auto simp: legal_schedule_iff rows_of_seq) (auto simp: seq_schedule_def)

lemma legal_set: "legal_schedule n nrhs sch \<Longrightarrow> set sch = {..<nrhs} \<times> {..<n}"
proof -
  assume l: "legal_schedule n nrhs sch"
  have mem: "(j, i) \<in> set sch \<longleftrightarrow> i \<in> set (rows_of j sch)" for j i
    by (force simp: rows_of_def)
  show ?thesis
    using l by (auto simp: legal_schedule_iff mem)
qed

lemma seq_is_schedule:
  "foldO (back_col ops n nrhs a) [0..<nrhs] s = run_schedule ops n nrhs a (seq_schedule n nrhs) s"
  unfolding back_col_def run_schedule_def seq_schedule_def by (rule foldO_nested)

lemma legal_schedules_agree:
  assumes "shape n n a" "shape n nrhs b" "legal_schedule n nrhs s1" "legal_schedule n nrhs s2"
  shows "run_schedule ops n nrhs a s1 (b, f) = run_schedule ops n nrhs a s2 (b, f)"
proof -
  obtain b1 where b1: "run_schedule ops n nrhs a s1 (b, f) =
      Some (b1, if \<exists>(j, i) \<in> set s1. tiny ops (ent n a i i) then 1 else f)" "shape n nrhs b1"
    "\<forall>i < n. \<forall>j < nrhs. ent nrhs b1 i j = fold (col_step ops n a) (rows_of j s1) (col nrhs b j) i"
    using run_schedule_ok[OF assms(1,2)] legal_set[OF assms(3)] by blast
  obtain b2 where b2: "run_schedule ops n nrhs a s2 (b, f) =
      Some (b2, if \<exists>(j, i) \<in> set s2. tiny ops (ent n a i i) then 1 else f)" "shape n nrhs b2"
    "\<forall>i < n. \<forall>j < nrhs. ent nrhs b2 i j = fold (col_step ops n a) (rows_of j s2) (col nrhs b j) i"
    using run_schedule_ok[OF assms(1,2)] legal_set[OF assms(4)] by blast
  have "b1 = b2"
    using assms(3,4) b1(3) b2(3) by (intro shape_ext[OF b1(2) b2(2)]) (simp add: legal_schedule_iff)
  with b1(1) b2(1) legal_set[OF assms(3)] legal_set[OF assms(4)] show ?thesis by simp
qed

end
