(* ===== verification/Dgesv_Exact.thy ===== *)
theory Dgesv_Exact
  imports Dgesv_Loops
begin

text \<open>
  The solvers under exact arithmetic. The elimination keeps the set of solutions of the system and
  clears the columns below the diagonal, one per iteration; the back substitution solves the
  triangular system that is left. The lemmas are proved once from the contract of
  \<open>exact_arith\<close>, inside the locale.
\<close>

section \<open>Linear systems\<close>

definition solves :: "nat \<Rightarrow> nat \<Rightarrow> 'd::linordered_field list \<Rightarrow> 'd list \<Rightarrow> (nat \<Rightarrow> nat \<Rightarrow> 'd) \<Rightarrow> bool" where
  "solves n nrhs a b X \<longleftrightarrow> (\<forall>i < n. \<forall>j < nrhs. (\<Sum>l < n. ent n a i l * X l j) = ent nrhs b i j)"

definition zero_below :: "nat \<Rightarrow> nat \<Rightarrow> 'd::linordered_field list \<Rightarrow> bool" where
  "zero_below n k a \<longleftrightarrow> (\<forall>i < n. \<forall>l < k. l < i \<longrightarrow> ent n a i l = 0)"

lemma swapped_bij: "k < n \<Longrightarrow> m < n \<Longrightarrow> i < n \<Longrightarrow> swapped k m i < n \<and> swapped k m (swapped k m i) = i"
  by (auto simp: swapped_def)

lemma solves_swap:
  assumes "k < n" "m < n"
    and a: "\<forall>i < n. \<forall>j < n. ent n a1 i j = ent n a (swapped k m i) j"
    and b: "\<forall>i < n. \<forall>j < nrhs. ent nrhs b1 i j = ent nrhs b (swapped k m i) j"
  shows "solves n nrhs a1 b1 X \<longleftrightarrow> solves n nrhs a b X"
proof -
  let ?row = "\<lambda>i. \<forall>j < nrhs. (\<Sum>l < n. ent n a i l * X l j) = ent nrhs b i j"
  have "solves n nrhs a1 b1 X \<longleftrightarrow> (\<forall>i < n. ?row (swapped k m i))"
    using a b by (simp add: solves_def)
  also have "\<dots> \<longleftrightarrow> (\<forall>i < n. ?row i)"
  proof
    assume H: "\<forall>i < n. ?row (swapped k m i)"
    have "?row i" if "i < n" for i
      using H[rule_format, of "swapped k m i"] swapped_bij[OF assms(1,2) that] by simp
    then show "\<forall>i < n. ?row i" by blast
  qed (use swapped_bij[OF assms(1,2)] in blast)
  finally show ?thesis by (simp add: solves_def)
qed

lemma solves_add_rows:
  assumes "k < n"
    and a: "\<forall>i < n. \<forall>j < n. ent n a' i j = (if k < i then ent n a i j + t i * ent n a k j else ent n a i j)"
    and b: "\<forall>i < n. \<forall>j < nrhs. ent nrhs b' i j =
              (if k < i then ent nrhs b i j + t i * ent nrhs b k j else ent nrhs b i j)"
  shows "solves n nrhs a' b' X \<longleftrightarrow> solves n nrhs a b X"
proof -
  let ?L = "\<lambda>i j. \<Sum>l < n. ent n a i l * X l j"
  have L: "(\<Sum>l < n. ent n a' i l * X l j) = (if k < i then ?L i j + t i * ?L k j else ?L i j)"
    if "i < n" for i j
    using a that by (auto simp: sum.distrib sum_distrib_left algebra_simps)
  have "solves n nrhs a' b' X \<longleftrightarrow>
      (\<forall>i < n. \<forall>j < nrhs. (if k < i then ?L i j + t i * ?L k j else ?L i j) =
         (if k < i then ent nrhs b i j + t i * ent nrhs b k j else ent nrhs b i j))"
    using b by (simp add: solves_def L)
  also have "\<dots> \<longleftrightarrow> (\<forall>i < n. \<forall>j < nrhs. ?L i j = ent nrhs b i j)"
  proof (intro iffI allI impI)
    fix i j assume H: "\<forall>i < n. \<forall>j < nrhs. (if k < i then ?L i j + t i * ?L k j else ?L i j) =
         (if k < i then ent nrhs b i j + t i * ent nrhs b k j else ent nrhs b i j)" and ij: "i < n" "j < nrhs"
    from H assms(1) ij(2) have "?L k j = ent nrhs b k j" by force
    with H[rule_format, OF ij] show "?L i j = ent nrhs b i j" by (auto split: if_splits)
  qed (use assms(1) in auto)
  finally show ?thesis by (simp add: solves_def)
qed

text \<open>A triangular system with a non-zero diagonal, from the last row upwards.\<close>

definition upper :: "nat \<Rightarrow> 'd::linordered_field list \<Rightarrow> bool" where
  "upper n a \<longleftrightarrow> zero_below n n a \<and> (\<forall>i < n. ent n a i i \<noteq> 0)"

lemma upper_row_sum:
  assumes "zero_below n n a" "i < n"
  shows "(\<Sum>l < n. ent n a i l * x l) = ent n a i i * x i + (\<Sum>l = Suc i..<n. ent n a i l * x l)"
proof -
  have split: "{..<n} = {..<i} \<union> {i..<n}" using assms(2) by auto
  have "(\<Sum>l < n. ent n a i l * x l) = (\<Sum>l < i. ent n a i l * x l) + (\<Sum>l = i..<n. ent n a i l * x l)"
    unfolding split by (rule sum.union_disjoint) auto
  also have "(\<Sum>l < i. ent n a i l * x l) = 0"
    using assms by (intro sum.neutral) (auto simp: zero_below_def)
  finally show ?thesis using assms(2) by (simp add: sum.atLeast_Suc_lessThan)
qed

lemma upper_unique:
  assumes "upper n a" "solves n nrhs a b X" "solves n nrhs a b Y" "i < n" "j < nrhs"
  shows "X i j = Y i j"
  using assms(4)
proof (induction "n - i" arbitrary: i rule: less_induct)
  case less
  have tail: "(\<Sum>l = Suc i..<n. ent n a i l * X l j) = (\<Sum>l = Suc i..<n. ent n a i l * Y l j)"
    using less by (intro sum.cong) auto
  have "(\<Sum>l < n. ent n a i l * X l j) = (\<Sum>l < n. ent n a i l * Y l j)"
    using assms(2,3,5) less.prems by (simp add: solves_def)
  then have "ent n a i i * X i j = ent n a i i * Y i j"
    using assms(1) less.prems tail
      upper_row_sum[of n a i "\<lambda>l. X l j"] upper_row_sum[of n a i "\<lambda>l. Y l j"]
    by (simp add: upper_def)
  then show ?case using assms(1) less.prems by (simp add: upper_def)
qed


section \<open>The invariant of the elimination\<close>

lemma nat_minus_1: "nat (n - 1) = nat n - 1"
  by linarith

context exact_arith
begin

lemma tiny_exact: "tiny ops p \<longleftrightarrow> \<bar>p\<bar> < 1 / 10 ^ 10"
  by (simp add: tiny_def exact_simps)

lemma tiny_zero: "\<not> tiny ops p \<Longrightarrow> p \<noteq> 0"
  by (auto simp: tiny_exact)

lemma elim_ent_exact:
  "elim_ent ops n a k w c i j = ent w c i j + (- ent n a i k / ent n a k k) * ent w c k j"
  by (simp add: elim_ent_def mult_def exact_simps)

text \<open>The pivot is the entry of largest absolute value in its column, on or below the diagonal.\<close>

lemma find_pivot_max:
  assumes "shape n n a" "k < n" "find_pivot ops n a k = Some m" "k \<le> i" "i < n"
  shows "\<bar>ent n a i k\<bar> \<le> \<bar>ent n a m k\<bar>"
proof -
  let ?P = "\<lambda>c t. snd t = \<bar>ent n a (fst t) k\<bar> \<and> (\<forall>i. k \<le> i \<and> i < c \<longrightarrow> \<bar>ent n a i k\<bar> \<le> snd t)"
  have "\<exists>t. foldO (pivot_step ops n a k) [Suc k..<n] (k, fabs ops (ent n a k k)) = Some t \<and> ?P n t"
  proof (rule foldO_upt[where P = ?P])
    fix c t assume c: "Suc k \<le> c" "c < n" and P: "?P c t"
    have "pivot_step ops n a k c t =
        Some (if snd t < \<bar>ent n a c k\<bar> then (c, \<bar>ent n a c k\<bar>) else t)"
      using assms(1,2) c by (simp add: pivot_step_def mget_shape[of n n a] exact_simps split: prod.splits)
    moreover have "?P (Suc c) (if snd t < \<bar>ent n a c k\<bar> then (c, \<bar>ent n a c k\<bar>) else t)"
      using P by (auto simp: less_Suc_eq)
    ultimately show "\<exists>u. pivot_step ops n a k c t = Some u \<and> ?P (Suc c) u" by blast
  qed (use assms in \<open>auto simp: exact_simps less_Suc_eq\<close>)
  with assms show ?thesis by (fastforce simp: find_pivot_def mget_shape[of n n a])
qed

definition elim_inv ::
  "nat \<Rightarrow> nat \<Rightarrow> 'd list \<Rightarrow> 'd list \<Rightarrow> nat \<Rightarrow> 'd list \<times> 'd list \<Rightarrow> bool" where
  "elim_inv n nrhs a0 b0 k = (\<lambda>(a, b).
     shape n n a \<and> shape n nrhs b \<and> zero_below n k a \<and> (\<forall>l < k. ent n a l l \<noteq> 0) \<and>
     (\<forall>X. solves n nrhs a b X \<longleftrightarrow> solves n nrhs a0 b0 X))"

lemma elim_rows_inv:
  assumes inv: "elim_inv n nrhs a0 b0 k (a, b)" and k: "k < n" and p: "ent n a k k \<noteq> 0"
  shows "\<exists>u. foldO (elim_row ops n nrhs k) [Suc k..<n] (a, b) = Some u \<and> elim_inv n nrhs a0 b0 (Suc k) u"
proof -
  have sh: "shape n n a" "shape n nrhs b" and z: "zero_below n k a"
    using inv by (auto simp: elim_inv_def)
  let ?t = "\<lambda>i. - ent n a i k / ent n a k k"
  obtain a' b' where r: "foldO (elim_row ops n nrhs k) [Suc k..<n] (a, b) = Some (a', b')"
    "shape n n a'" "shape n nrhs b'"
    and a': "\<forall>i < n. \<forall>j < n. ent n a' i j =
        (if k < i \<and> k \<le> j then ent n a i j + ?t i * ent n a k j else ent n a i j)"
    and b': "\<forall>i < n. \<forall>j < nrhs. ent nrhs b' i j =
        (if k < i then ent nrhs b i j + ?t i * ent nrhs b k j else ent nrhs b i j)"
    using elim_rows_ok[OF sh k, of ops] by (auto simp: elim_ent_exact)
  have a'': "\<forall>i < n. \<forall>j < n. ent n a' i j =
      (if k < i then ent n a i j + ?t i * ent n a k j else ent n a i j)"
    using a' z k by (auto simp: zero_below_def)
  have "zero_below n (Suc k) a'"
    using a' z p k by (auto simp: zero_below_def less_Suc_eq)
  moreover have "\<forall>l < Suc k. ent n a' l l \<noteq> 0"
    using a' inv p k by (auto simp: elim_inv_def less_Suc_eq)
  ultimately have "elim_inv n nrhs a0 b0 (Suc k) (a', b')"
    using r(2,3) inv solves_add_rows[OF k a'' b'] by (simp add: elim_inv_def)
  with r(1) show ?thesis by blast
qed

lemma elim_step_inv:
  assumes inv: "elim_inv n nrhs a0 b0 k (a, b)" and k: "k < n"
  shows "(\<exists>r. elim_step ops n nrhs k (a, b) = Some (Inl r) \<and> fst r = -1) \<or>
         (\<exists>u. elim_step ops n nrhs k (a, b) = Some (Inr u) \<and> elim_inv n nrhs a0 b0 (Suc k) u)"
proof -
  have sh: "shape n n a" "shape n nrhs b" using inv by (auto simp: elim_inv_def)
  obtain m a1 b1 where m: "k \<le> m" "m < n" and s1: "shape n n a1" "shape n nrhs b1"
    and a1: "\<forall>i < n. \<forall>j < n. ent n a1 i j = ent n a (swapped k m i) j"
    and b1: "\<forall>i < n. \<forall>j < nrhs. ent nrhs b1 i j = ent nrhs b (swapped k m i) j"
    and e: "elim_step ops n nrhs k (a, b) =
       (if tiny ops (ent n a1 k k) then Some (Inl (-1, a1, b1))
        else map_option Inr (foldO (elim_row ops n nrhs k) [Suc k..<n] (a1, b1)))"
    using elim_step_ok[OF sh k, of ops] by blast
  have "zero_below n k a1"
    using inv m k a1 by (auto simp: elim_inv_def zero_below_def swapped_def)
  moreover have "\<forall>l < k. ent n a1 l l \<noteq> 0"
    using inv m k a1 by (auto simp: elim_inv_def swapped_def)
  ultimately have "elim_inv n nrhs a0 b0 k (a1, b1)"
    using inv s1 solves_swap[OF k m(2) a1 b1] by (simp add: elim_inv_def)
  then have "\<not> tiny ops (ent n a1 k k) \<Longrightarrow>
      \<exists>u. foldO (elim_row ops n nrhs k) [Suc k..<n] (a1, b1) = Some u \<and> elim_inv n nrhs a0 b0 (Suc k) u"
    using elim_rows_inv k tiny_zero by blast
  with e show ?thesis by (cases "tiny ops (ent n a1 k k)") auto
qed

lemma forward_elim_inv:
  assumes "shape (nat n) (nat n) a" "shape (nat n) (nat nrhs) b"
  shows "(\<exists>r. forward_elim ops n nrhs a b = Some (Inl r) \<and> fst r = -1) \<or>
         (\<exists>u. forward_elim ops n nrhs a b = Some (Inr u) \<and>
            elim_inv (nat n) (nat nrhs) a b (nat (n - 1)) u)"
  unfolding forward_elim_def
proof (rule foldR_upt[where P = "elim_inv (nat n) (nat nrhs) a b"])
  show "elim_inv (nat n) (nat nrhs) a b 0 (a, b)"
    using assms by (simp add: elim_inv_def zero_below_def)
next
  fix k u assume "k < nat (n - 1)" and inv: "elim_inv (nat n) (nat nrhs) a b k u"
  then have "k < nat n" by simp
  with inv show "(\<exists>r. elim_step ops (nat n) (nat nrhs) k u = Some (Inl r) \<and> fst r = -1) \<or>
      (\<exists>v. elim_step ops (nat n) (nat nrhs) k u = Some (Inr v) \<and>
         elim_inv (nat n) (nat nrhs) a b (Suc k) v)"
    using elim_step_inv by (cases u) blast
qed simp


section \<open>The back substitution\<close>

lemma back_val_exact:
  "back_val ops n a c i = (c i - (\<Sum>l = Suc i..<n. ent n a i l * c l)) / ent n a i i"
proof -
  have "fold (\<lambda>k t. fp_sub ops t (fp_mul ops (ent n a i k) (c k))) [Suc i..<m] t =
      t - (\<Sum>l = Suc i..<m. ent n a i l * c l)" for m t
    by (induction m) (auto simp: exact_simps not_less)
  then show ?thesis by (simp add: back_val_def exact_simps)
qed

lemma col_run_exact:
  assumes "\<forall>i < n. ent n a i i \<noteq> 0" "m \<le> n"
  shows "let x = fold (col_step ops n a) (rev [m..<n]) c in
     (\<forall>i < m. x i = c i) \<and>
     (\<forall>i. m \<le> i \<and> i < n \<longrightarrow> ent n a i i * x i + (\<Sum>l = Suc i..<n. ent n a i l * x l) = c i)"
  using assms(2)
proof (induction rule: inc_induct)
  case base
  then show ?case by simp
next
  case (step m)
  define y where "y = fold (col_step ops n a) (rev [Suc m..<n]) c"
  have x: "fold (col_step ops n a) (rev [m..<n]) c = y(m := back_val ops n a y m)"
    using step.hyps by (simp add: upt_conv_Cons y_def col_step_def)
  have y: "\<forall>i < Suc m. y i = c i"
    "\<forall>i. Suc m \<le> i \<and> i < n \<longrightarrow> ent n a i i * y i + (\<Sum>l = Suc i..<n. ent n a i l * y l) = c i"
    using step.IH unfolding y_def by (auto simp: Let_def)
  have keep: "(\<Sum>l = Suc i..<n. ent n a i l * (y(m := v)) l) = (\<Sum>l = Suc i..<n. ent n a i l * y l)"
    if "m \<le> i" for i v
    using that by (intro sum.cong) auto
  have diag: "ent n a m m * back_val ops n a y m + (\<Sum>l = Suc m..<n. ent n a m l * y l) = c m"
    using assms(1) step.hyps y(1) by (simp add: back_val_exact)
  show ?case
    unfolding x Let_def using y diag by (auto simp: keep le_Suc_eq not_less_eq_eq)
qed

lemma back_solves:
  assumes "upper n a"
    and "\<forall>i < n. \<forall>j < nrhs. ent nrhs b' i j = fold (col_step ops n a) (rev [0..<n]) (col nrhs b j) i"
  shows "solves n nrhs a b (ent nrhs b')"
  unfolding solves_def
proof (intro allI impI)
  fix i j assume ij: "i < n" "j < nrhs"
  let ?x = "fold (col_step ops n a) (rev [0..<n]) (col nrhs b j)"
  have "(\<Sum>l < n. ent n a i l * ent nrhs b' l j) = (\<Sum>l < n. ent n a i l * ?x l)"
    using assms(2) ij by (intro sum.cong) auto
  also have "\<dots> = ent nrhs b i j"
    using upper_row_sum[of n a i ?x] col_run_exact[of n a 0 "col nrhs b j"] assms(1) ij
    by (simp add: upper_def Let_def)
  finally show "(\<Sum>l < n. ent n a i l * ent nrhs b' l j) = ent nrhs b i j" .
qed

section \<open>The serial solver\<close>

lemma serial_forward_inv:
  assumes "shape (nat n) (nat n) a" "shape (nat n) (nat nrhs) b"
  shows "(\<exists>r. foldR (serial_elim_step ops (nat n) (nat nrhs)) [0..<nat (n - 1)] (a, b) = Some (Inl r) \<and> fst r = -1) \<or>
         (\<exists>u. foldR (serial_elim_step ops (nat n) (nat nrhs)) [0..<nat (n - 1)] (a, b) = Some (Inr u) \<and>
            elim_inv (nat n) (nat nrhs) a b (nat (n - 1)) u)"
proof (rule foldR_upt[where P = "elim_inv (nat n) (nat nrhs) a b"])
  show "elim_inv (nat n) (nat nrhs) a b 0 (a, b)"
    using assms by (simp add: elim_inv_def zero_below_def)
next
  fix k u assume "k < nat (n - 1)" and inv: "elim_inv (nat n) (nat nrhs) a b k u"
  then have k: "k < nat n" by simp
  obtain a1 b1 where u: "u = (a1, b1)" by fastforce
  with inv have "shape (nat n) (nat n) a1" by (simp add: elim_inv_def)
  then have e: "serial_elim_step ops (nat n) (nat nrhs) k u =
      (if tiny ops (ent (nat n) a1 k k) then Some (Inl (-1, a1, b1))
       else map_option Inr (foldO (elim_row ops (nat n) (nat nrhs) k) [Suc k..<nat n] (a1, b1)))"
    using k by (simp add: serial_elim_step_def u mget_shape[of "nat n" "nat n"])
  show "(\<exists>r. serial_elim_step ops (nat n) (nat nrhs) k u = Some (Inl r) \<and> fst r = -1) \<or>
      (\<exists>v. serial_elim_step ops (nat n) (nat nrhs) k u = Some (Inr v) \<and>
         elim_inv (nat n) (nat nrhs) a b (Suc k) v)"
    using e elim_rows_inv[OF inv[unfolded u] k] tiny_zero
    by (cases "tiny ops (ent (nat n) a1 k k)") auto
qed simp

lemma serial_back_row_Inr:
  "serial_back_row ops n nrhs a j i b = Some (Inr b') \<Longrightarrow> back_row ops n nrhs a j i (b, 0) = Some (b', 0)"
  by (auto simp: serial_back_row_def back_row_def bind_eq_Some_conv split: if_splits)

lemma serial_back_Inr:
  assumes "foldR (serial_back_col ops n nrhs a) [0..<nrhs] b = Some (Inr b')"
  shows "run_schedule ops n nrhs a (seq_schedule n nrhs) (b, 0) = Some (b', 0)"
  unfolding seq_is_schedule [symmetric]
proof (rule foldR_foldO[where h = "\<lambda>b. (b, 0)", OF _ assms])
  fix j b u assume "serial_back_col ops n nrhs a j b = Some (Inr u)"
  then show "back_col ops n nrhs a j (b, 0) = Some (u, 0)"
    unfolding back_col_def serial_back_col_def
    by (rule foldR_foldO[where h = "\<lambda>b. (b, 0)", rotated]) (rule serial_back_row_Inr)
qed

text \<open>A back substitution that leaves the flag at 0 solves the eliminated system.\<close>

lemma back_phase_success:
  assumes inv: "elim_inv n r a b (n - 1) (a1, b1)"
    and run: "run_schedule ops n r a1 (seq_schedule n r) (b1, 0) = Some (b2, 0)"
  shows "solves n r a b X \<longleftrightarrow> (\<forall>i < n. \<forall>j < r. X i j = ent r b2 i j)"
proof -
  have s1: "shape n n a1" "shape n r b1" and z: "zero_below n n a1"
    and eq: "\<And>X. solves n r a1 b1 X \<longleftrightarrow> solves n r a b X"
    using inv by (auto simp: elim_inv_def zero_below_def)
  let ?sch = "seq_schedule n r"
  have set: "set ?sch = {..<r} \<times> {..<n}" by (rule legal_set[OF legal_seq])
  have b2: "\<not> (\<exists>(j, i) \<in> set ?sch. tiny ops (ent n a1 i i))"
    "\<forall>i < n. \<forall>j < r. ent r b2 i j = fold (col_step ops n a1) (rows_of j ?sch) (col r b1 j) i"
    using run_schedule_ok[OF s1, of ?sch ops 0] set run by (auto split: if_splits)
  show ?thesis
  proof (cases "r = 0")
    case False
    then have "upper n a1"
      using b2(1) set z by (force simp: upper_def dest: tiny_zero)
    moreover from this have sol: "solves n r a1 b1 (ent r b2)"
      using b2(2) by (intro back_solves) (auto simp: rows_of_seq)
    ultimately have "solves n r a1 b1 X \<longleftrightarrow> (\<forall>i < n. \<forall>j < r. X i j = ent r b2 i j)"
      using upper_unique[of n a1 r b1 X "ent r b2"] by (auto simp: solves_def)
    with eq show ?thesis by simp
  qed (simp add: solves_def)
qed

lemma serial_success:
  assumes sh: "shape (nat n) (nat n) a" "shape (nat n) (nat nrhs) b"
    and ok: "serial_dgesv ops n nrhs a b = Some (0, a', b')"
  shows "solves (nat n) (nat nrhs) a b X \<longleftrightarrow>
     (\<forall>i < nat n. \<forall>j < nat nrhs. X i j = ent (nat nrhs) b' i j)"
proof -
  have back_Inl: "foldR (serial_back_col ops (nat n) (nat nrhs) a1) js b1 \<noteq> Some (Inl (0, c, d))"
    for a1 b1 js c d
  proof
    assume "foldR (serial_back_col ops (nat n) (nat nrhs) a1) js b1 = Some (Inl (0, c, d))"
    then have "fst (0 :: int, c, d) = -1"
    proof (rule foldR_Inl[where Q = "\<lambda>r. fst r = -1", rotated])
      fix j s r assume "serial_back_col ops (nat n) (nat nrhs) a1 j s = Some (Inl r)"
      then show "fst r = -1"
        unfolding serial_back_col_def
        by (rule foldR_Inl[where Q = "\<lambda>r. fst r = -1", rotated])
          (auto simp: serial_back_row_def bind_eq_Some_conv split: if_splits)
    qed
    then show False by simp
  qed
  from ok serial_forward_inv[OF sh] obtain a1 b1 where
    inv: "elim_inv (nat n) (nat nrhs) a b (nat (n - 1)) (a1, b1)"
    and bk: "foldR (serial_back_col ops (nat n) (nat nrhs) a1) [0..<nat nrhs] b1 = Some (Inr b')"
    by (auto simp: serial_dgesv_def back_Inl split: option.splits sum.splits)
  show ?thesis
    using back_phase_success[of "nat n" "nat nrhs" a b a1 b1 b' X] inv serial_back_Inr[OF bk]
    by (simp add: nat_minus_1)
qed

lemma pivoted_success:
  assumes sh: "shape (nat n) (nat n) a" "shape (nat n) (nat nrhs) b"
    and ok: "my_dgesv ops n nrhs a b = Some (0, a', b')"
  shows "solves (nat n) (nat nrhs) a b X \<longleftrightarrow>
     (\<forall>i < nat n. \<forall>j < nat nrhs. X i j = ent (nat nrhs) b' i j)"
proof -
  from ok forward_elim_inv[OF sh] obtain a1 b1 where
    inv: "elim_inv (nat n) (nat nrhs) a b (nat (n - 1)) (a1, b1)"
    and bk: "run_schedule ops (nat n) (nat nrhs) a1 (seq_schedule (nat n) (nat nrhs)) (b1, 0) = Some (b', 0)"
    by (auto simp: my_dgesv_def seq_is_schedule bind_eq_Some_conv split: option.splits sum.splits if_splits)
  show ?thesis
    using back_phase_success[of "nat n" "nat nrhs" a b a1 b1 b' X] inv bk
    by (simp add: nat_minus_1)
qed

end


section \<open>Properties\<close>

lemma my_dgesv_safe_aux:
  assumes "length a = nat n * nat n" "length b = nat n * nat nrhs"
    and "nat n * nat n \<le> 2 ^ 31" "nat n * nat nrhs \<le> 2 ^ 31"
  shows "\<exists>r a' b'. my_dgesv ops n nrhs a b = Some (r, a', b') \<and> (r = 0 \<or> r = -1) \<and>
           length a' = length a \<and> length b' = length b"
proof -
  have sh: "shape (nat n) (nat n) a" "shape (nat n) (nat nrhs) b"
    using assms by (simp_all add: shape_def)
  from forward_elim_shape[OF sh, of ops] show ?thesis
  proof (elim disjE exE conjE)
    fix a1 b1 assume "forward_elim ops n nrhs a b = Some (Inl (-1, a1, b1))"
      "shape (nat n) (nat n) a1" "shape (nat n) (nat nrhs) b1"
    then show ?thesis using sh by (simp add: my_dgesv_def shape_def)
  next
    fix a1 b1 assume f: "forward_elim ops n nrhs a b = Some (Inr (a1, b1))"
      "shape (nat n) (nat n) a1" "shape (nat n) (nat nrhs) b1"
    from run_schedule_ok[OF f(2,3), of "seq_schedule (nat n) (nat nrhs)" ops 0] legal_set[OF legal_seq]
    show ?thesis using sh f by (fastforce simp: my_dgesv_def seq_is_schedule shape_def)
  qed
qed

text \<open>
  C2. Memory safety of \<^verbatim>\<open>my_dgesv\<close>, for any double arithmetic: on an \<open>n \<times> n\<close> array and an \<open>n \<times> nrhs\<close>
  array whose sizes an \<^verbatim>\<open>int\<close> can index, every access stays in its array and every index is an
  \<^verbatim>\<open>int\<close>; the function returns 0 or -1 and the arrays keep their lengths.
\<close>

theorem my_dgesv_safe:
  assumes "length a = nat n * nat n" "length b = nat n * nat nrhs"
    and "nat n * nat n \<le> 2 ^ 31" "nat n * nat nrhs \<le> 2 ^ 31"
  shows "\<exists>r a' b'. my_dgesv ops n nrhs a b = Some (r, a', b') \<and> (r = 0 \<or> r = -1) \<and>
           length a' = length a \<and> length b' = length b"
  using my_dgesv_safe_aux[OF assms] .

theorem my_dgesv_safe_witness:
  "\<exists>r a' b'. my_dgesv (field_ops :: rat fp_ops) 2 1 [1, 2, 3, 4] [5, 6] = Some (r, a', b') \<and>
     (r = 0 \<or> r = -1) \<and> length a' = length [1, 2, 3, 4 :: rat] \<and> length b' = length [5, 6 :: rat]"
  using my_dgesv_safe[of "[1, 2, 3, 4 :: rat]" 2 "[5, 6]" 1 field_ops] by simp

text \<open>
  C1. Correctness of \<^verbatim>\<open>my_dgesv\<close> under exact arithmetic: when it returns 0, the array \<^verbatim>\<open>b\<close> holds the
  solution of the system it was called with, and no other matrix solves that system.
\<close>

theorem my_dgesv_solves:
  fixes a :: "'d::linordered_field list"
  assumes "length a = nat n * nat n" "length b = nat n * nat nrhs"
    and "nat n * nat n \<le> 2 ^ 31" "nat n * nat nrhs \<le> 2 ^ 31"
    and "my_dgesv field_ops n nrhs a b = Some (0, a', b')"
  shows "solves (nat n) (nat nrhs) a b X \<longleftrightarrow>
           (\<forall>i < nat n. \<forall>j < nat nrhs. X i j = b' ! (i * nat nrhs + j))"
  using field_arith.pivoted_success[of n a nrhs b a' b' X] assms by (simp add: shape_def ent_def)

theorem my_dgesv_solves_witness:
  "my_dgesv field_ops 2 1 [0, 2, 4, 0 :: rat] [6, 8] = Some (0, [4, 0, 0, 2], [2, 3]) \<and>
   solves 2 1 [0, 2, 4, 0 :: rat] [6, 8] (\<lambda>i j. [2, 3] ! (i * 1 + j))"
proof -
  have run: "my_dgesv field_ops 2 1 [0, 2, 4, 0 :: rat] [6, 8] = Some (0, [4, 0, 0, 2], [2, 3])"
    by code_simp
  show ?thesis
    using my_dgesv_solves[of "[0, 2, 4, 0 :: rat]" 2 "[6, 8]" 1 "[4, 0, 0, 2]" "[2, 3]"
        "\<lambda>i j. [2, 3] ! (i * 1 + j)"] run by simp
qed

text \<open>
  C3. The OpenMP back substitution does not depend on the scheduling: whatever legal interleaving of
  the (column, row) iterations the threads run, the result is that of a single thread, for any double
  arithmetic. The version of \<^verbatim>\<open>dgesv-optimal1.c\<close>, which differs in the schedule only, computes the same.
\<close>

theorem dgesv_schedule_independent:
  assumes "length a = nat n * nat n" "length b = nat n * nat nrhs"
    and "nat n * nat n \<le> 2 ^ 31" "nat n * nat nrhs \<le> 2 ^ 31"
    and "legal_schedule (nat n) (nat nrhs) sch"
  shows "dgesv_schedule ops n nrhs sch a b = my_dgesv ops n nrhs a b \<and>
         optimal1_dgesv ops n nrhs sch a b = my_dgesv ops n nrhs a b"
proof -
  have sh: "shape (nat n) (nat n) a" "shape (nat n) (nat nrhs) b"
    using assms by (simp_all add: shape_def)
  from forward_elim_shape[OF sh, of ops] show ?thesis
    using legal_schedules_agree[OF _ _ assms(5) legal_seq, of _ _ ops 0]
    by (auto simp: my_dgesv_def dgesv_schedule_def seq_is_schedule optimal1_is_schedule)
qed

theorem dgesv_schedule_independent_witness:
  "dgesv_schedule (field_ops :: rat fp_ops) 2 2 [(1, 1), (0, 1), (0, 0), (1, 0)] [1, 2, 3, 4] [5, 6, 7, 8] =
   my_dgesv field_ops 2 2 [1, 2, 3, 4] [5, 6, 7, 8]"
  by (rule dgesv_schedule_independent[THEN conjunct1])
    ((simp; fail) | (simp add: legal_schedule_def upt_rec less_Suc_eq numeral_2_eq_2; fail))+







text \<open>
  The serial solver of \<^verbatim>\<open>task1\<close> gives up on a zero pivot that an exchange of rows would remove:
  on \<open>((0, p), (q, 0))\<close>, which is regular, it returns -1, and the pivoting solver returns the solution.
\<close>

theorem serial_needs_pivoting:
  fixes p q :: "'d::linordered_field"
  assumes "1 / 10 ^ 10 \<le> \<bar>p\<bar>" "1 / 10 ^ 10 \<le> \<bar>q\<bar>"
  shows "serial_dgesv field_ops 2 1 [0, p, q, 0] [x, y] = Some (-1, [0, p, q, 0], [x, y]) \<and>
         my_dgesv field_ops 2 1 [0, p, q, 0] [x, y] = Some (0, [q, 0, 0, p], [y / q, x / p])"
proof -
  have "p \<noteq> 0" "q \<noteq> 0"
    using assms by (auto simp: not_le)
  have up: "[0..<2] = [0, 1 :: nat]" "[Suc 0..<2] = [1]" "[0..<1] = [0 :: nat]" "[2..<2] = ([] :: nat list)"
    by (simp_all add: upt_rec)
  have "serial_dgesv field_ops 2 1 [0, p, q, 0] [x, y] = Some (-1, [0, p, q, 0], [x, y])"
    by (simp add: serial_dgesv_def serial_elim_step_def mget_def in_array_def tiny_def up field_ops_def)
  moreover have "my_dgesv field_ops 2 1 [0, p, q, 0] [x, y] = Some (0, [q, 0, 0, p], [y / q, x / p])"
    using assms \<open>p \<noteq> 0\<close> \<open>q \<noteq> 0\<close>
    by (simp add: my_dgesv_def forward_elim_def elim_step_def find_pivot_def pivot_step_def swap_rows_def
        swap_entry_def elim_row_def add_row_def add_entry_def back_col_def back_row_def back_term_def
        mget_def mput_def in_array_def tiny_def up field_ops_def Let_def)
  ultimately show ?thesis by blast
qed

theorem serial_needs_pivoting_witness:
  "serial_dgesv field_ops 2 1 [0, 1, 1, 0 :: rat] [4, 1] = Some (-1, [0, 1, 1, 0], [4, 1]) \<and>
   my_dgesv field_ops 2 1 [0, 1, 1, 0 :: rat] [4, 1] = Some (0, [1, 0, 0, 1], [1, 4])"
  using serial_needs_pivoting[of 1 1 4 "1 :: rat"] by simp

end
