(* ===== verification/Timer.thy ===== *)
theory Timer
  imports Prelude "HOL-Library.Signed_Division"
begin

text \<open>
  The stop watch of \<^verbatim>\<open>src/timer.c\<close>. A \<^verbatim>\<open>long\<close> is an integer whose every intermediate result has to
  fit into 64 bits: where the C expression would overflow, the model has no value (\<^term>\<open>None\<close>).
  Division of \<^verbatim>\<open>long\<close>s truncates towards zero (\<open>sdiv\<close>).
\<close>

record timespec =
  tv_sec :: int
  tv_nsec :: int

definition long_val :: "int \<Rightarrow> int option" where
  "long_val x = (if -9223372036854775808 \<le> x \<and> x < 9223372036854775808 then Some x else None)"

text \<open>\<open>sec * unit + nsec / scale\<close>, the value each function computes for both time stamps.\<close>

definition stamp :: "int \<Rightarrow> int \<Rightarrow> timespec \<Rightarrow> int option" where
  "stamp unit scale t = do {
     s \<leftarrow> long_val (tv_sec t * unit);
     long_val (s + tv_nsec t sdiv scale)
   }"

definition stamp_diff :: "int \<Rightarrow> int \<Rightarrow> timespec \<Rightarrow> timespec \<Rightarrow> int option" where
  "stamp_diff unit scale start end' = do {
     e \<leftarrow> stamp unit scale end';
     s \<leftarrow> stamp unit scale start;
     long_val (e - s)
   }"

definition diff_nano :: "timespec \<Rightarrow> timespec \<Rightarrow> int option" where
  "diff_nano start end' = stamp_diff 1000000000 1 start end'"

definition diff_micro :: "timespec \<Rightarrow> timespec \<Rightarrow> int option" where
  "diff_micro start end' = stamp_diff 1000000 1000 start end'"

definition diff_milli :: "timespec \<Rightarrow> timespec \<Rightarrow> int option" where
  "diff_milli start end' = stamp_diff 1000 1000000 start end'"

definition diff_seconds :: "timespec \<Rightarrow> timespec \<Rightarrow> int option" where
  "diff_seconds start end' = stamp_diff 1 1000000000 start end'"

text \<open>What \<^verbatim>\<open>clock_gettime\<close> delivers: nanoseconds below a second, seconds since boot.\<close>

definition clock_reading :: "timespec \<Rightarrow> bool" where
  "clock_reading t \<longleftrightarrow> 0 \<le> tv_sec t \<and> tv_sec t < 9000000000 \<and> 0 \<le> tv_nsec t \<and> tv_nsec t < 1000000000"

definition nanos :: "timespec \<Rightarrow> int" where
  "nanos t = tv_sec t * 1000000000 + tv_nsec t"

lemma stamp_value:
  assumes "clock_reading t" "unit * scale = 1000000000" "1 \<le> scale" "1 \<le> unit"
  shows "stamp unit scale t = Some (nanos t div scale)"
    and "0 \<le> nanos t div scale" "nanos t div scale < 9000000001000000000"
proof -
  have sdiv: "tv_nsec t sdiv scale = tv_nsec t div scale"
    using assms by (cases "tv_nsec t = 0") (simp_all add: clock_reading_def signed_divide_int_def)
  have eq: "nanos t div scale = tv_sec t * unit + tv_nsec t div scale"
  proof -
    have "nanos t = tv_nsec t + scale * (tv_sec t * unit)"
      using assms(2) by (simp add: nanos_def algebra_simps flip: assms(2))
    then show ?thesis using assms(3) by simp
  qed
  have le: "unit \<le> 1000000000"
    using assms(2-4) mult_left_mono[of 1 scale unit] by simp
  have sec: "0 \<le> tv_sec t * unit" "tv_sec t * unit \<le> 8999999999 * 1000000000"
    using assms(1,4) le mult_mono[of "tv_sec t" 8999999999 unit 1000000000]
    by (simp_all add: clock_reading_def)
  have ns: "0 \<le> tv_nsec t div scale" "tv_nsec t div scale \<le> 999999999"
    using assms(1,3) zdiv_mono2[of "tv_nsec t" 1 scale]
    by (simp_all add: clock_reading_def pos_imp_zdiv_nonneg_iff)
  show "stamp unit scale t = Some (nanos t div scale)"
    using sec ns by (simp add: stamp_def long_val_def sdiv eq)
  show "0 \<le> nanos t div scale" "nanos t div scale < 9000000001000000000"
    using sec ns eq by simp_all
qed

lemma div_diff_bounds:
  fixes k :: int assumes "0 < k"
  shows "\<bar>(y div k - x div k) * k - (y - x)\<bar> < k"
proof -
  have "(y div k - x div k) * k - (y - x) = x mod k - y mod k"
    by (simp add: algebra_simps minus_mod_eq_mult_div [symmetric])
  then show ?thesis
    using pos_mod_sign[OF assms, of x] pos_mod_bound[OF assms, of x]
      pos_mod_sign[OF assms, of y] pos_mod_bound[OF assms, of y] by linarith
qed

text \<open>The contract of a difference: exact in the unit of the function, never negative on a clock that advances.\<close>

lemma stamp_diff_value:
  assumes "clock_reading s" "clock_reading e" "unit * scale = 1000000000" "1 \<le> scale" "1 \<le> unit"
  shows "stamp_diff unit scale s e = Some (nanos e div scale - nanos s div scale)"
  using stamp_value[OF assms(1,3,4,5)] stamp_value[OF assms(2,3,4,5)]
  by (simp add: stamp_diff_def long_val_def)

lemma diff_nano_value:
  "clock_reading s \<Longrightarrow> clock_reading e \<Longrightarrow> diff_nano s e = Some (nanos e - nanos s)"
  by (simp add: diff_nano_def stamp_diff_value)

lemma diff_milli_value:
  "clock_reading s \<Longrightarrow> clock_reading e \<Longrightarrow>
     diff_milli s e = Some (nanos e div 1000000 - nanos s div 1000000)"
  by (simp add: diff_milli_def stamp_diff_value)

text \<open>
  C8. The timers of \<^verbatim>\<open>timer.c\<close> on readings of the monotonic clock: none overflows; \<^verbatim>\<open>diff_nano\<close> is the
  exact difference; the others are within one of their units of it, and are not negative when the clock
  has not gone back.
\<close>

theorem timers_accurate:
  assumes "clock_reading s" "clock_reading e"
  shows "diff_nano s e = Some (nanos e - nanos s) \<and>
     (\<exists>us ms sec. diff_micro s e = Some us \<and> diff_milli s e = Some ms \<and> diff_seconds s e = Some sec \<and>
        \<bar>us * 1000 - (nanos e - nanos s)\<bar> < 1000 \<and>
        \<bar>ms * 1000000 - (nanos e - nanos s)\<bar> < 1000000 \<and>
        \<bar>sec * 1000000000 - (nanos e - nanos s)\<bar> < 1000000000 \<and>
        (nanos s \<le> nanos e \<longrightarrow> 0 \<le> us \<and> 0 \<le> ms \<and> 0 \<le> sec))"
  using stamp_diff_value[OF assms, of 1000000 1000] stamp_diff_value[OF assms, of 1000 1000000]
    stamp_diff_value[OF assms, of 1 1000000000] diff_nano_value[OF assms]
    div_diff_bounds[of 1000 "nanos e" "nanos s"] div_diff_bounds[of 1000000 "nanos e" "nanos s"]
    div_diff_bounds[of 1000000000 "nanos e" "nanos s"]
  by (simp add: diff_micro_def diff_milli_def diff_seconds_def zdiv_mono1)

theorem timers_accurate_witness:
  "diff_nano \<lparr>tv_sec = 1, tv_nsec = 999999999\<rparr> \<lparr>tv_sec = 2, tv_nsec = 1000001\<rparr> =
     Some (nanos \<lparr>tv_sec = 2, tv_nsec = 1000001\<rparr> - nanos \<lparr>tv_sec = 1, tv_nsec = 999999999\<rparr>)"
  using timers_accurate[of "\<lparr>tv_sec = 1, tv_nsec = 999999999\<rparr>" "\<lparr>tv_sec = 2, tv_nsec = 1000001\<rparr>"]
  by (simp add: clock_reading_def)

end
