(* ===== verification/Driver.thy ===== *)
theory Driver
  imports Dgesv_Exact Timer
begin

text \<open>
  The programs around the solvers: the benchmark \<^verbatim>\<open>src/main.c\<close>, its first version
  \<^verbatim>\<open>src/task1/main.c\<close> and the example \<^verbatim>\<open>src/test.c\<close>.

  What these programs take from outside is an argument of the model: the C library (\<^verbatim>\<open>atoi\<close>,
  \<^verbatim>\<open>rand\<close>, whether an allocation succeeds, what fresh memory holds), the LAPACK routine they compare
  with, and the readings of the clock. Unsigned sizes are integers with the wrap-around of their type
  written out. A pointer to doubles is the array it points to; \<^verbatim>\<open>NULL\<close> is the empty array, every access
  to which fails.
\<close>

record 'd libc =
  atoi :: "string \<Rightarrow> int"
  alloc_ok :: "int \<Rightarrow> bool"           \<comment> \<open>does an allocation of that many bytes succeed?\<close>
  junk :: 'd                           \<comment> \<open>the content of fresh memory\<close>
  rand_at :: "int \<Rightarrow> nat \<Rightarrow> int"      \<comment> \<open>the k-th \<^verbatim>\<open>rand()\<close> after \<^verbatim>\<open>srand(seed)\<close>\<close>

type_synonym 'd lapack = "int \<Rightarrow> int \<Rightarrow> 'd list \<Rightarrow> 'd list \<Rightarrow> int \<times> 'd list \<times> 'd list"

definition u32_of :: "int \<Rightarrow> int" where
  "u32_of x = x mod 4294967296"

text \<open>\<^verbatim>\<open>aligned_alloc(32, sizeof(double) * size * size)\<close> (\<^verbatim>\<open>malloc\<close> in \<^verbatim>\<open>task1\<close>), in \<^verbatim>\<open>size_t\<close> arithmetic.\<close>

definition alloc_square :: "'d libc \<Rightarrow> int \<Rightarrow> 'd list" where
  "alloc_square lc sz =
     (let bytes = (8 * sz * sz) mod 18446744073709551616
      in if alloc_ok lc bytes then replicate (nat (bytes div 8)) (junk lc) else [])"

definition fill_entry :: "'d fp_ops \<Rightarrow> 'd libc \<Rightarrow> int \<Rightarrow> nat \<Rightarrow> 'd list \<Rightarrow> 'd list option" where
  "fill_entry ops lc seed i m =
     (if i < length m then Some (m[i := fp_of_int ops (rand_at lc seed i smod 100)]) else None)"

definition generate_matrix :: "'d fp_ops \<Rightarrow> 'd libc \<Rightarrow> int \<Rightarrow> int \<Rightarrow> 'd list option" where
  "generate_matrix ops lc sz seed =
     foldO (fill_entry ops lc seed) [0..<nat (u32_of (sz * sz))] (alloc_square lc sz)"

definition duplicate_matrix :: "'d libc \<Rightarrow> 'd list \<Rightarrow> int \<Rightarrow> 'd list option" where
  "duplicate_matrix lc orig sz =
     (let replica = alloc_square lc sz; cnt = nat (u32_of (sz * sz))
      in if cnt \<le> length orig \<and> cnt \<le> length replica then Some (take cnt orig @ drop cnt replica)
         else None)"

definition is_nearly_equal :: "'d fp_ops \<Rightarrow> 'd \<Rightarrow> 'd \<Rightarrow> bool" where
  "is_nearly_equal ops x y = fp_le ops (fabs ops (fp_sub ops x y)) (fp_mul ops (fp_lit ops 1 5) (fabs ops x))"

definition check_entry :: "'d fp_ops \<Rightarrow> 'd list \<Rightarrow> 'd list \<Rightarrow> nat \<Rightarrow> unit \<Rightarrow> (int + unit) option" where
  "check_entry ops bref b i u =
     (if i < length bref \<and> i < length b
      then Some (if is_nearly_equal ops (bref ! i) (b ! i) then Inr () else Inl 0)
      else None)"

definition check_result :: "'d fp_ops \<Rightarrow> 'd list \<Rightarrow> 'd list \<Rightarrow> int \<Rightarrow> int \<Rightarrow> int option" where
  "check_result ops bref b sz nrhs =
     (case foldR (check_entry ops bref b) [0..<nat (u32_of (sz * nrhs))] () of
        None \<Rightarrow> None | Some (Inl r) \<Rightarrow> Some r | Some (Inr u) \<Rightarrow> Some 1)"

text \<open>What a run prints.\<close>

datatype event = Usage | Lapack_Time int | My_Time int | Result_Ok | Result_Wrong

text \<open>\<^verbatim>\<open>main\<close> of \<^verbatim>\<open>src/main.c\<close>: exit code and output. The clock is read four times.\<close>

definition main_prog ::
  "'d fp_ops \<Rightarrow> 'd libc \<Rightarrow> 'd lapack \<Rightarrow> (nat \<Rightarrow> timespec) \<Rightarrow> string list \<Rightarrow> (int \<times> event list) option" where
  "main_prog ops lc lapack clock argv =
     (if length argv < 2 then Some (1, [Usage])
      else do {
        let sz = atoi lc (argv ! 1);
        a \<leftarrow> generate_matrix ops lc (u32_of sz) 1;
        b \<leftarrow> generate_matrix ops lc (u32_of sz) 2;
        aref \<leftarrow> duplicate_matrix lc a (u32_of sz);
        bref \<leftarrow> duplicate_matrix lc b (u32_of sz);
        let (info, aref, bref) = lapack sz sz aref bref;
        t1 \<leftarrow> diff_milli (clock 0) (clock 1);
        (info, a, b) \<leftarrow> my_dgesv ops sz sz a b;
        t2 \<leftarrow> diff_milli (clock 2) (clock 3);
        ok \<leftarrow> check_result ops bref b (u32_of sz) (u32_of sz);
        Some (0, [Lapack_Time t1, My_Time t2, if ok = 1 then Result_Ok else Result_Wrong])
      })"

text \<open>\<^verbatim>\<open>src/task1/main.c\<close>: the serial solver, and a \<^verbatim>\<open>check_result\<close> for square right-hand sides.\<close>

definition task1_check_result :: "'d fp_ops \<Rightarrow> 'd list \<Rightarrow> 'd list \<Rightarrow> int \<Rightarrow> int option" where
  "task1_check_result ops bref b sz =
     (case foldR (check_entry ops bref b) [0..<nat (u32_of (sz * sz))] () of
        None \<Rightarrow> None | Some (Inl r) \<Rightarrow> Some r | Some (Inr u) \<Rightarrow> Some 1)"

definition task1_main ::
  "'d fp_ops \<Rightarrow> 'd libc \<Rightarrow> 'd lapack \<Rightarrow> (nat \<Rightarrow> timespec) \<Rightarrow> string list \<Rightarrow> (int \<times> event list) option" where
  "task1_main ops lc lapack clock argv =
     (if length argv < 2 then Some (1, [Usage])
      else do {
        let sz = atoi lc (argv ! 1);
        a \<leftarrow> generate_matrix ops lc (u32_of sz) 1;
        b \<leftarrow> generate_matrix ops lc (u32_of sz) 2;
        aref \<leftarrow> duplicate_matrix lc a (u32_of sz);
        bref \<leftarrow> duplicate_matrix lc b (u32_of sz);
        let (info, aref, bref) = lapack sz sz aref bref;
        t1 \<leftarrow> diff_milli (clock 0) (clock 1);
        (info, a, b) \<leftarrow> serial_dgesv ops sz sz a b;
        t2 \<leftarrow> diff_milli (clock 2) (clock 3);
        ok \<leftarrow> task1_check_result ops bref b (u32_of sz);
        Some (0, [Lapack_Time t1, My_Time t2, if ok = 1 then Result_Ok else Result_Wrong])
      })"

text \<open>\<^verbatim>\<open>src/test.c\<close>: the fixed 3 by 3 system; a line of output is \<open>(i, j, x, expected)\<close>.\<close>

definition test_A :: "'d fp_ops \<Rightarrow> 'd list" where
  "test_A ops = map (\<lambda>m. fp_lit ops m 0) [2, 3, -1, 5, 2, 2, 1, -1, 3]"

definition test_B :: "'d fp_ops \<Rightarrow> 'd list" where
  "test_B ops = map (\<lambda>m. fp_lit ops m 0) [4, 1, -2, 3, 5, 7, 8, 2, 6]"

definition test_prog :: "'d fp_ops \<Rightarrow> 'd lapack \<Rightarrow> (int \<times> (nat \<times> nat \<times> 'd \<times> 'd) list) option" where
  "test_prog ops lapack = do {
     let (info, A_copy, B_copy) = lapack 3 3 (test_A ops) (test_B ops);
     (r, A, B) \<leftarrow> my_dgesv ops 3 3 (test_A ops) (test_B ops);
     out \<leftarrow> foldO (\<lambda>i. foldO (\<lambda>j out. do {
                x \<leftarrow> mget 3 B i j; y \<leftarrow> mget 3 B_copy i j; Some (out @ [(i, j, x, y)]) }) [0..<3]) [0..<3] [];
     Some (0, out)
   }"


section \<open>The matrices\<close>

definition rand_matrix :: "'d fp_ops \<Rightarrow> 'd libc \<Rightarrow> nat \<Rightarrow> int \<Rightarrow> 'd list" where
  "rand_matrix ops lc len seed = map (\<lambda>i. fp_of_int ops (rand_at lc seed i smod 100)) [0..<len]"

lemma fill_ok:
  assumes "len \<le> length m"
  shows "foldO (fill_entry ops lc seed) [0..<len] m = Some (rand_matrix ops lc len seed @ drop len m)"
proof -
  let ?P = "\<lambda>c t. t = rand_matrix ops lc c seed @ drop c m"
  have "\<exists>t. foldO (fill_entry ops lc seed) [0..<len] m = Some t \<and> ?P len t"
  proof (rule foldO_upt[where P = ?P])
    fix c t assume c: "c < len" and t: "?P c t"
    have len: "length (rand_matrix ops lc c seed) = c" by (simp add: rand_matrix_def)
    from c assms have "drop c m = m ! c # drop (Suc c) m" by (simp add: Cons_nth_drop_Suc)
    with t c assms len show "\<exists>u. fill_entry ops lc seed c t = Some u \<and> ?P (Suc c) u"
      by (simp add: fill_entry_def list_update_append rand_matrix_def)
  qed (simp_all add: rand_matrix_def)
  then show ?thesis by blast
qed

text \<open>The sizes for which none of the products wraps.\<close>

definition good_size :: "'d libc \<Rightarrow> int \<Rightarrow> bool" where
  "good_size lc n \<longleftrightarrow> 0 \<le> n \<and> n \<le> 46340 \<and> alloc_ok lc (8 * n * n)"

lemma good_size_bounds:
  assumes "good_size lc n"
  shows "u32_of n = n" "u32_of (n * n) = n * n" "(8 * n * n) mod 18446744073709551616 = 8 * n * n"
    "nat (n * n) = nat n * nat n" "nat n * nat n \<le> 2 ^ 31"
proof -
  have n: "0 \<le> n" "n \<le> 46340" using assms by (auto simp: good_size_def)
  then have nn: "n * n \<le> 46340 * 46340" by (intro mult_mono) auto
  show "u32_of n = n" "u32_of (n * n) = n * n" "(8 * n * n) mod 18446744073709551616 = 8 * n * n"
    using n nn by (simp_all add: u32_of_def)
  show eq: "nat (n * n) = nat n * nat n" using n by (simp add: nat_mult_distrib)
  have "nat (n * n) \<le> 2 ^ 31" using nn by simp
  then show "nat n * nat n \<le> 2 ^ 31" by (simp add: eq)
qed

lemma generate_matrix_ok:
  assumes "good_size lc n"
  shows "generate_matrix ops lc n seed = Some (rand_matrix ops lc (nat n * nat n) seed)"
proof -
  have al: "alloc_square lc n = replicate (nat n * nat n) (junk lc)"
    using good_size_bounds[OF assms] assms by (simp add: alloc_square_def good_size_def mult.assoc)
  then show ?thesis
    using fill_ok[of "nat n * nat n" "alloc_square lc n" ops lc seed] good_size_bounds[OF assms]
    by (simp add: generate_matrix_def al)
qed

lemma duplicate_matrix_ok:
  assumes "good_size lc n" "length m = nat n * nat n"
  shows "duplicate_matrix lc m n = Some m"
proof -
  have al: "alloc_square lc n = replicate (nat n * nat n) (junk lc)"
    using good_size_bounds[OF assms(1)] assms(1) by (simp add: alloc_square_def good_size_def mult.assoc)
  then show ?thesis
    using good_size_bounds[OF assms(1)] assms(2) by (simp add: duplicate_matrix_def al)
qed


section \<open>The comparison\<close>

lemma check_loop:
  assumes "len \<le> length bref" "len \<le> length b"
  shows "foldR (check_entry ops bref b) [0..<len] () =
     Some (if \<forall>i < len. is_nearly_equal ops (bref ! i) (b ! i) then Inr () else Inl 0)"
  using assms
proof (induction len)
  case (Suc len)
  have "\<exists>i. i < Suc len \<and> \<not> P i" if "\<exists>i < len. \<not> P i" for P
    using that less_SucI by blast
  with Suc show ?case
    by (auto simp: foldR_append check_entry_def less_Suc_eq)
qed simp

text \<open>
  \<^verbatim>\<open>check_result\<close> returns 1 exactly when every entry of the computed solution is within the relative
  tolerance of the reference entry, and 0 otherwise.
\<close>

theorem check_result_spec:
  assumes "0 \<le> sz" "0 \<le> nrhs" "sz * nrhs < 4294967296"
    and "length bref = nat (sz * nrhs)" "length b = nat (sz * nrhs)"
  shows "check_result ops bref b sz nrhs =
     Some (if \<forall>i < length b. is_nearly_equal ops (bref ! i) (b ! i) then 1 else 0)"
  using assms check_loop[of "nat (sz * nrhs)" bref b ops] by (simp add: check_result_def u32_of_def)

theorem check_result_spec_witness:
  "check_result field_ops [1, 2 :: rat] [1, 3] 2 1 = Some 0"
  using check_result_spec[of 2 1 "[1, 2 :: rat]" "[1, 3]" field_ops]
  by (auto simp: is_nearly_equal_def field_ops_def split: if_splits)


section \<open>The programs\<close>

text \<open>
  What \<^verbatim>\<open>LAPACKE_dgesv\<close> documents, over exact arithmetic: it keeps the size of the array of right-hand
  sides, and \<^verbatim>\<open>info = 0\<close> means that it left the solution there.
\<close>

definition lapack_contract :: "'d::linordered_field lapack \<Rightarrow> bool" where
  "lapack_contract lapack \<longleftrightarrow>
     (\<forall>n nrhs a b info a' b'. lapack n nrhs a b = (info, a', b') \<longrightarrow>
        length b' = length b \<and> (info = 0 \<longrightarrow> solves (nat n) (nat nrhs) a b (ent (nat nrhs) b')))"

lemma lapack_contractD:
  "lapack_contract lapack \<Longrightarrow> lapack n nrhs a b = (0, a', b') \<Longrightarrow>
     length b' = length b \<and> solves (nat n) (nat nrhs) a b (ent (nat nrhs) b')"
  by (simp add: lapack_contract_def)

lemma field_nearly_refl: "is_nearly_equal (field_ops :: 'd::linordered_field fp_ops) x x"
  by (simp add: is_nearly_equal_def field_ops_def)

lemma same_solution:
  fixes a :: "'d::linordered_field list"
  assumes "length a = nat n * nat n" "length b = nat n * nat n" "nat n * nat n \<le> 2 ^ 31"
    and my: "my_dgesv field_ops n n a b = Some (0, a1, b1)"
    and la: "solves (nat n) (nat n) a b (ent (nat n) b2)" "length b2 = length b"
  shows "b1 = b2"
proof (rule shape_ext)
  obtain r a' b' where "my_dgesv field_ops n n a b = Some (r, a', b')" "length b' = length b"
    using my_dgesv_safe_aux[of a n b n field_ops] assms(1-3) by blast
  with my show "shape (nat n) (nat n) b1" using assms(2,3) by (simp add: shape_def)
  show "shape (nat n) (nat n) b2" using assms(2,3) la(2) by (simp add: shape_def)
  fix i j assume "i < nat n" "j < nat n"
  then show "ent (nat n) b1 i j = ent (nat n) b2 i j"
    using field_arith.pivoted_success[OF _ _ my, of "ent (nat n) b2"] assms(1-3) la(1)
    by (simp add: shape_def)
qed


text \<open>A LAPACK that keeps its contract: it answers with the exact solution where it finds one.\<close>

definition fits31 :: "nat \<Rightarrow> bool" where
  "fits31 k \<longleftrightarrow> int k \<le> 2147483648"

lemma fits31_iff: "fits31 k \<longleftrightarrow> k \<le> 2 ^ 31"
  by (simp add: fits31_def)

definition exact_lapack :: "'d::linordered_field lapack" where
  "exact_lapack n nrhs a b =
     (if length a = nat n * nat n \<and> length b = nat n * nat nrhs \<and>
         fits31 (nat n * nat n) \<and> fits31 (nat n * nat nrhs)
      then (case my_dgesv field_ops n nrhs a b of
              Some (r, a', b') \<Rightarrow> (r, a', b') | None \<Rightarrow> (1, a, b))
      else (1, a, b))"

lemma exact_lapack_contract: "lapack_contract exact_lapack"
  unfolding lapack_contract_def
proof (intro allI impI conjI)
  fix n nrhs :: int and a b a' b' :: "'d::linordered_field list" and info
  assume r: "exact_lapack n nrhs a b = (info, a', b')"
  note safe = my_dgesv_safe_aux[of a n b nrhs "field_ops :: 'd fp_ops"]
  show "length b' = length b"
    using r safe by (auto simp: exact_lapack_def fits31_iff split: if_splits option.splits)
  assume "info = 0"
  then have "my_dgesv field_ops n nrhs a b = Some (0, a', b')"
    "shape (nat n) (nat n) a" "shape (nat n) (nat nrhs) b"
    using r by (auto simp: exact_lapack_def shape_def fits31_iff split: if_splits option.splits)
  then show "solves (nat n) (nat nrhs) a b (ent (nat nrhs) b')"
    using field_arith.pivoted_success[of n a nrhs b a' b' "ent (nat nrhs) b'"] by simp
qed

definition example_libc :: "rat libc" where
  "example_libc = \<lparr>atoi = (\<lambda>s. 2), alloc_ok = (\<lambda>b. True), junk = 0,
                  rand_at = (\<lambda>seed k. seed * (int k + 1) * (int k + 1))\<rparr>"


text \<open>
  The benchmark is not a benchmark for 65536 by 65536 matrices: the \<^verbatim>\<open>unsigned int\<close> product
  \<^verbatim>\<open>size * size\<close> is 0 there, so \<^verbatim>\<open>generate_matrix\<close> returns memory it has not written and
  \<^verbatim>\<open>duplicate_matrix\<close> copies nothing.
\<close>

theorem generate_matrix_wraps:
  "generate_matrix ops lc 65536 seed = Some (alloc_square lc 65536) \<and>
   duplicate_matrix lc orig 65536 = Some (alloc_square lc 65536)"
  by (simp add: generate_matrix_def duplicate_matrix_def u32_of_def)

text \<open>
  The example of \<^verbatim>\<open>test.c\<close> under exact arithmetic: against a LAPACK that keeps its contract and
  succeeds, all nine lines of output show the expected value.
\<close>

theorem test_prog_agrees:
  assumes "lapack_contract lapack" "fst (lapack 3 3 (test_A field_ops) (test_B field_ops)) = (0 :: int)"
  shows "\<exists>out. test_prog (field_ops :: rat fp_ops) lapack = Some (0, out) \<and> length out = 9 \<and>
           (\<forall>(i, j, x, y) \<in> set out. x = y)"
proof -
  let ?A = "test_A field_ops :: rat list" and ?B = "test_B field_ops :: rat list"
  let ?X = "[- (9 / 2), 1, 3 / 2, 103 / 16, - (1 / 4), - (21 / 16), 101 / 16, 1 / 4, 17 / 16] :: rat list"
  have my: "my_dgesv field_ops 3 3 ?A ?B =
      Some (0, [5, 2, 2, 0, 11 / 5, - (9 / 5), 0, 0, 16 / 11], ?X)"
    by code_simp
  obtain info Ac Bc where la: "lapack 3 3 ?A ?B = (info, Ac, Bc)" by (cases "lapack 3 3 ?A ?B")
  with assms have "length Bc = length ?B \<and> solves (nat 3) (nat 3) ?A ?B (ent (nat 3) Bc)"
    by (intro lapack_contractD[of lapack]) auto
  then have "?X = Bc"
    using same_solution[OF _ _ _ my, of Bc] by (simp add: test_A_def test_B_def)
  then have Bc: "Bc = ?X" by simp
  have up: "[0..<3] = [0, 1, 2 :: nat]" by (simp add: upt_rec)
  show ?thesis
    by (simp add: test_prog_def la my Bc up mget_def in_array_def)
qed

theorem test_prog_agrees_witness:
  "\<exists>out. test_prog (field_ops :: rat fp_ops) exact_lapack = Some (0, out) \<and> length out = 9 \<and>
     (\<forall>(i, j, x, y) \<in> set out. x = y)"
  by (rule test_prog_agrees) (rule exact_lapack_contract, code_simp)

end
