(* ===== verification/Libc_Str.thy ===== *)
theory Libc_Str
  imports Arith_Ops
begin

text \<open>
  The string half of Valgrind's private C library, \<^verbatim>\<open>coregrind/m_libcbase.c\<close>.

  A pointer to characters is the list of the bytes from where it points to the end of its object;
  \<^verbatim>\<open>str++\<close> is the tail. Reading or writing past the end of the object fails (\<^term>\<open>None\<close>), so does running off
  an object without a terminating NUL. A function that stores through a pointer returns the new content of
  the object. Source and destination are different objects, as every caller has it. \<^verbatim>\<open>HChar\<close> is signed, but
  the functions only compare characters with ASCII literals or cast them to \<^verbatim>\<open>UChar\<close>, so bytes are unsigned
  words here. A returned pointer that may be \<^verbatim>\<open>NULL\<close> is an option inside the option of the failure.
\<close>

type_synonym cstr = "u8 list"

section \<open>Characters\<close>

definition VG_isspace :: "u8 \<Rightarrow> bool" where
  "VG_isspace c \<longleftrightarrow> c = 32 \<or> c = 10 \<or> c = 9 \<or> c = 12 \<or> c = 11 \<or> c = 13"

definition VG_isdigit :: "u8 \<Rightarrow> bool" where
  "VG_isdigit c \<longleftrightarrow> 48 \<le> c \<and> c \<le> 57"

definition is_dec_digit :: "u8 \<Rightarrow> u64 option" where
  "is_dec_digit c = (if 48 \<le> c \<and> c \<le> 57 then Some (ucast (c - 48)) else None)"

definition is_hex_digit :: "u8 \<Rightarrow> u64 option" where
  "is_hex_digit c =
     (if 48 \<le> c \<and> c \<le> 57 then Some (ucast (c - 48))
      else if 65 \<le> c \<and> c \<le> 70 then Some (ucast (c - 65) + 10)
      else if 97 \<le> c \<and> c \<le> 102 then Some (ucast (c - 97) + 10)
      else None)"

definition VG_tolower :: "u8 \<Rightarrow> u8" where
  "VG_tolower c = (if 65 \<le> c \<and> c \<le> 90 then c - 65 + 97 else c)"

definition isHex :: "u8 \<Rightarrow> bool" where
  "isHex c \<longleftrightarrow> (48 \<le> c \<and> c \<le> 57) \<or> (97 \<le> c \<and> c \<le> 102) \<or> (65 \<le> c \<and> c \<le> 70)"

definition fromHex :: "u8 \<Rightarrow> u32" where
  "fromHex c =
     (if 48 \<le> c \<and> c \<le> 57 then ucast c - 48
      else if 97 \<le> c \<and> c \<le> 102 then 10 + ucast c - 97
      else if 65 \<le> c \<and> c \<le> 70 then 10 + ucast c - 65
      else 0)"


section \<open>Numbers\<close>

fun skip_space :: "cstr \<Rightarrow> cstr option" where
  "skip_space [] = None"
| "skip_space (c # s) = (if VG_isspace c then skip_space s else Some (c # s))"

text \<open>
  The digit loop: \<open>base * n + digit\<close> in 64 bits (a \<^verbatim>\<open>Long\<close> is read as the two's complement of the word),
  and whether any digit was converted.
\<close>

fun digit_loop :: "(u8 \<Rightarrow> u64 option) \<Rightarrow> u64 \<Rightarrow> cstr \<Rightarrow> u64 \<Rightarrow> bool \<Rightarrow> (u64 \<times> bool \<times> cstr) option" where
  "digit_loop is_digit base [] n converted = None"
| "digit_loop is_digit base (c # s) n converted =
     (case is_digit c of
        Some digit \<Rightarrow> digit_loop is_digit base s (base * n + digit) True
      | None \<Rightarrow> Some (n, converted, c # s))"

definition read_sign :: "cstr \<Rightarrow> (bool \<times> cstr) option" where
  "read_sign s = (case s of [] \<Rightarrow> None
     | c # s' \<Rightarrow> Some (if c = 45 then (True, s') else if c = 43 then (False, s') else (False, s)))"

definition read_plus :: "cstr \<Rightarrow> cstr option" where
  "read_plus s = (case s of [] \<Rightarrow> None | c # s' \<Rightarrow> Some (if c = 43 then s' else s))"

text \<open>The optional \<^verbatim>\<open>0x\<close>: the two characters after the first are read only as far as they match.\<close>

definition skip_0x :: "cstr \<Rightarrow> cstr option" where
  "skip_0x s =
     (case s of [] \<Rightarrow> None | c0 # s1 \<Rightarrow>
        if c0 \<noteq> 48 then Some s
        else (case s1 of [] \<Rightarrow> None | c1 # s2 \<Rightarrow>
          if c1 \<noteq> 120 \<and> c1 \<noteq> 88 then Some s
          else (case s2 of [] \<Rightarrow> None | c2 # s3 \<Rightarrow>
            Some (if is_hex_digit c2 \<noteq> None then s2 else s))))"

text \<open>Each function returns the value and \<^verbatim>\<open>*endptr\<close>, the first character not converted.\<close>

definition VG_strtoll10 :: "cstr \<Rightarrow> (u64 \<times> cstr) option" where
  "VG_strtoll10 str = do {
     s \<leftarrow> skip_space str;
     (neg, s) \<leftarrow> read_sign s;
     (n, converted, s) \<leftarrow> digit_loop is_dec_digit 10 s 0 False;
     Some (if neg then - n else n, if converted then s else str)
   }"

definition VG_strtoull10 :: "cstr \<Rightarrow> (u64 \<times> cstr) option" where
  "VG_strtoull10 str = do {
     s \<leftarrow> skip_space str;
     s \<leftarrow> read_plus s;
     (n, converted, s) \<leftarrow> digit_loop is_dec_digit 10 s 0 False;
     Some (n, if converted then s else str)
   }"

definition VG_strtoll16 :: "cstr \<Rightarrow> (u64 \<times> cstr) option" where
  "VG_strtoll16 str = do {
     s \<leftarrow> skip_space str;
     (neg, s) \<leftarrow> read_sign s;
     s \<leftarrow> skip_0x s;
     (n, converted, s) \<leftarrow> digit_loop is_hex_digit 16 s 0 False;
     Some (if neg then - n else n, if converted then s else str)
   }"

definition VG_strtoull16 :: "cstr \<Rightarrow> (u64 \<times> cstr) option" where
  "VG_strtoull16 str = do {
     s \<leftarrow> skip_space str;
     s \<leftarrow> read_plus s;
     s \<leftarrow> skip_0x s;
     (n, converted, s) \<leftarrow> digit_loop is_hex_digit 16 s 0 False;
     Some (n, if converted then s else str)
   }"

text \<open>
  \<^verbatim>\<open>parse_Addr\<close> and \<^verbatim>\<open>parse_UInt\<close> advance the caller's pointer and store the result; both are returned,
  with the success flag first.
\<close>

fun addr_loop :: "cstr \<Rightarrow> u64 \<Rightarrow> nat \<Rightarrow> (bool \<times> cstr \<times> u64) option" where
  "addr_loop [] result used = None"
| "addr_loop (c # s) result used =
     (if isHex c
      then (let result' = push_bit 4 result OR ucast (fromHex c)
            in if Suc used > 16 then Some (False, s, result') else addr_loop s result' (Suc used))
      else Some (used \<noteq> 0, c # s, result))"

definition VG_parse_Addr :: "cstr \<Rightarrow> u64 \<Rightarrow> (bool \<times> cstr \<times> u64) option" where
  "VG_parse_Addr ppc result =
     (case ppc of [] \<Rightarrow> None | c0 # s1 \<Rightarrow>
        if c0 \<noteq> 48 then Some (False, ppc, result)
        else (case s1 of [] \<Rightarrow> None | c1 # s2 \<Rightarrow>
          if c1 \<noteq> 120 then Some (False, s1, result) else addr_loop s2 0 0))"

fun uint_loop :: "cstr \<Rightarrow> u64 \<Rightarrow> nat \<Rightarrow> (bool \<times> cstr \<times> u64 \<times> nat) option" where
  "uint_loop [] res64 used = None"
| "uint_loop (c # s) res64 used =
     (if VG_isdigit c
      then (let res64' = res64 * 10 + ucast c - 48
            in if Suc used > 10 then Some (False, s, res64', Suc used) else uint_loop s res64' (Suc used))
      else Some (True, c # s, res64, used))"

definition VG_parse_UInt :: "cstr \<Rightarrow> u32 \<Rightarrow> (bool \<times> cstr \<times> u32) option" where
  "VG_parse_UInt ppc result = do {
     (in_limit, s, res64, used) \<leftarrow> uint_loop ppc 0 0;
     Some (if \<not> in_limit then (False, s, result)
           else if used = 0 then (False, s, result)
           else if drop_bit 32 res64 \<noteq> 0 then (False, s, result)
           else (True, s, ucast res64))
   }"

text \<open>\<^verbatim>\<open>strtod\<close>: the digits before the point, then those after it weighted by \<open>x = 0.1, 0.01, \<dots>\<close>.\<close>

fun strtod_int :: "'d fp_ops \<Rightarrow> cstr \<Rightarrow> 'd \<Rightarrow> ('d \<times> cstr) option" where
  "strtod_int ops [] n = None"
| "strtod_int ops (c # s) n =
     (case is_dec_digit c of
        Some digit \<Rightarrow> strtod_int ops s
          (fp_add ops (fp_mul ops (fp_of_int ops 10) n) (fp_of_int ops (sint digit)))
      | None \<Rightarrow> Some (n, c # s))"

fun strtod_frac :: "'d fp_ops \<Rightarrow> cstr \<Rightarrow> 'd \<Rightarrow> 'd \<Rightarrow> ('d \<times> cstr) option" where
  "strtod_frac ops [] fr x = None"
| "strtod_frac ops (c # s) fr x =
     (case is_dec_digit c of
        Some digit \<Rightarrow> strtod_frac ops s (fp_add ops fr (fp_mul ops x (fp_of_int ops (sint digit))))
          (fp_div ops x (fp_of_int ops 10))
      | None \<Rightarrow> Some (fr, c # s))"

definition VG_strtod :: "'d fp_ops \<Rightarrow> cstr \<Rightarrow> ('d \<times> cstr) option" where
  "VG_strtod ops str = do {
     s \<leftarrow> skip_space str;
     (neg, s) \<leftarrow> read_sign s;
     (n, s) \<leftarrow> strtod_int ops s (fp_of_int ops 0);
     (fr, s) \<leftarrow> (case s of [] \<Rightarrow> None | c # s' \<Rightarrow>
        if c = 46 then strtod_frac ops s' (fp_of_int ops 0) (fp_lit ops 1 1)
        else Some (fp_of_int ops 0, s));
     let n = fp_add ops n fr;
     Some (if neg then fp_neg ops n else n, s)
   }"


section \<open>String functions\<close>

fun VG_strlen :: "cstr \<Rightarrow> nat option" where
  "VG_strlen [] = None"
| "VG_strlen (c # s) = (if c \<noteq> 0 then map_option Suc (VG_strlen s) else Some 0)"

fun VG_strnlen :: "cstr \<Rightarrow> nat \<Rightarrow> nat option" where
  "VG_strnlen s 0 = Some 0"
| "VG_strnlen [] (Suc n) = None"
| "VG_strnlen (c # s) (Suc n) = (if c \<noteq> 0 then map_option Suc (VG_strnlen s n) else Some 0)"

fun VG_strcpy :: "cstr \<Rightarrow> cstr \<Rightarrow> cstr option" where
  "VG_strcpy dest [] = None"
| "VG_strcpy [] (c # src) = None"
| "VG_strcpy (d # dest) (c # src) =
     (if c \<noteq> 0 then map_option ((#) c) (VG_strcpy dest src) else Some (0 # dest))"

fun VG_strcat :: "cstr \<Rightarrow> cstr \<Rightarrow> cstr option" where
  "VG_strcat [] src = None"
| "VG_strcat (d # dest) src =
     (if d \<noteq> 0 then map_option ((#) d) (VG_strcat dest src) else VG_strcpy (d # dest) src)"

fun strncat_copy :: "cstr \<Rightarrow> cstr \<Rightarrow> nat \<Rightarrow> cstr option" where
  "strncat_copy dest [] n = None"
| "strncat_copy [] (c # src) n = None"
| "strncat_copy (d # dest) (c # src) n =
     (if c \<noteq> 0 \<and> n > 0 then map_option ((#) c) (strncat_copy dest src (n - 1)) else Some (0 # dest))"

fun VG_strncat :: "cstr \<Rightarrow> cstr \<Rightarrow> nat \<Rightarrow> cstr option" where
  "VG_strncat [] src n = None"
| "VG_strncat (d # dest) src n =
     (if d \<noteq> 0 then map_option ((#) d) (VG_strncat dest src n) else strncat_copy (d # dest) src n)"

fun pad_zeroes :: "cstr \<Rightarrow> nat \<Rightarrow> cstr option" where
  "pad_zeroes dest 0 = Some dest"
| "pad_zeroes [] (Suc n) = None"
| "pad_zeroes (d # dest) (Suc n) = map_option ((#) 0) (pad_zeroes dest n)"

fun VG_strncpy :: "cstr \<Rightarrow> cstr \<Rightarrow> nat \<Rightarrow> cstr option" where
  "VG_strncpy dest src 0 = Some dest"
| "VG_strncpy (d # dest) (c # src) (Suc n) =
     (if c = 0 then map_option ((#) 0) (pad_zeroes dest n) else map_option ((#) c) (VG_strncpy dest src n))"
| "VG_strncpy _ _ (Suc n) = None"

text \<open>The bound of \<^verbatim>\<open>strlcpy\<close> is \<^verbatim>\<open>n - 1\<close> in \<^verbatim>\<open>SizeT\<close> arithmetic: for \<open>n = 0\<close> it wraps to \<open>2^64 - 1\<close>.\<close>

fun strlcpy_loop :: "u64 \<Rightarrow> u64 \<Rightarrow> cstr \<Rightarrow> cstr \<Rightarrow> (cstr \<times> cstr) option" where
  "strlcpy_loop n m dst [] = None"
| "strlcpy_loop n m dst (c # src) =
     (if m < n - 1 \<and> c \<noteq> 0
      then (case dst of [] \<Rightarrow> None | d # dst' \<Rightarrow>
        map_option (\<lambda>(out, s). (c # out, s)) (strlcpy_loop n (m + 1) dst' src))
      else if n > 0 then (case dst of [] \<Rightarrow> None | d # dst' \<Rightarrow> Some (0 # dst', c # src))
      else Some (dst, c # src))"

definition VG_strlcpy :: "cstr \<Rightarrow> cstr \<Rightarrow> u64 \<Rightarrow> (cstr \<times> nat) option" where
  "VG_strlcpy dst src n = do {
     (dst, s) \<leftarrow> strlcpy_loop n 0 dst src;
     k \<leftarrow> VG_strlen s;
     Some (dst, length src - length s + k)
   }"

fun VG_strcmp :: "cstr \<Rightarrow> cstr \<Rightarrow> int option" where
  "VG_strcmp (c1 # s1) (c2 # s2) =
     (if c1 < c2 then Some (-1) else if c1 > c2 then Some 1
      else if c1 = 0 then Some 0 else VG_strcmp s1 s2)"
| "VG_strcmp _ _ = None"

fun VG_strcasecmp :: "cstr \<Rightarrow> cstr \<Rightarrow> int option" where
  "VG_strcasecmp (x1 # s1) (x2 # s2) =
     (let c1 = VG_tolower x1; c2 = VG_tolower x2
      in if c1 < c2 then Some (-1) else if c1 > c2 then Some 1
         else if c1 = 0 then Some 0 else VG_strcasecmp s1 s2)"
| "VG_strcasecmp _ _ = None"

fun VG_strncmp :: "cstr \<Rightarrow> cstr \<Rightarrow> nat \<Rightarrow> int option" where
  "VG_strncmp s1 s2 0 = Some 0"
| "VG_strncmp (c1 # s1) (c2 # s2) (Suc n) =
     (if c1 < c2 then Some (-1) else if c1 > c2 then Some 1
      else if c1 = 0 then Some 0 else VG_strncmp s1 s2 n)"
| "VG_strncmp _ _ (Suc n) = None"

fun VG_strncasecmp :: "cstr \<Rightarrow> cstr \<Rightarrow> nat \<Rightarrow> int option" where
  "VG_strncasecmp s1 s2 0 = Some 0"
| "VG_strncasecmp (x1 # s1) (x2 # s2) (Suc n) =
     (let c1 = VG_tolower x1; c2 = VG_tolower x2
      in if c1 < c2 then Some (-1) else if c1 > c2 then Some 1
         else if c1 = 0 then Some 0 else VG_strncasecmp s1 s2 n)"
| "VG_strncasecmp _ _ (Suc n) = None"

text \<open>Search functions return the rest of the string from the match on, or \<^verbatim>\<open>NULL\<close>.\<close>

fun search_loop :: "(cstr \<Rightarrow> int option) \<Rightarrow> cstr \<Rightarrow> cstr option option" where
  "search_loop cmp [] = None"
| "search_loop cmp (c # s) =
     (if c = 0 then Some None
      else (case cmp (c # s) of None \<Rightarrow> None
              | Some r \<Rightarrow> if r = 0 then Some (Some (c # s)) else search_loop cmp s))"

definition VG_strstr :: "cstr option \<Rightarrow> cstr \<Rightarrow> cstr option option" where
  "VG_strstr haystack needle =
     (case haystack of None \<Rightarrow> Some None
      | Some h \<Rightarrow> do { n \<leftarrow> VG_strlen needle; search_loop (\<lambda>s. VG_strncmp s needle n) h })"

definition VG_strcasestr :: "cstr option \<Rightarrow> cstr \<Rightarrow> cstr option option" where
  "VG_strcasestr haystack needle =
     (case haystack of None \<Rightarrow> Some None
      | Some h \<Rightarrow> do { n \<leftarrow> VG_strlen needle; search_loop (\<lambda>s. VG_strncasecmp s needle n) h })"

fun VG_strchr :: "cstr \<Rightarrow> u8 \<Rightarrow> cstr option option" where
  "VG_strchr [] c = None"
| "VG_strchr (x # s) c =
     (if x = c then Some (Some (x # s)) else if x = 0 then Some None else VG_strchr s c)"

text \<open>\<^verbatim>\<open>while (--n > 0) if (s[n] == c) return s + n;\<close> with \<open>n\<close> the length of the string.\<close>

fun strrchr_loop :: "cstr \<Rightarrow> u8 \<Rightarrow> nat \<Rightarrow> cstr option" where
  "strrchr_loop s c 0 = None"
| "strrchr_loop s c (Suc n) =
     (if n > 0 then (if s ! n = c then Some (drop n s) else strrchr_loop s c n) else None)"

definition VG_strrchr :: "cstr \<Rightarrow> u8 \<Rightarrow> cstr option option" where
  "VG_strrchr s c = map_option (strrchr_loop s c) (VG_strlen s)"

text \<open>The inner loop of \<^verbatim>\<open>strpbrk\<close> and \<^verbatim>\<open>strspn\<close>: does \<open>c\<close> occur in the set?\<close>

fun char_in :: "u8 \<Rightarrow> cstr \<Rightarrow> bool option" where
  "char_in c [] = None"
| "char_in c (a # s) = (if a = 0 then Some False else if a = c then Some True else char_in c s)"

fun VG_strpbrk :: "cstr \<Rightarrow> cstr \<Rightarrow> cstr option option" where
  "VG_strpbrk [] accpt = None"
| "VG_strpbrk (c # s) accpt =
     (if c = 0 then Some None
      else (case char_in c accpt of None \<Rightarrow> None
              | Some b \<Rightarrow> if b then Some (Some (c # s)) else VG_strpbrk s accpt))"

fun VG_strspn :: "cstr \<Rightarrow> cstr \<Rightarrow> nat option" where
  "VG_strspn [] accpt = None"
| "VG_strspn (c # s) accpt =
     (if c = 0 then Some 0
      else (case char_in c accpt of None \<Rightarrow> None
              | Some b \<Rightarrow> if b then map_option Suc (VG_strspn s accpt) else Some 0))"

fun VG_strcspn :: "cstr \<Rightarrow> cstr \<Rightarrow> nat option" where
  "VG_strcspn [] reject = None"
| "VG_strcspn (c # s) reject =
     (if c = 0 then Some 0
      else (case VG_strchr reject c of None \<Rightarrow> None
              | Some None \<Rightarrow> map_option Suc (VG_strcspn s reject) | Some (Some p) \<Rightarrow> Some 0))"

text \<open>
  \<^verbatim>\<open>strtok_r\<close> writes NULs into the string it splits, so it works on the whole buffer and on offsets into
  it: the state is the buffer and \<^verbatim>\<open>*saveptr\<close>, the result the offset of the token.
\<close>

definition VG_strtok_r :: "nat option \<Rightarrow> cstr \<Rightarrow> cstr \<times> nat \<Rightarrow> (nat option \<times> cstr \<times> nat) option" where
  "VG_strtok_r s delim = (\<lambda>(buf, saveptr). do {
     let s = (case s of None \<Rightarrow> saveptr | Some p \<Rightarrow> p);
     k \<leftarrow> VG_strspn (drop s buf) delim;
     let token = s + k;
     if token < length buf then
       if buf ! token = 0 then Some (None, buf, token)
       else do {
         e \<leftarrow> VG_strpbrk (drop token buf) delim;
         case e of
           None \<Rightarrow> do { l \<leftarrow> VG_strlen (drop token buf); Some (Some token, buf, token + l) }
         | Some r \<Rightarrow>
             let p = length buf - length r in Some (Some token, buf[p := 0], p + 1)
       }
     else None
   })"

text \<open>\<^verbatim>\<open>strtok\<close> keeps the pointer in the static variable \<^verbatim>\<open>olds\<close>.\<close>

definition VG_strtok :: "nat option \<Rightarrow> cstr \<Rightarrow> cstr \<times> nat \<Rightarrow> (nat option \<times> cstr \<times> nat) option" where
  "VG_strtok s delim = (\<lambda>(buf, olds). VG_strtok_r s delim (buf, olds))"

text \<open>
  \<^verbatim>\<open>parse_enum_set\<close>: the loop \<^verbatim>\<open>for (t = strtok_r(buf, ","); t; t = strtok_r(NULL, ","))\<close>, with a bound on
  the number of rounds that the length of the buffer makes sufficient (each token ends at least one byte
  further on).
\<close>

fun tok_loop :: "nat \<Rightarrow> (cstr \<Rightarrow> 's \<Rightarrow> 's option) \<Rightarrow> nat option \<Rightarrow> cstr \<times> nat \<Rightarrow> 's \<Rightarrow> 's option" where
  "tok_loop 0 body first st s = None"
| "tok_loop (Suc fuel) body first st s =
     (case VG_strtok_r first [44, 0] st of
        None \<Rightarrow> None
      | Some (None, st') \<Rightarrow> Some s
      | Some (Some t, buf, saveptr) \<Rightarrow>
          (case body (drop t buf) s of None \<Rightarrow> None
             | Some s' \<Rightarrow> tok_loop fuel body None (buf, saveptr) s'))"

record enum_state =
  es_set :: u32
  es_all :: u32
  es_token_nr :: nat
  es_word_nr :: nat
  es_known :: nat
  es_seen_all :: bool
  es_seen_none :: bool

text \<open>\<^verbatim>\<open>1 << token_nr\<close>, which C defines for less than 32 tokens only.\<close>

definition token_bit :: "nat \<Rightarrow> u32 option" where
  "token_bit n = (if n < 32 then Some (push_bit n 1) else None)"

definition enum_token :: "cstr \<Rightarrow> cstr \<Rightarrow> enum_state \<Rightarrow> enum_state option" where
  "enum_token input_word token es = do {
     dash \<leftarrow> VG_strcmp token [45, 0];
     es \<leftarrow> (if dash \<noteq> 0 then do {
              bit \<leftarrow> token_bit (es_token_nr es);
              eq \<leftarrow> VG_strcmp input_word token;
              let es = (if eq = 0 then es\<lparr>es_set := es_set es OR bit, es_known := Suc (es_known es)\<rparr> else es);
              Some (es\<lparr>es_all := es_all es OR bit\<rparr>)
            } else Some es);
     Some (es\<lparr>es_token_nr := Suc (es_token_nr es)\<rparr>)
   }"

definition enum_word :: "cstr \<Rightarrow> bool \<Rightarrow> cstr \<Rightarrow> enum_state \<Rightarrow> enum_state option" where
  "enum_word tokens allow_all input_word es = do {
     let es = es\<lparr>es_word_nr := Suc (es_word_nr es)\<rparr>;
     all_kw \<leftarrow> (if allow_all then VG_strcmp input_word [97, 108, 108, 0] else Some 1);
     none_kw \<leftarrow> (if all_kw = 0 then Some 1 else VG_strcmp input_word [110, 111, 110, 101, 0]);
     let es = (if all_kw = 0 then es\<lparr>es_seen_all := True, es_known := Suc (es_known es)\<rparr>
               else if none_kw = 0 then es\<lparr>es_seen_none := True, es_known := Suc (es_known es)\<rparr>
               else es);
     len \<leftarrow> VG_strlen tokens;
     tok_tokens \<leftarrow> VG_strcpy (replicate (len + 1) 0) tokens;
     tok_loop (length tok_tokens + 1) (enum_token input_word) (Some 0) (tok_tokens, 0)
       (es\<lparr>es_all := 0, es_token_nr := 0\<rparr>)
   }"

text \<open>The result is the success flag and \<^verbatim>\<open>*enum_set\<close>, which is left alone when an argument is too long.\<close>

definition VG_parse_enum_set :: "cstr \<Rightarrow> bool \<Rightarrow> cstr \<Rightarrow> u32 \<Rightarrow> (bool \<times> u32) option" where
  "VG_parse_enum_set tokens allow_all input enum_set0 = do {
     tokens_len \<leftarrow> VG_strlen tokens;
     if int tokens_len > 1000 then Some (False, enum_set0)
     else do {
       input_len \<leftarrow> VG_strlen input;
       if int input_len > 1000 then Some (False, enum_set0)
       else do {
         tok_input \<leftarrow> VG_strcpy (replicate (input_len + 1) 0) input;
         es \<leftarrow> tok_loop (length tok_input + 1) (enum_word tokens allow_all) (Some 0) (tok_input, 0)
           \<lparr>es_set = 0, es_all = 0, es_token_nr = 0, es_word_nr = 0, es_known = 0,
            es_seen_all = False, es_seen_none = False\<rparr>;
         Some (if es_known es \<noteq> es_word_nr es then (False, es_set es)
               else if es_seen_all es then
                 (if es_seen_none es \<or> es_set es \<noteq> 0 then (False, es_set es) else (True, es_all es))
               else if es_seen_none es then
                 (if es_seen_all es \<or> es_set es \<noteq> 0 then (False, es_set es) else (True, 0))
               else if es_set es = 0 then (False, es_set es) else (True, es_set es))
       }
     }
   }"

end
