(* ===== verification/Libc_Str_Props.thy ===== *)
theory Libc_Str_Props
  imports Libc_Str "HOL-Library.Sublist"
begin

text \<open>
  What the string functions promise on NUL-terminated strings. A string argument is written
  \<open>xs @ 0 # r\<close> with \<open>0\<close> not in \<open>xs\<close>: the characters, the terminator, and whatever follows it in the object.
\<close>

section \<open>Comparison\<close>

definition byte_less :: "(u8 \<times> u8) set" where
  "byte_less = {(a, b). a < b}"

lemma strcmp_string:
  assumes "0 \<notin> set xs" "0 \<notin> set ys"
  shows "VG_strcmp (xs @ 0 # r) (ys @ 0 # r') =
     Some (if xs = ys then 0 else if (xs, ys) \<in> lexord byte_less then -1 else 1)"
  using assms
proof (induction xs arbitrary: ys)
  case Nil
  then show ?case by (cases ys) (auto simp: word_gt_0)
next
  case (Cons x xs)
  show ?case
  proof (cases ys)
    case Nil
    with Cons.prems show ?thesis by (auto simp: word_gt_0 not_less)
  next
    case (Cons y ys')
    with Cons.prems Cons.IH[of ys'] show ?thesis by (auto simp: byte_less_def)
  qed
qed

lemma strncmp_string:
  assumes "0 \<notin> set xs" "0 \<notin> set ys"
  shows "VG_strncmp (xs @ 0 # r) (ys @ 0 # r') n =
     Some (if take n xs = take n ys then 0
           else if (take n xs, take n ys) \<in> lexord byte_less then -1 else 1)"
  using assms
proof (induction xs arbitrary: ys n)
  case Nil
  then show ?case by (cases ys; cases n) (auto simp: word_gt_0)
next
  case (Cons x xs)
  show ?case
  proof (cases "n = 0 \<or> ys = []")
    case True
    with Cons.prems show ?thesis by (cases n) (auto simp: word_gt_0 not_less)
  next
    case False
    then obtain y ys' m where "ys = y # ys'" "n = Suc m"
      by (metis list.exhaust not0_implies_Suc)
    with Cons.prems Cons.IH[of ys' m] show ?thesis by (auto simp: byte_less_def)
  qed
qed

lemma strlen_string: "0 \<notin> set xs \<Longrightarrow> VG_strlen (xs @ 0 # r) = Some (length xs)"
  by (induction xs) auto

text \<open>
  \<^verbatim>\<open>strcmp\<close> is the comparison of a total order: 0 exactly for equal strings, otherwise -1 or 1 as the
  first string comes before or after the second in the dictionary order of unsigned bytes; it never reads past
  the terminators.
\<close>

theorem strcmp_lexicographic:
  assumes "0 \<notin> set xs" "0 \<notin> set ys"
  shows "VG_strcmp (xs @ 0 # r) (ys @ 0 # r') =
     Some (if xs = ys then 0 else if (xs, ys) \<in> lexord byte_less then -1 else 1)"
  using strcmp_string[OF assms] .

theorem strcmp_lexicographic_witness:
  "VG_strcmp ([97, 98] @ 0 # []) ([97, 200] @ 0 # []) = Some (-1)"
  using strcmp_lexicographic[of "[97, 98]" "[97, 200]" "[]" "[]"] by (simp add: byte_less_def)


section \<open>Search\<close>

lemma strncmp_prefix:
  assumes "0 \<notin> set hs" "0 \<notin> set ns"
  shows "VG_strncmp (hs @ 0 # r) (ns @ 0 # r') (length ns) = Some 0 \<longleftrightarrow> prefix ns hs"
  using strncmp_string[OF assms, of r r' "length ns"]
  by (auto simp: prefix_def) (metis append_take_drop_id)

lemma strncmp_total:
  assumes "0 \<notin> set hs" "0 \<notin> set ns"
  shows "\<exists>k. VG_strncmp (hs @ 0 # r) (ns @ 0 # r') n = Some k"
  using strncmp_string[OF assms, of r r' n] by blast

lemma find_upt_Suc: "find P [Suc 0..<Suc n] = map_option Suc (find (\<lambda>i. P (Suc i)) [0..<n])"
proof -
  have "find P (map Suc xs) = map_option Suc (find (\<lambda>i. P (Suc i)) xs)" for xs
    by (induction xs) auto
  then show ?thesis by (metis map_Suc_upt)
qed

lemma search_loop_string:
  assumes "0 \<notin> set hs" "0 \<notin> set ns"
  shows "search_loop (\<lambda>s. VG_strncmp s (ns @ 0 # r') (length ns)) (hs @ 0 # r) =
     Some (map_option (\<lambda>i. drop i (hs @ 0 # r)) (find (\<lambda>i. prefix ns (drop i hs)) [0..<length hs]))"
  using assms(1)
proof (induction hs)
  case (Cons h hs)
  obtain k where k: "VG_strncmp ((h # hs) @ 0 # r) (ns @ 0 # r') (length ns) = Some k"
    using strncmp_total[OF Cons.prems assms(2)] by blast
  have "k = 0 \<longleftrightarrow> prefix ns (h # hs)"
    using strncmp_prefix[OF Cons.prems assms(2), of r r'] k by simp
  moreover have "[0..<length (h # hs)] = 0 # [Suc 0..<Suc (length hs)]"
    by (simp add: upt_conv_Cons del: upt_Suc)
  ultimately show ?case
    using Cons k by (auto simp: find_upt_Suc option.map_comp comp_def simp del: upt_Suc)
qed simp

text \<open>
  \<^verbatim>\<open>strstr\<close> returns the first place of the haystack at which the needle stands, and \<^verbatim>\<open>NULL\<close> when there is
  none; the places it considers are those before the terminator (so an empty haystack never matches).
\<close>

theorem strstr_first_match:
  assumes "0 \<notin> set hs" "0 \<notin> set ns"
  shows "VG_strstr (Some (hs @ 0 # r)) (ns @ 0 # r') =
     Some (map_option (\<lambda>i. drop i (hs @ 0 # r)) (find (\<lambda>i. prefix ns (drop i hs)) [0..<length hs]))"
  using search_loop_string[OF assms] strlen_string[OF assms(2)] by (simp add: VG_strstr_def)

theorem strstr_first_match_witness:
  "VG_strstr (Some ([97, 98, 97, 99] @ 0 # [])) ([97, 99] @ 0 # []) = Some (Some [97, 99, 0])"
  using strstr_first_match[of "[97, 98, 97, 99]" "[97, 99]" "[]" "[]"]
  by (simp add: upt_rec)

lemma strrchr_loop_bound:
  "strrchr_loop s c n =
     map_option (\<lambda>i. drop i s) (find (\<lambda>i. s ! i = c) (rev [1..<n]))"
proof (induction n)
  case (Suc n)
  then show ?case by (cases n) auto
qed simp

text \<open>
  \<^verbatim>\<open>strrchr\<close> returns the last occurrence of the character at an index other than 0; its loop
  (\<^verbatim>\<open>while (--n > 0)\<close>) stops before the first character, so a match there is missed.
\<close>

theorem strrchr_misses_first:
  assumes "0 \<notin> set (x # xs)"
  shows "VG_strrchr (x # xs @ 0 # r) c =
     Some (map_option (\<lambda>i. drop i (x # xs @ 0 # r))
             (find (\<lambda>i. (x # xs @ 0 # r) ! i = c) (rev [1..<Suc (length xs)]))) \<and>
   (c \<notin> set xs \<longrightarrow> VG_strrchr (x # xs @ 0 # r) c = Some None)"
proof -
  have eq: "VG_strrchr (x # xs @ 0 # r) c =
     Some (map_option (\<lambda>i. drop i (x # xs @ 0 # r))
             (find (\<lambda>i. (x # xs @ 0 # r) ! i = c) (rev [1..<Suc (length xs)])))"
    using strlen_string[OF assms, of r] by (simp add: VG_strrchr_def strrchr_loop_bound del: upt_Suc)
  have "find (\<lambda>i. (x # xs @ 0 # r) ! i = c) (rev [1..<Suc (length xs)]) = None" if "c \<notin> set xs"
    using that by (auto simp: find_None_iff nth_Cons' nth_append)
  with eq show ?thesis by auto
qed

theorem strrchr_misses_first_witness:
  "VG_strrchr [47, 97, 0] 47 = Some None"
  using strrchr_misses_first[of 47 "[97]" "[]" 47] by simp


section \<open>Numbers\<close>

definition dec_char :: "nat \<Rightarrow> u8" where
  "dec_char d = 48 + of_nat d"

definition dec_value :: "nat list \<Rightarrow> nat" where
  "dec_value ds = foldl (\<lambda>n d. 10 * n + d) 0 ds"

lemma dec_value_snoc [simp]: "dec_value (ds @ [d]) = 10 * dec_value ds + d"
  by (simp add: dec_value_def)

lemma dec_value_bound: "\<forall>d \<in> set ds. d < 10 \<Longrightarrow> dec_value ds < 10 ^ length ds"
  by (induction ds rule: rev_induct) (auto simp: dec_value_def)

lemma unat_dec_char: "d < 10 \<Longrightarrow> unat (dec_char d) = 48 + d"
  by (simp add: dec_char_def unat_word_ariths unat_of_nat)

lemma dec_char_digit [simp]: "d < 10 \<Longrightarrow> VG_isdigit (dec_char d)"
  by (simp add: VG_isdigit_def word_le_nat_alt unat_dec_char)

lemma dec_char_ucast: "d < 10 \<Longrightarrow> (ucast (dec_char d) :: u64) = 48 + of_nat d"
  by (simp add: word_unat_eq_iff unat_dec_char unat_word_ariths unat_of_nat unat_ucast_mod)

text \<open>The loop of \<^verbatim>\<open>parse_UInt\<close> on the digits that remain after \<open>es\<close>, which it has read.\<close>

lemma uint_loop_digits:
  assumes "\<forall>d \<in> set ds. d < 10" "\<not> VG_isdigit c" "length es + length ds \<le> 10"
  shows "uint_loop (map dec_char ds @ c # r) (of_nat (dec_value es)) (length es) =
     Some (True, c # r, of_nat (dec_value (es @ ds)), length es + length ds)"
  using assms
proof (induction ds arbitrary: es)
  case (Cons d ds)
  have "of_nat (dec_value es) * 10 + ucast (dec_char d) - (48 :: u64) = of_nat (dec_value (es @ [d]))"
    using Cons.prems by (simp add: dec_char_ucast)
  note step = this
  from Cons.IH[of "es @ [d]"] Cons.prems show ?case
    by (simp add: Let_def step del: dec_value_snoc)
qed simp

lemma uint_loop_long:
  assumes "\<forall>d \<in> set ds. d < 10" "\<not> VG_isdigit c" "length ds > 10 - u" "u \<le> 10"
  shows "\<exists>res used. uint_loop (map dec_char ds @ c # r) res64 u =
     Some (False, drop (11 - u) (map dec_char ds @ c # r), res, used)"
  using assms
proof (induction ds arbitrary: u res64)
  case (Cons d ds)
  show ?case
  proof (cases "u = 10")
    case False
    with Cons.prems have "Suc u \<le> 10" "11 - u = Suc (11 - Suc u)" by auto
    with Cons.IH[of "Suc u" "res64 * 10 + ucast (dec_char d) - 48"] Cons.prems False
    show ?thesis by (auto simp: Let_def)
  qed (use Cons.prems in \<open>simp add: Let_def\<close>)
qed simp

lemma of_nat_fits_32: "n < 10 ^ 10 \<Longrightarrow> drop_bit 32 (of_nat n :: u64) = 0 \<longleftrightarrow> n < 2 ^ 32"
  unfolding word_unat_eq_iff unat_drop_bit_div by (simp add: unat_of_nat div_eq_0_iff)





section \<open>Copying\<close>

text \<open>
  The loop of \<^verbatim>\<open>strlcpy\<close> copies while \<^verbatim>\<open>m < n - 1\<close>, where \<open>n - 1\<close> is taken in 64 bits: \<open>b\<close> below is that bound.
\<close>

lemma strlcpy_loop_string:
  assumes "0 \<notin> set xs" "b = unat (n - 1)" "unat m \<le> b"
    and "min (length xs) (b - unat m) < length dst"
  shows "strlcpy_loop n m dst (xs @ 0 # r) =
     (let k = min (length xs) (b - unat m)
      in Some (take k xs @ (if n > 0 then 0 # drop (Suc k) dst else drop k dst), drop k (xs @ 0 # r)))"
  using assms(1,3,4)
proof (induction xs arbitrary: m dst)
  case Nil
  then show ?case by (cases dst) auto
next
  case (Cons x xs)
  obtain d dst' where dst: "dst = d # dst'" using Cons.prems by (cases dst) auto
  show ?case
  proof (cases "unat m < b")
    case True
    then have lt: "m < n - 1" by (simp add: assms(2) word_less_nat_alt)
    have "unat (m + 1) = Suc (unat m)"
      using True unat_bound[of "n - 1"] by (simp add: assms(2) unat_word_ariths)
    moreover have "b - unat m = Suc (b - Suc (unat m))" using True by simp
    ultimately show ?thesis
      using Cons.IH[of "m + 1" dst'] Cons.prems True lt dst by (auto simp: Let_def)
  next
    case False
    then have "\<not> m < n - 1" by (simp add: assms(2) word_less_nat_alt)
    with False dst show ?thesis by (auto simp: Let_def)
  qed
qed

text \<open>
  For \<open>n > 0\<close>, \<^verbatim>\<open>strlcpy\<close> stores the longest prefix of the source that fits in \<open>n - 1\<close> characters, always
  with a terminator, touches nothing behind it, and returns the length of the source. For \<open>n = 0\<close> the bound
  \<open>n - 1\<close> wraps: the whole source is stored, without a terminator, although nothing should be.
\<close>

theorem strlcpy_truncates:
  assumes "0 \<notin> set xs" "length xs < length dst"
  shows "(0 < n \<longrightarrow> VG_strlcpy dst (xs @ 0 # r) n =
            Some (let k = min (length xs) (unat n - 1) in take k xs @ 0 # drop (Suc k) dst, length xs)) \<and>
         (length xs < 2 ^ 64 \<longrightarrow> VG_strlcpy dst (xs @ 0 # r) 0 = Some (xs @ drop (length xs) dst, length xs))"
proof (intro conjI impI)
  have rest: "VG_strlen (drop j (xs @ 0 # r)) = Some (length xs - j)" if "j \<le> length xs" for j
    using that assms(1) strlen_string[of "drop j xs" r] by (auto dest: in_set_dropD)
  show "VG_strlcpy dst (xs @ 0 # r) n =
      Some (let k = min (length xs) (unat n - 1) in take k xs @ 0 # drop (Suc k) dst, length xs)" if "0 < n"
  proof -
    have "unat (n - 1) = unat n - 1" using that by (simp add: unat_minus_one word_gt_0)
    with that assms strlcpy_loop_string[of xs "unat n - 1" n 0 dst r] rest[of "min (length xs) (unat n - 1)"]
    show ?thesis by (simp add: VG_strlcpy_def Let_def)
  qed
  show "VG_strlcpy dst (xs @ 0 # r) 0 = Some (xs @ drop (length xs) dst, length xs)" if "length xs < 2 ^ 64"
  proof -
    have "min (length xs) (unat (0 - 1 :: u64)) = length xs" using that by (simp add: unat_minus_1)
    with assms strlcpy_loop_string[of xs "unat (0 - 1 :: u64)" 0 0 dst r] rest[of "length xs"]
    show ?thesis by (simp add: VG_strlcpy_def Let_def)
  qed
qed

theorem strlcpy_truncates_witness:
  "VG_strlcpy [9, 9, 9, 9] [97, 98, 99, 0] 3 = Some ([97, 98, 0, 9], 3) \<and>
   VG_strlcpy [9, 9, 9, 9] [97, 98, 99, 0] 0 = Some ([97, 98, 99, 9], 3)"
  using strlcpy_truncates[of "[97, 98, 99]" "[9, 9, 9, 9]" 3 "[]"] by simp

end
