(* ===== verification/Libc_Mem.thy ===== *)
theory Libc_Mem
  imports Prelude
begin

text \<open>
  The memory functions of Valgrind's private C library, \<^verbatim>\<open>coregrind/m_libcbase.c\<close>: \<^verbatim>\<open>memcpy\<close>, \<^verbatim>\<open>memmove\<close>,
  \<^verbatim>\<open>memset\<close>, \<^verbatim>\<open>memcmp\<close>, the logarithms, the random number generator and the Adler-32 checksum.

  Source and destination may overlap, so both are offsets into one memory, a list of bytes whose first byte
  has an address divisible by four; an access outside it fails. A read through a \<^verbatim>\<open>UInt*\<close> takes four bytes at
  once, a read through a \<^verbatim>\<open>UChar*\<close> one.
\<close>

type_synonym bytes = "u8 list"

section \<open>Memory accesses\<close>

definition rd :: "nat \<Rightarrow> bytes \<Rightarrow> nat \<Rightarrow> bytes option" where
  "rd k mem i = (if i + k \<le> length mem then Some (take k (drop i mem)) else None)"

definition wr :: "bytes \<Rightarrow> nat \<Rightarrow> bytes \<Rightarrow> bytes option" where
  "wr mem i bs = (if i + length bs \<le> length mem
     then Some (take i mem @ bs @ drop (i + length bs) mem) else None)"

text \<open>\<^verbatim>\<open>*d = *s\<close> for an object of \<open>k\<close> bytes.\<close>

definition cpy :: "nat \<Rightarrow> bytes \<Rightarrow> nat \<Rightarrow> nat \<Rightarrow> bytes option" where
  "cpy k mem d s = Option.bind (rd k mem s) (wr mem d)"

definition le32 :: "u32 \<Rightarrow> bytes" where
  "le32 w = [ucast w, ucast (drop_bit 8 w), ucast (drop_bit 16 w), ucast (drop_bit 24 w)]"


section \<open>Copying\<close>

text \<open>Four objects of \<open>k\<close> bytes in a row: the unrolled bodies \<^verbatim>\<open>d[0] = s[0]; ... d[3] = s[3];\<close>.\<close>

definition cpy_4x :: "nat \<Rightarrow> bytes \<Rightarrow> nat \<Rightarrow> nat \<Rightarrow> bytes option" where
  "cpy_4x k mem d s = foldO (\<lambda>i m. cpy k m (d + i * k) (s + i * k)) [0..<4] mem"

text \<open>A loop \<^verbatim>\<open>while (sz >= u) { body; sz -= u; d += u; s += u; }\<close>.\<close>

function cpy_while :: "nat \<Rightarrow> (bytes \<Rightarrow> nat \<Rightarrow> nat \<Rightarrow> bytes option) \<Rightarrow> bytes \<times> nat \<times> nat \<times> nat
    \<Rightarrow> (bytes \<times> nat \<times> nat \<times> nat) option" where
  "cpy_while u body (mem, d, s, sz) =
     (if u = 0 \<or> sz < u then Some (mem, d, s, sz)
      else (case body mem d s of None \<Rightarrow> None
              | Some mem' \<Rightarrow> cpy_while u body (mem', d + u, s + u, sz - u)))"
  by pat_completeness auto
termination by (relation "measure (\<lambda>(u, body, mem, d, s, sz). sz)") auto

definition VG_memcpy :: "bytes \<Rightarrow> nat \<Rightarrow> nat \<Rightarrow> nat \<Rightarrow> bytes option" where
  "VG_memcpy mem dest src sz = do {
     (mem, d, s, sz) \<leftarrow>
       (if dest mod 4 = 0 \<and> src mod 4 = 0
        then do {
          st \<leftarrow> cpy_while 16 (cpy_4x 4) (mem, dest, src, sz);
          cpy_while 4 (cpy 4) st
        }
        else Some (mem, dest, src, sz));
     st \<leftarrow> cpy_while 4 (cpy_4x 1) (mem, d, s, sz);
     (mem, d, s, sz) \<leftarrow> cpy_while 1 (cpy 1) st;
     Some mem
   }"

definition VG_memmove :: "bytes \<Rightarrow> nat \<Rightarrow> nat \<Rightarrow> nat \<Rightarrow> bytes option" where
  "VG_memmove mem dest src sz =
     (if sz = 0 then Some mem
      else if dest < src then foldO (\<lambda>i m. cpy 1 m (dest + i) (src + i)) [0..<sz] mem
      else if dest > src then foldO (\<lambda>i m. cpy 1 m (dest + (sz - i - 1)) (src + (sz - i - 1))) [0..<sz] mem
      else Some mem)"


section \<open>Filling and comparing\<close>

fun set_align :: "u8 \<Rightarrow> bytes \<Rightarrow> nat \<Rightarrow> nat \<Rightarrow> (bytes \<times> nat \<times> nat) option" where
  "set_align uc mem d 0 = Some (mem, d, 0)"
| "set_align uc mem d (Suc sz) =
     (if d mod 4 \<noteq> 0
      then (case wr mem d [uc] of None \<Rightarrow> None | Some mem' \<Rightarrow> set_align uc mem' (d + 1) sz)
      else Some (mem, d, Suc sz))"

function set_while :: "nat \<Rightarrow> (bytes \<Rightarrow> nat \<Rightarrow> bytes option) \<Rightarrow> bytes \<times> nat \<times> nat
    \<Rightarrow> (bytes \<times> nat \<times> nat) option" where
  "set_while u body (mem, d, sz) =
     (if u = 0 \<or> sz < u then Some (mem, d, sz)
      else (case body mem d of None \<Rightarrow> None | Some mem' \<Rightarrow> set_while u body (mem', d + u, sz - u)))"
  by pat_completeness auto
termination by (relation "measure (\<lambda>(u, body, mem, d, sz). sz)") auto

definition VG_memset :: "bytes \<Rightarrow> nat \<Rightarrow> u32 \<Rightarrow> nat \<Rightarrow> bytes option" where
  "VG_memset mem destV c sz = do {
     let uc = (ucast c :: u8);
     (mem, d, sz) \<leftarrow> set_align uc mem destV sz;
     if sz = 0 then Some mem
     else do {
       let c4 = (ucast uc :: u32);
       let c4 = c4 OR push_bit 8 c4;
       let c4 = c4 OR push_bit 16 c4;
       st \<leftarrow> set_while 16 (\<lambda>mem d. foldO (\<lambda>i m. wr m (d + i * 4) (le32 c4)) [0..<4] mem) (mem, d, sz);
       st \<leftarrow> set_while 4 (\<lambda>mem d. wr mem d (le32 c4)) st;
       (mem, d, sz) \<leftarrow> set_while 1 (\<lambda>mem d. wr mem d [ucast c]) st;
       Some mem
     }
   }"

fun VG_memcmp :: "bytes \<Rightarrow> bytes \<Rightarrow> nat \<Rightarrow> int option" where
  "VG_memcmp s1 s2 0 = Some 0"
| "VG_memcmp (a0 # p1) (b0 # p2) (Suc n) =
     (let res = uint a0 - uint b0 in if res \<noteq> 0 then Some res else VG_memcmp p1 p2 n)"
| "VG_memcmp _ _ (Suc n) = None"


section \<open>Logarithms and random numbers\<close>

definition VG_log2 :: "u32 \<Rightarrow> int" where
  "VG_log2 x = (case find (\<lambda>i. push_bit i 1 = x) [0..<32] of Some i \<Rightarrow> int i | None \<Rightarrow> -1)"

definition VG_log2_64 :: "u64 \<Rightarrow> int" where
  "VG_log2_64 x = (case find (\<lambda>i. push_bit i 1 = x) [0..<64] of Some i \<Rightarrow> int i | None \<Rightarrow> -1)"

text \<open>The seed is \<^verbatim>\<open>*pSeed\<close> or, when that is \<^verbatim>\<open>NULL\<close>, the static one; the result, \<^verbatim>\<open>*pSeed\<close> and the static seed.\<close>

definition VG_random :: "u32 option \<Rightarrow> u32 \<Rightarrow> u32 \<times> u32 option \<times> u32" where
  "VG_random pSeed seed =
     (case pSeed of
        None \<Rightarrow> (let s = 1103515245 * seed + 12345 in (s, None, s))
      | Some p \<Rightarrow> (let s = 1103515245 * p + 12345 in (s, Some s, seed)))"


section \<open>Adler-32\<close>

text \<open>\<^verbatim>\<open>BASE\<close> is an \<^verbatim>\<open>unsigned long\<close>, but every value it meets fits in 32 bits.\<close>

definition adler_BASE :: u32 where
  "adler_BASE = 65521"

definition adler_NMAX :: nat where
  "adler_NMAX = 5552"

text \<open>One line of the macros \<^verbatim>\<open>MOD\<close> and \<^verbatim>\<open>MOD4\<close>, and the macros.\<close>

definition mod_line :: "nat \<Rightarrow> u32 \<Rightarrow> u32" where
  "mod_line k a = (if a \<ge> push_bit k adler_BASE then a - push_bit k adler_BASE else a)"

definition adler_MOD :: "u32 \<Rightarrow> u32" where
  "adler_MOD a = fold mod_line [16, 15, 14, 13, 12, 11, 10, 9, 8, 7, 6, 5, 4, 3, 2, 1, 0] a"

definition adler_MOD4 :: "u32 \<Rightarrow> u32" where
  "adler_MOD4 a = fold mod_line [4, 3, 2, 1, 0] a"

text \<open>
  The sums are the pair \<open>(adler, sum2)\<close>. \<open>adler_bytes\<close> is the loop \<^verbatim>\<open>while (len--)\<close>, \<open>adler_DO16\<close> the unrolled
  macro; both return the rest of the buffer.
\<close>

definition adler_DO1 :: "u8 \<Rightarrow> u32 \<times> u32 \<Rightarrow> u32 \<times> u32" where
  "adler_DO1 b = (\<lambda>(adler, sum2). let adler = adler + ucast b in (adler, sum2 + adler))"

fun adler_bytes :: "nat \<Rightarrow> bytes \<Rightarrow> u32 \<times> u32 \<Rightarrow> (bytes \<times> u32 \<times> u32) option" where
  "adler_bytes 0 buf s = Some (buf, s)"
| "adler_bytes (Suc n) [] s = None"
| "adler_bytes (Suc n) (b # buf) s = adler_bytes n buf (adler_DO1 b s)"

definition adler_DO16 :: "bytes \<Rightarrow> u32 \<times> u32 \<Rightarrow> (bytes \<times> u32 \<times> u32) option" where
  "adler_DO16 buf s =
     (if length buf < 16 then None else Some (drop 16 buf, fold adler_DO1 (take 16 buf) s))"

fun adler_blocks :: "nat \<Rightarrow> bytes \<Rightarrow> u32 \<times> u32 \<Rightarrow> (bytes \<times> u32 \<times> u32) option" where
  "adler_blocks 0 buf s = Some (buf, s)"
| "adler_blocks (Suc n) buf s =
     (case adler_DO16 buf s of None \<Rightarrow> None | Some (buf', s') \<Rightarrow> adler_blocks n buf' s')"

definition adler_reduce :: "u32 \<times> u32 \<Rightarrow> u32 \<times> u32" where
  "adler_reduce = (\<lambda>(adler, sum2). (adler_MOD adler, adler_MOD sum2))"

function adler_NMAX_loop :: "nat \<Rightarrow> bytes \<Rightarrow> u32 \<times> u32 \<Rightarrow> (nat \<times> bytes \<times> u32 \<times> u32) option" where
  "adler_NMAX_loop len buf s =
     (if len \<ge> adler_NMAX
      then (case adler_blocks (adler_NMAX div 16) buf s of None \<Rightarrow> None
              | Some (buf', s') \<Rightarrow> adler_NMAX_loop (len - adler_NMAX) buf' (adler_reduce s'))
      else Some (len, buf, s))"
  by pat_completeness auto
termination by (relation "measure (\<lambda>(len, buf, s). len)") (auto simp: adler_NMAX_def)

definition adler_tail :: "nat \<Rightarrow> bytes \<Rightarrow> u32 \<times> u32 \<Rightarrow> (u32 \<times> u32) option" where
  "adler_tail len buf s =
     (if len = 0 then Some s
      else do {
        (buf, s) \<leftarrow> adler_blocks (len div 16) buf s;
        (buf, s) \<leftarrow> adler_bytes (len mod 16) buf s;
        Some (adler_reduce s)
      })"

definition adler_pack :: "u32 \<Rightarrow> u32 \<Rightarrow> u32" where
  "adler_pack adler sum2 = adler OR push_bit 16 sum2"

definition VG_adler32 :: "u32 \<Rightarrow> bytes option \<Rightarrow> u32 \<Rightarrow> u32 option" where
  "VG_adler32 adler buf len =
     (let sum2 = drop_bit 16 adler AND 0xffff; adler = adler AND 0xffff
      in if len = 1 then
           (case buf of Some (b # _) \<Rightarrow>
              (let adler = adler + ucast b;
                   adler = (if adler \<ge> adler_BASE then adler - adler_BASE else adler);
                   sum2 = sum2 + adler;
                   sum2 = (if sum2 \<ge> adler_BASE then sum2 - adler_BASE else sum2)
               in Some (adler_pack adler sum2))
            | _ \<Rightarrow> None)
         else (case buf of None \<Rightarrow> Some 1
           | Some buf \<Rightarrow>
              if len < 16 then do {
                (buf, adler, sum2) \<leftarrow> adler_bytes (unat len) buf (adler, sum2);
                let adler = (if adler \<ge> adler_BASE then adler - adler_BASE else adler);
                Some (adler_pack adler (adler_MOD4 sum2))
              }
              else do {
                (len, buf, s) \<leftarrow> adler_NMAX_loop (unat len) buf (adler, sum2);
                (adler, sum2) \<leftarrow> adler_tail len buf s;
                Some (adler_pack adler sum2)
              }))"

end
