(* ===== verification/Libc_Mem_Props.thy ===== *)
theory Libc_Mem_Props
  imports Libc_Mem
begin

text \<open>
  What the memory functions promise: the unrolled and the word-wise copy loops are one block copy, also for the
  overlaps they support; \<^verbatim>\<open>memset\<close> fills exactly its range; the Adler-32 sums never overflow between two
  reductions, so the checksum is the mathematical one.
\<close>

section \<open>Block copies\<close>

definition block_copy :: "bytes \<Rightarrow> nat \<Rightarrow> nat \<Rightarrow> nat \<Rightarrow> bytes" where
  "block_copy mem d s n = take d mem @ take n (drop s mem) @ drop (d + n) mem"

text \<open>\<open>mem\<close> is \<open>mem0\<close> after the \<open>k\<close> bytes at \<open>s\<close> have been copied to \<open>d\<close>.\<close>

definition copied :: "bytes \<Rightarrow> nat \<Rightarrow> nat \<Rightarrow> nat \<Rightarrow> bytes \<Rightarrow> bool" where
  "copied mem0 d s k mem \<longleftrightarrow> length mem = length mem0 \<and>
     (\<forall>i < length mem0. mem ! i = (if d \<le> i \<and> i < d + k then mem0 ! (s + (i - d)) else mem0 ! i))"

lemma copied_0 [simp]: "copied mem0 d s 0 mem0"
  by (auto simp: copied_def)

lemma copied_block:
  assumes "copied mem0 d s k mem" "d + k \<le> length mem0" "s + k \<le> length mem0"
  shows "mem = block_copy mem0 d s k"
proof (rule nth_equalityI)
  have len: "length (take k (drop s mem0)) = k" "length (take d mem0) = d" using assms(2,3) by auto
  show "length mem = length (block_copy mem0 d s k)"
    using assms by (simp add: copied_def block_copy_def)
  fix i assume "i < length mem"
  with assms show "mem ! i = block_copy mem0 d s k ! i"
    by (auto simp: copied_def block_copy_def nth_append len simp del: length_take)
qed

lemma wr_nth:
  assumes "i + length bs \<le> length mem"
  shows "\<exists>m. wr mem i bs = Some m \<and> length m = length mem \<and>
    (\<forall>j < length mem. m ! j = (if i \<le> j \<and> j < i + length bs then bs ! (j - i) else mem ! j))"
  using assms by (auto simp: wr_def nth_append)

lemma cpy_nth:
  assumes "d + u \<le> length mem" "s + u \<le> length mem"
  shows "\<exists>m. cpy u mem d s = Some m \<and> copied mem d s u m"
proof -
  have "length (take u (drop s mem)) = u" using assms by simp
  with wr_nth[of d "take u (drop s mem)" mem] assms show ?thesis
    by (auto simp: cpy_def rd_def copied_def)
qed

lemma copied_extend:
  assumes "copied mem0 d s k mem" "copied mem (d + k) (s + k) u mem'"
    and "s + k + u \<le> length mem0" "d \<le> s \<or> s + k + u \<le> d"
  shows "copied mem0 d s (k + u) mem'"
  using assms by (auto simp: copied_def add.assoc)

lemma cpy_extend:
  assumes "copied mem0 d s k mem" "d + k + u \<le> length mem0" "s + k + u \<le> length mem0"
    and "d \<le> s \<or> s + k + u \<le> d"
  shows "\<exists>m. cpy u mem (d + k) (s + k) = Some m \<and> copied mem0 d s (k + u) m"
  using cpy_nth[of "d + k" u mem "s + k"] copied_extend[OF assms(1)] assms
  by (auto simp: copied_def[of mem0 d s k mem])

lemma cpy_4x_extend:
  assumes "copied mem0 d s k mem" "d + k + 4 * u \<le> length mem0" "s + k + 4 * u \<le> length mem0"
    and "d \<le> s \<or> s + k + 4 * u \<le> d"
  shows "\<exists>m. cpy_4x u mem (d + k) (s + k) = Some m \<and> copied mem0 d s (k + 4 * u) m"
proof -
  let ?P = "\<lambda>i m. copied mem0 d s (k + i * u) m"
  have "\<exists>m. foldO (\<lambda>i m. cpy u m (d + k + i * u) (s + k + i * u)) [0..<4] mem = Some m \<and> ?P 4 m"
  proof (rule foldO_upt[where P = ?P])
    fix i t assume i: "i < 4" "?P i t"
    have "i * u + u \<le> 4 * u" using i(1) by (cases i) (auto simp: algebra_simps)
    then have "d + (k + i * u) + u \<le> length mem0" "s + (k + i * u) + u \<le> length mem0"
      "d \<le> s \<or> s + (k + i * u) + u \<le> d" using assms(2-) by linarith+
    from cpy_extend[OF i(2) this]
    show "\<exists>v. cpy u t (d + k + i * u) (s + k + i * u) = Some v \<and> ?P (Suc i) v"
      by (simp add: algebra_simps)
  qed (use assms in auto)
  then show ?thesis by (simp add: cpy_4x_def mult.commute)
qed

text \<open>A copy loop leaves less than a unit over.\<close>

lemma cpy_while_extend:
  assumes step: "\<And>k m. copied mem0 d s k m \<Longrightarrow> k + u \<le> tot \<Longrightarrow>
      \<exists>m'. body m (d + k) (s + k) = Some m' \<and> copied mem0 d s (k + u) m'"
    and "copied mem0 d s k mem" "k + sz = tot" "u > 0"
  shows "\<exists>k' m'. cpy_while u body (mem, d + k, s + k, sz) = Some (m', d + k', s + k', sz mod u) \<and>
      copied mem0 d s k' m' \<and> k' + sz mod u = tot"
  using assms(2-)
proof (induction sz arbitrary: k mem rule: less_induct)
  case (less sz)
  show ?case
  proof (cases "sz < u")
    case False
    with less.prems step[of k mem] obtain m where
      m: "body mem (d + k) (s + k) = Some m" "copied mem0 d s (k + u) m" by auto
    with False less.prems less.IH[of "sz - u" "k + u" m] show ?thesis
      by (simp add: le_mod_geq add.assoc)
  qed (use less.prems in auto)
qed

lemma copy_done:
  assumes "copied mem0 d s k mem" "d + k \<le> length mem0" "s + k \<le> length mem0" "k = n"
  shows "mem = block_copy mem0 d s n"
  using copied_block assms by blast

text \<open>
  \<^verbatim>\<open>memcpy\<close> copies its range whatever the alignment of the two pointers, through the 16-byte, the word and
  the byte loops: for separate ranges, and also for overlapping ones when the destination comes first. It
  accesses nothing outside the two ranges.
\<close>

theorem memcpy_copies:
  assumes "dest + sz \<le> length mem" "src + sz \<le> length mem"
    and "dest \<le> src \<or> src + sz \<le> dest"
  shows "VG_memcpy mem dest src sz = Some (block_copy mem dest src sz)"
proof -
  note ext = cpy_extend cpy_4x_extend
  have loop: "\<exists>k' m'. cpy_while u body (m, dest + k, src + k, r) = Some (m', dest + k', src + k', r mod u) \<and>
      copied mem dest src k' m' \<and> k' + r mod u = sz"
    if "copied mem dest src k m" "k + r = sz" and "(u, body) \<in> {(16, cpy_4x 4), (4, cpy 4), (4, cpy_4x 1), (1, cpy 1)}"
    for k m r u and body :: "bytes \<Rightarrow> nat \<Rightarrow> nat \<Rightarrow> bytes option"
  proof (rule cpy_while_extend)
    fix k m assume "copied mem dest src k m" "k + u \<le> sz"
    with that(3) assms show "\<exists>m'. body m (dest + k) (src + k) = Some m' \<and> copied mem dest src (k + u) m'"
      using cpy_extend[of mem dest src k m u] cpy_4x_extend[of mem dest src k m "u div 4"] by auto
  qed (use that in auto)
  have "\<exists>k m r. (if dest mod 4 = 0 \<and> src mod 4 = 0
        then do { st \<leftarrow> cpy_while 16 (cpy_4x 4) (mem, dest, src, sz); cpy_while 4 (cpy 4) st }
        else Some (mem, dest, src, sz)) = Some (m, dest + k, src + k, r) \<and> copied mem dest src k m \<and> k + r = sz"
  proof (cases "dest mod 4 = 0 \<and> src mod 4 = 0")
    case True
    from loop[of 0 mem sz 16 "cpy_4x 4"] obtain k m where
      1: "cpy_while 16 (cpy_4x 4) (mem, dest, src, sz) = Some (m, dest + k, src + k, sz mod 16)"
      "copied mem dest src k m" "k + sz mod 16 = sz" by auto
    from loop[OF 1(2,3), of 4 "cpy 4"] 1(1) True show ?thesis by auto
  next
    case False
    then have "(if dest mod 4 = 0 \<and> src mod 4 = 0
        then do { st \<leftarrow> cpy_while 16 (cpy_4x 4) (mem, dest, src, sz); cpy_while 4 (cpy 4) st }
        else Some (mem, dest, src, sz)) = Some (mem, dest + 0, src + 0, sz)" by auto
    then show ?thesis by (intro exI conjI) (assumption, auto)
  qed
  then obtain k m r where head: "(if dest mod 4 = 0 \<and> src mod 4 = 0
        then do { st \<leftarrow> cpy_while 16 (cpy_4x 4) (mem, dest, src, sz); cpy_while 4 (cpy 4) st }
        else Some (mem, dest, src, sz)) = Some (m, dest + k, src + k, r)"
      and 1: "copied mem dest src k m" "k + r = sz" by blast
  from loop[OF 1, of 4 "cpy_4x 1"] obtain k2 m2 where
    2: "cpy_while 4 (cpy_4x 1) (m, dest + k, src + k, r) = Some (m2, dest + k2, src + k2, r mod 4)"
      "copied mem dest src k2 m2" "k2 + r mod 4 = sz" by auto
  from loop[OF 2(2,3), of 1 "cpy 1"] obtain m3 where
    3: "cpy_while 1 (cpy 1) (m2, dest + k2, src + k2, r mod 4) = Some (m3, dest + sz, src + sz, 0)"
      "copied mem dest src sz m3" by auto
  from copy_done[OF 3(2)] assms have "m3 = block_copy mem dest src sz" by simp
  with head 2(1) 3(1) show ?thesis
    unfolding VG_memcpy_def by (simp only: Option.bind.simps prod.case)
qed

theorem memcpy_copies_witness:
  "VG_memcpy [1, 2, 3, 4, 5, 6, 7, 8] 0 2 5 = Some [3, 4, 5, 6, 7, 6, 7, 8]"
  using memcpy_copies[of 0 5 "[1, 2, 3, 4, 5, 6, 7, 8]" 2] by (simp add: block_copy_def)

lemma copied_extend_down:
  assumes "copied mem0 (Suc d) (Suc s) k mem" "Suc s + k \<le> length mem0" "Suc d + k \<le> length mem0" "s < d"
  shows "\<exists>m. cpy 1 mem d s = Some m \<and> copied mem0 d s (Suc k) m"
proof -
  have len: "length mem = length mem0" using assms(1) by (simp add: copied_def)
  with cpy_nth[of d 1 mem s] assms obtain m where m: "cpy 1 mem d s = Some m" "copied mem d s 1 m"
    by auto
  moreover have "copied mem0 d s (Suc k) m"
    unfolding copied_def
  proof (intro conjI allI impI)
    fix i assume i: "i < length mem0"
    have "mem ! s = mem0 ! s" using assms len by (auto simp: copied_def)
    with i m(2) assms(1) len show "m ! i = (if d \<le> i \<and> i < d + Suc k then mem0 ! (s + (i - d)) else mem0 ! i)"
      by (cases "i = d") (auto simp: copied_def Suc_diff_Suc)
  qed (use m len in \<open>auto simp: copied_def\<close>)
  ultimately show ?thesis by blast
qed

text \<open>
  C37. \<^verbatim>\<open>memmove\<close> is a block copy for every two ranges, however they overlap: it copies upwards when the
  destination comes first and downwards otherwise.
\<close>

theorem memmove_overlap:
  assumes "dest + sz \<le> length mem" "src + sz \<le> length mem"
  shows "VG_memmove mem dest src sz = Some (block_copy mem dest src sz)"
proof -
  have up: "\<exists>m. foldO (\<lambda>i m. cpy 1 m (dest + i) (src + i)) [0..<sz] mem = Some m \<and> copied mem dest src sz m"
    if "dest < src"
    by (rule foldO_upt[where P = "\<lambda>i. copied mem dest src i"])
      (use cpy_extend[of mem dest src _ _ 1] assms that in auto)
  have down: "\<exists>m. foldO (\<lambda>i m. cpy 1 m (dest + (sz - i - 1)) (src + (sz - i - 1))) [0..<sz] mem = Some m \<and>
      copied mem (dest + (sz - sz)) (src + (sz - sz)) sz m" if "src < dest"
  proof (rule foldO_upt[where P = "\<lambda>i. copied mem (dest + (sz - i)) (src + (sz - i)) i"])
    fix i t assume i: "i < sz" "copied mem (dest + (sz - i)) (src + (sz - i)) i t"
    then have "Suc (dest + (sz - i - 1)) = dest + (sz - i)" "Suc (src + (sz - i - 1)) = src + (sz - i)" by auto
    with i(2) have "copied mem (Suc (dest + (sz - i - 1))) (Suc (src + (sz - i - 1))) i t" by (simp only:)
    from copied_extend_down[OF this] i assms that show "\<exists>u. cpy 1 t (dest + (sz - i - 1)) (src + (sz - i - 1)) = Some u \<and>
        copied mem (dest + (sz - Suc i)) (src + (sz - Suc i)) (Suc i) u"
      by simp
  qed auto
  have same: "block_copy mem dest dest sz = mem"
    by (simp add: block_copy_def) (metis append_take_drop_id drop_drop add.commute)
  from up down copy_done[of mem dest src sz] assms same show ?thesis
    by (cases dest src rule: linorder_cases) (auto simp: VG_memmove_def block_copy_def)
qed

theorem memmove_overlap_witness:
  "VG_memmove [1, 2, 3, 4, 5] 1 0 3 = Some [1, 1, 2, 3, 5]"
  using memmove_overlap[of 1 3 "[1, 2, 3, 4, 5]" 0] by (simp add: block_copy_def)


section \<open>Filling\<close>

definition filled :: "bytes \<Rightarrow> nat \<Rightarrow> u8 \<Rightarrow> nat \<Rightarrow> bytes \<Rightarrow> bool" where
  "filled mem0 d v k mem \<longleftrightarrow> mem = take d mem0 @ replicate k v @ drop (d + k) mem0"

lemma filled_extend:
  assumes "filled mem0 d v k mem" "d + k + u \<le> length mem0" "bs = replicate u v"
  shows "\<exists>m. wr mem (d + k) bs = Some m \<and> filled mem0 d v (k + u) m"
  using assms by (auto simp: filled_def wr_def replicate_add ac_simps)

lemma set_align_fills:
  assumes "filled mem0 d v k mem" "d + k + sz \<le> length mem0"
  shows "\<exists>k' m'. set_align v mem (d + k) sz = Some (m', d + k', k + sz - k') \<and> k' \<le> k + sz \<and>
    filled mem0 d v k' m'"
  using assms
proof (induction sz arbitrary: k mem)
  case (Suc sz)
  show ?case
  proof (cases "(d + k) mod 4 = 0")
    case False
    from filled_extend[OF Suc.prems(1), of 1 "[v]"] Suc.prems(2) obtain m where
      "wr mem (d + k) [v] = Some m" "filled mem0 d v (k + 1) m" by auto
    with Suc.IH[of "k + 1" m] Suc.prems False show ?thesis by auto
  qed (use Suc.prems in auto)
qed auto

lemma set_while_fills:
  assumes step: "\<And>k m. filled mem0 d v k m \<Longrightarrow> k + u \<le> tot \<Longrightarrow>
      \<exists>m'. body m (d + k) = Some m' \<and> filled mem0 d v (k + u) m'"
    and "filled mem0 d v k mem" "k + sz = tot" "u > 0"
  shows "\<exists>k' m'. set_while u body (mem, d + k, sz) = Some (m', d + k', sz mod u) \<and>
      filled mem0 d v k' m' \<and> k' + sz mod u = tot"
  using assms(2-)
proof (induction sz arbitrary: k mem rule: less_induct)
  case (less sz)
  show ?case
  proof (cases "sz < u")
    case False
    with less.prems step[of k mem] obtain m where
      m: "body mem (d + k) = Some m" "filled mem0 d v (k + u) m" by auto
    with False less.prems less.IH[of "sz - u" "k + u" m] show ?thesis
      by (simp add: le_mod_geq add.assoc)
  qed (use less.prems in auto)
qed

lemma le32_splat:
  fixes uc :: u8
  defines "c4 \<equiv> (ucast uc :: u32) OR push_bit 8 (ucast uc)"
  shows "le32 (c4 OR push_bit 16 c4) = replicate 4 uc"
proof -
  have four: "replicate 4 uc = [uc, uc, uc, uc]" by (simp add: numeral_eq_Suc)
  show ?thesis
    unfolding four le32_def list.inject c4_def
    by (intro conjI refl; rule bit_word_eqI; auto simp: bit_simps dest: bit_imp_le_length)
qed

lemma word_x4_fills:
  assumes "filled mem0 d v k mem" "d + k + 16 \<le> length mem0" "bs = replicate 4 v"
  shows "\<exists>m. foldO (\<lambda>i m. wr m (d + k + i * 4) bs) [0..<4] mem = Some m \<and> filled mem0 d v (k + 16) m"
proof -
  have "\<exists>m. foldO (\<lambda>i m. wr m (d + k + i * 4) bs) [0..<4] mem = Some m \<and> filled mem0 d v (k + 4 * 4) m"
  proof (rule foldO_upt[where P = "\<lambda>i. filled mem0 d v (k + i * 4)"])
    fix i t assume "i < 4" "filled mem0 d v (k + i * 4) t"
    with filled_extend[of mem0 d v "k + i * 4" t 4 bs] assms
    show "\<exists>u. wr t (d + k + i * 4) bs = Some u \<and> filled mem0 d v (k + Suc i * 4) u"
      by (simp add: add.assoc add.commute[of 4])
  qed (use assms in auto)
  then show ?thesis by simp
qed

text \<open>
  \<^verbatim>\<open>memset\<close> sets exactly the bytes of its range to the low byte of \<open>c\<close>, for every alignment and size, and
  accesses nothing else.
\<close>

theorem memset_fills:
  assumes "dest + sz \<le> length mem"
  shows "VG_memset mem dest c sz = Some (take dest mem @ replicate sz (ucast c) @ drop (dest + sz) mem)"
proof -
  define v where "v = (ucast c :: u8)"
  define c4 where "c4 = (ucast v :: u32) OR push_bit 8 (ucast v)"
  note splat = le32_splat[of v, folded c4_def]
  have "filled mem dest v 0 mem" by (simp add: filled_def)
  from set_align_fills[OF this, of sz] assms obtain k m where
    1: "set_align v mem dest sz = Some (m, dest + k, sz - k)" "k \<le> sz" "filled mem dest v k m" by auto
  let ?B16 = "\<lambda>mem d. foldO (\<lambda>i m. wr m (d + i * 4) (le32 (c4 OR push_bit 16 c4))) [0..<4] mem"
  let ?B4 = "\<lambda>mem d. wr mem d (le32 (c4 OR push_bit 16 c4))" and ?B1 = "\<lambda>mem d. wr mem d [v]"
  have loop: "\<exists>k' m'. set_while u body (m, dest + k, r) = Some (m', dest + k', r mod u) \<and>
      filled mem dest v k' m' \<and> k' + r mod u = sz"
    if "filled mem dest v k m" "k + r = sz" "(u, body) \<in> {(16, ?B16), (4, ?B4), (1, ?B1)}"
    for k m r u and body :: "bytes \<Rightarrow> nat \<Rightarrow> bytes option"
  proof (rule set_while_fills)
    fix k m assume "filled mem dest v k m" "k + u \<le> sz"
    with that(3) assms show "\<exists>m'. body m (dest + k) = Some m' \<and> filled mem dest v (k + u) m'"
      using filled_extend[of mem dest v k m u] word_x4_fills[of mem dest v k m, OF _ _ splat] splat by auto
  qed (use that in auto)
  from loop[OF 1(3), of "sz - k" 16 ?B16] 1(2) obtain k2 m2 r2 where
    2: "set_while 16 ?B16 (m, dest + k, sz - k) = Some (m2, dest + k2, r2)" "filled mem dest v k2 m2" "k2 + r2 = sz"
    by auto
  from loop[OF 2(2,3), of 4 ?B4] obtain k3 m3 r3 where
    3: "set_while 4 ?B4 (m2, dest + k2, r2) = Some (m3, dest + k3, r3)" "filled mem dest v k3 m3" "k3 + r3 = sz"
    by auto
  from loop[OF 3(2,3), of 1 ?B1] obtain m4 where
    4: "set_while 1 ?B1 (m3, dest + k3, r3) = Some (m4, dest + sz, 0)" "filled mem dest v sz m4"
    by auto
  show ?thesis
  proof (cases "sz - k = 0")
    case True
    with 1 show ?thesis by (simp add: VG_memset_def v_def filled_def)
  next
    case False
    have "VG_memset mem dest c sz = Some m4"
      unfolding VG_memset_def Let_def v_def[symmetric] c4_def[symmetric]
      using 1(1) 2(1) 3(1) 4(1) False by (simp del: set_while.simps)
    with 4(2) show ?thesis by (simp add: filled_def v_def)
  qed
qed

theorem memset_fills_witness:
  "VG_memset [1, 2, 3, 4, 5] 1 0x107 3 = Some [1, 7, 7, 7, 5]"
  using memset_fills[of 1 3 "[1, 2, 3, 4, 5]" "0x107"] by (simp add: numeral_3_eq_3)


section \<open>Adler-32\<close>

text \<open>The checksum as its definition has it: both sums over unbounded numbers, reduced once at the end.\<close>

definition adler_step :: "u8 \<Rightarrow> nat \<times> nat \<Rightarrow> nat \<times> nat" where
  "adler_step b = (\<lambda>(x, y). (x + unat b, y + x + unat b))"

lemma adler_step_pair [simp]: "adler_step b (x, y) = (x + unat b, y + x + unat b)"
  by (simp add: adler_step_def)

definition adler_spec :: "u8 list \<Rightarrow> nat \<times> nat \<Rightarrow> nat \<times> nat" where
  "adler_spec bs s = (let (x, y) = fold adler_step bs s in (x mod 65521, y mod 65521))"

definition repr :: "u32 \<times> u32 \<Rightarrow> nat \<times> nat" where
  "repr = (\<lambda>(a, s). (unat a, unat s))"

lemma unat_byte: "unat (b :: u8) \<le> 255"
  using unat_bound[of b] by simp

lemma adler_fold_bound:
  "fold adler_step bs (x, y) = (x', y') \<Longrightarrow>
     x' \<le> x + 255 * length bs \<and> 2 * y' \<le> 2 * y + 2 * length bs * x + 255 * length bs * (length bs + 1)"
proof (induction bs arbitrary: x y)
  case (Cons b bs)
  from Cons.prems have "fold adler_step bs (x + unat b, y + x + unat b) = (x', y')"
    by simp
  with Cons.IH have "x' \<le> x + unat b + 255 * length bs \<and>
      2 * y' \<le> 2 * (y + x + unat b) + 2 * length bs * (x + unat b) + 255 * length bs * (length bs + 1)"
    by blast
  moreover have "2 * (y + x + unat b) + 2 * length bs * (x + unat b) + 255 * length bs * (length bs + 1) \<le>
      2 * (y + x + 255) + 2 * length bs * (x + 255) + 255 * length bs * (length bs + 1)"
    using unat_byte[of b] by (intro add_mono mult_le_mono) auto
  moreover have "\<dots> = 2 * y + 2 * length (b # bs) * x + 255 * length (b # bs) * (length (b # bs) + 1)"
    by (simp add: algebra_simps)
  ultimately show ?case using unat_byte[of b] by (auto intro: order.trans)
qed simp

lemma adler_step_mono: "fold adler_step bs (x, y) = (x', y') \<Longrightarrow> x \<le> x' \<and> y \<le> y'"
  by (induction bs arbitrary: x y) fastforce+

lemma adler_fold_repr:
  assumes "fold adler_step bs (repr s) = (x', y')" "x' < 2 ^ 32" "y' < 2 ^ 32"
  shows "repr (fold adler_DO1 bs s) = (x', y')"
  using assms
proof (induction bs arbitrary: s)
  case (Cons b bs)
  obtain a t where s: "s = (a, t)" by (cases s)
  have step: "fold adler_step bs (unat a + unat b, unat t + unat a + unat b) = (x', y')"
    using Cons.prems(1) by (simp add: s repr_def)
  from adler_step_mono[OF step] Cons.prems(2,3)
  have "unat a + unat b < 2 ^ 32" "unat t + unat a + unat b < 2 ^ 32" by auto
  moreover have "unat (ucast b :: u32) = unat b" using unat_byte[of b] by (simp add: unat_ucast_mod)
  ultimately have "repr (adler_DO1 b s) = (unat a + unat b, unat t + unat a + unat b)"
    by (simp add: s repr_def adler_DO1_def Let_def unat_word_ariths)
  with step Cons.IH[of "adler_DO1 b s"] Cons.prems(2,3) show ?case by simp
qed (simp add: repr_def)

text \<open>The choice of \<^verbatim>\<open>NMAX\<close>: reduced sums do not overflow within that many bytes.\<close>

lemma adler_no_overflow:
  assumes "length bs \<le> 5552" "x < 65521" "y < 65521" "fold adler_step bs (x, y) = (x', y')"
  shows "x' < 2 ^ 32 \<and> y' < 2 ^ 32"
proof -
  let ?n = "length bs"
  have "2 * ?n * x \<le> 2 * 5552 * 65520" using assms by (intro mult_le_mono) auto
  moreover have "255 * ?n * (?n + 1) \<le> 255 * 5552 * 5553" using assms by (intro mult_le_mono) auto
  moreover have "255 * ?n \<le> 255 * 5552" using assms by simp
  ultimately have "x' < 4294967296" "y' < 4294967296"
    using adler_fold_bound[OF assms(4)] assms(2,3) by linarith+
  then show ?thesis by simp
qed

lemma unat_push_base: "k \<le> 16 \<Longrightarrow> unat (push_bit k adler_BASE) = 65521 * 2 ^ k"
proof -
  assume "k \<le> 16"
  then have "65521 * 2 ^ k \<le> 65521 * (2 ^ 16 :: nat)"
    by (intro mult_le_mono power_increasing) auto
  then show ?thesis
    by (simp add: adler_BASE_def unat_push_bit_mod)
qed

lemma mod_lines:
  "k \<le> 17 \<Longrightarrow> unat a < 65521 * 2 ^ k \<Longrightarrow> unat (fold mod_line (rev [0..<k]) a) = unat a mod 65521"
proof (induction k arbitrary: a)
  case (Suc k)
  have "unat (mod_line k a) < 65521 * 2 ^ k \<and> unat (mod_line k a) mod 65521 = unat a mod 65521"
  proof (cases "push_bit k adler_BASE \<le> a")
    case True
    then have le: "65521 * 2 ^ k \<le> unat a"
      using Suc.prems(1) unat_push_base[of k] by (simp add: word_le_nat_alt)
    with True Suc.prems(1) unat_push_base[of k]
    have "unat (mod_line k a) = unat a - 65521 * 2 ^ k"
      by (simp add: mod_line_def unat_sub)
    moreover have "(unat a - 65521 * 2 ^ k) mod 65521 = unat a mod 65521"
      using le by (metis mod_mult_self4 le_add_diff_inverse)
    ultimately show ?thesis using Suc.prems(2) le by simp
  next
    case False
    with Suc.prems unat_push_base[of k] show ?thesis
      by (auto simp: mod_line_def word_le_nat_alt)
  qed
  with Suc show ?case by simp
qed simp


lemma mod_line_0:
  assumes "unat a < 2 * 65521"
  shows "unat (if a \<ge> adler_BASE then a - adler_BASE else a) = unat a mod 65521"
proof -
  have "mod_line 0 a = (if a \<ge> adler_BASE then a - adler_BASE else a)" by (simp add: mod_line_def)
  with mod_lines[of 1 a] assms show ?thesis by simp
qed

lemma adler_MOD_mod: "unat (adler_MOD a) = unat a mod 65521"
proof -
  have list: "[16, 15, 14, 13, 12, 11, 10, 9, 8, 7, 6, 5, 4, 3, 2, 1, 0] = rev [0..<17]"
    by code_simp
  show ?thesis unfolding adler_MOD_def list
    by (rule mod_lines) (use unat_bound[of a] in auto)
qed

lemma adler_MOD4_mod: "unat a < 32 * 65521 \<Longrightarrow> unat (adler_MOD4 a) = unat a mod 65521"
proof -
  assume a: "unat a < 32 * 65521"
  have list: "[4, 3, 2, 1, 0] = rev [0..<5]"
    by code_simp
  show ?thesis unfolding adler_MOD4_def list by (rule mod_lines) (use a in auto)
qed

lemma adler_reduce_repr: "repr (adler_reduce s) = (fst (repr s) mod 65521, snd (repr s) mod 65521)"
  by (simp add: adler_reduce_def repr_def adler_MOD_mod split: prod.splits)

lemma adler_blocks_fold:
  "16 * n \<le> length buf \<Longrightarrow>
     adler_blocks n buf s = Some (drop (16 * n) buf, fold adler_DO1 (take (16 * n) buf) s)"
proof (induction n arbitrary: buf s)
  case (Suc n)
  have "take (16 * Suc n) buf = take 16 buf @ take (16 * n) (drop 16 buf)"
    using take_add[of 16 "16 * n" buf] by simp
  with Suc.IH[of "drop 16 buf" "fold adler_DO1 (take 16 buf) s"] Suc.prems show ?case
    by (simp add: adler_DO16_def add.commute)
qed simp

lemma adler_bytes_fold:
  "n \<le> length buf \<Longrightarrow> adler_bytes n buf s = Some (drop n buf, fold adler_DO1 (take n buf) s)"
  by (induction n buf s rule: adler_bytes.induct) auto

lemma mod_add3: "(y mod m + x mod m + u) mod m = (y + x + u) mod (m :: nat)"
  by (metis mod_add_eq mod_add_left_eq)

lemma adler_spec_reduced:
  "adler_spec bs (x mod 65521, y mod 65521) = adler_spec bs (x, y)"
proof (induction bs arbitrary: x y)
  case Nil
  then show ?case by (simp add: adler_spec_def)
next
  case (Cons b bs)
  let ?u = "unat b"
  have "adler_spec (b # bs) (x mod 65521, y mod 65521) =
      adler_spec bs ((x mod 65521 + ?u) mod 65521, (y mod 65521 + x mod 65521 + ?u) mod 65521)"
    using Cons.IH[of "x mod 65521 + ?u" "y mod 65521 + x mod 65521 + ?u"] by (simp add: adler_spec_def)
  also have "\<dots> = adler_spec bs ((x + ?u) mod 65521, (y + x + ?u) mod 65521)"
    by (simp only: mod_add3 mod_add_left_eq)
  also have "\<dots> = adler_spec (b # bs) (x, y)"
    using Cons.IH[of "x + ?u" "y + x + ?u"] by (simp add: adler_spec_def)
  finally show ?case .
qed

lemma adler_spec_append:
  "adler_spec (bs @ cs) s = adler_spec cs (adler_spec bs s)"
proof -
  obtain x y where "fold adler_step bs s = (x, y)" by (cases "fold adler_step bs s")
  with adler_spec_reduced[of cs x y] show ?thesis by (simp add: adler_spec_def)
qed

definition reduced :: "u32 \<times> u32 \<Rightarrow> bool" where
  "reduced = (\<lambda>(a, s). unat a < 65521 \<and> unat s < 65521)"

lemma adler_reduce_fold:
  assumes "length bs \<le> 5552" "reduced s"
  shows "repr (adler_reduce (fold adler_DO1 bs s)) = adler_spec bs (repr s) \<and> reduced (adler_reduce (fold adler_DO1 bs s))"
proof -
  obtain x' y' where f: "fold adler_step bs (repr s) = (x', y')" by (cases "fold adler_step bs (repr s)")
  with assms adler_no_overflow[OF assms(1), of "fst (repr s)" "snd (repr s)" x' y']
  have "x' < 2 ^ 32 \<and> y' < 2 ^ 32" by (auto simp: reduced_def repr_def split: prod.splits)
  with adler_fold_repr[OF f] have "repr (fold adler_DO1 bs s) = (x', y')" by blast
  then have "repr (adler_reduce (fold adler_DO1 bs s)) = (x' mod 65521, y' mod 65521)"
    by (simp add: adler_reduce_repr)
  moreover from this have "reduced (adler_reduce (fold adler_DO1 bs s))"
    by (auto simp: repr_def reduced_def split: prod.splits)
  ultimately show ?thesis using f by (simp add: adler_spec_def)
qed

declare adler_NMAX_loop.simps [simp del]

lemma adler_NMAX_loop_spec:
  assumes "len \<le> length buf" "reduced s"
  shows "\<exists>k s'. adler_NMAX_loop len buf s = Some (len - k, drop k buf, s') \<and> k \<le> len \<and> len - k < 5552 \<and>
     repr s' = adler_spec (take k buf) (repr s) \<and> reduced s'"
  using assms
proof (induction len arbitrary: buf s rule: less_induct)
  case (less len)
  show ?case
  proof (cases "len \<ge> 5552")
    case True
    let ?s = "adler_reduce (fold adler_DO1 (take 5552 buf) s)"
    have blocks: "adler_blocks (adler_NMAX div 16) buf s = Some (drop 5552 buf, fold adler_DO1 (take 5552 buf) s)"
      using adler_blocks_fold[of 347 buf s] True less.prems by (simp add: adler_NMAX_def)
    have s: "repr ?s = adler_spec (take 5552 buf) (repr s)" "reduced ?s"
      using adler_reduce_fold[of "take 5552 buf" s] less.prems by auto
    from less.IH[of "len - 5552" "drop 5552 buf" ?s] True less.prems s(2) diff_le_mono[OF less.prems(1), of 5552] obtain k s' where
      k: "adler_NMAX_loop (len - 5552) (drop 5552 buf) ?s = Some (len - 5552 - k, drop (k + 5552) buf, s')"
      "k \<le> len - 5552" "len - 5552 - k < 5552"
      "repr s' = adler_spec (take k (drop 5552 buf)) (repr ?s)" "reduced s'" by auto
    have "take (5552 + k) buf = take 5552 buf @ take k (drop 5552 buf)" by (rule take_add)
    with k s(1) True blocks show ?thesis
      by (intro exI[of _ "5552 + k"] exI[of _ s'])
        (simp add: adler_NMAX_loop.simps[of len] adler_NMAX_def adler_spec_append add.commute)
  next
    case False
    then show ?thesis
      using less.prems by (intro exI[of _ 0] exI[of _ s])
        (auto simp: adler_NMAX_loop.simps[of len] adler_NMAX_def adler_spec_def repr_def reduced_def)
  qed
qed

lemma adler_tail_spec:
  assumes "len \<le> length buf" "len < 5552" "reduced s"
  shows "\<exists>s'. adler_tail len buf s = Some s' \<and> repr s' = adler_spec (take len buf) (repr s)"
proof -
  have len: "16 * (len div 16) + len mod 16 = len" by simp
  have "take len buf = take (16 * (len div 16)) buf @ take (len mod 16) (drop (16 * (len div 16)) buf)"
    using take_add[of "16 * (len div 16)" "len mod 16" buf] by simp
  moreover have "16 * (len div 16) \<le> length buf" "len mod 16 \<le> length (drop (16 * (len div 16)) buf)"
    unfolding length_drop using assms(1) len by linarith+
  ultimately have "len \<noteq> 0 \<Longrightarrow> adler_tail len buf s = Some (adler_reduce (fold adler_DO1 (take len buf) s))"
    by (simp add: adler_tail_def adler_blocks_fold adler_bytes_fold)
  moreover have "repr s = adler_spec [] (repr s)"
    using assms(3) by (auto simp: adler_spec_def repr_def reduced_def split: prod.splits)
  ultimately show ?thesis
    using adler_reduce_fold[of "take len buf" s] assms by (cases "len = 0") (auto simp: adler_tail_def)
qed


text \<open>The three paths of \<^verbatim>\<open>adler32\<close>: one byte, less than 16, and the blocks.\<close>

lemma adler_one_byte:
  assumes "reduced (a, t)"
    and "a' = (if a + ucast b \<ge> adler_BASE then a + ucast b - adler_BASE else a + ucast b)"
    and "t' = (if t + a' \<ge> adler_BASE then t + a' - adler_BASE else t + a')"
  shows "repr (a', t') = adler_spec [b] (unat a, unat t)"
proof -
  have lt: "unat a < 65521" "unat t < 65521" using assms(1) by (auto simp: reduced_def)
  have "unat (a + ucast b) = unat a + unat b"
    using unat_byte[of b] lt by (simp add: unat_word_ariths unat_ucast_mod)
  with unat_byte[of b] lt have a': "unat a' = (unat a + unat b) mod 65521"
    unfolding assms(2) by (subst mod_line_0) auto
  then have "unat (t + a') = unat t + (unat a + unat b) mod 65521"
    using lt by (simp add: unat_word_ariths mod_less)
  with lt have "unat t' = (unat t + unat a + unat b) mod 65521"
    unfolding assms(3) by (subst mod_line_0) (auto simp: mod_simps add.assoc)
  with a' show ?thesis by (simp add: repr_def adler_spec_def)
qed

lemma adler_few_bytes:
  assumes "reduced (a, t)" "length bs \<le> 15" "s = fold adler_DO1 bs (a, t)"
  shows "repr (if fst s \<ge> adler_BASE then fst s - adler_BASE else fst s, adler_MOD4 (snd s)) =
    adler_spec bs (unat a, unat t)"
proof -
  have lt: "unat a < 65521" "unat t < 65521" using assms(1) by (auto simp: reduced_def)
  obtain x y where f: "fold adler_step bs (unat a, unat t) = (x, y)" by (cases "fold adler_step bs (unat a, unat t)")
  have rs: "repr s = (x, y)"
    unfolding assms(3) using adler_fold_repr[of bs "(a, t)" x y] adler_no_overflow[OF _ lt f] f assms(2)
    by (simp add: repr_def)
  have "x \<le> unat a + 255 * length bs"
    and "2 * y \<le> 2 * unat t + 2 * length bs * unat a + 255 * length bs * (length bs + 1)"
    using adler_fold_bound[OF f] by auto
  moreover have "2 * length bs * unat a \<le> 2 * 15 * 65520" "255 * length bs * (length bs + 1) \<le> 255 * 15 * 16"
    "255 * length bs \<le> 255 * 15"
    using assms(2) lt by (intro mult_le_mono; simp)+
  ultimately have small: "x < 2 * 65521" "y < 32 * 65521" using lt by linarith+
  with rs f show ?thesis
    using mod_line_0[of "fst s"] adler_MOD4_mod[of "snd s"] by (auto simp: repr_def adler_spec_def split: prod.splits)
qed

lemma adler_many_bytes:
  assumes "n \<le> length buf" "reduced (a, t)"
  shows "\<exists>m rest s s'. adler_NMAX_loop n buf (a, t) = Some (m, rest, s) \<and> adler_tail m rest s = Some s' \<and>
    repr s' = adler_spec (take n buf) (unat a, unat t)"
proof -
  from adler_NMAX_loop_spec[OF assms] obtain k s where
    k: "adler_NMAX_loop n buf (a, t) = Some (n - k, drop k buf, s)" "k \<le> n"
    "n - k < 5552" "repr s = adler_spec (take k buf) (repr (a, t))" "reduced s" by blast
  from adler_tail_spec[of "n - k" "drop k buf" s] k diff_le_mono[OF assms(1), of k] obtain s' where
    s': "adler_tail (n - k) (drop k buf) s = Some s'"
    "repr s' = adler_spec (take (n - k) (drop k buf)) (repr s)" by auto
  have "take n buf = take k buf @ take (n - k) (drop k buf)"
    using take_add[of k "n - k" buf] k(2) by simp
  with s' k have "repr s' = adler_spec (take n buf) (unat a, unat t)"
    by (simp add: adler_spec_append repr_def)
  with k(1) s'(1) show ?thesis by blast
qed

lemma adler_pack_repr:
  "repr s = adler_spec bs p \<Longrightarrow>
     Some (adler_pack (fst s) (snd s)) = (let (x, y) = adler_spec bs p in Some (adler_pack (of_nat x) (of_nat y)))"
  by (cases s) (auto simp: repr_def dest: sym)

text \<open>
  C38. The Adler-32 checksum of the first \<open>len\<close> bytes, started from reduced sums, is the two sums of its
  definition modulo 65521: none of the sums overflows 32 bits between two reductions (this is the choice of
  \<^verbatim>\<open>NMAX\<close>), and the chains of conditional subtractions are complete reductions.
\<close>

theorem adler32_correct:
  assumes "unat len \<le> length buf"
    and "adler AND 0xffff < 65521" "drop_bit 16 adler AND 0xffff < 65521"
  shows "VG_adler32 adler (Some buf) len =
     (let (x, y) = adler_spec (take (unat len) buf) (unat (adler AND 0xffff), unat (drop_bit 16 adler AND 0xffff))
      in Some (adler_pack (of_nat x) (of_nat y)))"
proof -
  define a where "a = adler AND 0xffff"
  define t where "t = drop_bit 16 adler AND 0xffff"
  note defs = VG_adler32_def a_def[symmetric] t_def[symmetric] Let_def
  have red: "reduced (a, t)"
    using assms(2,3) by (auto simp: a_def t_def word_less_nat_alt reduced_def)
  have "\<exists>s. VG_adler32 adler (Some buf) len = Some (adler_pack (fst s) (snd s)) \<and>
      repr s = adler_spec (take (unat len) buf) (unat a, unat t)"
  proof (cases "len = 1")
    case True
    then obtain b r where "buf = b # r" using assms(1) by (cases buf) auto
    with True adler_one_byte[OF red refl refl, of b] show ?thesis by (fastforce simp: defs)
  next
    case False
    show ?thesis
    proof (cases "len < 16")
      case True
      then have "length (take (unat len) buf) \<le> 15" by (simp add: word_less_nat_alt)
      from adler_few_bytes[OF red this refl] True False assms(1) adler_bytes_fold[of "unat len" buf "(a, t)"]
      show ?thesis
        by (intro exI[of _ "(if fst (fold adler_DO1 (take (unat len) buf) (a, t)) \<ge> adler_BASE then _ else _, _)"] conjI)
          (auto simp: defs split: prod.splits)
    next
      case big: False
      with False adler_many_bytes[OF assms(1) red] show ?thesis by (fastforce simp: defs split: prod.splits)
    qed
  qed
  then show ?thesis using adler_pack_repr by (metis a_def t_def)
qed

theorem adler32_correct_witness:
  "VG_adler32 1 (Some [97, 98, 99]) 3 = Some 0x024d0127"
  using adler32_correct[of 3 "[97, 98, 99]" 1] by (simp add: adler_spec_def adler_pack_def)

end
