(* ===== verification/Libc_Sort.thy ===== *)
theory Libc_Sort
  imports Libc_Str_Props "HOL-Library.Multiset"
begin

text \<open>
  The sort of Valgrind's private C library, \<^verbatim>\<open>VG_(ssort)\<close> of \<^verbatim>\<open>coregrind/m_libcbase.c\<close>: the quicksort of Bentley
  and McIlroy, with the three-way partition that gathers the elements equal to the pivot at both ends.

  The array is a list of elements and a position counts elements, where the code counts bytes: \<^verbatim>\<open>a + i*es\<close> is
  position \<open>i\<close>, and exchanging \<^verbatim>\<open>es\<close> bytes by words or by characters exchanges two elements. The base address
  and \<^verbatim>\<open>es\<close> remain, because they choose between a pivot kept in the array and a copied one. The pointers \<^verbatim>\<open>pc\<close>
  and \<^verbatim>\<open>pd\<close> may run one element below the array; they are kept as the positions one above, \<open>qc\<close> and \<open>qd\<close>. An
  access outside the array fails.
\<close>

section \<open>The code\<close>

type_synonym 'e cmp = "'e \<Rightarrow> 'e \<Rightarrow> int"

definition BM_SWAPINIT :: "nat \<Rightarrow> nat \<Rightarrow> nat \<Rightarrow> nat" where
  "BM_SWAPINIT base es a = (if ((base + a * es) OR es) mod 8 \<noteq> 0 then 2 else if es > 8 then 1 else 0)"

definition elt :: "'e list \<Rightarrow> nat \<Rightarrow> 'e option" where
  "elt xs i = (if i < length xs then Some (xs ! i) else None)"

definition BM_SWAP :: "nat \<Rightarrow> nat \<Rightarrow> 'e list \<Rightarrow> 'e list option" where
  "BM_SWAP i j xs = (if i < length xs \<and> j < length xs then Some (xs[i := xs ! j, j := xs ! i]) else None)"

definition bm_swapfunc :: "nat \<Rightarrow> nat \<Rightarrow> nat \<Rightarrow> 'e list \<Rightarrow> 'e list option" where
  "bm_swapfunc a b n xs = foldO (\<lambda>k. BM_SWAP (a + k) (b + k)) [0..<n] xs"

definition bm_med3 :: "'e cmp \<Rightarrow> 'e list \<Rightarrow> nat \<Rightarrow> nat \<Rightarrow> nat \<Rightarrow> nat option" where
  "bm_med3 cmp xs a b c = do {
     x \<leftarrow> elt xs a; y \<leftarrow> elt xs b; z \<leftarrow> elt xs c;
     Some (if cmp x y < 0 then (if cmp y z < 0 then b else if cmp x z < 0 then c else a)
           else (if cmp y z > 0 then b else if cmp x z > 0 then c else a))
   }"

text \<open>The insertion sort of short arrays: the inner loop moves \<open>pl\<close> down to its place.\<close>

fun ins_loop :: "'e cmp \<Rightarrow> nat \<Rightarrow> nat \<Rightarrow> 'e list \<Rightarrow> 'e list option" where
  "ins_loop cmp a 0 xs = Some xs"
| "ins_loop cmp a (Suc k) xs =
     (if Suc k > a then do {
        x \<leftarrow> elt xs k; y \<leftarrow> elt xs (Suc k);
        if cmp x y > 0 then do { xs \<leftarrow> BM_SWAP (Suc k) k xs; ins_loop cmp a k xs }
        else Some xs
      } else Some xs)"

definition ins_sort :: "'e cmp \<Rightarrow> nat \<Rightarrow> nat \<Rightarrow> 'e list \<Rightarrow> 'e list option" where
  "ins_sort cmp a n xs = foldO (\<lambda>pm. ins_loop cmp a pm) [a + 1..<a + n] xs"

definition choose_pivot :: "'e cmp \<Rightarrow> nat \<Rightarrow> nat \<Rightarrow> 'e list \<Rightarrow> nat option" where
  "choose_pivot cmp a n xs =
     (let pm = a + n div 2
      in if n > 7 then do {
           (pl, pm, pn) \<leftarrow>
             (if n > 40 then do {
                let s = n div 8;
                pl \<leftarrow> bm_med3 cmp xs a (a + s) (a + 2 * s);
                pm \<leftarrow> bm_med3 cmp xs (pm - s) pm (pm + s);
                pn \<leftarrow> bm_med3 cmp xs (a + (n - 1) - 2 * s) (a + (n - 1) - s) (a + (n - 1));
                Some (pl, pm, pn)
              } else Some (a, pm, a + (n - 1)));
           bm_med3 cmp xs pl pm pn
         } else Some pm)"

text \<open>\<^verbatim>\<open>BM_PVINIT\<close>: the pivot is the element at \<open>a\<close> (\<^term>\<open>None\<close>), exchanged with the chosen one, or a copy of it.\<close>

definition BM_PVINIT :: "nat \<Rightarrow> nat \<Rightarrow> nat \<Rightarrow> 'e list \<Rightarrow> ('e option \<times> 'e list) option" where
  "BM_PVINIT swaptype a pm xs =
     (if swaptype \<noteq> 0 then map_option (Pair None) (BM_SWAP a pm xs)
      else map_option (\<lambda>v. (Some v, xs)) (elt xs pm))"

definition pivot :: "'e option \<Rightarrow> nat \<Rightarrow> 'e list \<Rightarrow> 'e option" where
  "pivot pv a xs = (case pv of Some v \<Rightarrow> Some v | None \<Rightarrow> elt xs a)"

text \<open>The two scans; \<open>k\<close> counts the elements between them, \<open>qc - pb\<close>.\<close>

fun scan_up :: "'e cmp \<Rightarrow> 'e option \<Rightarrow> nat \<Rightarrow> nat \<Rightarrow> nat \<Rightarrow> nat \<Rightarrow> 'e list \<Rightarrow> (nat \<times> nat \<times> 'e list) option" where
  "scan_up cmp pv a 0 pa pb xs = Some (pa, pb, xs)"
| "scan_up cmp pv a (Suc k) pa pb xs = do {
     x \<leftarrow> elt xs pb; v \<leftarrow> pivot pv a xs;
     if cmp x v > 0 then Some (pa, pb, xs)
     else if cmp x v = 0 then do { xs \<leftarrow> BM_SWAP pa pb xs; scan_up cmp pv a k (pa + 1) (pb + 1) xs }
     else scan_up cmp pv a k pa (pb + 1) xs
   }"

fun scan_down :: "'e cmp \<Rightarrow> 'e option \<Rightarrow> nat \<Rightarrow> nat \<Rightarrow> nat \<Rightarrow> nat \<Rightarrow> 'e list \<Rightarrow> (nat \<times> nat \<times> 'e list) option" where
  "scan_down cmp pv a 0 qc qd xs = Some (qc, qd, xs)"
| "scan_down cmp pv a (Suc k) qc qd xs = do {
     x \<leftarrow> elt xs (qc - 1); v \<leftarrow> pivot pv a xs;
     if cmp x v < 0 then Some (qc, qd, xs)
     else if cmp x v = 0 then do { xs \<leftarrow> BM_SWAP (qc - 1) (qd - 1) xs; scan_down cmp pv a k (qc - 1) (qd - 1) xs }
     else scan_down cmp pv a k (qc - 1) qd xs
   }"

text \<open>The partition loop; every iteration but the last narrows the gap, so the size of the array is enough fuel.\<close>

fun partition_loop :: "nat \<Rightarrow> 'e cmp \<Rightarrow> 'e option \<Rightarrow> nat \<Rightarrow> nat \<times> nat \<times> nat \<times> nat \<times> 'e list
    \<Rightarrow> (nat \<times> nat \<times> nat \<times> nat \<times> 'e list) option" where
  "partition_loop 0 cmp pv a st = None"
| "partition_loop (Suc fuel) cmp pv a (pa, pb, qc, qd, xs) = do {
     (pa, pb, xs) \<leftarrow> scan_up cmp pv a (qc - pb) pa pb xs;
     (qc, qd, xs) \<leftarrow> scan_down cmp pv a (qc - pb) qc qd xs;
     if pb \<ge> qc then Some (pa, pb, qc, qd, xs)
     else do {
       xs \<leftarrow> BM_SWAP pb (qc - 1) xs;
       partition_loop fuel cmp pv a (pa, pb + 1, qc - 1, qd, xs)
     }
   }"

text \<open>The partition of the \<open>n\<close> elements at \<open>a\<close>: the number of smaller and of greater elements, and the array.\<close>

definition bm_partition :: "'e cmp \<Rightarrow> nat \<Rightarrow> nat \<Rightarrow> nat \<Rightarrow> 'e list \<Rightarrow> (nat \<times> nat \<times> 'e list) option" where
  "bm_partition cmp swaptype a n xs = do {
     pm \<leftarrow> choose_pivot cmp a n xs;
     (pv, xs) \<leftarrow> BM_PVINIT swaptype a pm xs;
     (pa, pb, qc, qd, xs) \<leftarrow> partition_loop (n + 1) cmp pv a (a, a, a + n, a + n, xs);
     let pn = a + n;
     let s = min (pa - a) (pb - pa);
     xs \<leftarrow> bm_swapfunc a (pb - s) s xs;
     let s = min (qd - qc) (pn - qd);
     xs \<leftarrow> bm_swapfunc pb (pn - s) s xs;
     Some (pb - pa, qd - qc, xs)
   }"

text \<open>Each recursive call, the tail call included, is on less elements, so \<open>n\<close> bounds the depth.\<close>

fun bm_qsort :: "nat \<Rightarrow> 'e cmp \<Rightarrow> nat \<Rightarrow> nat \<Rightarrow> nat \<Rightarrow> nat \<Rightarrow> 'e list \<Rightarrow> 'e list option" where
  "bm_qsort 0 cmp base es a n xs = None"
| "bm_qsort (Suc fuel) cmp base es a n xs =
     (if n < 7 then ins_sort cmp a n xs
      else do {
        (s1, s2, xs) \<leftarrow> bm_partition cmp (BM_SWAPINIT base es a) a n xs;
        let pn = a + n;
        if s1 < s2 then do {
          xs \<leftarrow> (if s1 > 1 then bm_qsort fuel cmp base es a s1 xs else Some xs);
          if s2 > 1 then bm_qsort fuel cmp base es (pn - s2) s2 xs else Some xs
        } else do {
          xs \<leftarrow> (if s2 > 1 then bm_qsort fuel cmp base es (pn - s2) s2 xs else Some xs);
          if s1 > 1 then bm_qsort fuel cmp base es a s1 xs else Some xs
        }
      })"

definition VG_ssort :: "'e cmp \<Rightarrow> nat \<Rightarrow> nat \<Rightarrow> nat \<Rightarrow> 'e list \<Rightarrow> 'e list option" where
  "VG_ssort cmp base nmemb es xs = bm_qsort (nmemb + 1) cmp base es 0 nmemb xs"

end
