(* ===== verification/Libc_Sort_Props.thy ===== *)
theory Libc_Sort_Props
  imports Libc_Sort
begin

text \<open>
  The sort is correct for every comparison function that is a total preorder: the interface \<open>comparator\<close>.
  Positions outside the sorted range keep their elements (\<open>kept\<close>), the range is a permutation of what it was,
  and it is sorted.
\<close>

section \<open>Rearranging a range\<close>

text \<open>\<open>ys\<close> is \<open>xs\<close> with the elements of the positions from \<open>lo\<close> to below \<open>hi\<close> rearranged.\<close>

definition rearranged :: "nat \<Rightarrow> nat \<Rightarrow> 'e list \<Rightarrow> 'e list \<Rightarrow> bool" where
  "rearranged lo hi xs ys \<longleftrightarrow> length ys = length xs \<and> mset ys = mset xs \<and>
     (\<forall>k. k < lo \<or> hi \<le> k \<longrightarrow> k < length xs \<longrightarrow> ys ! k = xs ! k)"

lemma rearranged_refl [simp]: "rearranged lo hi xs xs"
  by (simp add: rearranged_def)

lemma rearranged_trans [trans]:
  "rearranged lo hi xs ys \<Longrightarrow> rearranged lo hi ys zs \<Longrightarrow> rearranged lo hi xs zs"
  by (simp add: rearranged_def)

lemma rearranged_mono: "rearranged lo hi xs ys \<Longrightarrow> lo' \<le> lo \<Longrightarrow> hi \<le> hi' \<Longrightarrow> rearranged lo' hi' xs ys"
  by (auto simp: rearranged_def)

lemma rearranged_length: "rearranged lo hi xs ys \<Longrightarrow> length ys = length xs"
  by (simp add: rearranged_def)

lemma rearranged_outside:
  "rearranged lo hi xs ys \<Longrightarrow> k < lo \<or> hi \<le> k \<Longrightarrow> k < length xs \<Longrightarrow> ys ! k = xs ! k"
  by (auto simp: rearranged_def)

lemma rearranged_sym: "rearranged lo hi xs ys \<Longrightarrow> rearranged lo hi ys xs"
  by (auto simp: rearranged_def)

lemma BM_SWAP_rearranged:
  assumes "i < length xs" "j < length xs" "lo \<le> i" "i < hi" "lo \<le> j" "j < hi"
  shows "\<exists>ys. BM_SWAP i j xs = Some ys \<and> rearranged lo hi xs ys \<and>
    (\<forall>k < length xs. ys ! k = (if k = j then xs ! i else if k = i then xs ! j else xs ! k))"
  using assms by (auto simp: BM_SWAP_def rearranged_def mset_swap nth_list_update)

text \<open>The elements of the range.\<close>

lemma range_set:
  assumes "rearranged lo hi xs ys" "lo \<le> hi" "hi \<le> length xs"
  shows "mset (take (hi - lo) (drop lo ys)) = mset (take (hi - lo) (drop lo xs))"
proof -
  have len: "length ys = length xs" using assms(1) by (rule rearranged_length)
  have split: "zs = take lo zs @ take (hi - lo) (drop lo zs) @ drop hi zs" for zs :: "'a list"
    using assms(2) by (metis append_take_drop_id drop_drop le_add_diff_inverse2)
  have "take lo ys = take lo xs" "drop hi ys = drop hi xs"
    using assms len by (auto intro!: nth_equalityI simp: rearranged_outside)
  moreover have "mset ys = mset xs" using assms(1) by (simp add: rearranged_def)
  ultimately show ?thesis
    using split[of xs] split[of ys] by (metis (no_types, lifting) add_left_cancel add_right_cancel mset_append)
qed

lemma range_all:
  assumes "rearranged lo hi xs ys" "lo \<le> hi" "hi \<le> length xs"
    and "\<And>k. lo \<le> k \<Longrightarrow> k < hi \<Longrightarrow> P (xs ! k)" and "lo \<le> j" "j < hi"
  shows "P (ys ! j)"
proof -
  have len: "length ys = length xs" using assms(1) by (rule rearranged_length)
  have "ys ! j \<in> set (take (hi - lo) (drop lo ys))"
    using assms len by (auto simp: in_set_conv_nth intro!: exI[of _ "j - lo"])
  then have "ys ! j \<in> set (take (hi - lo) (drop lo xs))"
    using range_set[OF assms(1-3)] by (metis set_mset_mset)
  then obtain k where "k < hi - lo" "ys ! j = xs ! (lo + k)"
    using assms(2,3) by (auto simp: in_set_conv_nth)
  with assms(4)[of "lo + k"] show ?thesis by simp
qed

lemma bm_swapfunc_spec:
  assumes "lo \<le> p" "p + m \<le> q" "q + m \<le> hi" "hi \<le> length xs"
  shows "\<exists>ys. bm_swapfunc p q m xs = Some ys \<and> rearranged lo hi xs ys \<and>
    (\<forall>k < length xs. ys ! k = (if p \<le> k \<and> k < p + m then xs ! (q + (k - p))
                              else if q \<le> k \<and> k < q + m then xs ! (p + (k - q)) else xs ! k))"
proof -
  let ?P = "\<lambda>i ys. rearranged lo hi xs ys \<and>
    (\<forall>k < length xs. ys ! k = (if p \<le> k \<and> k < p + i then xs ! (q + (k - p))
                              else if q \<le> k \<and> k < q + i then xs ! (p + (k - q)) else xs ! k))"
  have "\<exists>ys. foldO (\<lambda>k. BM_SWAP (p + k) (q + k)) [0..<m] xs = Some ys \<and> ?P m ys"
  proof (rule foldO_upt[where P = ?P])
    fix i ys assume i: "i < m" "?P i ys"
    then have len: "length ys = length xs" by (auto dest: rearranged_length)
    with i assms BM_SWAP_rearranged[of "p + i" ys "q + i" lo hi] obtain zs where
      zs: "BM_SWAP (p + i) (q + i) ys = Some zs" "rearranged lo hi ys zs"
      "\<forall>k < length ys. zs ! k = (if k = q + i then ys ! (p + i) else if k = p + i then ys ! (q + i) else ys ! k)"
      by auto
    have "?P (Suc i) zs"
      using i zs(2,3) len assms by (auto intro: rearranged_trans simp: less_Suc_eq)
    with zs(1) show "\<exists>zs. BM_SWAP (p + i) (q + i) ys = Some zs \<and> ?P (Suc i) zs" by blast
  qed auto
  then show ?thesis by (simp add: bm_swapfunc_def)
qed

section \<open>Sorting\<close>

definition sorted_range :: "'e cmp \<Rightarrow> nat \<Rightarrow> nat \<Rightarrow> 'e list \<Rightarrow> bool" where
  "sorted_range cmp lo hi xs \<longleftrightarrow> (\<forall>i j. lo \<le> i \<longrightarrow> i < j \<longrightarrow> j < hi \<longrightarrow> cmp (xs ! i) (xs ! j) \<le> 0)"

definition sorts :: "'e cmp \<Rightarrow> ('e list \<Rightarrow> 'e list option) \<Rightarrow> nat \<Rightarrow> nat \<Rightarrow> 'e list \<Rightarrow> bool" where
  "sorts cmp f lo hi xs \<longleftrightarrow> (\<exists>ys. f xs = Some ys \<and> rearranged lo hi xs ys \<and> sorted_range cmp lo hi ys)"

text \<open>Before the insertion the range is sorted but for the element at \<open>p\<close>, which may be too small for its place.\<close>

definition almost :: "'e cmp \<Rightarrow> nat \<Rightarrow> nat \<Rightarrow> nat \<Rightarrow> 'e list \<Rightarrow> bool" where
  "almost cmp a p hi xs \<longleftrightarrow> (\<forall>i j. a \<le> i \<longrightarrow> i < j \<longrightarrow> j < hi \<longrightarrow> j \<noteq> p \<longrightarrow> cmp (xs ! i) (xs ! j) \<le> 0)"

text \<open>
  The invariant of the partition of the \<open>n\<close> elements at \<open>a\<close> by the pivot \<open>v\<close>: equal, smaller, not yet seen,
  greater, equal. A pivot that lives in the array stays at \<open>a\<close>.
\<close>

definition all_in :: "nat \<Rightarrow> nat \<Rightarrow> ('e \<Rightarrow> bool) \<Rightarrow> 'e list \<Rightarrow> bool" where
  "all_in lo hi P xs \<longleftrightarrow> (\<forall>k. lo \<le> k \<longrightarrow> k < hi \<longrightarrow> P (xs ! k))"

lemma all_in_low: "all_in (Suc c) hi P xs \<Longrightarrow> P (xs ! c) \<Longrightarrow> all_in c hi P xs"
  unfolding all_in_def by (metis Suc_leI le_neq_implies_less)

definition part_inv :: "'e cmp \<Rightarrow> 'e option \<Rightarrow> 'e \<Rightarrow> nat \<Rightarrow> nat \<Rightarrow> 'e list
    \<Rightarrow> nat \<times> nat \<times> nat \<times> nat \<times> 'e list \<Rightarrow> bool" where
  "part_inv cmp pv v a n xs0 = (\<lambda>(pa, pb, qc, qd, xs).
     rearranged a (a + n) xs0 xs \<and> a \<le> pa \<and> pa \<le> pb \<and> pb \<le> qc \<and> qc \<le> qd \<and> qd \<le> a + n \<and>
     all_in a pa (\<lambda>x. cmp x v = 0) xs \<and> all_in pa pb (\<lambda>x. cmp x v < 0) xs \<and>
     all_in qc qd (\<lambda>x. cmp x v > 0) xs \<and> all_in qd (a + n) (\<lambda>x. cmp x v = 0) xs \<and>
     (pv = Some v \<or> pv = None \<and> xs ! a = v \<and> (pa > a \<or> pb = a \<and> qc = a + n)))"

locale comparator =
  fixes cmp :: "'e \<Rightarrow> 'e \<Rightarrow> int"
  assumes cmp_antisym: "cmp x y < 0 \<longleftrightarrow> cmp y x > 0"
    and cmp_trans: "cmp x y \<le> 0 \<Longrightarrow> cmp y z \<le> 0 \<Longrightarrow> cmp x z \<le> 0"
begin

lemma cmp_refl [simp]: "cmp x x = 0"
  using cmp_antisym[of x x] by linarith

lemma cmp_flip: "cmp x y > 0 \<Longrightarrow> cmp y x \<le> 0"
  using cmp_antisym[of y x] by linarith

lemma cmp_zero_sym: "cmp x y = 0 \<Longrightarrow> cmp y x = 0"
  using cmp_antisym[of y x] cmp_antisym[of x y] by linarith

subsection \<open>Insertion sort\<close>

lemma ins_loop_sorts:
  assumes "almost cmp a p hi xs" "a \<le> p" "p < hi" "hi \<le> length xs"
  shows "\<exists>ys. ins_loop cmp a p xs = Some ys \<and> rearranged a hi xs ys \<and> sorted_range cmp a hi ys"
  using assms
proof (induction p arbitrary: xs)
  case 0
  then show ?case by (auto simp: almost_def sorted_range_def)
next
  case (Suc k)
  consider "a = Suc k" | "a \<le> k" "cmp (xs ! k) (xs ! Suc k) > 0" | "a \<le> k" "cmp (xs ! k) (xs ! Suc k) \<le> 0"
    using Suc.prems by linarith
  then show ?case
  proof cases
    case 1
    with Suc.prems show ?thesis by (auto simp: almost_def sorted_range_def)
  next
    case 2
    from BM_SWAP_rearranged[of "Suc k" xs k a hi] Suc.prems 2(1) obtain ys where
      ys: "BM_SWAP (Suc k) k xs = Some ys" "rearranged a hi xs ys"
      "\<forall>j < length xs. ys ! j = (if j = k then xs ! Suc k else if j = Suc k then xs ! k else xs ! j)" by auto
    have "almost cmp a k hi ys"
      unfolding almost_def
    proof (intro allI impI)
      fix i j assume "a \<le> i" "i < j" "j < hi" "j \<noteq> k"
      with ys(3) Suc.prems 2(1) cmp_flip[OF 2(2)] show "cmp (ys ! i) (ys ! j) \<le> 0"
        unfolding almost_def by (cases "j = Suc k"; cases "i = k"; cases "i = Suc k") auto
    qed
    from Suc.IH[OF this] Suc.prems 2(1) rearranged_length[OF ys(2)] obtain zs where
      "ins_loop cmp a k ys = Some zs" "rearranged a hi ys zs" "sorted_range cmp a hi zs" by auto
    with ys 2 Suc.prems show ?thesis by (auto simp: elt_def intro: rearranged_trans)
  next
    case 3
    have "sorted_range cmp a hi xs"
      unfolding sorted_range_def
    proof (intro allI impI)
      fix i j assume ij: "a \<le> i" "i < j" "j < hi"
      have al: "cmp (xs ! i) (xs ! j) \<le> 0" if "i < j" "j < hi" "j \<noteq> Suc k" for j
        using Suc.prems(1) ij(1) that unfolding almost_def by blast
      consider "j \<noteq> Suc k" | "j = Suc k" "i = k" | "j = Suc k" "i < k" using ij(2) by linarith
      then show "cmp (xs ! i) (xs ! j) \<le> 0"
      proof cases
        case 1
        with al ij show ?thesis by blast
      next
        case 2
        with 3 show ?thesis by blast
      next
        case 3
        with al[of k] ij have "cmp (xs ! i) (xs ! k) \<le> 0" by simp
        with 3 cmp_trans \<open>cmp (xs ! k) (xs ! Suc k) \<le> 0\<close> show ?thesis by blast
      qed
    qed
    with 3 Suc.prems show ?thesis by (auto simp: elt_def)
  qed
qed

lemma ins_sort_sorts:
  assumes "a + n \<le> length xs"
  shows "\<exists>ys. ins_sort cmp a n xs = Some ys \<and> rearranged a (a + n) xs ys \<and> sorted_range cmp a (a + n) ys"
proof (cases "n = 0")
  case True
  then show ?thesis by (simp add: ins_sort_def sorted_range_def)
next
  case False
  let ?P = "\<lambda>p ys. rearranged a (a + n) xs ys \<and> sorted_range cmp a p ys"
  have "\<exists>ys. foldO (\<lambda>pm. ins_loop cmp a pm) [a + 1..<a + n] xs = Some ys \<and> ?P (a + n) ys"
  proof (rule foldO_upt[where P = ?P])
    fix p ys assume p: "a + 1 \<le> p" "p < a + n" "?P p ys"
    then have "almost cmp a p (Suc p) ys" by (auto simp: almost_def sorted_range_def)
    from ins_loop_sorts[OF this] p assms rearranged_length[of a "a + n" xs ys] obtain zs where
      "ins_loop cmp a p ys = Some zs" "rearranged a (Suc p) ys zs" "sorted_range cmp a (Suc p) zs" by auto
    moreover from this(2) p have "rearranged a (a + n) ys zs" by (auto elim: rearranged_mono)
    ultimately show "\<exists>zs. ins_loop cmp a p ys = Some zs \<and> ?P (Suc p) zs"
      using p by (auto intro: rearranged_trans)
  qed (use False in \<open>auto simp: sorted_range_def\<close>)
  then show ?thesis by (simp add: ins_sort_def)
qed

subsection \<open>Partition\<close>

lemma pivot_read:
  "part_inv cmp pv v a n xs0 (pa, pb, qc, qd, xs) \<Longrightarrow> 0 < n \<Longrightarrow> a + n \<le> length xs0 \<Longrightarrow> pivot pv a xs = Some v"
  by (auto simp: part_inv_def pivot_def elt_def dest!: rearranged_length)

lemma scan_up_step:
  assumes inv: "part_inv cmp pv v a n xs0 (pa, pb, qc, qd, xs)" and "pb < qc" "a + n \<le> length xs0"
    and eq: "cmp (xs ! pb) v = 0"
  shows "\<exists>ys. BM_SWAP pa pb xs = Some ys \<and> part_inv cmp pv v a n xs0 (pa + 1, pb + 1, qc, qd, ys)"
proof -
  have len: "length xs = length xs0" and b: "a \<le> pa" "pa \<le> pb" "qc \<le> qd" "qd \<le> a + n"
    using inv by (auto simp: part_inv_def dest: rearranged_length)
  with assms(2,3) BM_SWAP_rearranged[of pa xs pb a "a + n"] obtain ys where
    ys: "BM_SWAP pa pb xs = Some ys" "rearranged a (a + n) xs ys"
    "\<forall>k < length xs. ys ! k = (if k = pb then xs ! pa else if k = pa then xs ! pb else xs ! k)" by auto
  have "part_inv cmp pv v a n xs0 (pa + 1, pb + 1, qc, qd, ys)"
    unfolding part_inv_def prod.case
  proof (intro conjI)
    show "rearranged a (a + n) xs0 ys" using inv ys(2) by (auto simp: part_inv_def intro: rearranged_trans)
    show "all_in a (pa + 1) (\<lambda>x. cmp x v = 0) ys" "all_in (pa + 1) (pb + 1) (\<lambda>x. cmp x v < 0) ys"
      "all_in qc qd (\<lambda>x. cmp x v > 0) ys" "all_in qd (a + n) (\<lambda>x. cmp x v = 0) ys"
      using inv ys(3) b len assms(2,3) eq by (auto simp: part_inv_def all_in_def)
    show "pv = Some v \<or> pv = None \<and> ys ! a = v \<and> (pa + 1 > a \<or> pb + 1 = a \<and> qc = a + n)"
      using inv ys(3) b len assms(2,3) by (auto simp: part_inv_def)
  qed (use inv assms(2) in \<open>auto simp: part_inv_def\<close>)
  with ys(1) show ?thesis by blast
qed

lemma scan_up_inv:
  assumes "part_inv cmp pv v a n xs0 (pa, pb, qc, qd, xs)" "0 < n" "a + n \<le> length xs0" "k = qc - pb"
  shows "\<exists>pa' pb' ys. scan_up cmp pv a k pa pb xs = Some (pa', pb', ys) \<and>
    part_inv cmp pv v a n xs0 (pa', pb', qc, qd, ys) \<and> pb \<le> pb' \<and> (pb' < qc \<longrightarrow> cmp (ys ! pb') v > 0)"
  using assms
proof (induction k arbitrary: pa pb xs)
  case 0
  then show ?case by (auto simp: part_inv_def)
next
  case (Suc k)
  then have lt: "pb < qc" and len: "pb < length xs"
    by (auto simp: part_inv_def dest: rearranged_length)
  note pivot = pivot_read[OF Suc.prems(1-3)]
  have k: "k = qc - (pb + 1)" using Suc.prems(4) by simp
  consider "cmp (xs ! pb) v > 0" | "cmp (xs ! pb) v = 0" | "cmp (xs ! pb) v < 0" by linarith
  then show ?case
  proof cases
    case 1
    with Suc.prems(1-3) pivot len show ?thesis by (auto simp: elt_def)
  next
    case 2
    from scan_up_step[OF Suc.prems(1) lt Suc.prems(3) 2] obtain ys where
      "BM_SWAP pa pb xs = Some ys" "part_inv cmp pv v a n xs0 (pa + 1, pb + 1, qc, qd, ys)" by blast
    with Suc.IH[of "pa + 1" "pb + 1" ys, OF _ Suc.prems(2,3) k] 2 pivot len show ?thesis
      by (fastforce simp: elt_def)
  next
    case 3
    with Suc.prems(1) lt have "part_inv cmp pv v a n xs0 (pa, pb + 1, qc, qd, xs)"
      by (auto simp: part_inv_def all_in_def less_Suc_eq)
    from Suc.IH[OF this Suc.prems(2,3) k] 3 pivot len show ?thesis
      by (fastforce simp: elt_def)
  qed
qed

lemma scan_down_step:
  assumes inv: "part_inv cmp pv v a n xs0 (pa, pb, Suc c, Suc d, xs)" and "pb \<le> c" "a + n \<le> length xs0"
    and fixed: "pv = None \<Longrightarrow> a < pa" and eq: "cmp (xs ! c) v = 0"
  shows "\<exists>ys. BM_SWAP c d xs = Some ys \<and> part_inv cmp pv v a n xs0 (pa, pb, c, d, ys)"
proof -
  have len: "length xs = length xs0" and b: "a \<le> pa" "pa \<le> pb" "c \<le> d" "d < a + n"
    using inv by (auto simp: part_inv_def dest: rearranged_length)
  with assms(2,3) BM_SWAP_rearranged[of c xs d a "a + n"] obtain ys where
    ys: "BM_SWAP c d xs = Some ys" "rearranged a (a + n) xs ys"
    "\<forall>k < length xs. ys ! k = (if k = d then xs ! c else if k = c then xs ! d else xs ! k)"
    by auto
  have "part_inv cmp pv v a n xs0 (pa, pb, c, d, ys)"
    unfolding part_inv_def prod.case
  proof (intro conjI)
    show "rearranged a (a + n) xs0 ys" using inv ys(2) by (auto simp: part_inv_def intro: rearranged_trans)
    show "all_in a pa (\<lambda>x. cmp x v = 0) ys" "all_in pa pb (\<lambda>x. cmp x v < 0) ys"
      "all_in c d (\<lambda>x. cmp x v > 0) ys" "all_in d (a + n) (\<lambda>x. cmp x v = 0) ys"
      using inv ys(3) b len assms(2,3) eq by (auto simp: part_inv_def all_in_def)
    show "pv = Some v \<or> pv = None \<and> ys ! a = v \<and> (pa > a \<or> pb = a \<and> c = a + n)"
      using inv ys(3) b len assms(2,3) fixed by (auto simp: part_inv_def)
  qed (use inv assms(2) in \<open>auto simp: part_inv_def\<close>)
  with ys(1) show ?thesis by blast
qed

lemma scan_down_inv:
  assumes "part_inv cmp pv v a n xs0 (pa, pb, qc, qd, xs)" "0 < n" "a + n \<le> length xs0"
    and "pv = None \<Longrightarrow> a < pa" "k = qc - pb"
  shows "\<exists>qc' qd' ys. scan_down cmp pv a k qc qd xs = Some (qc', qd', ys) \<and>
    part_inv cmp pv v a n xs0 (pa, pb, qc', qd', ys) \<and> qc' \<le> qc \<and> (pb < qc' \<longrightarrow> cmp (ys ! (qc' - 1)) v < 0) \<and>
    (\<forall>j. j < qc' \<longrightarrow> ys ! j = xs ! j)"
  using assms
proof (induction k arbitrary: qc qd xs)
  case 0
  then show ?case by (auto simp: part_inv_def)
next
  case (Suc k)
  then obtain c d where cd: "qc = Suc c" "qd = Suc d" and b: "c \<le> d"
    by (cases qc; cases qd) (auto simp: part_inv_def)
  note inv = Suc.prems(1)[unfolded cd]
  have k: "k = c - pb" and pb: "pb \<le> c" using Suc.prems(5) cd by auto
  have len: "c < length xs" using inv Suc.prems(3) by (auto simp: part_inv_def dest: rearranged_length)
  note pivot = pivot_read[OF Suc.prems(1-3)]
  consider "cmp (xs ! c) v < 0" | "cmp (xs ! c) v = 0" | "cmp (xs ! c) v > 0" by linarith
  then show ?case
  proof cases
    case 1
    with inv pivot len cd show ?thesis by (auto simp: elt_def)
  next
    case 2
    from scan_down_step[OF inv pb Suc.prems(3,4) 2] obtain ys where
      ys: "BM_SWAP c d xs = Some ys" "part_inv cmp pv v a n xs0 (pa, pb, c, d, ys)" by blast
    from ys(1) b have kept: "\<forall>j < c. ys ! j = xs ! j" by (auto simp: BM_SWAP_def split: if_splits)
    from Suc.IH[OF ys(2) Suc.prems(2-4) k] obtain qc' qd' zs where
      zs: "scan_down cmp pv a k c d ys = Some (qc', qd', zs)" "part_inv cmp pv v a n xs0 (pa, pb, qc', qd', zs)"
      "qc' \<le> c" "pb < qc' \<longrightarrow> cmp (zs ! (qc' - 1)) v < 0" "\<forall>j. j < qc' \<longrightarrow> zs ! j = ys ! j" by blast
    have "scan_down cmp pv a (Suc k) qc qd xs = Some (qc', qd', zs)"
      using ys(1) zs(1) 2 pivot len cd by (simp add: elt_def)
    moreover have "qc' \<le> qc" "\<forall>j. j < qc' \<longrightarrow> zs ! j = xs ! j" using zs(3,5) kept cd by auto
    ultimately show ?thesis using zs(2,4) by blast
  next
    case 3
    with inv pb Suc.prems(4) have "part_inv cmp pv v a n xs0 (pa, pb, c, Suc d, xs)"
      by (auto simp: part_inv_def intro: all_in_low)
    from Suc.IH[OF this Suc.prems(2-4) k] 3 pivot len cd show ?thesis
      by (fastforce simp: elt_def)
  qed
qed

lemma partition_loop_inv:
  assumes "part_inv cmp pv v a n xs0 (pa, pb, qc, qd, xs)" "0 < n" "a + n \<le> length xs0" "qc - pb < fuel"
  shows "\<exists>pa' p qd' ys. partition_loop fuel cmp pv a (pa, pb, qc, qd, xs) = Some (pa', p, p, qd', ys) \<and>
    part_inv cmp pv v a n xs0 (pa', p, p, qd', ys)"
  using assms
proof (induction fuel arbitrary: pa pb qc qd xs)
  case (Suc fuel)
  from scan_up_inv[OF Suc.prems(1-3) refl] obtain pa1 pb1 xs1 where
    1: "scan_up cmp pv a (qc - pb) pa pb xs = Some (pa1, pb1, xs1)" "part_inv cmp pv v a n xs0 (pa1, pb1, qc, qd, xs1)"
    "pb \<le> pb1" "pb1 < qc \<longrightarrow> cmp (xs1 ! pb1) v > 0" by blast
  have fixed: "a < pa1" if "pv = None"
    using 1(2,4) that Suc.prems(2) by (auto simp: part_inv_def)
  from scan_down_inv[OF 1(2) Suc.prems(2,3) fixed refl] obtain qc1 qd1 xs2 where
    2: "scan_down cmp pv a (qc - pb1) qc qd xs1 = Some (qc1, qd1, xs2)" "part_inv cmp pv v a n xs0 (pa1, pb1, qc1, qd1, xs2)"
    "qc1 \<le> qc" "pb1 < qc1 \<longrightarrow> cmp (xs2 ! (qc1 - 1)) v < 0" "\<forall>j. j < qc1 \<longrightarrow> xs2 ! j = xs1 ! j" by blast
  show ?case
  proof (cases "pb1 \<ge> qc1")
    case True
    with 2(2) have "qc1 = pb1" by (auto simp: part_inv_def)
    with 1(1) 2(1,2) show ?thesis by auto
  next
    case False
    then obtain c where c: "qc1 = Suc c" by (cases qc1) auto
    with False 1(4) 2(3,4,5) have gt: "cmp (xs2 ! pb1) v > 0" and lt: "cmp (xs2 ! c) v < 0" by auto
    then have ne: "pb1 < c" using False c by (cases "pb1 = c") auto
    note inv = 2(2)[unfolded c]
    then have len: "length xs2 = length xs0" and b: "a \<le> pa1" "pa1 \<le> pb1" "Suc c \<le> qd1" "qd1 \<le> a + n"
      by (auto simp: part_inv_def dest: rearranged_length)
    with ne Suc.prems(3) BM_SWAP_rearranged[of pb1 xs2 c a "a + n"] obtain ys where
      ys: "BM_SWAP pb1 c xs2 = Some ys" "rearranged a (a + n) xs2 ys"
      "\<forall>k < length xs2. ys ! k = (if k = c then xs2 ! pb1 else if k = pb1 then xs2 ! c else xs2 ! k)"
      by auto
    have "part_inv cmp pv v a n xs0 (pa1, pb1 + 1, c, qd1, ys)"
      unfolding part_inv_def prod.case
    proof (intro conjI)
      show "rearranged a (a + n) xs0 ys" using inv ys(2) by (auto simp: part_inv_def intro: rearranged_trans)
      show "all_in a pa1 (\<lambda>x. cmp x v = 0) ys" "all_in pa1 (pb1 + 1) (\<lambda>x. cmp x v < 0) ys"
        "all_in c qd1 (\<lambda>x. cmp x v > 0) ys" "all_in qd1 (a + n) (\<lambda>x. cmp x v = 0) ys"
        using inv ys(3) b len ne Suc.prems(3) lt gt by (auto simp: part_inv_def all_in_def)
      show "pv = Some v \<or> pv = None \<and> ys ! a = v \<and> (pa1 > a \<or> pb1 + 1 = a \<and> c = a + n)"
        using inv ys(3) b len ne Suc.prems(3) fixed by (auto simp: part_inv_def)
    qed (use b ne in auto)
    from Suc.IH[OF this Suc.prems(2,3)] Suc.prems(4) 1(1,3) 2(1,3) ys(1) False c show ?thesis by auto
  qed
qed simp

text \<open>The two exchanges bring the equal elements from the ends to the middle.\<close>

lemma gather_left:
  assumes "all_in lo p P xs" "all_in p q Q xs" "lo \<le> p" "p \<le> q" "q \<le> hi" "hi \<le> length xs"
    and "m = min (p - lo) (q - p)"
  shows "\<exists>ys. bm_swapfunc lo (q - m) m xs = Some ys \<and> rearranged lo hi xs ys \<and>
    all_in lo (lo + (q - p)) Q ys \<and> all_in (lo + (q - p)) q P ys \<and> (\<forall>k. q \<le> k \<longrightarrow> k < length xs \<longrightarrow> ys ! k = xs ! k)"
proof -
  have m: "lo + m \<le> p" "p \<le> q - m" "m \<le> q" using assms by auto
  with bm_swapfunc_spec[of lo lo m "q - m" hi xs] assms(4-6) obtain ys where
    ys: "bm_swapfunc lo (q - m) m xs = Some ys" "rearranged lo hi xs ys"
    "\<forall>k < length xs. ys ! k = (if lo \<le> k \<and> k < lo + m then xs ! (q - m + (k - lo))
       else if q - m \<le> k \<and> k < q - m + m then xs ! (lo + (k - (q - m))) else xs ! k)" by auto
  have "all_in lo (lo + (q - p)) Q ys" "all_in (lo + (q - p)) q P ys"
    using assms(1-6) ys(3) m unfolding all_in_def assms(7) by (auto simp: min_def split: if_splits)
  with ys m show ?thesis by auto
qed

lemma gather_right:
  assumes "all_in lo p P xs" "all_in p hi Q xs" "lo \<le> p" "p \<le> hi" "hi \<le> length xs"
    and "m = min (p - lo) (hi - p)"
  shows "\<exists>ys. bm_swapfunc lo (hi - m) m xs = Some ys \<and> rearranged lo hi xs ys \<and>
    all_in lo (hi - (p - lo)) Q ys \<and> all_in (hi - (p - lo)) hi P ys"
proof -
  have m: "lo + m \<le> p" "p \<le> hi - m" "m \<le> hi" using assms by auto
  with bm_swapfunc_spec[of lo lo m "hi - m" hi xs] assms(4-5) obtain ys where
    ys: "bm_swapfunc lo (hi - m) m xs = Some ys" "rearranged lo hi xs ys"
    "\<forall>k < length xs. ys ! k = (if lo \<le> k \<and> k < lo + m then xs ! (hi - m + (k - lo))
       else if hi - m \<le> k \<and> k < hi - m + m then xs ! (lo + (k - (hi - m))) else xs ! k)" by auto
  have "all_in lo (hi - (p - lo)) Q ys" "all_in (hi - (p - lo)) hi P ys"
    using assms(1-5) ys(3) m unfolding all_in_def assms(6) by (auto simp: min_def split: if_splits)
  with ys show ?thesis by auto
qed

lemma bm_med3_in:
  assumes "i < length xs" "j < length xs" "k < length xs"
  shows "\<exists>m. bm_med3 cmp xs i j k = Some m \<and> m \<in> {i, j, k}"
  using assms by (auto simp: bm_med3_def elt_def)

lemma choose_pivot_in:
  assumes "7 \<le> n" "a + n \<le> length xs"
  shows "\<exists>pm. choose_pivot cmp a n xs = Some pm \<and> a \<le> pm \<and> pm < a + n"
proof -
  have "\<exists>pl pm pn. (if n > 40 then do {
                let s = n div 8;
                pl \<leftarrow> bm_med3 cmp xs a (a + s) (a + 2 * s);
                pm \<leftarrow> bm_med3 cmp xs (a + n div 2 - s) (a + n div 2) (a + n div 2 + s);
                pn \<leftarrow> bm_med3 cmp xs (a + (n - 1) - 2 * s) (a + (n - 1) - s) (a + (n - 1));
                Some (pl, pm, pn)
              } else Some (a, a + n div 2, a + (n - 1))) = Some (pl, pm, pn) \<and>
      {pl, pm, pn} \<subseteq> {a..<a + n}"
  proof (cases "n > 40")
    case True
    define s where "s = n div 8"
    have s: "8 * s \<le> n" "n < 8 * s + 8" "5 \<le> s" using True by (auto simp: s_def)
    obtain pl where pl: "bm_med3 cmp xs a (a + s) (a + 2 * s) = Some pl" "pl \<in> {a, a + s, a + 2 * s}"
      using bm_med3_in[of a xs "a + s" "a + 2 * s"] s assms by auto
    have h: "a + n div 2 + s < length xs" "a + n div 2 < length xs" "a + n div 2 - s < length xs"
      "a + (n - 1) - 2 * s < length xs" "a + (n - 1) - s < length xs" "a + (n - 1) < length xs"
      using s assms by linarith+
    obtain pm where pm: "bm_med3 cmp xs (a + n div 2 - s) (a + n div 2) (a + n div 2 + s) = Some pm"
      "pm \<in> {a + n div 2 - s, a + n div 2, a + n div 2 + s}"
      using bm_med3_in[OF h(3,2,1)] by auto
    obtain pn where pn: "bm_med3 cmp xs (a + (n - 1) - 2 * s) (a + (n - 1) - s) (a + (n - 1)) = Some pn"
      "pn \<in> {a + (n - 1) - 2 * s, a + (n - 1) - s, a + (n - 1)}"
      using bm_med3_in[OF h(4-6)] by auto
    have "pl \<in> {a..<a + n}" "pm \<in> {a..<a + n}" "pn \<in> {a..<a + n}"
      using pl(2) pm(2) pn(2) s by auto
    then show ?thesis
      using True pl(1) pm(1) pn(1) by (simp add: s_def[symmetric] Let_def)
  qed (use assms in auto)
  then obtain pl pm pn where h: "(if n > 40 then do {
                let s = n div 8;
                pl \<leftarrow> bm_med3 cmp xs a (a + s) (a + 2 * s);
                pm \<leftarrow> bm_med3 cmp xs (a + n div 2 - s) (a + n div 2) (a + n div 2 + s);
                pn \<leftarrow> bm_med3 cmp xs (a + (n - 1) - 2 * s) (a + (n - 1) - s) (a + (n - 1));
                Some (pl, pm, pn)
              } else Some (a, a + n div 2, a + (n - 1))) = Some (pl, pm, pn)"
      "{pl, pm, pn} \<subseteq> {a..<a + n}" by blast
  with bm_med3_in[of pl xs pm pn] assms have "\<exists>m. bm_med3 cmp xs pl pm pn = Some m \<and> a \<le> m \<and> m < a + n"
    by fastforce
  with h(1) assms show ?thesis by (simp only: choose_pivot_def Let_def) auto
qed

lemma BM_PVINIT_inv:
  assumes "a \<le> pm" "pm < a + n" "a + n \<le> length xs"
  shows "\<exists>pv ys. BM_PVINIT swaptype a pm xs = Some (pv, ys) \<and>
    part_inv cmp pv (xs ! pm) a n xs (a, a, a + n, a + n, ys)"
proof (cases "swaptype = 0")
  case True
  with assms show ?thesis by (auto simp: BM_PVINIT_def elt_def part_inv_def all_in_def)
next
  case False
  with BM_SWAP_rearranged[of a xs pm a "a + n"] assms show ?thesis
    by (auto simp: BM_PVINIT_def part_inv_def all_in_def)
qed

lemma bm_partition_spec:
  assumes "7 \<le> n" "a + n \<le> length xs"
  shows "\<exists>s1 s2 ys v. bm_partition cmp swaptype a n xs = Some (s1, s2, ys) \<and> rearranged a (a + n) xs ys \<and>
    s1 + s2 < n \<and> all_in a (a + s1) (\<lambda>x. cmp x v < 0) ys \<and> all_in (a + s1) (a + n - s2) (\<lambda>x. cmp x v = 0) ys \<and>
    all_in (a + n - s2) (a + n) (\<lambda>x. cmp x v > 0) ys"
proof -
  from choose_pivot_in[OF assms] obtain pm where pm: "choose_pivot cmp a n xs = Some pm" "a \<le> pm" "pm < a + n" by blast
  define v where "v = xs ! pm"
  from BM_PVINIT_inv[OF pm(2,3) assms(2)] obtain pv xs1 where
    1: "BM_PVINIT swaptype a pm xs = Some (pv, xs1)" "part_inv cmp pv v a n xs (a, a, a + n, a + n, xs1)"
    unfolding v_def by blast
  from partition_loop_inv[OF 1(2) _ assms(2), of "n + 1"] assms(1) obtain pa p qd xs2 where
    2: "partition_loop (n + 1) cmp pv a (a, a, a + n, a + n, xs1) = Some (pa, p, p, qd, xs2)"
    "part_inv cmp pv v a n xs (pa, p, p, qd, xs2)" by auto
  then have len2: "length xs2 = length xs" and b: "a \<le> pa" "pa \<le> p" "p \<le> qd" "qd \<le> a + n"
    and r2: "rearranged a (a + n) xs xs2"
    and parts: "all_in a pa (\<lambda>x. cmp x v = 0) xs2" "all_in pa p (\<lambda>x. cmp x v < 0) xs2"
      "all_in p qd (\<lambda>x. cmp x v > 0) xs2" "all_in qd (a + n) (\<lambda>x. cmp x v = 0) xs2"
    by (auto simp: part_inv_def dest: rearranged_length)
  from gather_left[OF parts(1,2) b(1,2), of "a + n"] b assms len2 obtain xs3 where
    3: "bm_swapfunc a (p - min (pa - a) (p - pa)) (min (pa - a) (p - pa)) xs2 = Some xs3"
    "rearranged a (a + n) xs2 xs3" "all_in a (a + (p - pa)) (\<lambda>x. cmp x v < 0) xs3"
    "all_in (a + (p - pa)) p (\<lambda>x. cmp x v = 0) xs3" "\<forall>k. p \<le> k \<longrightarrow> k < length xs2 \<longrightarrow> xs3 ! k = xs2 ! k" by auto
  have len3: "length xs3 = length xs" using 3(2) len2 by (auto dest: rearranged_length)
  have "all_in p qd (\<lambda>x. cmp x v > 0) xs3" "all_in qd (a + n) (\<lambda>x. cmp x v = 0) xs3"
    using parts(3,4) 3(5) b len2 assms by (auto simp: all_in_def)
  from gather_right[OF this b(3,4)] assms len3 obtain xs4 where
    4: "bm_swapfunc p (a + n - min (qd - p) (a + n - qd)) (min (qd - p) (a + n - qd)) xs3 = Some xs4"
    "rearranged p (a + n) xs3 xs4" "all_in p (a + n - (qd - p)) (\<lambda>x. cmp x v = 0) xs4"
    "all_in (a + n - (qd - p)) (a + n) (\<lambda>x. cmp x v > 0) xs4" by auto
  have low: "xs4 ! k = xs3 ! k" if "k < p" for k
    using rearranged_outside[OF 4(2), of k] that b len3 assms by auto
  have r: "rearranged a (a + n) xs xs4"
    using r2 3(2) rearranged_mono[OF 4(2), of a "a + n"] b by (auto intro: rearranged_trans)
  have L: "all_in a (a + (p - pa)) (\<lambda>x. cmp x v < 0) xs4"
    using 3(3) low b by (auto simp: all_in_def)
  have E: "all_in (a + (p - pa)) (a + n - (qd - p)) (\<lambda>x. cmp x v = 0) xs4"
    using 3(4) 4(3) low b unfolding all_in_def by (metis not_le_imp_less)
  have "(p - pa) + (qd - p) < n"
  proof (rule ccontr)
    assume "\<not> (p - pa) + (qd - p) < n"
    with b have "a + (p - pa) = a + n - (qd - p)" by auto
    with L 4(4) b have "cmp (xs4 ! k) v \<noteq> 0" if "a \<le> k" "k < a + n" for k
      using that unfolding all_in_def by (metis not_le_imp_less less_irrefl)
    from range_all[where P = "\<lambda>x. cmp x v \<noteq> 0", OF rearranged_sym[OF r] _ _ this pm(2,3)] assms r
    show False by (auto simp: v_def dest: rearranged_length)
  qed
  moreover have "bm_partition cmp swaptype a n xs = Some (p - pa, qd - p, xs4)"
    using pm(1) 1(1) 2(1) 3(1) 4(1) unfolding bm_partition_def Let_def by (simp del: partition_loop.simps)
  ultimately show ?thesis using r L E 4(4) by blast
qed

subsection \<open>Quicksort\<close>

lemma all_in_kept:
  assumes "rearranged lo hi xs ys" "all_in lo' hi' P xs" "hi' \<le> lo \<or> hi \<le> lo' \<or> lo = lo' \<and> hi = hi' \<and> lo \<le> hi"
    "hi \<le> length xs" "hi' \<le> length xs"
  shows "all_in lo' hi' P ys"
  using assms range_all[OF assms(1), of P] rearranged_outside[OF assms(1)] unfolding all_in_def
  by (metis le_less_trans less_le_trans not_le)

lemma sorted_range_kept:
  assumes "rearranged lo hi xs ys" "sorted_range cmp lo' hi' xs" "hi' \<le> lo \<or> hi \<le> lo'" "hi' \<le> length xs"
  shows "sorted_range cmp lo' hi' ys"
  unfolding sorted_range_def
proof (intro allI impI)
  fix i j assume ij: "lo' \<le> i" "i < j" "j < hi'"
  with assms(3,4) rearranged_outside[OF assms(1), of i] rearranged_outside[OF assms(1), of j]
  have "ys ! i = xs ! i" "ys ! j = xs ! j" by auto
  with ij assms(2) show "cmp (ys ! i) (ys ! j) \<le> 0" by (simp add: sorted_range_def)
qed

lemma three_way_sorted:
  assumes "sorted_range cmp lo p xs" "sorted_range cmp q hi xs"
    and "all_in lo p (\<lambda>x. cmp x v < 0) xs" "all_in p q (\<lambda>x. cmp x v = 0) xs" "all_in q hi (\<lambda>x. cmp x v > 0) xs"
  shows "sorted_range cmp lo hi xs"
  unfolding sorted_range_def
proof (intro allI impI)
  fix i j assume ij: "lo \<le> i" "i < j" "j < hi"
  show "cmp (xs ! i) (xs ! j) \<le> 0"
  proof (cases "j < p \<or> q \<le> i")
    case True
    with ij assms(1,2) show ?thesis by (auto simp: sorted_range_def)
  next
    case False
    then have "cmp (xs ! i) v \<le> 0"
      using ij assms(3,4) by (cases "i < p") (force simp: all_in_def)+
    moreover have "cmp (xs ! j) v \<ge> 0"
      using False ij assms(4,5) by (cases "j < q") (auto simp: all_in_def not_less intro: less_imp_le)
    then have "cmp v (xs ! j) \<le> 0" using cmp_antisym[of "xs ! j" v] by linarith
    ultimately show ?thesis by (rule cmp_trans)
  qed
qed

lemma sorts_small: "hi \<le> lo + 1 \<Longrightarrow> sorts cmp Some lo hi xs"
  by (auto simp: sorts_def sorted_range_def)

text \<open>Sorting the smaller and the greater elements, in either order, sorts the whole range.\<close>

lemma sort_parts:
  assumes "\<And>zs. length zs = length xs \<Longrightarrow> sorts cmp f lo p zs" "\<And>zs. length zs = length xs \<Longrightarrow> sorts cmp g q hi zs"
    and "all_in lo p (\<lambda>x. cmp x v < 0) xs" "all_in p q (\<lambda>x. cmp x v = 0) xs" "all_in q hi (\<lambda>x. cmp x v > 0) xs"
    and "lo \<le> p" "p \<le> q" "q \<le> hi" "hi \<le> length xs"
  shows "\<exists>ys zs. f xs = Some ys \<and> g ys = Some zs \<and> rearranged lo hi xs zs \<and> sorted_range cmp lo hi zs"
    and "\<exists>ys zs. g xs = Some ys \<and> f ys = Some zs \<and> rearranged lo hi xs zs \<and> sorted_range cmp lo hi zs"
proof -
  have rest: "rearranged lo hi xs zs \<and> sorted_range cmp lo hi zs"
    if "rearranged lo p xs ys \<and> rearranged q hi ys zs \<and> sorted_range cmp lo p zs \<and> sorted_range cmp q hi zs \<or>
        rearranged q hi xs ys \<and> rearranged lo p ys zs \<and> sorted_range cmp lo p zs \<and> sorted_range cmp q hi zs" for ys zs
  proof -
    have len: "length ys = length xs" using that by (auto dest: rearranged_length)
    have kept: "all_in i j P vs"
      if "rearranged lo p us vs \<or> rearranged q hi us vs" "(i, j) \<in> {(lo, p), (p, q), (q, hi)}"
        "all_in i j P us" "length us = length xs" for i j P us vs
      using that(1)
    proof
      assume "rearranged lo p us vs"
      then show ?thesis by (rule all_in_kept[OF _ that(3)]) (use that assms(6-9) in auto)
    next
      assume "rearranged q hi us vs"
      then show ?thesis by (rule all_in_kept[OF _ that(3)]) (use that assms(6-9) in auto)
    qed
    from that have step: "rearranged lo p xs ys \<or> rearranged q hi xs ys" "rearranged lo p ys zs \<or> rearranged q hi ys zs"
      by auto
    have "all_in i j P zs" if "(i, j) \<in> {(lo, p), (p, q), (q, hi)}" "all_in i j P xs" for i j P
      using kept[OF step(2) that(1) kept[OF step(1) that refl] len] .
    with assms(3-5) have "all_in lo p (\<lambda>x. cmp x v < 0) zs" "all_in p q (\<lambda>x. cmp x v = 0) zs"
      "all_in q hi (\<lambda>x. cmp x v > 0) zs" by auto
    moreover have "rearranged lo hi xs zs"
      using that assms(6-8) by (elim disjE conjE) (blast intro: rearranged_trans rearranged_mono)+
    ultimately show ?thesis using three_way_sorted that by blast
  qed
  from assms(1)[of xs] obtain ys where ys: "f xs = Some ys" "rearranged lo p xs ys" "sorted_range cmp lo p ys"
    by (auto simp: sorts_def)
  from assms(2)[of ys] rearranged_length[OF ys(2)] obtain zs where
    zs: "g ys = Some zs" "rearranged q hi ys zs" "sorted_range cmp q hi zs" by (auto simp: sorts_def)
  have "sorted_range cmp lo p zs"
    using sorted_range_kept[OF zs(2) ys(3)] assms(6-9) rearranged_length[OF ys(2)] by simp
  with ys zs rest show "\<exists>ys zs. f xs = Some ys \<and> g ys = Some zs \<and> rearranged lo hi xs zs \<and> sorted_range cmp lo hi zs"
    by blast
  from assms(2)[of xs] obtain ys where ys: "g xs = Some ys" "rearranged q hi xs ys" "sorted_range cmp q hi ys"
    by (auto simp: sorts_def)
  from assms(1)[of ys] rearranged_length[OF ys(2)] obtain zs where
    zs: "f ys = Some zs" "rearranged lo p ys zs" "sorted_range cmp lo p zs" by (auto simp: sorts_def)
  have "sorted_range cmp q hi zs"
    using sorted_range_kept[OF zs(2) ys(3)] assms(6-9) rearranged_length[OF ys(2)] by simp
  with ys zs rest show "\<exists>ys zs. g xs = Some ys \<and> f ys = Some zs \<and> rearranged lo hi xs zs \<and> sorted_range cmp lo hi zs"
    by blast
qed

lemma bm_qsort_sorts:
  assumes "a + n \<le> length xs" "n < fuel"
  shows "sorts cmp (bm_qsort fuel cmp base es a n) a (a + n) xs"
  using assms
proof (induction fuel arbitrary: a n xs)
  case (Suc fuel)
  show ?case
  proof (cases "n < 7")
    case True
    with ins_sort_sorts[OF Suc.prems(1)] show ?thesis by (simp add: sorts_def)
  next
    case False
    with bm_partition_spec[of n a xs "BM_SWAPINIT base es a"] Suc.prems(1) obtain s1 s2 ys v where
      part: "bm_partition cmp (BM_SWAPINIT base es a) a n xs = Some (s1, s2, ys)" "rearranged a (a + n) xs ys"
      "s1 + s2 < n" "all_in a (a + s1) (\<lambda>x. cmp x v < 0) ys" "all_in (a + s1) (a + n - s2) (\<lambda>x. cmp x v = 0) ys"
      "all_in (a + n - s2) (a + n) (\<lambda>x. cmp x v > 0) ys" by auto
    let ?f = "\<lambda>xs. if s1 > 1 then bm_qsort fuel cmp base es a s1 xs else Some xs"
    let ?g = "\<lambda>xs. if s2 > 1 then bm_qsort fuel cmp base es (a + n - s2) s2 xs else Some xs"
    have len: "length ys = length xs" using part(2) by (rule rearranged_length)
    have f: "sorts cmp ?f a (a + s1) zs" if "length zs = length ys" for zs
      using Suc.IH[of a s1 zs] Suc.prems part(3) that len sorts_small[of "a + s1" a zs]
      by (cases "s1 > 1") (auto simp: sorts_def)
    have g: "sorts cmp ?g (a + n - s2) (a + n) zs" if "length zs = length ys" for zs
      using Suc.IH[of "a + n - s2" s2 zs] Suc.prems part(3) that len sorts_small[of "a + n" "a + n - s2" zs]
      by (cases "s2 > 1") (auto simp: sorts_def)
    have ord: "a \<le> a + s1" "a + s1 \<le> a + n - s2" "a + n - s2 \<le> a + n" "a + n \<le> length ys"
      using part(3) Suc.prems(1) len by auto
    have "\<exists>zs ws. bm_qsort (Suc fuel) cmp base es a n xs = Some ws \<and> rearranged a (a + n) ys ws \<and>
        sorted_range cmp a (a + n) ws"
    proof (cases "s1 < s2")
      case True
      from sort_parts(1)[OF f g part(4-6) ord] False True part(1) show ?thesis by (auto simp: Let_def)
    next
      case ge: False
      from sort_parts(2)[OF f g part(4-6) ord] False ge part(1) show ?thesis by (auto simp: Let_def)
    qed
    with part(2) show ?thesis by (auto simp: sorts_def intro: rearranged_trans)
  qed
qed simp

lemma ssort_sorts:
  assumes "nmemb \<le> length xs"
  shows "\<exists>ys. VG_ssort cmp base nmemb es xs = Some ys \<and> mset ys = mset xs \<and>
    sorted_wrt (\<lambda>x y. cmp x y \<le> 0) (take nmemb ys) \<and> drop nmemb ys = drop nmemb xs"
proof -
  from bm_qsort_sorts[of 0 nmemb xs "nmemb + 1" base es] assms obtain ys where
    ys: "VG_ssort cmp base nmemb es xs = Some ys" "rearranged 0 nmemb xs ys" "sorted_range cmp 0 nmemb ys"
    by (auto simp: sorts_def VG_ssort_def)
  have "drop nmemb ys = drop nmemb xs"
    using rearranged_outside[OF ys(2)] rearranged_length[OF ys(2)] by (auto intro!: nth_equalityI)
  with ys assms show ?thesis
    by (auto simp: rearranged_def sorted_range_def sorted_wrt_iff_nth_less)
qed

end

end
