(* ===== verification/Leak.thy ===== *)
theory Leak
  imports Libc_Sort_Props
begin

text \<open>
  Memcheck's leak checker, \<^verbatim>\<open>memcheck/mc_leakcheck.c\<close>: it collects the heap blocks into a sorted array, marks the
  blocks that pointers of the root set reach, directly or through other blocks, and gathers the remaining ones
  into cliques of directly and indirectly leaked blocks.

  The parts of Valgrind that the checker asks about client memory are an environment: the address space
  manager, the validity of a word, and the load of a word, which fails (\<^term>\<open>None\<close>) where the checker's fault
  catcher would be entered. The static variables of the file are the record \<open>lc_state\<close>; \<^verbatim>\<open>lc_markstack\<close> and
  \<^verbatim>\<open>lc_markstack_top\<close> are the list of the pushed indices, top first. A failed \<^verbatim>\<open>tl_assert\<close> is \<^term>\<open>None\<close>. The mode in
  which \<^verbatim>\<open>lc_scan_memory\<close> only prints who points at an address is not part of the model.
\<close>

section \<open>Data\<close>

datatype MC_AllocKind = MC_AllocMalloc | MC_AllocNew | MC_AllocNewVec | MC_AllocCustom

text \<open>\<open>ch_addr\<close> is the address of the structure itself, by which chunks are told apart.\<close>

record MC_Chunk =
  ch_addr :: u64
  ch_data :: addr
  ch_szB :: u64
  ch_allockind :: MC_AllocKind
  ch_allocated_at :: u64

record MC_Mempool =
  mp_pool :: addr
  mp_metapool :: bool
  mp_chunks :: "MC_Chunk list"

datatype Reachedness = Reachable | Possible | IndirectLeak | Unreached

datatype LeakCheckHeuristic = LchNone | LchStdString | LchLength64 | LchNewArray | LchMultipleInheritance

definition H2S :: "LeakCheckHeuristic \<Rightarrow> u32" where
  "H2S h = (case h of LchNone \<Rightarrow> 1 | LchStdString \<Rightarrow> 2 | LchLength64 \<Rightarrow> 4 | LchNewArray \<Rightarrow> 8
     | LchMultipleInheritance \<Rightarrow> 16)"

definition HiS :: "LeakCheckHeuristic \<Rightarrow> u32 \<Rightarrow> bool" where
  "HiS h s \<longleftrightarrow> s AND H2S h \<noteq> 0"

text \<open>The union \<^verbatim>\<open>IorC\<close> is one word, read as \<^verbatim>\<open>indirect_szB\<close> or as \<^verbatim>\<open>clique\<close>.\<close>

record LC_Extra =
  ex_state :: Reachedness
  ex_pending :: bool
  ex_heuristic :: LeakCheckHeuristic
  ex_IorC :: u64

datatype SegKind = SkFree | SkAnonC | SkAnonV | SkFileC | SkFileV | SkShmC | SkResvn

record NSegment =
  sg_kind :: SegKind
  sg_start :: addr
  sg_end :: addr
  sg_hasR :: bool
  sg_hasW :: bool
  sg_hasT :: bool
  sg_isCH :: bool
  sg_is_device :: bool
  sg_filename :: "cstr option"

record lc_env =
  am_is_valid_for_client :: "addr \<Rightarrow> u64 \<Rightarrow> bool"
  am_find_nsegment :: "addr \<Rightarrow> NSegment option"
  is_within_valid_secondary :: "addr \<Rightarrow> bool"
  is_valid_aligned_word :: "addr \<Rightarrow> bool"
  client_word :: "addr \<Rightarrow> u64 option"
  last_heuristics :: u32

record lc_state =
  lc_extras :: "LC_Extra list"
  lc_markstack :: "nat list"
  lc_scanned_szB :: u64
  lc_sig_skipped_szB :: u64


section \<open>Alignment\<close>

definition VG_ROUNDDN :: "addr \<Rightarrow> addr \<Rightarrow> addr" where
  "VG_ROUNDDN p a = p AND NOT (a - 1)"

definition VG_ROUNDUP :: "addr \<Rightarrow> addr \<Rightarrow> addr" where
  "VG_ROUNDUP p a = VG_ROUNDDN (p + a - 1) a"

definition VG_IS_WORD_ALIGNED :: "addr \<Rightarrow> bool" where
  "VG_IS_WORD_ALIGNED a \<longleftrightarrow> a AND 7 = 0"

definition VKI_PAGE_SIZE :: addr where
  "VKI_PAGE_SIZE = 4096"


section \<open>The chunks\<close>

definition compare_MC_Chunks :: "MC_Chunk \<Rightarrow> MC_Chunk \<Rightarrow> int" where
  "compare_MC_Chunks mc1 mc2 =
     (if ch_data mc1 < ch_data mc2 then -1 else if ch_data mc1 > ch_data mc2 then 1 else 0)"

function find_loop :: "addr \<Rightarrow> MC_Chunk list \<Rightarrow> int \<Rightarrow> int \<Rightarrow> int option" where
  "find_loop ptr chunks lo hi =
     (if lo > hi then Some (-1)
      else (let mid = (lo + hi) div 2
            in if mid < 0 \<or> mid \<ge> int (length chunks) then None
               else (let ch = chunks ! nat mid;
                         a_mid_lo = ch_data ch;
                         a_mid_hi = ch_data ch + ch_szB ch;
                         a_mid_hi = (if ch_szB ch = 0 then a_mid_hi + 1 else a_mid_hi)
                     in if ptr < a_mid_lo then find_loop ptr chunks lo (mid - 1)
                        else if ptr \<ge> a_mid_hi then find_loop ptr chunks (mid + 1) hi
                        else Some mid)))"
  by pat_completeness auto
termination
  by (relation "measure (\<lambda>(ptr, chunks, lo, hi). nat (hi - lo + 1))") auto

text \<open>The linear search the code keeps to check the binary one.\<close>

definition find_chunk_for_OLD :: "addr \<Rightarrow> MC_Chunk list \<Rightarrow> int" where
  "find_chunk_for_OLD ptr chunks =
     (case find (\<lambda>i. let a_lo = ch_data (chunks ! i); a_hi = ch_data (chunks ! i) + ch_szB (chunks ! i);
                         a_hi = (if a_lo = a_hi then a_hi + 1 else a_hi)
                     in a_lo \<le> ptr \<and> ptr < a_hi) [0..<length chunks]
      of None \<Rightarrow> -1 | Some i \<Rightarrow> int i)"

definition find_chunk_for :: "addr \<Rightarrow> MC_Chunk list \<Rightarrow> int option" where
  "find_chunk_for ptr chunks = find_loop ptr chunks 0 (int (length chunks) - 1)"

text \<open>
  The marking of the malloc chunks that hold pool chunks: the state is \<open>n_chunks\<close> and the array of flags.
\<close>

definition mark_holder :: "MC_Chunk list \<Rightarrow> addr \<Rightarrow> nat \<times> bool list \<Rightarrow> (nat \<times> bool list) option" where
  "mark_holder mallocs a = (\<lambda>(n_chunks, holds). do {
     m \<leftarrow> find_chunk_for a mallocs;
     if m \<noteq> -1 \<and> \<not> holds ! nat m
     then (if n_chunks > 0 then Some (n_chunks - 1, holds[nat m := True]) else None)
     else Some (n_chunks, holds)
   })"

definition mark_pool_chunk :: "MC_Chunk list \<Rightarrow> MC_Chunk \<Rightarrow> nat \<times> bool list \<Rightarrow> (nat \<times> bool list) option" where
  "mark_pool_chunk mallocs mc = (\<lambda>(n_chunks, holds). do {
     st \<leftarrow> mark_holder mallocs (ch_data mc) (n_chunks + 1, holds);
     if ch_szB mc > 1 then mark_holder mallocs (ch_data mc + (ch_szB mc - 1)) st else Some st
   })"

text \<open>
  The arguments are the arrays the hash tables give, and the addresses of the arrays that are sorted. The
  result is the array of the active chunks.
\<close>

definition get_sorted_array_of_active_chunks ::
  "nat \<times> nat \<Rightarrow> MC_Chunk list \<Rightarrow> MC_Mempool list \<Rightarrow> MC_Chunk list option" where
  "get_sorted_array_of_active_chunks bases malloc_list mempool_list =
     (if malloc_list = [] then Some []
      else do {
        mallocs \<leftarrow> VG_ssort compare_MC_Chunks (fst bases) (length malloc_list) 8 malloc_list;
        if mempool_list \<noteq> [] then do {
          let pool_chunks = concat (map mp_chunks mempool_list);
          (n_chunks, holds) \<leftarrow> foldO (mark_pool_chunk mallocs) pool_chunks
             (length mallocs, replicate (length mallocs) False);
          let chunks = pool_chunks @ map snd (filter (\<lambda>(h, mc). \<not> h) (zip holds mallocs));
          if n_chunks > 0 \<and> length chunks = n_chunks then do {
            chunks \<leftarrow> VG_ssort compare_MC_Chunks (snd bases) n_chunks 8 chunks;
            if (\<forall>i < n_chunks - 1. ch_data (chunks ! i) \<le> ch_data (chunks ! (i + 1))) then Some chunks else None
          } else None
        } else Some mallocs
      })"

definition lc_is_a_chunk_ptr :: "lc_env \<Rightarrow> MC_Chunk list \<Rightarrow> addr \<Rightarrow> nat option option" where
  "lc_is_a_chunk_ptr env chunks ptr =
     (if \<not> am_is_valid_for_client env ptr 1 then Some None
      else do {
        ch_no \<leftarrow> find_chunk_for ptr chunks;
        if \<not> (ch_no \<ge> -1 \<and> ch_no < int (length chunks)) then None
        else if ch_no = -1 then Some None
        else (let ch = chunks ! nat ch_no
              in if ptr \<ge> ch_data ch \<and> ptr < ch_data ch + ch_szB ch + (if ch_szB ch = 0 then 1 else 0)
                 then Some (Some (nat ch_no)) else None)
      })"


section \<open>The mark stack\<close>

definition upd_extra :: "nat \<Rightarrow> (LC_Extra \<Rightarrow> LC_Extra) \<Rightarrow> lc_state \<Rightarrow> lc_state" where
  "upd_extra i f st = st\<lparr>lc_extras := (lc_extras st)[i := f (lc_extras st ! i)]\<rparr>"

definition lc_push :: "nat \<Rightarrow> lc_state \<Rightarrow> lc_state option" where
  "lc_push ch_no st =
     (if \<not> ex_pending (lc_extras st ! ch_no)
      then (if length (lc_markstack st) < length (lc_extras st)
            then Some (upd_extra ch_no (\<lambda>ex. ex\<lparr>ex_pending := True\<rparr>) (st\<lparr>lc_markstack := ch_no # lc_markstack st\<rparr>))
            else None)
      else Some st)"

definition lc_pop :: "lc_state \<Rightarrow> (nat option \<times> lc_state) option" where
  "lc_pop st =
     (case lc_markstack st of
        [] \<Rightarrow> Some (None, st)
      | t # rest \<Rightarrow>
          if length (lc_markstack st) \<le> length (lc_extras st) \<and> ex_pending (lc_extras st ! t)
          then Some (Some t, upd_extra t (\<lambda>ex. ex\<lparr>ex_pending := False\<rparr>) (st\<lparr>lc_markstack := rest\<rparr>))
          else None)"


section \<open>Heuristics\<close>

text \<open>
  The scan for function pointers: at most 21 words are inspected, so 22 rounds are enough. A load that faults
  leaves the whole heuristic, the outer \<^term>\<open>None\<close>.
\<close>

fun vtable_scan :: "nat \<Rightarrow> lc_env \<Rightarrow> addr \<Rightarrow> addr \<Rightarrow> nat \<Rightarrow> bool option" where
  "vtable_scan 0 env scan scan_max nr_fn_ptrs = None"
| "vtable_scan (Suc fuel) env scan scan_max nr_fn_ptrs =
     (if scan \<le> scan_max then do {
        pot_fn \<leftarrow> client_word env scan;
        if pot_fn = 0 then vtable_scan fuel env (scan + 8) scan_max nr_fn_ptrs
        else (case am_find_nsegment env pot_fn of
                None \<Rightarrow> Some False
              | Some seg \<Rightarrow>
                  if sg_kind seg \<noteq> SkFileC \<or> \<not> sg_hasT seg then Some False
                  else if nr_fn_ptrs + 1 = 2 then Some True
                  else vtable_scan fuel env (scan + 8) scan_max (nr_fn_ptrs + 1))
      } else Some False)"

definition aligned_ptr_above_page0_is_vtable_addr :: "lc_env \<Rightarrow> addr \<Rightarrow> bool option" where
  "aligned_ptr_above_page0_is_vtable_addr env ptr =
     (case am_find_nsegment env ptr of
        None \<Rightarrow> Some False
      | Some seg \<Rightarrow>
          if sg_kind seg \<noteq> SkFileC \<or> \<not> sg_hasR seg then Some False
          else (let scan_max = ptr + 20 * 8;
                    scan_max = (if scan_max > sg_end seg - 8 then sg_end seg - 8 else scan_max)
                in vtable_scan 22 env ptr scan_max 0))"

definition heur_std_string :: "lc_env \<Rightarrow> addr \<Rightarrow> MC_Chunk \<Rightarrow> bool option" where
  "heur_std_string env ptr ch =
     (if ptr = ch_data ch + 3 * 8 \<and> is_valid_aligned_word env (ch_data ch + 8) then do {
        capacity \<leftarrow> client_word env (ch_data ch + 8);
        if 3 * 8 + capacity + 1 = ch_szB ch \<and> is_valid_aligned_word env (ch_data ch) then do {
          len \<leftarrow> client_word env (ch_data ch);
          Some (len \<le> capacity)
        } else Some False
      } else Some False)"

definition heur_length64 :: "lc_env \<Rightarrow> addr \<Rightarrow> MC_Chunk \<Rightarrow> bool option" where
  "heur_length64 env ptr ch =
     (if ptr = ch_data ch + 8 \<and> is_valid_aligned_word env (ch_data ch) then do {
        len \<leftarrow> client_word env (ch_data ch);
        Some (len > 0 \<and> ch_szB ch - 8 = len)
      } else Some False)"

definition heur_new_array :: "lc_env \<Rightarrow> addr \<Rightarrow> MC_Chunk \<Rightarrow> bool option" where
  "heur_new_array env ptr ch =
     (if ptr = ch_data ch + 8 \<and> is_valid_aligned_word env (ch_data ch) then do {
        nr_elts \<leftarrow> client_word env (ch_data ch);
        Some (nr_elts > 0 \<and> (ch_szB ch - 8) mod nr_elts = 0)
      } else Some False)"

definition heur_multiple_inheritance :: "lc_env \<Rightarrow> addr \<Rightarrow> MC_Chunk \<Rightarrow> bool option" where
  "heur_multiple_inheritance env ptr ch =
     (if VG_IS_WORD_ALIGNED ptr \<and> is_valid_aligned_word env ptr then do {
        inner_addr \<leftarrow> client_word env ptr;
        if VG_IS_WORD_ALIGNED inner_addr \<and> inner_addr \<ge> VKI_PAGE_SIZE \<and> is_valid_aligned_word env (ch_data ch)
        then do {
          first_addr \<leftarrow> client_word env (ch_data ch);
          if VG_IS_WORD_ALIGNED first_addr \<and> first_addr \<ge> VKI_PAGE_SIZE then do {
            inner_vt \<leftarrow> aligned_ptr_above_page0_is_vtable_addr env inner_addr;
            if inner_vt then aligned_ptr_above_page0_is_vtable_addr env first_addr else Some False
          } else Some False
        } else Some False
      } else Some False)"

definition heuristic_reachedness :: "lc_env \<Rightarrow> addr \<Rightarrow> MC_Chunk \<Rightarrow> u32 \<Rightarrow> LeakCheckHeuristic" where
  "heuristic_reachedness env ptr ch heur_set =
     (let try = (\<lambda>h test. if HiS h heur_set then test env ptr ch else Some False)
      in case (do {
           b1 \<leftarrow> try LchStdString heur_std_string;
           if b1 then Some LchStdString else do {
             b2 \<leftarrow> try LchLength64 heur_length64;
             if b2 then Some LchLength64 else do {
               b3 \<leftarrow> try LchNewArray heur_new_array;
               if b3 then Some LchNewArray else do {
                 b4 \<leftarrow> try LchMultipleInheritance heur_multiple_inheritance;
                 Some (if b4 then LchMultipleInheritance else LchNone)
               }
             }
           }
         }) of None \<Rightarrow> LchNone | Some h \<Rightarrow> h)"


section \<open>Pushing what a pointer reaches\<close>

definition lc_push_without_clique_if_a_chunk_ptr ::
  "lc_env \<Rightarrow> MC_Chunk list \<Rightarrow> addr \<Rightarrow> bool \<Rightarrow> lc_state \<Rightarrow> lc_state option" where
  "lc_push_without_clique_if_a_chunk_ptr env chunks ptr is_prior_definite st = do {
     r \<leftarrow> lc_is_a_chunk_ptr env chunks ptr;
     case r of None \<Rightarrow> Some st
     | Some ch_no \<Rightarrow>
        (let ch = chunks ! ch_no; ex = lc_extras st ! ch_no
         in if ex_state ex = Reachable then
              Some (if ex_heuristic ex \<noteq> LchNone \<and> ptr = ch_data ch
                    then upd_extra ch_no (\<lambda>ex. ex\<lparr>ex_heuristic := LchNone\<rparr>) st else st)
            else
              (let h = heuristic_reachedness env ptr ch (last_heuristics env);
                   (ch_via_ptr, st) =
                     (if ptr = ch_data ch then (Reachable, st)
                      else if last_heuristics env \<noteq> 0
                      then (if h \<noteq> LchNone then Reachable else Possible,
                            upd_extra ch_no (\<lambda>ex. ex\<lparr>ex_heuristic := h\<rparr>) st)
                      else (Possible, st))
               in if ch_via_ptr = Reachable \<and> is_prior_definite
                  then lc_push ch_no (upd_extra ch_no (\<lambda>ex. ex\<lparr>ex_state := Reachable\<rparr>) st)
                  else if ex_state ex = Unreached
                  then lc_push ch_no (upd_extra ch_no (\<lambda>ex. ex\<lparr>ex_state := Possible\<rparr>) st)
                  else Some st))
   }"

definition lc_push_with_clique_if_a_chunk_ptr ::
  "lc_env \<Rightarrow> MC_Chunk list \<Rightarrow> addr \<Rightarrow> nat \<Rightarrow> nat \<Rightarrow> lc_state \<Rightarrow> lc_state option" where
  "lc_push_with_clique_if_a_chunk_ptr env chunks ptr clique cur_clique st =
     (if \<not> clique < length chunks then None
      else do {
        r \<leftarrow> lc_is_a_chunk_ptr env chunks ptr;
        case r of None \<Rightarrow> Some st
        | Some ch_no \<Rightarrow>
            if ex_state (lc_extras st ! ch_no) = Unreached \<and> ch_no \<noteq> clique then do {
              st \<leftarrow> lc_push ch_no st;
              let st = upd_extra clique (\<lambda>ex. ex\<lparr>ex_IorC := ex_IorC ex + ch_szB (chunks ! ch_no)\<rparr>) st;
              let st = upd_extra clique (\<lambda>ex. ex\<lparr>ex_IorC := ex_IorC ex + ex_IorC (lc_extras st ! ch_no)\<rparr>) st;
              Some (upd_extra ch_no (\<lambda>ex. ex\<lparr>ex_state := IndirectLeak, ex_IorC := of_nat cur_clique\<rparr>) st)
            } else Some st
      })"

text \<open>The clique -1 of the code is \<^term>\<open>None\<close>.\<close>

definition lc_push_if_a_chunk_ptr ::
  "lc_env \<Rightarrow> MC_Chunk list \<Rightarrow> (nat \<times> nat) option \<Rightarrow> bool \<Rightarrow> addr \<Rightarrow> lc_state \<Rightarrow> lc_state option" where
  "lc_push_if_a_chunk_ptr env chunks clique is_prior_definite ptr st =
     (case clique of
        None \<Rightarrow> lc_push_without_clique_if_a_chunk_ptr env chunks ptr is_prior_definite st
      | Some (clique, cur_clique) \<Rightarrow> lc_push_with_clique_if_a_chunk_ptr env chunks ptr clique cur_clique st)"


section \<open>Scanning\<close>

text \<open>
  The loop of \<^verbatim>\<open>lc_scan_memory\<close>; \<open>push\<close> is what happens to the value of a word. A faulting load jumps back to the
  head of the loop with the next word. Each round advances by a word at least, so the number of words of the
  range, and one more, is enough fuel (\<open>scan_loop_events\<close> below).
\<close>

fun scan_loop :: "nat \<Rightarrow> lc_env \<Rightarrow> (addr \<Rightarrow> lc_state \<Rightarrow> lc_state option) \<Rightarrow> addr \<Rightarrow> addr \<Rightarrow> addr
    \<Rightarrow> lc_state \<Rightarrow> lc_state option" where
  "scan_loop 0 env push first end ptr st = None"
| "scan_loop (Suc fuel) env push first end ptr st =
     (if ptr < end then
        if ptr mod SM_SIZE = 0 \<and> \<not> is_within_valid_secondary env ptr
        then scan_loop fuel env push first end (VG_ROUNDUP (ptr + 1) SM_SIZE) st
        else if ptr mod VKI_PAGE_SIZE = 0 \<and> \<not> am_is_valid_for_client env ptr 8
        then scan_loop fuel env push first end (ptr + VKI_PAGE_SIZE) st
        else if is_valid_aligned_word env ptr
        then (let st = st\<lparr>lc_scanned_szB := lc_scanned_szB st + 8\<rparr>
              in case client_word env ptr of
                   None \<Rightarrow> if ptr \<ge> first \<and> ptr < end
                           then scan_loop fuel env push first end (ptr + 8)
                             (st\<lparr>lc_sig_skipped_szB := lc_sig_skipped_szB st + 8\<rparr>)
                           else None
                 | Some addr \<Rightarrow> (case push addr st of None \<Rightarrow> None
                     | Some st \<Rightarrow> scan_loop fuel env push first end (ptr + 8) st))
        else scan_loop fuel env push first end (ptr + 8) st
      else Some st)"

definition scan_start :: "lc_env \<Rightarrow> addr \<Rightarrow> addr" where
  "scan_start env ptr =
     (if \<not> is_within_valid_secondary env ptr then VG_ROUNDUP (ptr + 1) SM_SIZE
      else if \<not> am_is_valid_for_client env ptr 8 then VG_ROUNDUP (ptr + 1) VKI_PAGE_SIZE
      else ptr)"

definition lc_scan_memory ::
  "lc_env \<Rightarrow> MC_Chunk list \<Rightarrow> addr \<Rightarrow> u64 \<Rightarrow> bool \<Rightarrow> (nat \<times> nat) option \<Rightarrow> lc_state \<Rightarrow> lc_state option" where
  "lc_scan_memory env chunks start len is_prior_definite clique st =
     (let first = VG_ROUNDUP start 8; end = VG_ROUNDDN (start + len) 8
      in scan_loop (unat len div 8 + 2) env (lc_push_if_a_chunk_ptr env chunks clique is_prior_definite)
           first end (scan_start env first) st)"

text \<open>
  \<^verbatim>\<open>lc_process_markstack\<close>: a block is pushed when its state improves, which happens at most twice, so
  \<open>2n + 1\<close> rounds are enough for \<open>n\<close> blocks.
\<close>

fun process_loop :: "nat \<Rightarrow> lc_env \<Rightarrow> MC_Chunk list \<Rightarrow> nat option \<Rightarrow> lc_state \<Rightarrow> lc_state option" where
  "process_loop 0 env chunks clique st = None"
| "process_loop (Suc fuel) env chunks clique st = do {
     (r, st) \<leftarrow> lc_pop st;
     case r of None \<Rightarrow> Some st
     | Some t \<Rightarrow>
         if t < length chunks then do {
           let is_prior_definite = (ex_state (lc_extras st ! t) \<noteq> Possible);
           st \<leftarrow> lc_scan_memory env chunks (ch_data (chunks ! t)) (ch_szB (chunks ! t)) is_prior_definite
              (map_option (\<lambda>c. (c, t)) clique) st;
           process_loop fuel env chunks clique st
         } else None
   }"

definition lc_process_markstack :: "lc_env \<Rightarrow> MC_Chunk list \<Rightarrow> nat option \<Rightarrow> lc_state \<Rightarrow> lc_state option" where
  "lc_process_markstack env chunks clique st = process_loop (2 * length chunks + 1) env chunks clique st"

text \<open>The root set: \<open>seg_starts\<close> are the starts of the client segments.\<close>

definition skip_segment :: "NSegment \<Rightarrow> bool option" where
  "skip_segment seg =
     (if \<not> (sg_hasR seg \<and> sg_hasW seg) \<or> sg_isCH seg then Some True
      else if sg_kind seg = SkFileC \<and> sg_is_device seg
      then (case sg_filename seg of None \<Rightarrow> Some True
            | Some name \<Rightarrow> map_option (\<lambda>c. c \<noteq> 0) (VG_strcmp name [47, 100, 101, 118, 47, 122, 101, 114, 111, 0]))
      else Some False)"

definition scan_segment :: "lc_env \<Rightarrow> MC_Chunk list \<Rightarrow> addr \<Rightarrow> lc_state \<Rightarrow> lc_state option" where
  "scan_segment env chunks s st = do {
     seg \<leftarrow> am_find_nsegment env s;
     if sg_kind seg \<notin> {SkFileC, SkAnonC, SkShmC} then None
     else do {
       skip \<leftarrow> skip_segment seg;
       if skip then Some st
       else lc_scan_memory env chunks (sg_start seg) (sg_end seg - sg_start seg + 1) True None st
     }
   }"

definition scan_memory_root_set :: "lc_env \<Rightarrow> MC_Chunk list \<Rightarrow> addr list \<Rightarrow> lc_state \<Rightarrow> lc_state option" where
  "scan_memory_root_set env chunks seg_starts st =
     (if seg_starts = [] then None
      else foldO (scan_segment env chunks) seg_starts (st\<lparr>lc_scanned_szB := 0, lc_sig_skipped_szB := 0\<rparr>))"


section \<open>The search\<close>

definition find_mp_of_chunk :: "MC_Mempool list \<Rightarrow> MC_Chunk \<Rightarrow> MC_Mempool option" where
  "find_mp_of_chunk mempool_list mc_search =
     find (\<lambda>mp. \<exists>mc \<in> set (mp_chunks mp). ch_addr mc = ch_addr mc_search) mempool_list"

definition is_mempool_block :: "MC_Mempool list \<Rightarrow> MC_Chunk \<Rightarrow> bool" where
  "is_mempool_block mempool_list mc_search \<longleftrightarrow>
     ch_allockind mc_search = MC_AllocCustom \<and> find_mp_of_chunk mempool_list mc_search \<noteq> None"

definition is_meta :: "MC_Mempool list \<Rightarrow> MC_Chunk \<Rightarrow> bool" where
  "is_meta mempool_list ch \<longleftrightarrow> is_mempool_block mempool_list ch \<and>
     (case find_mp_of_chunk mempool_list ch of None \<Rightarrow> False | Some mp \<Rightarrow> mp_metapool mp)"

definition remove_chunk :: "nat \<Rightarrow> MC_Chunk list \<Rightarrow> MC_Chunk list" where
  "remove_chunk j chunks = take j chunks @ drop (j + 1) chunks"

text \<open>The loop that looks at neighbouring blocks: an overlap removes one of them or fails the assertion.\<close>

function overlap_loop :: "MC_Mempool list \<Rightarrow> nat \<Rightarrow> MC_Chunk list \<Rightarrow> MC_Chunk list option" where
  "overlap_loop pools i chunks =
     (if i + 1 < length chunks
      then (let ch1 = chunks ! i; ch2 = chunks ! (i + 1);
                start1 = ch_data ch1; start2 = ch_data ch2;
                end1 = ch_data ch1 + ch_szB ch1 - 1; end2 = ch_data ch2 + ch_szB ch2 - 1;
                isCustom1 = (ch_allockind ch1 = MC_AllocCustom);
                isCustom2 = (ch_allockind ch2 = MC_AllocCustom)
            in if end1 < start2 then overlap_loop pools (i + 1) chunks
               else if start1 \<ge> start2 \<and> end1 \<le> end2 \<and> isCustom1 \<and> \<not> isCustom2
               then overlap_loop pools (i + 1) (remove_chunk (i + 1) chunks)
               else if start2 \<ge> start1 \<and> end2 \<le> end1 \<and> isCustom2 \<and> \<not> isCustom1
               then overlap_loop pools (i + 1) (remove_chunk i chunks)
               else (let meta1 = is_meta pools ch1; meta2 = is_meta pools ch2;
                         inappropriate = (meta1 \<noteq> meta2 \<and>
                           (meta1 \<and> (start2 < start1 \<or> end2 > end1) \<or> meta2 \<and> (start1 < start2 \<or> end1 > end2)))
                     in if meta1 = meta2 \<or> inappropriate then None else overlap_loop pools (i + 1) chunks))
      else Some chunks)"
  by pat_completeness auto
termination
  by (relation "measure (\<lambda>(pools, i, chunks). length chunks - i)") (auto simp: remove_chunk_def)

definition lc_init :: "MC_Chunk list \<Rightarrow> lc_state" where
  "lc_init chunks = \<lparr>
     lc_extras = replicate (length chunks)
       \<lparr>ex_state = Unreached, ex_pending = False, ex_heuristic = LchNone, ex_IorC = 0\<rparr>,
     lc_markstack = [], lc_scanned_szB = 0, lc_sig_skipped_szB = 0\<rparr>"

text \<open>The marking: the root segments, the registers, then the mark stack.\<close>

definition mark_phase :: "lc_env \<Rightarrow> MC_Chunk list \<Rightarrow> addr list \<Rightarrow> u64 list \<Rightarrow> lc_state option" where
  "mark_phase env chunks seg_starts registers = do {
     st \<leftarrow> scan_memory_root_set env chunks seg_starts (lc_init chunks);
     st \<leftarrow> foldO (\<lambda>r. lc_push_without_clique_if_a_chunk_ptr env chunks r True) registers st;
     lc_process_markstack env chunks None st
   }"

definition clique_step :: "lc_env \<Rightarrow> MC_Chunk list \<Rightarrow> nat \<Rightarrow> lc_state \<Rightarrow> lc_state option" where
  "clique_step env chunks i st =
     (if lc_markstack st \<noteq> [] then None
      else if ex_state (lc_extras st ! i) = Unreached then do {
        st \<leftarrow> lc_push i st;
        st \<leftarrow> lc_process_markstack env chunks (Some i) st;
        if lc_markstack st = [] \<and> ex_state (lc_extras st ! i) = Unreached then Some st else None
      } else Some st)"

definition clique_phase :: "lc_env \<Rightarrow> MC_Chunk list \<Rightarrow> lc_state \<Rightarrow> lc_state option" where
  "clique_phase env chunks st = foldO (clique_step env chunks) [0..<length chunks] st"

text \<open>
  The whole search up to the report: the blocks and what is known of each. The lists of the malloc and the pool
  blocks, the segments and the registers are arguments.
\<close>

definition detect_memory_leaks ::
  "lc_env \<Rightarrow> nat \<times> nat \<Rightarrow> MC_Chunk list \<Rightarrow> MC_Mempool list \<Rightarrow> addr list \<Rightarrow> u64 list
    \<Rightarrow> (MC_Chunk list \<times> lc_state) option" where
  "detect_memory_leaks env bases malloc_list mempool_list seg_starts registers = do {
     chunks \<leftarrow> get_sorted_array_of_active_chunks bases malloc_list mempool_list;
     if chunks = [] then Some ([], lc_init [])
     else do {
       chunks \<leftarrow> overlap_loop mempool_list 0 chunks;
       st \<leftarrow> mark_phase env chunks seg_starts registers;
       st \<leftarrow> clique_phase env chunks st;
       Some (chunks, st)
     }
   }"

end
