(* ===== verification/Leak_Props.thy ===== *)
theory Leak_Props
  imports Leak
begin

text \<open>
  What the leak checker promises: the binary search finds the block a pointer points into, the marking computes
  reachability through start pointers and through any pointers, and the clique phase accounts for every
  leaked byte once.
\<close>

section \<open>Sorted chunks\<close>

interpretation by_data: comparator compare_MC_Chunks
  by unfold_locales (auto simp: compare_MC_Chunks_def split: if_splits)

text \<open>
  Sorting the array of heap blocks by address: the quicksort of the C library succeeds for every array and
  every alignment, the result is a permutation of the array, it is sorted by address, and elements behind the
  sorted part are untouched.
\<close>

theorem ssort_chunks:
  assumes "nmemb \<le> length chunks"
  shows "\<exists>out. VG_ssort compare_MC_Chunks base nmemb es chunks = Some out \<and> mset out = mset chunks \<and>
    sorted_wrt (\<lambda>a b. ch_data a \<le> ch_data b) (take nmemb out) \<and> drop nmemb out = drop nmemb chunks"
proof -
  have "(\<lambda>a b. compare_MC_Chunks a b \<le> 0) = (\<lambda>a b. ch_data a \<le> ch_data b)"
    by (auto simp: compare_MC_Chunks_def fun_eq_iff)
  with by_data.ssort_sorts[OF assms] show ?thesis by simp
qed

definition test_chunk :: "u64 \<Rightarrow> u64 \<Rightarrow> MC_Chunk" where
  "test_chunk a n = \<lparr>ch_addr = a, ch_data = a, ch_szB = n, ch_allockind = MC_AllocMalloc, ch_allocated_at = 0\<rparr>"

theorem ssort_chunks_witness:
  "\<exists>out. VG_ssort compare_MC_Chunks 0 2 8 [test_chunk 9 1, test_chunk 5 1] = Some out \<and>
    mset out = mset [test_chunk 9 1, test_chunk 5 1] \<and>
    sorted_wrt (\<lambda>a b. ch_data a \<le> ch_data b) (take 2 out) \<and> drop 2 out = []"
  using ssort_chunks[of 2 "[test_chunk 9 1, test_chunk 5 1]" 0 8] by simp


section \<open>Finding a block\<close>

definition chunk_end :: "MC_Chunk \<Rightarrow> nat" where
  "chunk_end ch = unat (ch_data ch) + (if ch_szB ch = 0 then 1 else unat (ch_szB ch))"

definition inside :: "addr \<Rightarrow> MC_Chunk \<Rightarrow> bool" where
  "inside ptr ch \<longleftrightarrow> ch_data ch \<le> ptr \<and> unat ptr < chunk_end ch"

definition disjoint_chunks :: "MC_Chunk list \<Rightarrow> bool" where
  "disjoint_chunks chunks \<longleftrightarrow> (\<forall>i < length chunks. chunk_end (chunks ! i) < 2 ^ 64) \<and>
     (\<forall>j < length chunks. \<forall>i < j. chunk_end (chunks ! i) \<le> unat (ch_data (chunks ! j)))"

definition block_of :: "MC_Chunk list \<Rightarrow> addr \<Rightarrow> nat option" where
  "block_of chunks ptr = find (\<lambda>i. inside ptr (chunks ! i)) [0..<length chunks]"

lemma chunk_end_word:
  assumes "chunk_end ch < 2 ^ 64"
  shows "unat (if ch_szB ch = 0 then ch_data ch + ch_szB ch + 1 else ch_data ch + ch_szB ch) = chunk_end ch"
  using assms by (auto simp: chunk_end_def unat_word_ariths)

lemma chunk_end_gt: "unat (ch_data ch) < chunk_end ch"
  by (auto simp: chunk_end_def unat_gt_0)

declare find_loop.simps [simp del]

lemma find_loop_step:
  assumes "lo \<le> hi" "(lo + hi) div 2 = int m" "m < length chunks" "chunk_end (chunks ! m) < 2 ^ 64"
  shows "find_loop ptr chunks lo hi =
    (if ptr < ch_data (chunks ! m) then find_loop ptr chunks lo (int m - 1)
     else if chunk_end (chunks ! m) \<le> unat ptr then find_loop ptr chunks (int m + 1) hi
     else Some (int m))"
  unfolding find_loop.simps[of ptr chunks lo hi] chunk_end_word[OF assms(4), symmetric] word_le_nat_alt[symmetric]
  using assms(1-3) by (simp add: Let_def)

lemma find_loop_spec:
  assumes "disjoint_chunks chunks" "0 \<le> lo" "hi < int (length chunks)"
    and "\<forall>i < length chunks. int i < lo \<or> hi < int i \<longrightarrow> \<not> inside ptr (chunks ! i)"
  shows "find_loop ptr chunks lo hi = Some (case block_of chunks ptr of None \<Rightarrow> -1 | Some i \<Rightarrow> int i)"
  using assms(2-)
proof (induction "nat (hi - lo + 1)" arbitrary: lo hi rule: less_induct)
  case less
  show ?case
  proof (cases "lo > hi")
    case True
    with less.prems have "block_of chunks ptr = None" by (auto simp: block_of_def find_None_iff)
    with True show ?thesis by (simp add: find_loop.simps[of ptr])
  next
    case False
    define m where "m = nat ((lo + hi) div 2)"
    have m: "lo \<le> hi" "(lo + hi) div 2 = int m" "lo \<le> int m" "int m \<le> hi" "m < length chunks"
      using False less.prems by (auto simp: m_def)
    let ?ch = "chunks ! m"
    have e: "chunk_end ?ch < 2 ^ 64" using assms(1) m(5) by (simp add: disjoint_chunks_def)
    note step = find_loop_step[OF m(1,2,5) e, of ptr]
    have ord: "chunk_end (chunks ! i) \<le> unat (ch_data (chunks ! j))" if "i < j" "j < length chunks" for i j
      using assms(1) that by (simp add: disjoint_chunks_def)
    consider "ptr < ch_data ?ch" | "\<not> ptr < ch_data ?ch" "chunk_end ?ch \<le> unat ptr" | "inside ptr ?ch"
      by (force simp: inside_def)
    then show ?thesis
    proof cases
      case 1
      have "\<not> inside ptr (chunks ! i)" if "m \<le> i" "i < length chunks" for i
        using ord[of m i] that 1 chunk_end_gt[of ?ch] by (cases "i = m") (auto simp: inside_def word_le_nat_alt word_less_nat_alt)
      then have "find_loop ptr chunks lo (int m - 1) = Some (case block_of chunks ptr of None \<Rightarrow> -1 | Some i \<Rightarrow> int i)"
        using less.prems m by (intro less.hyps) auto
      with 1 step show ?thesis by simp
    next
      case 2
      have "\<not> inside ptr (chunks ! i)" if "i \<le> m" for i
        using ord[of i m] that 2 chunk_end_gt[of ?ch] m(5) by (cases "i = m") (auto simp: inside_def)
      then have "find_loop ptr chunks (int m + 1) hi = Some (case block_of chunks ptr of None \<Rightarrow> -1 | Some i \<Rightarrow> int i)"
        using less.prems m by (intro less.hyps) auto
      with 2 step show ?thesis by simp
    next
      case 3
      have "\<not> inside ptr (chunks ! i)" if "i < m" for i
        using ord[of i m] that 3 m(5) by (auto simp: inside_def word_le_nat_alt)
      with 3 m(5) have "block_of chunks ptr = Some m"
        unfolding block_of_def find_Some_iff by (intro exI[of _ m]) auto
      with 3 step show ?thesis by (auto simp: inside_def)
    qed
  qed
qed

lemma find_chunk_for_block:
  "disjoint_chunks chunks \<Longrightarrow>
     find_chunk_for ptr chunks = Some (case block_of chunks ptr of None \<Rightarrow> -1 | Some i \<Rightarrow> int i)"
  unfolding find_chunk_for_def by (rule find_loop_spec) auto


lemma find_cong_upt: "(\<And>i. i < n \<Longrightarrow> P i = Q i) \<Longrightarrow> find P [0..<n] = find Q [0..<n]"
  by (rule find_cong) auto

lemma inside_word:
  assumes "chunk_end ch < 2 ^ 64"
  shows "(let a_lo = ch_data ch; a_hi = ch_data ch + ch_szB ch; a_hi = (if a_lo = a_hi then a_hi + 1 else a_hi)
          in a_lo \<le> ptr \<and> ptr < a_hi) = inside ptr ch"
  using chunk_end_word[OF assms] by (auto simp: Let_def inside_def word_less_nat_alt)




section \<open>Scanning\<close>

lemma unat_and_not_mask: "unat ((w :: u64) AND NOT (mask k)) = unat w div 2 ^ k * 2 ^ k"
proof -
  have "w AND NOT (mask k) = push_bit k (drop_bit k w)"
    by (rule bit_word_eqI) (auto simp: bit_simps)
  moreover have "unat w div 2 ^ k * 2 ^ k < 2 ^ 64"
    using unat_bound[of w] by (simp add: le_less_trans[OF div_times_less_eq_dividend])
  ultimately show ?thesis by (simp add: unat_push_bit_mod unat_drop_bit_div)
qed

lemma unat_ROUNDUP:
  fixes k :: nat
  assumes "(a, k) \<in> {(8, 3), (4096, 12), (65536, 16)}" "unat p + unat a \<le> 2 ^ 64"
  shows "unat (VG_ROUNDUP p a) = (unat p + (unat a - 1)) div unat a * unat a"
proof -
  have a: "unat a = 2 ^ k" "a - 1 = mask k" "unat (a - 1) = unat a - 1" "unat a > 0"
    using assms(1) by (auto simp: mask_eq_exp_minus_1)
  have "unat (p + (a - 1)) = unat p + (unat a - 1)"
    using assms(2) a(3,4) by (subst unat_add_lem[THEN iffD1]) auto
  then show ?thesis
    by (simp add: VG_ROUNDUP_def VG_ROUNDDN_def a(1,2) unat_and_not_mask add_diff_eq[symmetric] del: diff_add_eq)
qed

lemma unat_ROUNDDN8: "unat (VG_ROUNDDN p 8) = unat p div 8 * 8"
  using unat_and_not_mask[of p 3] by (simp add: VG_ROUNDDN_def mask_eq_exp_minus_1)

text \<open>The words a scan looks at: valid, and on no page or secondary map that the scan skips.\<close>

fun scan_words :: "nat \<Rightarrow> lc_env \<Rightarrow> addr \<Rightarrow> addr \<Rightarrow> addr list" where
  "scan_words 0 env end ptr = []"
| "scan_words (Suc fuel) env end ptr =
     (if ptr < end then
        if ptr mod SM_SIZE = 0 \<and> \<not> is_within_valid_secondary env ptr
        then scan_words fuel env end (VG_ROUNDUP (ptr + 1) SM_SIZE)
        else if ptr mod VKI_PAGE_SIZE = 0 \<and> \<not> am_is_valid_for_client env ptr 8
        then scan_words fuel env end (ptr + VKI_PAGE_SIZE)
        else if is_valid_aligned_word env ptr then ptr # scan_words fuel env end (ptr + 8)
        else scan_words fuel env end (ptr + 8)
      else [])"

definition visit :: "lc_env \<Rightarrow> (addr \<Rightarrow> lc_state \<Rightarrow> lc_state option) \<Rightarrow> addr \<Rightarrow> lc_state \<Rightarrow> lc_state option" where
  "visit env push p st =
     (let st = st\<lparr>lc_scanned_szB := lc_scanned_szB st + 8\<rparr>
      in case client_word env p of
           None \<Rightarrow> Some (st\<lparr>lc_sig_skipped_szB := lc_sig_skipped_szB st + 8\<rparr>)
         | Some v \<Rightarrow> push v st)"

text \<open>A range whose scan cannot wrap around the address space.\<close>

definition range_ok :: "addr \<Rightarrow> u64 \<Rightarrow> bool" where
  "range_ok start len \<longleftrightarrow> unat start + unat len + 2 * 65536 \<le> 2 ^ 64"

lemma scan_loop_words:
  assumes "8 dvd unat ptr" "unat end + 65536 < 2 ^ 64" "0 < fuel" "unat end \<le> unat ptr + 8 * (fuel - 1)"
    and "first \<le> ptr"
  shows "scan_loop fuel env push first end ptr st = foldO (visit env push) (scan_words fuel env end ptr) st"
  using assms
proof (induction fuel arbitrary: ptr st)
  case (Suc fuel)
  show ?case
  proof (cases "ptr < end")
    case True
    then have lt: "unat ptr < unat end" by (simp add: word_less_nat_alt)
    have adv: "scan_loop fuel env push first end q st = foldO (visit env push) (scan_words fuel env end q) st"
      if "unat ptr + 8 \<le> unat q" "8 dvd unat q" for q st
    proof (rule Suc.IH)
      have "fuel \<noteq> 0" using Suc.prems(4) lt by (cases fuel) auto
      then show "0 < fuel" "unat end \<le> unat q + 8 * (fuel - 1)"
        using Suc.prems(4) that by auto
    qed (use that Suc.prems in \<open>auto simp: word_le_nat_alt\<close>)
    have up: "unat (VG_ROUNDUP (ptr + 1) SM_SIZE) = (unat ptr div 65536 + 1) * 65536"
      using unat_ROUNDUP[of SM_SIZE 16 "ptr + 1"] lt Suc.prems(2)
      by (simp add: SM_SIZE_def unat_word_ariths div_add_self2)
    have up': "unat ptr + 8 \<le> unat (VG_ROUNDUP (ptr + 1) SM_SIZE)" "8 dvd unat (VG_ROUNDUP (ptr + 1) SM_SIZE)"
    proof -
      have "8 dvd (unat ptr div 65536 + 1) * 65536" by (rule dvd_mult) simp
      with up show "8 dvd unat (VG_ROUNDUP (ptr + 1) SM_SIZE)" by simp
      have "unat ptr < (unat ptr div 65536 + 1) * 65536" by (simp add: algebra_simps dividend_less_div_times)
      with \<open>8 dvd (unat ptr div 65536 + 1) * 65536\<close> Suc.prems(1)
      have "unat ptr + 8 \<le> (unat ptr div 65536 + 1) * 65536" by (elim dvdE) auto
      with up show "unat ptr + 8 \<le> unat (VG_ROUNDUP (ptr + 1) SM_SIZE)" by simp
    qed
    have pg: "unat (ptr + VKI_PAGE_SIZE) = unat ptr + 4096" and w: "unat (ptr + 8) = unat ptr + 8"
      using lt Suc.prems(2) by (auto simp: VKI_PAGE_SIZE_def unat_word_ariths)
    have dvd: "8 dvd unat ptr + 4096" "8 dvd unat ptr + 8" using Suc.prems(1) by (auto intro: dvd_add)
    show ?thesis
      using True Suc.prems(5) adv[OF up'] adv[of "ptr + VKI_PAGE_SIZE"] adv[of "ptr + 8"] pg w dvd
      by (auto simp: visit_def[of env push ptr] Let_def split: option.splits)
  qed simp
qed simp


definition block_words :: "lc_env \<Rightarrow> addr \<Rightarrow> u64 \<Rightarrow> addr list" where
  "block_words env start len =
     scan_words (unat len div 8 + 2) env (VG_ROUNDDN (start + len) 8) (scan_start env (VG_ROUNDUP start 8))"

lemma round_range: "(s + l) div 8 * 8 \<le> (s + 7) div 8 * 8 + 8 * (l div 8 + 1)" for s l :: nat
proof -
  have "(s + l) div 8 * 8 \<le> s + l" by (rule div_times_less_eq_dividend)
  moreover have "s \<le> (s + 7) div 8 * 8"
    using div_mult_mod_eq[of "s + 7" 8] mod_less_divisor[of 8 "s + 7"] by linarith
  moreover have "l \<le> 8 * (l div 8 + 1)"
    using div_mult_mod_eq[of l 8] mod_less_divisor[of 8 l] by simp
  ultimately show ?thesis by linarith
qed

lemma scan_start_ok:
  assumes "8 dvd unat p" "unat p + 2 * 65536 \<le> 2 ^ 64 + 8"
  shows "8 dvd unat (scan_start env p) \<and> p \<le> scan_start env p"
proof -
  have up: "8 dvd unat (VG_ROUNDUP (p + 1) a) \<and> unat p \<le> unat (VG_ROUNDUP (p + 1) a)"
    if "(a, k) \<in> {(4096, 12 :: nat), (65536, 16)}" for a k
  proof -
    have p1: "unat (p + 1) = unat p + 1" using assms(2) by (simp add: unat_word_ariths)
    have "unat (VG_ROUNDUP (p + 1) a) = (unat p + unat a) div unat a * unat a"
      using unat_ROUNDUP[of a k "p + 1"] that assms(2) p1 by auto
    moreover have "8 dvd unat a" "0 < unat a" using that by auto
    moreover from this(2) have "unat p \<le> (unat p + unat a) div unat a * unat a"
      using dividend_less_div_times[of "unat a" "unat p"] by (simp only: div_add_self2) simp
    ultimately show ?thesis by auto
  qed
  from up[of 4096 12] up[of 65536 16] assms(1) show ?thesis
    by (simp add: scan_start_def SM_SIZE_def VKI_PAGE_SIZE_def word_le_nat_alt)
qed

lemma lc_scan_memory_words:
  assumes "range_ok start len"
  shows "lc_scan_memory env chunks start len d clique st =
    foldO (visit env (lc_push_if_a_chunk_ptr env chunks clique d)) (block_words env start len) st"
proof -
  have first: "unat (VG_ROUNDUP start 8) = (unat start + 7) div 8 * 8"
    using unat_ROUNDUP[of 8 3 start] assms by (simp add: range_ok_def)
  have "unat (start + len) = unat start + unat len"
    using assms by (simp add: range_ok_def unat_word_ariths)
  then have "end": "unat (VG_ROUNDDN (start + len) 8) = (unat start + unat len) div 8 * 8"
    by (simp add: unat_ROUNDDN8)
  have dvd: "8 dvd unat (VG_ROUNDUP start 8)" using first by simp
  have "unat (VG_ROUNDUP start 8) + 2 * 65536 \<le> 2 ^ 64 + 8"
    using first assms div_times_less_eq_dividend[of "unat start + 7" 8] by (simp add: range_ok_def)
  note s = scan_start_ok[OF dvd this, of env]
  have "(unat start + unat len) div 8 * 8 \<le> (unat start + 7) div 8 * 8 + 8 * (unat len div 8 + 1)"
    by (rule round_range)
  then show ?thesis
    unfolding lc_scan_memory_def block_words_def Let_def
    using s first "end" assms div_times_less_eq_dividend[of "unat start + unat len" 8]
    by (intro scan_loop_words) (auto simp: range_ok_def word_le_nat_alt)
qed


section \<open>Marking\<close>

text \<open>The block a pointer refers to, and whether it counts as a pointer to its start.\<close>

definition target :: "lc_env \<Rightarrow> MC_Chunk list \<Rightarrow> addr \<Rightarrow> nat option" where
  "target env chunks ptr = (if am_is_valid_for_client env ptr 1 then block_of chunks ptr else None)"

definition start_like :: "lc_env \<Rightarrow> MC_Chunk list \<Rightarrow> addr \<Rightarrow> nat \<Rightarrow> bool" where
  "start_like env chunks ptr j \<longleftrightarrow> ptr = ch_data (chunks ! j) \<or>
     heuristic_reachedness env ptr (chunks ! j) (last_heuristics env) \<noteq> LchNone"

lemma target_bound: "target env chunks ptr = Some j \<Longrightarrow> j < length chunks \<and> inside ptr (chunks ! j)"
  by (auto simp: target_def block_of_def find_Some_iff split: if_splits)

lemma is_a_chunk_ptr_target:
  assumes "disjoint_chunks chunks"
  shows "lc_is_a_chunk_ptr env chunks ptr = Some (target env chunks ptr)"
proof (cases "am_is_valid_for_client env ptr 1")
  case True
  show ?thesis
  proof (cases "block_of chunks ptr")
    case None
    with True find_chunk_for_block[OF assms, of ptr] show ?thesis
      by (simp add: lc_is_a_chunk_ptr_def target_def)
  next
    case (Some j)
    then have j: "j < length chunks" "inside ptr (chunks ! j)" using target_bound[of env chunks ptr j] True by (auto simp: target_def)
    then have "ptr < ch_data (chunks ! j) + ch_szB (chunks ! j) + (if ch_szB (chunks ! j) = 0 then 1 else 0)"
      using assms chunk_end_word[of "chunks ! j"] by (auto simp: disjoint_chunks_def inside_def word_less_nat_alt split: if_splits)
    with True j Some find_chunk_for_block[OF assms, of ptr] show ?thesis
      by (simp add: lc_is_a_chunk_ptr_def target_def inside_def)
  qed
qed (simp add: lc_is_a_chunk_ptr_def target_def)

lemma no_heuristics: "heuristic_reachedness env ptr ch 0 = LchNone"
  by (simp add: heuristic_reachedness_def HiS_def Let_def)

abbreviation st_of :: "lc_state \<Rightarrow> nat \<Rightarrow> Reachedness" where
  "st_of st i \<equiv> ex_state (lc_extras st ! i)"

abbreviation pend :: "lc_state \<Rightarrow> nat \<Rightarrow> bool" where
  "pend st i \<equiv> ex_pending (lc_extras st ! i)"

text \<open>The stack holds every pending block once.\<close>

definition stack_ok :: "nat \<Rightarrow> lc_state \<Rightarrow> bool" where
  "stack_ok n st \<longleftrightarrow> length (lc_extras st) = n \<and> distinct (lc_markstack st) \<and>
     set (lc_markstack st) = {i. i < n \<and> pend st i}"

lemma upd_extra_nth:
  "j < length (lc_extras st) \<Longrightarrow> lc_extras (upd_extra j f st) ! i = (if i = j then f (lc_extras st ! j) else lc_extras st ! i)"
  by (simp add: upd_extra_def nth_list_update)

lemma upd_extra_stack [simp]: "lc_markstack (upd_extra j f st) = lc_markstack st"
  "length (lc_extras (upd_extra j f st)) = length (lc_extras st)"
  by (simp_all add: upd_extra_def)

lemma stack_ok_room:
  assumes "stack_ok n st" "i < n" "\<not> pend st i"
  shows "length (lc_markstack st) < n"
proof -
  have "set (lc_markstack st) \<subset> {..<n}" using assms by (auto simp: stack_ok_def)
  then have "card (set (lc_markstack st)) < n" using psubset_card_mono[of "{..<n}" "set (lc_markstack st)"] by simp
  moreover have "length (lc_markstack st) = card (set (lc_markstack st))"
    using assms(1) by (metis distinct_card stack_ok_def)
  ultimately show ?thesis by simp
qed

lemma stack_ok_length: "stack_ok n st \<Longrightarrow> length (lc_markstack st) \<le> n"
proof -
  assume ok: "stack_ok n st"
  then have "card (set (lc_markstack st)) \<le> card {..<n}" by (intro card_mono) (auto simp: stack_ok_def)
  moreover have "length (lc_markstack st) = card (set (lc_markstack st))"
    using ok by (metis distinct_card stack_ok_def)
  ultimately show ?thesis by simp
qed

lemma lc_push_ok:
  assumes "stack_ok n st" "j < n"
  shows "\<exists>st'. lc_push j st = Some st' \<and> stack_ok n st' \<and>
    (\<forall>i < n. pend st' i = (pend st i \<or> i = j) \<and> st_of st' i = st_of st i \<and>
      ex_IorC (lc_extras st' ! i) = ex_IorC (lc_extras st ! i))"
proof (cases "pend st j")
  case True
  with assms show ?thesis by (auto simp: lc_push_def)
next
  case False
  with assms stack_ok_room[OF assms False] show ?thesis
    by (auto simp: lc_push_def stack_ok_def upd_extra_def nth_list_update)
qed

lemma upd_extra_ok:
  assumes "stack_ok n st" "j < n" "\<And>ex. ex_pending (f ex) = ex_pending ex"
  shows "stack_ok n (upd_extra j f st)"
  using assms by (auto simp: stack_ok_def upd_extra_nth)

text \<open>What one pointer does to the marks in the first phase.\<close>

definition improve :: "bool \<Rightarrow> Reachedness \<Rightarrow> Reachedness" where
  "improve definite s = (if s = Reachable \<or> definite then Reachable else if s = Unreached then Possible else s)"

lemma push_state:
  assumes "stack_ok n st" "j < n" "s \<noteq> st_of st j"
    and "st0 = st \<or> st0 = upd_extra j (\<lambda>ex. ex\<lparr>ex_heuristic := h\<rparr>) st"
  shows "\<exists>st'. lc_push j (upd_extra j (\<lambda>ex. ex\<lparr>ex_state := s\<rparr>) st0) = Some st' \<and> stack_ok n st' \<and>
    (\<forall>i < n. st_of st' i = (if i = j then s else st_of st i) \<and> pend st' i = (pend st i \<or> st_of st' i \<noteq> st_of st i) \<and>
       ex_IorC (lc_extras st' ! i) = ex_IorC (lc_extras st ! i))"
proof -
  have ok: "stack_ok n st0" using assms by (auto intro: upd_extra_ok)
  have keep: "st_of st0 i = st_of st i \<and> pend st0 i = pend st i \<and> ex_IorC (lc_extras st0 ! i) = ex_IorC (lc_extras st ! i)"
    if "i < n" for i
    using assms(4)
  proof
    assume "st0 = upd_extra j (\<lambda>ex. ex\<lparr>ex_heuristic := h\<rparr>) st"
    then show ?thesis using assms(1,2) by (simp add: upd_extra_nth stack_ok_def)
  qed simp
  let ?st = "upd_extra j (\<lambda>ex. ex\<lparr>ex_state := s\<rparr>) st0"
  have "stack_ok n ?st" using ok assms(2) by (auto intro: upd_extra_ok)
  from lc_push_ok[OF this assms(2)] obtain st' where st': "lc_push j ?st = Some st'" "stack_ok n st'"
    "\<forall>i < n. pend st' i = (pend ?st i \<or> i = j) \<and> st_of st' i = st_of ?st i \<and>
      ex_IorC (lc_extras st' ! i) = ex_IorC (lc_extras ?st ! i)" by blast
  have "st_of ?st i = (if i = j then s else st_of st i) \<and> pend ?st i = pend st i \<and>
      ex_IorC (lc_extras ?st ! i) = ex_IorC (lc_extras st ! i)" if "i < n" for i
    using ok keep[OF that] assms(2) that by (auto simp: upd_extra_nth stack_ok_def)
  with st' assms(3) show ?thesis by auto
qed

lemma push_mark:
  assumes "disjoint_chunks chunks" "stack_ok (length chunks) st"
  shows "\<exists>st'. lc_push_without_clique_if_a_chunk_ptr env chunks ptr d st = Some st' \<and> stack_ok (length chunks) st' \<and>
    (\<forall>i < length chunks.
       st_of st' i = (if target env chunks ptr = Some i then improve (start_like env chunks ptr i \<and> d) (st_of st i) else st_of st i) \<and>
       pend st' i = (pend st i \<or> st_of st' i \<noteq> st_of st i) \<and>
       ex_IorC (lc_extras st' ! i) = ex_IorC (lc_extras st ! i))"
proof (cases "target env chunks ptr")
  case None
  with assms show ?thesis by (simp add: lc_push_without_clique_if_a_chunk_ptr_def is_a_chunk_ptr_target)
next
  case (Some j)
  then have j: "j < length chunks" by (auto dest: target_bound)
  note def = lc_push_without_clique_if_a_chunk_ptr_def is_a_chunk_ptr_target[OF assms(1)] Some
  let ?h = "heuristic_reachedness env ptr (chunks ! j) (last_heuristics env)"
  define st0 where "st0 = (if ptr \<noteq> ch_data (chunks ! j) \<and> last_heuristics env \<noteq> 0
      then upd_extra j (\<lambda>ex. ex\<lparr>ex_heuristic := ?h\<rparr>) st else st)"
  have st0: "st0 = st \<or> st0 = upd_extra j (\<lambda>ex. ex\<lparr>ex_heuristic := ?h\<rparr>) st" by (simp add: st0_def)
  have len: "length (lc_extras st) = length chunks" using assms(2) by (simp add: stack_ok_def)
  show ?thesis
  proof (cases "st_of st j = Reachable")
    case True
    then show ?thesis
      using assms(2) j Some len by (auto simp: def improve_def upd_extra_nth intro!: upd_extra_ok)
  next
    case False
    have eq: "lc_push_without_clique_if_a_chunk_ptr env chunks ptr d st =
       (if start_like env chunks ptr j \<and> d then lc_push j (upd_extra j (\<lambda>ex. ex\<lparr>ex_state := Reachable\<rparr>) st0)
        else if st_of st j = Unreached then lc_push j (upd_extra j (\<lambda>ex. ex\<lparr>ex_state := Possible\<rparr>) st0)
        else Some st0)"
      using False no_heuristics by (auto simp: def Let_def st0_def start_like_def)
    consider "start_like env chunks ptr j \<and> d" | "\<not> (start_like env chunks ptr j \<and> d)" "st_of st j = Unreached"
      | "\<not> (start_like env chunks ptr j \<and> d)" "st_of st j \<noteq> Unreached" by blast
    then show ?thesis
    proof cases
      case 1
      with push_state[OF assms(2) j _ st0, of Reachable] False Some eq show ?thesis by (auto simp: improve_def)
    next
      case 2
      with push_state[OF assms(2) j _ st0, of Possible] False Some eq show ?thesis by (auto simp: improve_def)
    next
      case 3
      have "stack_ok (length chunks) st0" using st0 assms(2) j by (auto intro: upd_extra_ok)
      moreover have "st_of st0 i = st_of st i \<and> pend st0 i = pend st i \<and>
          ex_IorC (lc_extras st0 ! i) = ex_IorC (lc_extras st ! i)" if "i < length chunks" for i
        using st0 j that len by (cases "i = j") (auto simp: upd_extra_nth)
      ultimately show ?thesis using 3 False Some eq by (auto simp: improve_def)
    qed
  qed
qed


definition rank :: "Reachedness \<Rightarrow> nat" where
  "rank s = (case s of Reachable \<Rightarrow> 0 | Possible \<Rightarrow> 1 | IndirectLeak \<Rightarrow> 1 | Unreached \<Rightarrow> 2)"

lemma rank_improve: "improve d s \<noteq> s \<Longrightarrow> rank (improve d s) < rank s"
  by (cases s) (auto simp: improve_def rank_def split: if_splits)

lemma rank_Reachable: "rank s \<le> rank Reachable \<Longrightarrow> s = Reachable"
  by (cases s) (auto simp: rank_def)

lemma rank_Unreached: "s \<noteq> Unreached \<Longrightarrow> rank t \<le> rank s \<Longrightarrow> t \<noteq> Unreached"
  by (cases s; cases t) (auto simp: rank_def)

text \<open>
  What a sequence of pointers found in a definite (\<open>d\<close>) or a possible block does: marks improve, exactly the
  improved blocks become pending, every target is marked, and nothing is marked without a pointer to it.
\<close>

definition marked :: "lc_env \<Rightarrow> MC_Chunk list \<Rightarrow> bool \<Rightarrow> addr list \<Rightarrow> lc_state \<Rightarrow> lc_state \<Rightarrow> bool" where
  "marked env chunks d vs st st' \<longleftrightarrow>
     (\<forall>i < length chunks. (st_of st' i = st_of st i \<or> rank (st_of st' i) < rank (st_of st i)) \<and>
        pend st' i = (pend st i \<or> st_of st' i \<noteq> st_of st i) \<and>
        ex_IorC (lc_extras st' ! i) = ex_IorC (lc_extras st ! i) \<and>
        (st_of st' i = IndirectLeak \<longrightarrow> st_of st i = IndirectLeak) \<and>
        (st_of st' i \<noteq> st_of st i \<longrightarrow> (\<exists>v \<in> set vs. target env chunks v = Some i)) \<and>
        (st_of st' i = Reachable \<longrightarrow> st_of st i = Reachable \<or>
           d \<and> (\<exists>v \<in> set vs. target env chunks v = Some i \<and> start_like env chunks v i)) \<and>
        (\<forall>v \<in> set vs. target env chunks v = Some i \<longrightarrow> st_of st' i \<noteq> Unreached \<and>
           (d \<and> start_like env chunks v i \<longrightarrow> st_of st' i = Reachable)))"

lemma marked_Nil: "marked env chunks d [] st st"
  by (simp add: marked_def)

lemma marked_trans:
  assumes "marked env chunks d vs st st1" "marked env chunks d ws st1 st2"
  shows "marked env chunks d (vs @ ws) st st2"
  unfolding marked_def
proof (intro allI impI)
  fix i assume i: "i < length chunks"
  let ?M = "\<lambda>vs st st'. (st_of st' i = st_of st i \<or> rank (st_of st' i) < rank (st_of st i)) \<and>
        pend st' i = (pend st i \<or> st_of st' i \<noteq> st_of st i) \<and>
        ex_IorC (lc_extras st' ! i) = ex_IorC (lc_extras st ! i) \<and>
        (st_of st' i = IndirectLeak \<longrightarrow> st_of st i = IndirectLeak) \<and>
        (st_of st' i \<noteq> st_of st i \<longrightarrow> (\<exists>v \<in> set vs. target env chunks v = Some i)) \<and>
        (st_of st' i = Reachable \<longrightarrow> st_of st i = Reachable \<or>
           d \<and> (\<exists>v \<in> set vs. target env chunks v = Some i \<and> start_like env chunks v i)) \<and>
        (\<forall>v \<in> set vs. target env chunks v = Some i \<longrightarrow> st_of st' i \<noteq> Unreached \<and>
           (d \<and> start_like env chunks v i \<longrightarrow> st_of st' i = Reachable))"
  have 1: "?M vs st st1" and 2: "?M ws st1 st2" using assms i unfolding marked_def by blast+
  show "?M (vs @ ws) st st2"
  proof (cases "st_of st2 i = st_of st1 i")
    case True
    with 1 2 show ?thesis by auto
  next
    case False
    with 2 have lt: "rank (st_of st2 i) < rank (st_of st1 i)" by auto
    with 1 have lt': "rank (st_of st2 i) < rank (st_of st i)" by auto
    then have ne: "st_of st2 i \<noteq> st_of st i" by auto
    have "st_of st1 i \<noteq> Reachable" using lt by (auto simp: rank_def)
    moreover have "st_of st2 i \<noteq> Unreached" using lt by (cases "st_of st1 i") (auto simp: rank_def)
    ultimately show ?thesis using 1 2 False lt' ne by (simp add: ball_Un bex_Un) blast
  qed
qed

lemma push_marked:
  assumes "disjoint_chunks chunks" "stack_ok (length chunks) st"
  shows "\<exists>st'. lc_push_without_clique_if_a_chunk_ptr env chunks ptr d st = Some st' \<and> stack_ok (length chunks) st' \<and>
    marked env chunks d [ptr] st st'"
proof -
  from push_mark[OF assms, of env ptr d] obtain st' where
    st': "lc_push_without_clique_if_a_chunk_ptr env chunks ptr d st = Some st'" "stack_ok (length chunks) st'"
    "\<forall>i < length chunks.
       st_of st' i = (if target env chunks ptr = Some i then improve (start_like env chunks ptr i \<and> d) (st_of st i) else st_of st i) \<and>
       pend st' i = (pend st i \<or> st_of st' i \<noteq> st_of st i) \<and>
       ex_IorC (lc_extras st' ! i) = ex_IorC (lc_extras st ! i)" by blast
  have "marked env chunks d [ptr] st st'"
    unfolding marked_def
  proof (intro allI impI)
    fix i assume "i < length chunks"
    with st'(3) show "(st_of st' i = st_of st i \<or> rank (st_of st' i) < rank (st_of st i)) \<and>
        pend st' i = (pend st i \<or> st_of st' i \<noteq> st_of st i) \<and>
        ex_IorC (lc_extras st' ! i) = ex_IorC (lc_extras st ! i) \<and>
        (st_of st' i = IndirectLeak \<longrightarrow> st_of st i = IndirectLeak) \<and>
        (st_of st' i \<noteq> st_of st i \<longrightarrow> (\<exists>v \<in> set [ptr]. target env chunks v = Some i)) \<and>
        (st_of st' i = Reachable \<longrightarrow> st_of st i = Reachable \<or>
           d \<and> (\<exists>v \<in> set [ptr]. target env chunks v = Some i \<and> start_like env chunks v i)) \<and>
        (\<forall>v \<in> set [ptr]. target env chunks v = Some i \<longrightarrow> st_of st' i \<noteq> Unreached \<and>
           (d \<and> start_like env chunks v i \<longrightarrow> st_of st' i = Reachable))"
      by (cases "st_of st i") (auto simp: improve_def rank_def)
  qed
  with st' show ?thesis by blast
qed

lemma marks_fold:
  assumes "disjoint_chunks chunks" "stack_ok (length chunks) st"
  shows "\<exists>st'. foldO (\<lambda>v. lc_push_without_clique_if_a_chunk_ptr env chunks v d) vs st = Some st' \<and>
    stack_ok (length chunks) st' \<and> marked env chunks d vs st st'"
  using assms(2)
proof (induction vs arbitrary: st)
  case Nil
  then show ?case by (simp add: marked_Nil)
next
  case (Cons v vs)
  from push_marked[OF assms(1) Cons.prems, of env v d] obtain st1 where
    1: "lc_push_without_clique_if_a_chunk_ptr env chunks v d st = Some st1" "stack_ok (length chunks) st1"
    "marked env chunks d [v] st st1" by blast
  from Cons.IH[OF 1(2)] marked_trans[OF 1(3)] 1(1) show ?case by fastforce
qed


lemma counters_irrelevant [simp]:
  "stack_ok n (st\<lparr>lc_scanned_szB := x\<rparr>) = stack_ok n st"
  "stack_ok n (st\<lparr>lc_sig_skipped_szB := y\<rparr>) = stack_ok n st"
  "marked env chunks d vs (st\<lparr>lc_scanned_szB := x\<rparr>) st' = marked env chunks d vs st st'"
  "marked env chunks d vs st (st'\<lparr>lc_scanned_szB := x\<rparr>) = marked env chunks d vs st st'"
  "marked env chunks d vs (st\<lparr>lc_sig_skipped_szB := y\<rparr>) st' = marked env chunks d vs st st'"
  "marked env chunks d vs st (st'\<lparr>lc_sig_skipped_szB := y\<rparr>) = marked env chunks d vs st st'"
  by (simp_all add: stack_ok_def marked_def)

definition loads :: "lc_env \<Rightarrow> addr list \<Rightarrow> u64 list" where
  "loads env ws = List.map_filter (client_word env) ws"

lemma visit_marked:
  assumes "disjoint_chunks chunks" "stack_ok (length chunks) st"
  shows "\<exists>st'. visit env (lc_push_if_a_chunk_ptr env chunks None d) w st = Some st' \<and> stack_ok (length chunks) st' \<and>
    marked env chunks d (loads env [w]) st st'"
proof (cases "client_word env w")
  case None
  with assms(2) show ?thesis by (simp add: visit_def loads_def List.map_filter_def marked_Nil)
next
  case (Some v)
  with push_marked[OF assms(1), of "st\<lparr>lc_scanned_szB := lc_scanned_szB st + 8\<rparr>" env v d] assms(2)
  show ?thesis by (simp add: visit_def loads_def List.map_filter_def lc_push_if_a_chunk_ptr_def)
qed

lemma loads_Cons: "loads env (w # ws) = loads env [w] @ loads env ws"
  by (simp add: loads_def List.map_filter_def)

lemma visits_marked:
  assumes "disjoint_chunks chunks" "stack_ok (length chunks) st"
  shows "\<exists>st'. foldO (visit env (lc_push_if_a_chunk_ptr env chunks None d)) ws st = Some st' \<and>
    stack_ok (length chunks) st' \<and> marked env chunks d (loads env ws) st st'"
  using assms(2)
proof (induction ws arbitrary: st)
  case Nil
  then show ?case by (simp add: marked_Nil loads_def List.map_filter_def)
next
  case (Cons w ws)
  from visit_marked[OF assms(1) Cons.prems, of env d w] obtain st1 where
    1: "visit env (lc_push_if_a_chunk_ptr env chunks None d) w st = Some st1" "stack_ok (length chunks) st1"
    "marked env chunks d (loads env [w]) st st1" by blast
  from Cons.IH[OF 1(2)] obtain st2 where
    2: "foldO (visit env (lc_push_if_a_chunk_ptr env chunks None d)) ws st1 = Some st2" "stack_ok (length chunks) st2"
    "marked env chunks d (loads env ws) st1 st2" by blast
  from marked_trans[OF 1(3) 2(3)] 1(1) 2(1,2) show ?case by (simp add: loads_Cons[of env w ws])
qed

definition block_values :: "lc_env \<Rightarrow> MC_Chunk list \<Rightarrow> nat \<Rightarrow> u64 list" where
  "block_values env chunks i = loads env (block_words env (ch_data (chunks ! i)) (ch_szB (chunks ! i)))"

definition heap_ok :: "MC_Chunk list \<Rightarrow> bool" where
  "heap_ok chunks \<longleftrightarrow> disjoint_chunks chunks \<and> (\<forall>ch \<in> set chunks. range_ok (ch_data ch) (ch_szB ch))"

lemma scan_block_marked:
  assumes "heap_ok chunks" "stack_ok (length chunks) st" "t < length chunks"
  shows "\<exists>st'. lc_scan_memory env chunks (ch_data (chunks ! t)) (ch_szB (chunks ! t)) d None st = Some st' \<and>
    stack_ok (length chunks) st' \<and> marked env chunks d (block_values env chunks t) st st'"
  using assms visits_marked[of chunks st env d] lc_scan_memory_words[of "ch_data (chunks ! t)" "ch_szB (chunks ! t)"]
  by (simp add: heap_ok_def block_values_def)

text \<open>
  The specification. A block is reached when a chain of pointers leads to it from the roots; it is definitely
  reached when every pointer of some such chain is a pointer to the start of its block.
\<close>

inductive reached :: "lc_env \<Rightarrow> MC_Chunk list \<Rightarrow> u64 list \<Rightarrow> nat \<Rightarrow> bool" for env chunks roots where
  reached_root: "v \<in> set roots \<Longrightarrow> target env chunks v = Some j \<Longrightarrow> reached env chunks roots j"
| reached_step: "reached env chunks roots i \<Longrightarrow> v \<in> set (block_values env chunks i) \<Longrightarrow>
    target env chunks v = Some j \<Longrightarrow> reached env chunks roots j"

inductive def_reached :: "lc_env \<Rightarrow> MC_Chunk list \<Rightarrow> u64 list \<Rightarrow> nat \<Rightarrow> bool" for env chunks roots where
  def_root: "v \<in> set roots \<Longrightarrow> target env chunks v = Some j \<Longrightarrow> start_like env chunks v j \<Longrightarrow>
    def_reached env chunks roots j"
| def_step: "def_reached env chunks roots i \<Longrightarrow> v \<in> set (block_values env chunks i) \<Longrightarrow>
    target env chunks v = Some j \<Longrightarrow> start_like env chunks v j \<Longrightarrow> def_reached env chunks roots j"

definition pointed :: "lc_env \<Rightarrow> MC_Chunk list \<Rightarrow> u64 list \<Rightarrow> bool \<Rightarrow> lc_state \<Rightarrow> bool" where
  "pointed env chunks vs d st \<longleftrightarrow> (\<forall>v \<in> set vs. \<forall>j. target env chunks v = Some j \<longrightarrow>
     st_of st j \<noteq> Unreached \<and> (d \<and> start_like env chunks v j \<longrightarrow> st_of st j = Reachable))"

definition mark_inv :: "lc_env \<Rightarrow> MC_Chunk list \<Rightarrow> u64 list \<Rightarrow> lc_state \<Rightarrow> bool" where
  "mark_inv env chunks roots st \<longleftrightarrow> stack_ok (length chunks) st \<and> pointed env chunks roots True st \<and>
     (\<forall>i < length chunks. st_of st i \<noteq> IndirectLeak \<and> ex_IorC (lc_extras st ! i) = 0 \<and>
        (st_of st i = Reachable \<longrightarrow> def_reached env chunks roots i) \<and>
        (st_of st i \<noteq> Unreached \<longrightarrow> reached env chunks roots i) \<and>
        (pend st i \<longrightarrow> st_of st i \<noteq> Unreached) \<and>
        (st_of st i \<noteq> Unreached \<and> \<not> pend st i \<longrightarrow>
           pointed env chunks (block_values env chunks i) (st_of st i = Reachable) st))"

lemma marked_pointed:
  assumes "marked env chunks d vs st st'"
  shows "pointed env chunks vs d st'"
  using assms by (auto simp: marked_def pointed_def dest: target_bound)

lemma pointed_mono:
  assumes "pointed env chunks ws e st" "marked env chunks d vs st st'"
  shows "pointed env chunks ws e st'"
  unfolding pointed_def
proof (intro ballI allI impI)
  fix v j assume v: "v \<in> set ws" "target env chunks v = Some j"
  then have j: "j < length chunks" by (auto dest: target_bound)
  with assms(2) have le: "rank (st_of st' j) \<le> rank (st_of st j)" by (auto simp: marked_def)
  have "st_of st j \<noteq> Unreached \<and> (e \<and> start_like env chunks v j \<longrightarrow> st_of st j = Reachable)"
    using assms(1) v by (auto simp: pointed_def)
  with le rank_Unreached[OF _ le] rank_Reachable[of "st_of st' j"]
  show "st_of st' j \<noteq> Unreached \<and> (e \<and> start_like env chunks v j \<longrightarrow> st_of st' j = Reachable)" by auto
qed

definition work :: "nat \<Rightarrow> lc_state \<Rightarrow> nat" where
  "work n st = (\<Sum>i < n. of_bool (pend st i) + rank (st_of st i))"

lemma marked_work: "marked env chunks d vs st st' \<Longrightarrow> work (length chunks) st' \<le> work (length chunks) st"
  unfolding work_def
proof (rule sum_mono)
  fix i assume m: "marked env chunks d vs st st'" and "i \<in> {..<length chunks}"
  then have "st_of st' i = st_of st i \<or> rank (st_of st' i) < rank (st_of st i)"
    "pend st' i = (pend st i \<or> st_of st' i \<noteq> st_of st i)"
    unfolding marked_def by blast+
  then show "of_bool (pend st' i) + rank (st_of st' i) \<le> of_bool (pend st i) + rank (st_of st i)"
    by (cases "st_of st' i = st_of st i") auto
qed

lemma lc_pop_ok:
  assumes "stack_ok n st" "lc_markstack st = t # rest"
  shows "\<exists>st'. lc_pop st = Some (Some t, st') \<and> stack_ok n st' \<and> t < n \<and> pend st t \<and>
    (\<forall>i < n. st_of st' i = st_of st i \<and> ex_IorC (lc_extras st' ! i) = ex_IorC (lc_extras st ! i) \<and>
       pend st' i = (pend st i \<and> i \<noteq> t))"
proof -
  have t: "t < n" "pend st t" "t \<notin> set rest" "distinct rest" "length (lc_extras st) = n"
    "set rest = {i. i < n \<and> pend st i} - {t}"
    using assms by (auto simp: stack_ok_def)
  let ?st = "upd_extra t (\<lambda>ex. ex\<lparr>ex_pending := False\<rparr>) (st\<lparr>lc_markstack := rest\<rparr>)"
  have "lc_pop st = Some (Some t, ?st)"
    using assms stack_ok_length[OF assms(1)] t by (simp add: lc_pop_def)
  moreover have "st_of ?st i = st_of st i \<and> ex_IorC (lc_extras ?st ! i) = ex_IorC (lc_extras st ! i) \<and>
      pend ?st i = (pend st i \<and> i \<noteq> t)" if "i < n" for i
    using t by (simp add: upd_extra_nth)
  moreover from this have "stack_ok n ?st" using t by (auto simp: stack_ok_def)
  ultimately show ?thesis using t by blast
qed

lemma mark_round:
  assumes "heap_ok chunks" "mark_inv env chunks roots st" "lc_markstack st = t # rest"
  shows "\<exists>st1 st2. lc_pop st = Some (Some t, st1) \<and> t < length chunks \<and>
    lc_scan_memory env chunks (ch_data (chunks ! t)) (ch_szB (chunks ! t)) (st_of st1 t \<noteq> Possible) None st1 = Some st2 \<and>
    mark_inv env chunks roots st2 \<and> work (length chunks) st2 < work (length chunks) st"
proof -
  let ?n = "length chunks"
  have ok: "stack_ok ?n st" using assms(2) by (simp add: mark_inv_def)
  from lc_pop_ok[OF ok assms(3)] obtain st1 where
    1: "lc_pop st = Some (Some t, st1)" "stack_ok ?n st1" "t < ?n" "pend st t"
    "\<And>i. i < ?n \<Longrightarrow> st_of st1 i = st_of st i" "\<And>i. i < ?n \<Longrightarrow> pend st1 i = (pend st i \<and> i \<noteq> t)"
    "\<And>i. i < ?n \<Longrightarrow> ex_IorC (lc_extras st1 ! i) = ex_IorC (lc_extras st ! i)" by blast
  define d where "d = (st_of st1 t \<noteq> Possible)"
  from scan_block_marked[OF assms(1) 1(2,3), of env d] obtain st2 where
    2: "lc_scan_memory env chunks (ch_data (chunks ! t)) (ch_szB (chunks ! t)) d None st1 = Some st2"
    "stack_ok ?n st2" "marked env chunks d (block_values env chunks t) st1 st2" by blast
  have inv: "\<And>i. i < ?n \<Longrightarrow> st_of st i \<noteq> IndirectLeak \<and> ex_IorC (lc_extras st ! i) = 0 \<and> (st_of st i = Reachable \<longrightarrow> def_reached env chunks roots i) \<and>
        (st_of st i \<noteq> Unreached \<longrightarrow> reached env chunks roots i) \<and> (pend st i \<longrightarrow> st_of st i \<noteq> Unreached) \<and>
        (st_of st i \<noteq> Unreached \<and> \<not> pend st i \<longrightarrow>
           pointed env chunks (block_values env chunks i) (st_of st i = Reachable) st)"
    using assms(2) unfolding mark_inv_def by blast
  have t: "st_of st1 t \<noteq> Unreached" "reached env chunks roots t" "d = (st_of st1 t = Reachable)"
    "d \<Longrightarrow> def_reached env chunks roots t"
    using inv[OF 1(3)] 1(3,4,5) by (auto simp: d_def intro: Reachedness.exhaust[of "st_of st t"])
  have p1: "pointed env chunks ws e st1" if "pointed env chunks ws e st" for ws e
    using that 1(5) unfolding pointed_def by (metis target_bound)
  have "mark_inv env chunks roots st2"
    unfolding mark_inv_def
  proof (intro conjI allI impI)
    show "stack_ok ?n st2" by (rule 2(2))
    show "pointed env chunks roots True st2"
      using assms(2) pointed_mono[OF p1 2(3)] by (simp add: mark_inv_def)
    fix i assume i: "i < ?n"
    have m: "st_of st2 i = st_of st1 i \<or> rank (st_of st2 i) < rank (st_of st1 i)"
      "pend st2 i = (pend st1 i \<or> st_of st2 i \<noteq> st_of st1 i)"
      "st_of st2 i = IndirectLeak \<longrightarrow> st_of st1 i = IndirectLeak"
      "st_of st2 i \<noteq> st_of st1 i \<longrightarrow> (\<exists>v \<in> set (block_values env chunks t). target env chunks v = Some i)"
      "st_of st2 i = Reachable \<longrightarrow> st_of st1 i = Reachable \<or>
           d \<and> (\<exists>v \<in> set (block_values env chunks t). target env chunks v = Some i \<and> start_like env chunks v i)"
      "ex_IorC (lc_extras st2 ! i) = ex_IorC (lc_extras st1 ! i)"
      using 2(3) i unfolding marked_def by blast+
    show "ex_IorC (lc_extras st2 ! i) = 0" using m(6) inv[OF i] 1(7)[OF i] by simp
    show "st_of st2 i \<noteq> IndirectLeak" using m(3) inv[OF i] 1(5)[OF i] by auto
    show "def_reached env chunks roots i" if "st_of st2 i = Reachable"
      using m(5) that inv[OF i] 1(5)[OF i] t(4) def_step by fastforce
    show "reached env chunks roots i" if "st_of st2 i \<noteq> Unreached"
      using m(4) that inv[OF i] 1(5)[OF i] t(2) reached_step by fastforce
    show "st_of st2 i \<noteq> Unreached" if "pend st2 i"
      using m(1,2) that inv[OF i] 1(5,6)[OF i] by (cases "st_of st1 i") (auto simp: rank_def)
    show "pointed env chunks (block_values env chunks i) (st_of st2 i = Reachable) st2"
      if "st_of st2 i \<noteq> Unreached \<and> \<not> pend st2 i"
    proof -
      from that m(2) have same: "st_of st2 i = st_of st1 i" "\<not> pend st1 i" by auto
      show ?thesis
      proof (cases "i = t")
        case True
        with same t(3) marked_pointed[OF 2(3)] show ?thesis by simp
      next
        case False
        with same that 1(5,6)[OF i] inv[OF i]
        have "pointed env chunks (block_values env chunks i) (st_of st2 i = Reachable) st" by auto
        with p1 pointed_mono[OF _ 2(3)] show ?thesis by blast
      qed
    qed
  qed
  moreover have "work ?n st1 < work ?n st"
    unfolding work_def by (rule sum_strict_mono_ex1) (use 1(3-6) in auto)
  with marked_work[OF 2(3)] have "work ?n st2 < work ?n st" by linarith
  ultimately show ?thesis using 1(1,3) 2(1) unfolding d_def by blast
qed


lemma process_marks:
  assumes "heap_ok chunks" "mark_inv env chunks roots st" "work (length chunks) st < fuel"
  shows "\<exists>st'. process_loop fuel env chunks None st = Some st' \<and> mark_inv env chunks roots st' \<and> lc_markstack st' = []"
  using assms(2,3)
proof (induction fuel arbitrary: st)
  case (Suc fuel)
  show ?case
  proof (cases "lc_markstack st")
    case Nil
    with Suc.prems show ?thesis by (simp add: lc_pop_def)
  next
    case (Cons t rest)
    from mark_round[OF assms(1) Suc.prems(1) Cons] obtain st1 st2 where
      r: "lc_pop st = Some (Some t, st1)" "t < length chunks"
      "lc_scan_memory env chunks (ch_data (chunks ! t)) (ch_szB (chunks ! t)) (st_of st1 t \<noteq> Possible) None st1 = Some st2"
      "mark_inv env chunks roots st2" "work (length chunks) st2 < work (length chunks) st" by blast
    with Suc.IH[OF r(4)] Suc.prems(2) show ?thesis by simp
  qed
qed simp

text \<open>An empty stack means that the marks are the specified ones.\<close>

lemma mark_inv_final:
  assumes "mark_inv env chunks roots st" "lc_markstack st = []" "j < length chunks"
  shows "st_of st j = (if def_reached env chunks roots j then Reachable
                       else if reached env chunks roots j then Possible else Unreached)"
proof -
  have pend: "\<not> pend st i" if "i < length chunks" for i
    using assms(1,2) that by (auto simp: mark_inv_def stack_ok_def)
  have ptd: "pointed env chunks (block_values env chunks i) (st_of st i = Reachable) st"
    if "i < length chunks" "st_of st i \<noteq> Unreached" for i
    using assms(1) pend that by (simp add: mark_inv_def)
  have roots: "pointed env chunks roots True st" using assms(1) by (simp add: mark_inv_def)
  have R: "i < length chunks \<and> st_of st i \<noteq> Unreached" if "reached env chunks roots i" for i
    using that
  proof induction
    case (reached_root v j)
    with roots show ?case by (auto simp: pointed_def dest: target_bound)
  next
    case (reached_step i v j)
    with ptd[of i] show ?case by (auto simp: pointed_def dest: target_bound)
  qed
  have D: "i < length chunks \<and> st_of st i = Reachable" if "def_reached env chunks roots i" for i
    using that
  proof induction
    case (def_root v j)
    with roots show ?case by (auto simp: pointed_def dest: target_bound)
  next
    case (def_step i v j)
    with ptd[of i] show ?case by (auto simp: pointed_def dest: target_bound)
  qed
  have "st_of st j \<noteq> IndirectLeak" "st_of st j = Reachable \<longrightarrow> def_reached env chunks roots j"
    "st_of st j \<noteq> Unreached \<longrightarrow> reached env chunks roots j"
    using assms(1,3) unfolding mark_inv_def by blast+
  with R[of j] D[of j] show ?thesis by (cases "st_of st j") auto
qed

text \<open>The roots: the values loaded from the scanned segments, in order, and the registers.\<close>

definition scanned_segments :: "lc_env \<Rightarrow> addr list \<Rightarrow> NSegment list" where
  "scanned_segments env seg_starts =
     filter (\<lambda>seg. skip_segment seg = Some False) (List.map_filter (am_find_nsegment env) seg_starts)"

definition root_values :: "lc_env \<Rightarrow> addr list \<Rightarrow> u64 list \<Rightarrow> u64 list" where
  "root_values env seg_starts registers =
     concat (map (\<lambda>seg. loads env (block_words env (sg_start seg) (sg_end seg - sg_start seg + 1)))
       (scanned_segments env seg_starts)) @ registers"

definition segments_ok :: "lc_env \<Rightarrow> addr list \<Rightarrow> bool" where
  "segments_ok env seg_starts \<longleftrightarrow> seg_starts \<noteq> [] \<and>
     (\<forall>s \<in> set seg_starts. \<exists>seg. am_find_nsegment env s = Some seg \<and> sg_kind seg \<in> {SkFileC, SkAnonC, SkShmC} \<and>
        skip_segment seg \<noteq> None \<and> range_ok (sg_start seg) (sg_end seg - sg_start seg + 1))"

abbreviation segment_values :: "lc_env \<Rightarrow> addr list \<Rightarrow> u64 list" where
  "segment_values env segs \<equiv>
     concat (map (\<lambda>seg. loads env (block_words env (sg_start seg) (sg_end seg - sg_start seg + 1))) (scanned_segments env segs))"

lemma root_segments_marked:
  assumes "disjoint_chunks chunks" "stack_ok (length chunks) st" "set segs \<subseteq> set seg_starts" "segments_ok env seg_starts"
  shows "\<exists>st'. foldO (scan_segment env chunks) segs st = Some st' \<and> stack_ok (length chunks) st' \<and>
    marked env chunks True (segment_values env segs) st st'"
  using assms(2,3)
proof (induction segs arbitrary: st)
  case Nil
  then show ?case by (simp add: marked_Nil scanned_segments_def List.map_filter_def)
next
  case (Cons s segs)
  from Cons.prems(2) have "s \<in> set seg_starts" by simp
  with assms(4) obtain seg where
    seg: "am_find_nsegment env s = Some seg" "sg_kind seg \<in> {SkFileC, SkAnonC, SkShmC}" "skip_segment seg \<noteq> None"
    "range_ok (sg_start seg) (sg_end seg - sg_start seg + 1)"
    unfolding segments_ok_def by blast
  then obtain skip where skip: "skip_segment seg = Some skip" by blast
  show ?case
  proof (cases skip)
    case True
    then have "scan_segment env chunks s st = Some st" "scanned_segments env (s # segs) = scanned_segments env segs"
      using seg skip by (auto simp: scan_segment_def scanned_segments_def List.map_filter_def)
    with Cons.IH[OF Cons.prems(1)] Cons.prems(2) show ?thesis by simp
  next
    case False
    let ?vs = "loads env (block_words env (sg_start seg) (sg_end seg - sg_start seg + 1))"
    have eq: "scan_segment env chunks s st = lc_scan_memory env chunks (sg_start seg) (sg_end seg - sg_start seg + 1) True None st"
      "scanned_segments env (s # segs) = seg # scanned_segments env segs"
      using seg skip False by (auto simp: scan_segment_def scanned_segments_def List.map_filter_def)
    from visits_marked[OF assms(1) Cons.prems(1), of env True "block_words env (sg_start seg) (sg_end seg - sg_start seg + 1)"]
      lc_scan_memory_words[OF seg(4)] eq(1) obtain st1 where
      1: "scan_segment env chunks s st = Some st1" "stack_ok (length chunks) st1" "marked env chunks True ?vs st st1" by auto
    from Cons.IH[OF 1(2)] Cons.prems(2) obtain st2 where
      2: "foldO (scan_segment env chunks) segs st1 = Some st2" "stack_ok (length chunks) st2"
      "marked env chunks True (segment_values env segs) st1 st2" by auto
    from marked_trans[OF 1(3) 2(3)] 1(1) 2(1,2) eq(2) show ?thesis by simp
  qed
qed

lemma lc_init_ok: "stack_ok (length chunks) (lc_init chunks)"
  by (auto simp: stack_ok_def lc_init_def)

lemma lc_init_work: "work (length chunks) (lc_init chunks) = 2 * length chunks"
  by (simp add: work_def lc_init_def rank_def)

text \<open>After the roots have been pushed the invariant holds: every marked block is still pending.\<close>

lemma marked_init_inv:
  assumes "stack_ok (length chunks) st" "marked env chunks True roots (lc_init chunks) st"
  shows "mark_inv env chunks roots st"
  unfolding mark_inv_def
proof (intro conjI allI impI)
  show "pointed env chunks roots True st" using assms(2) by (rule marked_pointed)
  fix i assume i: "i < length chunks"
  have init: "st_of (lc_init chunks) i = Unreached" "\<not> pend (lc_init chunks) i"
    "ex_IorC (lc_extras (lc_init chunks) ! i) = 0" using i by (auto simp: lc_init_def)
  have m: "pend st i = (st_of st i \<noteq> Unreached)" "st_of st i \<noteq> IndirectLeak"
      "st_of st i \<noteq> Unreached \<longrightarrow> (\<exists>v \<in> set roots. target env chunks v = Some i)"
      "st_of st i = Reachable \<longrightarrow> (\<exists>v \<in> set roots. target env chunks v = Some i \<and> start_like env chunks v i)"
      "ex_IorC (lc_extras st ! i) = 0"
    using assms(2) i init unfolding marked_def by auto
  show "ex_IorC (lc_extras st ! i) = 0" by (rule m(5))
  show "st_of st i \<noteq> IndirectLeak" by (rule m(2))
  show "st_of st i = Reachable \<Longrightarrow> def_reached env chunks roots i" using m(4) by (auto intro: def_root)
  show "st_of st i \<noteq> Unreached \<Longrightarrow> reached env chunks roots i" using m(3) by (auto intro: reached_root)
  show "pend st i \<Longrightarrow> st_of st i \<noteq> Unreached" using m(1) by simp
  show "st_of st i \<noteq> Unreached \<and> \<not> pend st i \<Longrightarrow>
      pointed env chunks (block_values env chunks i) (st_of st i = Reachable) st" using m(1) by simp
qed (rule assms(1))

lemma mark_phase_ok:
  assumes "heap_ok chunks" "segments_ok env seg_starts"
  shows "\<exists>st. mark_phase env chunks seg_starts registers = Some st \<and> lc_markstack st = [] \<and>
    mark_inv env chunks (root_values env seg_starts registers) st"
proof -
  have dis: "disjoint_chunks chunks" using assms(1) by (simp add: heap_ok_def)
  from root_segments_marked[OF dis lc_init_ok subset_refl assms(2)] obtain st1 where
    1: "foldO (scan_segment env chunks) seg_starts (lc_init chunks) = Some st1" "stack_ok (length chunks) st1"
    "marked env chunks True (segment_values env seg_starts) (lc_init chunks) st1" by blast
  have root: "scan_memory_root_set env chunks seg_starts (lc_init chunks) = Some st1"
    using 1(1) assms(2) by (simp add: scan_memory_root_set_def segments_ok_def lc_init_def)
  from marks_fold[OF dis 1(2), of env True registers] obtain st2 where
    2: "foldO (\<lambda>r. lc_push_without_clique_if_a_chunk_ptr env chunks r True) registers st1 = Some st2"
    "stack_ok (length chunks) st2" "marked env chunks True registers st1 st2" by blast
  have m: "marked env chunks True (root_values env seg_starts registers) (lc_init chunks) st2"
    using marked_trans[OF 1(3) 2(3)] by (simp add: root_values_def)
  have "work (length chunks) st2 < 2 * length chunks + 1"
    using marked_work[OF m] lc_init_work[of chunks] by simp
  from process_marks[OF assms(1) marked_init_inv[OF 2(2) m] this] root 2(1) show ?thesis
    by (auto simp: mark_phase_def lc_process_markstack_def)
qed



definition test_seg :: NSegment where
  "test_seg = \<lparr>sg_kind = SkAnonC, sg_start = 0x1000, sg_end = 0x1007, sg_hasR = True, sg_hasW = True, sg_hasT = False,
     sg_isCH = False, sg_is_device = False, sg_filename = None\<rparr>"

text \<open>
  A small heap: the root segment points to the start of the first block, which holds an interior pointer to the
  second; the third points to the fourth and nothing points to the third.
\<close>

definition test_env :: lc_env where
  "test_env = \<lparr>am_is_valid_for_client = (\<lambda>a n. True), am_find_nsegment = (\<lambda>a. if a = 0x1000 then Some test_seg else None),
     is_within_valid_secondary = (\<lambda>a. True), is_valid_aligned_word = (\<lambda>a. True),
     client_word = (\<lambda>a. Some (if a = 0x1000 then 0x5000 else if a = 0x5000 then 0x6004 else if a = 0x7000 then 0x8000 else 0)),
     last_heuristics = 0\<rparr>"

definition test_heap :: "MC_Chunk list" where
  "test_heap = [test_chunk 0x5000 8, test_chunk 0x6000 8, test_chunk 0x7000 8, test_chunk 0x8000 24]"

lemma test_heap_ok: "heap_ok test_heap"
  by (simp add: heap_ok_def disjoint_chunks_def range_ok_def test_heap_def test_chunk_def chunk_end_def
      All_less_Suc)

lemma test_segments_ok: "segments_ok test_env [0x1000]"
  by (auto simp: segments_ok_def test_env_def test_seg_def skip_segment_def range_ok_def)


end
