(* ===== verification/Leak_Cliques.thy ===== *)
theory Leak_Cliques
  imports Leak_Props
begin

text \<open>
  The clique phase of the leak checker: every block left unreached is either a clique leader (directly lost) or
  joins a clique (indirectly lost), and the sizes that the leaders report add up to all the lost bytes.
\<close>

section \<open>One pointer\<close>

abbreviation iorc :: "lc_state \<Rightarrow> nat \<Rightarrow> u64" where
  "iorc st i \<equiv> ex_IorC (lc_extras st ! i)"

text \<open>The bytes that the unreached blocks stand for, their own and those of their cliques.\<close>

definition leak_total :: "MC_Chunk list \<Rightarrow> lc_state \<Rightarrow> u64" where
  "leak_total chunks st = (\<Sum>i < length chunks. if st_of st i = Unreached then ch_szB (chunks ! i) + iorc st i else 0)"

definition joins :: "lc_env \<Rightarrow> MC_Chunk list \<Rightarrow> nat \<Rightarrow> lc_state \<Rightarrow> addr \<Rightarrow> nat option" where
  "joins env chunks c st ptr = (case target env chunks ptr of None \<Rightarrow> None
     | Some j \<Rightarrow> if st_of st j = Unreached \<and> j \<noteq> c then Some j else None)"

lemma push_clique:
  assumes "disjoint_chunks chunks" "stack_ok (length chunks) st" "c < length chunks"
  shows "\<exists>st'. lc_push_with_clique_if_a_chunk_ptr env chunks ptr c cur st = Some st' \<and> stack_ok (length chunks) st' \<and>
    (\<forall>i < length chunks.
       st_of st' i = (if joins env chunks c st ptr = Some i then IndirectLeak else st_of st i) \<and>
       pend st' i = (pend st i \<or> joins env chunks c st ptr = Some i) \<and>
       iorc st' i = (if joins env chunks c st ptr = Some i then of_nat cur
         else if i = c then (case joins env chunks c st ptr of None \<Rightarrow> iorc st c
           | Some j \<Rightarrow> iorc st c + (ch_szB (chunks ! j) + iorc st j))
         else iorc st i))"
proof (cases "joins env chunks c st ptr")
  case None
  then have "lc_push_with_clique_if_a_chunk_ptr env chunks ptr c cur st = Some st"
    using assms(3) by (auto simp: lc_push_with_clique_if_a_chunk_ptr_def is_a_chunk_ptr_target[OF assms(1)] joins_def
        split: option.splits)
  with None assms(2) show ?thesis by auto
next
  case (Some j)
  then have j: "target env chunks ptr = Some j" "st_of st j = Unreached" "j \<noteq> c" "j < length chunks"
    by (auto simp: joins_def dest: target_bound split: option.splits if_splits)
  let ?n = "length chunks"
  from lc_push_ok[OF assms(2) j(4)] obtain st1 where
    1: "lc_push j st = Some st1" "stack_ok ?n st1" and
    same: "\<And>i. i < ?n \<Longrightarrow> pend st1 i = (pend st i \<or> i = j) \<and> st_of st1 i = st_of st i \<and> iorc st1 i = iorc st i"
    by blast
  define st2 where "st2 = upd_extra c (\<lambda>ex. ex\<lparr>ex_IorC := ex_IorC ex + ch_szB (chunks ! j)\<rparr>) st1"
  define st3 where "st3 = upd_extra c (\<lambda>ex. ex\<lparr>ex_IorC := ex_IorC ex + iorc st2 j\<rparr>) st2"
  define st4 where "st4 = upd_extra j (\<lambda>ex. ex\<lparr>ex_state := IndirectLeak, ex_IorC := of_nat cur\<rparr>) st3"
  have "lc_push_with_clique_if_a_chunk_ptr env chunks ptr c cur st = Some st4"
    using assms(3) j 1(1)
    by (simp add: lc_push_with_clique_if_a_chunk_ptr_def is_a_chunk_ptr_target[OF assms(1)] Let_def st2_def st3_def st4_def)
  moreover have len: "length (lc_extras st1) = ?n" using 1(2) by (simp add: stack_ok_def)
  then have len': "length (lc_extras st2) = ?n" "length (lc_extras st3) = ?n" by (simp_all add: st2_def st3_def)
  have "stack_ok ?n st4"
    unfolding st4_def st3_def st2_def using 1(2) assms(3) j(4) by (intro upd_extra_ok) auto
  moreover have "st_of st4 i = (if i = j then IndirectLeak else st_of st i) \<and> pend st4 i = (pend st i \<or> i = j) \<and>
      iorc st4 i = (if i = j then of_nat cur else if i = c then iorc st c + (ch_szB (chunks ! j) + iorc st j) else iorc st i)"
    if i: "i < ?n" for i
  proof -
    have 2: "lc_extras st2 ! k = (if k = c then (lc_extras st1 ! c)\<lparr>ex_IorC := iorc st1 c + ch_szB (chunks ! j)\<rparr> else lc_extras st1 ! k)" for k
      using len assms(3) by (simp add: st2_def upd_extra_nth)
    have 3: "lc_extras st3 ! k = (if k = c then (lc_extras st2 ! c)\<lparr>ex_IorC := iorc st2 c + iorc st2 j\<rparr> else lc_extras st2 ! k)" for k
      using len' assms(3) by (simp add: st3_def upd_extra_nth)
    have 4: "lc_extras st4 ! k = (if k = j then (lc_extras st3 ! j)\<lparr>ex_state := IndirectLeak, ex_IorC := of_nat cur\<rparr> else lc_extras st3 ! k)" for k
      using len' j(4) by (simp add: st4_def upd_extra_nth)
    show ?thesis using same[OF i] same[OF assms(3)] same[OF j(4)] j(3) by (simp add: 2 3 4 add.assoc)
  qed
  ultimately show ?thesis unfolding Some by (intro exI[of _ st4]) auto
qed


lemma leak_total_join:
  assumes "c < length chunks" "j < length chunks" "j \<noteq> c" "st_of st c = Unreached" "st_of st j = Unreached"
    and "\<forall>i < length chunks. st_of st' i = (if i = j then IndirectLeak else st_of st i) \<and>
       iorc st' i = (if i = j then x else if i = c then iorc st c + (ch_szB (chunks ! j) + iorc st j) else iorc st i)"
  shows "leak_total chunks st' = leak_total chunks st"
proof -
  let ?f = "\<lambda>st i. if st_of st i = Unreached then ch_szB (chunks ! i) + iorc st i else 0"
  let ?R = "{..<length chunks} - {c} - {j}"
  have split: "sum g {..<length chunks} = g c + (g j + sum g ?R)" for g :: "nat \<Rightarrow> u64"
    using assms(1-3) by (simp add: sum.remove[of _ c] sum.remove[of _ j])
  have rest: "sum (?f st') ?R = sum (?f st) ?R" using assms(6) by (intro sum.cong) auto
  have "?f st' c = ?f st c + ?f st j" "?f st' j = 0" using assms by auto
  then show ?thesis unfolding leak_total_def split[of "?f st'"] split[of "?f st"] rest by (simp add: add.assoc)
qed

text \<open>What the pointers of one block (\<open>cur\<close>) do while the clique of \<open>c\<close> is gathered.\<close>

definition joined :: "lc_env \<Rightarrow> MC_Chunk list \<Rightarrow> nat \<Rightarrow> nat \<Rightarrow> addr list \<Rightarrow> lc_state \<Rightarrow> lc_state \<Rightarrow> bool" where
  "joined env chunks c cur vs st st' \<longleftrightarrow>
     (\<forall>i < length chunks.
        (st_of st' i = st_of st i \<and> pend st' i = pend st i \<and> (i \<noteq> c \<longrightarrow> iorc st' i = iorc st i)) \<or>
        (i \<noteq> c \<and> st_of st i = Unreached \<and> st_of st' i = IndirectLeak \<and> pend st' i \<and> iorc st' i = of_nat cur \<and>
           (\<exists>v \<in> set vs. target env chunks v = Some i))) \<and>
     (\<forall>v \<in> set vs. \<forall>j. target env chunks v = Some j \<longrightarrow> j = c \<or> st_of st' j \<noteq> Unreached) \<and>
     leak_total chunks st' = leak_total chunks st"

lemma joined_Nil: "joined env chunks c cur [] st st"
  by (simp add: joined_def)

lemma joined_trans:
  assumes "joined env chunks c cur vs st st1" "joined env chunks c cur ws st1 st2"
  shows "joined env chunks c cur (vs @ ws) st st2"
  unfolding joined_def
proof (intro conjI allI impI ballI)
  fix i assume i: "i < length chunks"
  from assms(1) i have 1: "(st_of st1 i = st_of st i \<and> pend st1 i = pend st i \<and> (i \<noteq> c \<longrightarrow> iorc st1 i = iorc st i)) \<or>
        (i \<noteq> c \<and> st_of st i = Unreached \<and> st_of st1 i = IndirectLeak \<and> pend st1 i \<and> iorc st1 i = of_nat cur \<and>
           (\<exists>v \<in> set vs. target env chunks v = Some i))" unfolding joined_def by blast
  from assms(2) i have 2: "(st_of st2 i = st_of st1 i \<and> pend st2 i = pend st1 i \<and> (i \<noteq> c \<longrightarrow> iorc st2 i = iorc st1 i)) \<or>
        (i \<noteq> c \<and> st_of st1 i = Unreached \<and> st_of st2 i = IndirectLeak \<and> pend st2 i \<and> iorc st2 i = of_nat cur \<and>
           (\<exists>v \<in> set ws. target env chunks v = Some i))" unfolding joined_def by blast
  from 1 2 show "(st_of st2 i = st_of st i \<and> pend st2 i = pend st i \<and> (i \<noteq> c \<longrightarrow> iorc st2 i = iorc st i)) \<or>
        (i \<noteq> c \<and> st_of st i = Unreached \<and> st_of st2 i = IndirectLeak \<and> pend st2 i \<and> iorc st2 i = of_nat cur \<and>
           (\<exists>v \<in> set (vs @ ws). target env chunks v = Some i))"
    by (elim disjE conjE) auto
next
  fix v j assume v: "v \<in> set (vs @ ws)" "target env chunks v = Some j"
  then have j: "j < length chunks" by (auto dest: target_bound)
  show "j = c \<or> st_of st2 j \<noteq> Unreached"
  proof (cases "v \<in> set ws")
    case True
    with assms(2) v show ?thesis unfolding joined_def by blast
  next
    case False
    with v have "v \<in> set vs" by simp
    with assms(1) v have "j = c \<or> st_of st1 j \<noteq> Unreached" unfolding joined_def by blast
    moreover have "st_of st2 j = st_of st1 j \<or> st_of st2 j = IndirectLeak"
      using assms(2) j unfolding joined_def by blast
    ultimately show ?thesis by auto
  qed
next
  show "leak_total chunks st2 = leak_total chunks st" using assms by (simp add: joined_def)
qed

lemma push_joined:
  assumes "disjoint_chunks chunks" "stack_ok (length chunks) st" "c < length chunks" "st_of st c = Unreached"
  shows "\<exists>st'. lc_push_with_clique_if_a_chunk_ptr env chunks ptr c cur st = Some st' \<and> stack_ok (length chunks) st' \<and>
    joined env chunks c cur [ptr] st st'"
proof -
  from push_clique[OF assms(1-3), of env ptr cur] obtain st' where
    st': "lc_push_with_clique_if_a_chunk_ptr env chunks ptr c cur st = Some st'" "stack_ok (length chunks) st'"
    and eff: "\<forall>i < length chunks.
       st_of st' i = (if joins env chunks c st ptr = Some i then IndirectLeak else st_of st i) \<and>
       pend st' i = (pend st i \<or> joins env chunks c st ptr = Some i) \<and>
       iorc st' i = (if joins env chunks c st ptr = Some i then of_nat cur
         else if i = c then (case joins env chunks c st ptr of None \<Rightarrow> iorc st c
           | Some j \<Rightarrow> iorc st c + (ch_szB (chunks ! j) + iorc st j))
         else iorc st i)" by blast
  have "joined env chunks c cur [ptr] st st'"
  proof (cases "joins env chunks c st ptr")
    case None
    then have "leak_total chunks st' = leak_total chunks st"
      using eff by (auto simp: leak_total_def intro!: sum.cong)
    moreover have "j = c \<or> st_of st' j \<noteq> Unreached" if "target env chunks ptr = Some j" for j
      using None that target_bound[OF that] eff by (auto simp: joins_def split: if_splits)
    ultimately show ?thesis using None eff by (auto simp: joined_def)
  next
    case (Some j)
    then have j: "target env chunks ptr = Some j" "st_of st j = Unreached" "j \<noteq> c" "j < length chunks"
      by (auto simp: joins_def dest: target_bound split: option.splits if_splits)
    have "leak_total chunks st' = leak_total chunks st"
      using leak_total_join[OF assms(3) j(4,3) assms(4) j(2), of st' "of_nat cur"] eff Some by auto
    then show ?thesis using Some eff j by (auto simp: joined_def)
  qed
  with st' show ?thesis by blast
qed

lemma joined_counters [simp]:
  "joined env chunks c cur vs (st\<lparr>lc_scanned_szB := x\<rparr>) st' = joined env chunks c cur vs st st'"
  "joined env chunks c cur vs st (st'\<lparr>lc_scanned_szB := x\<rparr>) = joined env chunks c cur vs st st'"
  "joined env chunks c cur vs (st\<lparr>lc_sig_skipped_szB := y\<rparr>) st' = joined env chunks c cur vs st st'"
  "joined env chunks c cur vs st (st'\<lparr>lc_sig_skipped_szB := y\<rparr>) = joined env chunks c cur vs st st'"
  by (simp_all add: joined_def leak_total_def cong: if_cong)

lemma visit_joined:
  assumes "disjoint_chunks chunks" "stack_ok (length chunks) st" "c < length chunks" "st_of st c = Unreached"
  shows "\<exists>st'. visit env (lc_push_if_a_chunk_ptr env chunks (Some (c, cur)) d) w st = Some st' \<and>
    stack_ok (length chunks) st' \<and> joined env chunks c cur (loads env [w]) st st'"
proof (cases "client_word env w")
  case None
  with assms(2) show ?thesis by (simp add: visit_def loads_def List.map_filter_def joined_Nil)
next
  case (Some v)
  with push_joined[OF assms(1), of "st\<lparr>lc_scanned_szB := lc_scanned_szB st + 8\<rparr>" c env v cur] assms(2-)
  show ?thesis by (simp add: visit_def loads_def List.map_filter_def lc_push_if_a_chunk_ptr_def)
qed

lemma joined_leader: "joined env chunks c cur vs st st' \<Longrightarrow> c < length chunks \<Longrightarrow> st_of st' c = st_of st c"
  unfolding joined_def by blast

lemma visits_joined:
  assumes "disjoint_chunks chunks" "stack_ok (length chunks) st" "c < length chunks" "st_of st c = Unreached"
  shows "\<exists>st'. foldO (visit env (lc_push_if_a_chunk_ptr env chunks (Some (c, cur)) d)) ws st = Some st' \<and>
    stack_ok (length chunks) st' \<and> joined env chunks c cur (loads env ws) st st'"
  using assms(2,4)
proof (induction ws arbitrary: st)
  case Nil
  then show ?case by (simp add: joined_Nil loads_def List.map_filter_def)
next
  case (Cons w ws)
  from visit_joined[OF assms(1) Cons.prems(1) assms(3) Cons.prems(2), of env cur d w] obtain st1 where
    1: "visit env (lc_push_if_a_chunk_ptr env chunks (Some (c, cur)) d) w st = Some st1" "stack_ok (length chunks) st1"
    "joined env chunks c cur (loads env [w]) st st1" by blast
  have "st_of st1 c = Unreached" using joined_leader[OF 1(3) assms(3)] Cons.prems(2) by simp
  from Cons.IH[OF 1(2) this] obtain st2 where
    2: "foldO (visit env (lc_push_if_a_chunk_ptr env chunks (Some (c, cur)) d)) ws st1 = Some st2"
    "stack_ok (length chunks) st2" "joined env chunks c cur (loads env ws) st1 st2" by blast
  from joined_trans[OF 1(3) 2(3)] 1(1) 2(1,2) show ?case by (simp add: loads_Cons[of env w ws])
qed


section \<open>One clique\<close>

text \<open>
  \<open>lost\<close> are the blocks unreached when the phase starts. A pending block is lost; an indirectly lost one is
  pointed to by a lost block, whose number it records; and a leader that has been scanned points to no other leader.
\<close>

definition clique_inv :: "lc_env \<Rightarrow> MC_Chunk list \<Rightarrow> lc_state \<Rightarrow> nat option \<Rightarrow> (nat \<Rightarrow> bool) \<Rightarrow> lc_state \<Rightarrow> bool" where
  "clique_inv env chunks st0 leader scanned st \<longleftrightarrow>
     stack_ok (length chunks) st \<and> leak_total chunks st = leak_total chunks st0 \<and>
     (\<forall>c. leader = Some c \<longrightarrow> c < length chunks \<and> st_of st c = Unreached) \<and>
     (\<forall>i < length chunks.
        (if st_of st0 i = Unreached then st_of st i = Unreached \<or> st_of st i = IndirectLeak \<and>
             (\<exists>p < length chunks. st_of st0 p = Unreached \<and> iorc st i = of_nat p \<and>
                (\<exists>v \<in> set (block_values env chunks p). target env chunks v = Some i))
         else st_of st i = st_of st0 i \<and> \<not> pend st i) \<and>
        (pend st i \<longrightarrow> leader = Some i \<or> st_of st i = IndirectLeak) \<and>
        (scanned i \<and> st_of st i = Unreached \<longrightarrow>
           (\<forall>v \<in> set (block_values env chunks i). \<forall>j. target env chunks v = Some j \<longrightarrow>
              j = i \<or> st_of st j \<noteq> Unreached)))"

definition clique_work :: "MC_Chunk list \<Rightarrow> nat \<Rightarrow> lc_state \<Rightarrow> nat" where
  "clique_work chunks c st = (\<Sum>i < length chunks. of_bool (pend st i) + of_bool (st_of st i = Unreached \<and> i \<noteq> c))"

lemma joined_work:
  assumes "joined env chunks c cur vs st st'"
  shows "clique_work chunks c st' \<le> clique_work chunks c st"
  unfolding clique_work_def
proof (rule sum_mono)
  fix i assume "i \<in> {..<length chunks}"
  then have "(st_of st' i = st_of st i \<and> pend st' i = pend st i) \<or> (i \<noteq> c \<and> st_of st i = Unreached \<and> st_of st' i = IndirectLeak)"
    using assms unfolding joined_def by blast
  then show "(of_bool (pend st' i) :: nat) + of_bool (st_of st' i = Unreached \<and> i \<noteq> c) \<le>
      of_bool (pend st i) + of_bool (st_of st i = Unreached \<and> i \<noteq> c)" by (elim disjE) auto
qed

lemma leak_total_cong:
  "(\<And>i. i < length chunks \<Longrightarrow> st_of st' i = st_of st i \<and> iorc st' i = iorc st i) \<Longrightarrow> leak_total chunks st' = leak_total chunks st"
  unfolding leak_total_def by (intro sum.cong) auto

lemma clique_round:
  assumes "heap_ok chunks" "clique_inv env chunks st0 (Some c) S st" "lc_markstack st = t # rest"
  shows "\<exists>st1 st2. lc_pop st = Some (Some t, st1) \<and> t < length chunks \<and>
    lc_scan_memory env chunks (ch_data (chunks ! t)) (ch_szB (chunks ! t)) d (Some (c, t)) st1 = Some st2 \<and>
    clique_inv env chunks st0 (Some c) (\<lambda>i. S i \<or> i = t \<and> i = c) st2 \<and> clique_work chunks c st2 < clique_work chunks c st \<and>
    (pend st c \<and> t \<noteq> c \<longrightarrow> pend st2 c)"
proof -
  let ?n = "length chunks" and ?vs = "block_values env chunks t"
  have ok: "stack_ok ?n st" and c: "c < ?n" "st_of st c = Unreached" and tot: "leak_total chunks st = leak_total chunks st0"
    using assms(2) by (auto simp: clique_inv_def)
  have inv: "(if st_of st0 i = Unreached then st_of st i = Unreached \<or> st_of st i = IndirectLeak \<and>
             (\<exists>p < ?n. st_of st0 p = Unreached \<and> iorc st i = of_nat p \<and> (\<exists>v \<in> set (block_values env chunks p). target env chunks v = Some i))
         else st_of st i = st_of st0 i \<and> \<not> pend st i)" "pend st i \<longrightarrow> c = i \<or> st_of st i = IndirectLeak"
     "S i \<and> st_of st i = Unreached \<longrightarrow> (\<forall>v \<in> set (block_values env chunks i). \<forall>j. target env chunks v = Some j \<longrightarrow> j = i \<or> st_of st j \<noteq> Unreached)"
    if "i < ?n" for i using assms(2) that unfolding clique_inv_def by blast+
  from lc_pop_ok[OF ok assms(3)] obtain st1 where
    1: "lc_pop st = Some (Some t, st1)" "stack_ok ?n st1" "t < ?n" "pend st t"
    and same: "\<And>i. i < ?n \<Longrightarrow> st_of st1 i = st_of st i \<and> iorc st1 i = iorc st i \<and> pend st1 i = (pend st i \<and> i \<noteq> t)" by blast
  have lost_t: "st_of st0 t = Unreached" using inv(1)[OF 1(3)] 1(4) by (auto split: if_splits)
  have c1: "st_of st1 c = Unreached" using same[OF c(1)] c(2) by simp
  have range: "range_ok (ch_data (chunks ! t)) (ch_szB (chunks ! t))" and dis: "disjoint_chunks chunks"
    using assms(1) 1(3) by (auto simp: heap_ok_def)
  from visits_joined[OF dis 1(2) c(1) c1, of env t d] obtain st2 where
    2: "lc_scan_memory env chunks (ch_data (chunks ! t)) (ch_szB (chunks ! t)) d (Some (c, t)) st1 = Some st2"
    "stack_ok ?n st2" "joined env chunks c t ?vs st1 st2"
    unfolding lc_scan_memory_words[OF range] block_values_def by blast
  have J: "(st_of st2 i = st_of st i \<and> pend st2 i = (pend st i \<and> i \<noteq> t) \<and> (i \<noteq> c \<longrightarrow> iorc st2 i = iorc st i)) \<or>
        (i \<noteq> c \<and> st_of st i = Unreached \<and> st_of st2 i = IndirectLeak \<and> pend st2 i \<and> iorc st2 i = of_nat t \<and>
           (\<exists>v \<in> set ?vs. target env chunks v = Some i))" if "i < ?n" for i
    using 2(3) same[OF that] that unfolding joined_def by metis
  have mono: "st_of st2 j \<noteq> Unreached" if "st_of st j \<noteq> Unreached" "j < ?n" for j using J[OF that(2)] that(1) by auto
  have "clique_inv env chunks st0 (Some c) (\<lambda>i. S i \<or> i = t \<and> i = c) st2"
    unfolding clique_inv_def
  proof (intro conjI allI impI)
    show "stack_ok ?n st2" by (rule 2(2))
    show "leak_total chunks st2 = leak_total chunks st0"
      using 2(3) tot same leak_total_cong[of chunks st1 st] by (simp add: joined_def)
    show "c' < ?n" "st_of st2 c' = Unreached" if "Some c = Some c'" for c'
      using that c joined_leader[OF 2(3) c(1)] c1 by auto
    fix i assume i: "i < ?n"
    show "if st_of st0 i = Unreached then st_of st2 i = Unreached \<or> st_of st2 i = IndirectLeak \<and>
             (\<exists>p < ?n. st_of st0 p = Unreached \<and> iorc st2 i = of_nat p \<and> (\<exists>v \<in> set (block_values env chunks p). target env chunks v = Some i))
         else st_of st2 i = st_of st0 i \<and> \<not> pend st2 i"
      using J[OF i] inv(1)[OF i] lost_t 1(3) c by (elim disjE conjE) (auto split: if_splits)
    show "Some c = Some i \<or> st_of st2 i = IndirectLeak" if "pend st2 i"
      using J[OF i] inv(2)[OF i] that by auto
    fix v j assume h: "(S i \<or> i = t \<and> i = c) \<and> st_of st2 i = Unreached"
    show "\<forall>v \<in> set (block_values env chunks i). \<forall>j. target env chunks v = Some j \<longrightarrow> j = i \<or> st_of st2 j \<noteq> Unreached"
    proof (cases "i = t \<and> i = c")
      case True
      with 2(3) show ?thesis unfolding joined_def by blast
    next
      case False
      with h J[OF i] have "S i" "st_of st i = Unreached" by auto
      with inv(3)[OF i] mono show ?thesis by (metis target_bound)
    qed
  qed
  moreover have "clique_work chunks c st1 < clique_work chunks c st"
    unfolding clique_work_def by (rule sum_strict_mono_ex1) (use 1(3,4) same in auto)
  with joined_work[OF 2(3)] have "clique_work chunks c st2 < clique_work chunks c st" by linarith
  moreover have "pend st c \<and> t \<noteq> c \<longrightarrow> pend st2 c" using J[OF c(1)] by auto
  ultimately show ?thesis using 1(1,3) 2(1) by blast
qed


lemma process_clique:
  assumes "heap_ok chunks" "clique_inv env chunks st0 (Some c) S st" "clique_work chunks c st < fuel" "pend st c \<or> S c"
  shows "\<exists>st' S'. process_loop fuel env chunks (Some c) st = Some st' \<and> clique_inv env chunks st0 (Some c) S' st' \<and>
    lc_markstack st' = [] \<and> S' c \<and> (\<forall>i. S i \<longrightarrow> S' i)"
  using assms(2-)
proof (induction fuel arbitrary: st S)
  case (Suc fuel)
  show ?case
  proof (cases "lc_markstack st")
    case Nil
    then have "S c" using Suc.prems(1,3) by (auto simp: clique_inv_def stack_ok_def)
    with Nil Suc.prems show ?thesis by (auto simp: lc_pop_def)
  next
    case (Cons t rest)
    from clique_round[OF assms(1) Suc.prems(1) Cons] obtain st1 where pop: "lc_pop st = Some (Some t, st1)" by blast
    from clique_round[OF assms(1) Suc.prems(1) Cons, of "st_of st1 t \<noteq> Possible"] pop obtain st2 where
      r: "t < length chunks"
      "lc_scan_memory env chunks (ch_data (chunks ! t)) (ch_szB (chunks ! t)) (st_of st1 t \<noteq> Possible) (Some (c, t)) st1 = Some st2"
      "clique_inv env chunks st0 (Some c) (\<lambda>i. S i \<or> i = t \<and> i = c) st2"
      "clique_work chunks c st2 < clique_work chunks c st" "pend st c \<and> t \<noteq> c \<longrightarrow> pend st2 c" by auto
    have "pend st2 c \<or> S c \<or> c = t \<and> c = c" using r(5) Suc.prems(3) by auto
    with Suc.IH[OF r(3)] r(4) Suc.prems(2) obtain st' S' where
      "process_loop fuel env chunks (Some c) st2 = Some st'" "clique_inv env chunks st0 (Some c) S' st'"
      "lc_markstack st' = []" "S' c" "\<forall>i. S i \<or> i = t \<and> i = c \<longrightarrow> S' i" by auto
    with pop r(1,2) show ?thesis by auto
  qed
qed simp

section \<open>All cliques\<close>

lemma clique_inv_mono:
  assumes "clique_inv env chunks st0 l S st" "\<And>i. i < length chunks \<Longrightarrow> S' i \<Longrightarrow> S i \<or> st_of st i \<noteq> Unreached"
  shows "clique_inv env chunks st0 l S' st"
  using assms unfolding clique_inv_def by blast

lemma clique_inv_no_leader:
  assumes "clique_inv env chunks st0 (Some c) S st" "lc_markstack st = []"
  shows "clique_inv env chunks st0 None S st"
proof -
  have "\<not> pend st i" if "i < length chunks" for i
    using assms that by (auto simp: clique_inv_def stack_ok_def)
  with assms(1) show ?thesis unfolding clique_inv_def by blast
qed

lemma clique_step_inv:
  assumes "heap_ok chunks" "clique_inv env chunks st0 None (\<lambda>k. k < i) st" "lc_markstack st = []" "i < length chunks"
  shows "\<exists>st'. clique_step env chunks i st = Some st' \<and> clique_inv env chunks st0 None (\<lambda>k. k < Suc i) st' \<and>
    lc_markstack st' = []"
proof (cases "st_of st i = Unreached")
  case False
  with assms show ?thesis by (auto simp: clique_step_def elim!: clique_inv_mono simp: less_Suc_eq)
next
  case True
  let ?n = "length chunks"
  have ok: "stack_ok ?n st" and nopend: "\<And>k. k < ?n \<Longrightarrow> \<not> pend st k"
    using assms(2,3) by (auto simp: clique_inv_def stack_ok_def)
  from lc_push_ok[OF ok assms(4)] obtain st1 where
    1: "lc_push i st = Some st1" "stack_ok ?n st1"
    and same: "\<And>k. k < ?n \<Longrightarrow> pend st1 k = (pend st k \<or> k = i) \<and> st_of st1 k = st_of st k \<and> iorc st1 k = iorc st k" by blast
  have "leak_total chunks st1 = leak_total chunks st" using same by (intro leak_total_cong) auto
  moreover have "st_of st1 j = st_of st j" if "target env chunks v = Some j" for v j
    using same target_bound[OF that] by blast
  ultimately have inv1: "clique_inv env chunks st0 (Some i) (\<lambda>k. k < i) st1"
    using assms(2,4) 1(2) same nopend True unfolding clique_inv_def by (auto split: if_splits)
  have "clique_work chunks i st1 \<le> of_nat (card {..<?n}) * 1"
    unfolding clique_work_def by (rule sum_bounded_above) (use same nopend in auto)
  then have "clique_work chunks i st1 < 2 * ?n + 1" by simp
  from process_clique[OF assms(1) inv1 this] same[OF assms(4)] obtain st2 S' where
    2: "process_loop (2 * ?n + 1) env chunks (Some i) st1 = Some st2" "clique_inv env chunks st0 (Some i) S' st2"
    "lc_markstack st2 = []" "S' i" "\<forall>k. k < i \<longrightarrow> S' k" by auto
  have "clique_inv env chunks st0 None (\<lambda>k. k < Suc i) st2"
    using clique_inv_no_leader[OF 2(2,3)] by (rule clique_inv_mono) (use 2(4,5) in \<open>auto simp: less_Suc_eq\<close>)
  moreover have "st_of st2 i = Unreached" using 2(2) by (simp add: clique_inv_def)
  ultimately show ?thesis
    using 1(1) 2(1,3) True assms(3) by (simp add: clique_step_def lc_process_markstack_def del: process_loop.simps)
qed

lemma clique_phase_inv:
  assumes "heap_ok chunks" "clique_inv env chunks st None (\<lambda>k. False) st" "lc_markstack st = []"
  shows "\<exists>st'. clique_phase env chunks st = Some st' \<and> clique_inv env chunks st None (\<lambda>k. k < length chunks) st' \<and>
    lc_markstack st' = []"
  unfolding clique_phase_def
proof (rule foldO_upt[where P = "\<lambda>i st'. clique_inv env chunks st None (\<lambda>k. k < i) st' \<and> lc_markstack st' = []"])
  fix i t assume "i < length chunks" "clique_inv env chunks st None (\<lambda>k. k < i) t \<and> lc_markstack t = []"
  with clique_step_inv[OF assms(1)] show "\<exists>u. clique_step env chunks i t = Some u \<and>
      clique_inv env chunks st None (\<lambda>k. k < Suc i) u \<and> lc_markstack u = []" by blast
qed (use assms in auto)

text \<open>The clique phase after the marking.\<close>

lemma clique_phase_ok:
  assumes "heap_ok chunks" "segments_ok env seg_starts" "mark_phase env chunks seg_starts registers = Some st"
  shows "\<exists>st'. clique_phase env chunks st = Some st' \<and> clique_inv env chunks st None (\<lambda>k. k < length chunks) st' \<and>
    (\<forall>i < length chunks. iorc st i = 0)"
proof -
  from mark_phase_ok[OF assms(1,2), of registers] assms(3)
  have m: "lc_markstack st = []" "mark_inv env chunks (root_values env seg_starts registers) st" by auto
  then have ok: "stack_ok (length chunks) st" and zero: "\<And>i. i < length chunks \<Longrightarrow> iorc st i = 0"
    and nopend: "\<And>i. i < length chunks \<Longrightarrow> \<not> pend st i"
    by (auto simp: mark_inv_def stack_ok_def)
  have "clique_inv env chunks st None (\<lambda>k. False) st"
    using ok nopend by (auto simp: clique_inv_def)
  from clique_phase_inv[OF assms(1) this m(1)] zero show ?thesis by blast
qed

text \<open>
  C11. After the marking, the clique phase ends without a failed assertion and classifies the lost blocks: reached
  blocks keep their state; a lost block is directly lost or indirectly lost, and an indirectly lost one is pointed
  to by the lost block whose number it records; no directly lost block points to another one; and the own sizes and
  indirect sizes of the directly lost blocks sum up to the sizes of all lost blocks, so that no byte is lost or counted
  twice.
\<close>

theorem clique_phase_accounts:
  assumes "heap_ok chunks" "segments_ok env seg_starts" "mark_phase env chunks seg_starts registers = Some st"
  shows "\<exists>st'. clique_phase env chunks st = Some st' \<and>
    (\<forall>i < length chunks.
       (st_of st i \<noteq> Unreached \<longrightarrow> st_of st' i = st_of st i) \<and>
       (st_of st i = Unreached \<longrightarrow> st_of st' i = Unreached \<or> st_of st' i = IndirectLeak \<and>
          (\<exists>p < length chunks. st_of st p = Unreached \<and> iorc st' i = of_nat p \<and>
             (\<exists>v \<in> set (block_values env chunks p). target env chunks v = Some i))) \<and>
       (st_of st' i = Unreached \<longrightarrow> (\<forall>v \<in> set (block_values env chunks i). \<forall>j.
          target env chunks v = Some j \<longrightarrow> j = i \<or> st_of st' j \<noteq> Unreached))) \<and>
    (\<Sum>i < length chunks. if st_of st' i = Unreached then ch_szB (chunks ! i) + iorc st' i else 0) =
    (\<Sum>i < length chunks. if st_of st i = Unreached then ch_szB (chunks ! i) else 0)"
proof -
  from clique_phase_ok[OF assms] obtain st' where
    st': "clique_phase env chunks st = Some st'" and inv: "clique_inv env chunks st None (\<lambda>k. k < length chunks) st'" and
    zero: "\<And>i. i < length chunks \<Longrightarrow> iorc st i = 0" by blast
  have "leak_total chunks st = (\<Sum>i < length chunks. if st_of st i = Unreached then ch_szB (chunks ! i) else 0)"
    unfolding leak_total_def using zero by (intro sum.cong) auto
  moreover have "leak_total chunks st' = leak_total chunks st" using inv by (simp add: clique_inv_def)
  ultimately have "(\<Sum>i < length chunks. if st_of st' i = Unreached then ch_szB (chunks ! i) + iorc st' i else 0) =
    (\<Sum>i < length chunks. if st_of st i = Unreached then ch_szB (chunks ! i) else 0)"
    by (simp only: leak_total_def)
  moreover have "(st_of st i \<noteq> Unreached \<longrightarrow> st_of st' i = st_of st i) \<and>
       (st_of st i = Unreached \<longrightarrow> st_of st' i = Unreached \<or> st_of st' i = IndirectLeak \<and>
          (\<exists>p < length chunks. st_of st p = Unreached \<and> iorc st' i = of_nat p \<and>
             (\<exists>v \<in> set (block_values env chunks p). target env chunks v = Some i))) \<and>
       (st_of st' i = Unreached \<longrightarrow> (\<forall>v \<in> set (block_values env chunks i). \<forall>j.
          target env chunks v = Some j \<longrightarrow> j = i \<or> st_of st' j \<noteq> Unreached))" if "i < length chunks" for i
    using inv that unfolding clique_inv_def by (auto split: if_splits)
  ultimately show ?thesis using st' by blast
qed


theorem clique_phase_accounts_witness:
  "\<exists>st st'. mark_phase test_env test_heap [0x1000] [] = Some st \<and> clique_phase test_env test_heap st = Some st' \<and>
    (\<Sum>i < length test_heap. if st_of st' i = Unreached then ch_szB (test_heap ! i) + iorc st' i else 0) =
    (\<Sum>i < length test_heap. if st_of st i = Unreached then ch_szB (test_heap ! i) else 0)"
proof -
  obtain st where st: "mark_phase test_env test_heap [0x1000] [] = Some st"
    using mark_phase_ok[OF test_heap_ok test_segments_ok, of "[]"] by blast
  from clique_phase_accounts[OF test_heap_ok test_segments_ok st] st show ?thesis by blast
qed


section \<open>A gap in the overlap check\<close>

definition custom_chunk :: "u64 \<Rightarrow> u64 \<Rightarrow> MC_Chunk" where
  "custom_chunk a n = (test_chunk a n)\<lparr>ch_allockind := MC_AllocCustom\<rparr>"

text \<open>
  When the overlap loop removes a block it goes on with the next index, so the pair that has become neighbouring is not
  compared: two overlapping custom blocks pass the check when they lie in a malloc'd block, although the same two blocks
  alone fail the assertion.
\<close>

theorem overlap_check_skips:
  "overlap_loop [] 0 [test_chunk 0x1000 0x100, custom_chunk 0x1010 0x20, custom_chunk 0x1020 0x10] =
     Some [custom_chunk 0x1010 0x20, custom_chunk 0x1020 0x10] \<and>
   overlap_loop [] 0 [custom_chunk 0x1010 0x20, custom_chunk 0x1020 0x10] = None"
  by code_simp

end
