(* ===== verification/Leak_Report.thy ===== *)
theory Leak_Report
  imports Leak_Props
begin

text \<open>
  The report of the leak checker, \<^verbatim>\<open>print_results\<close> of \<^verbatim>\<open>memcheck/mc_leakcheck.c\<close>: the blocks are merged into loss
  records by state and place of allocation, the records are sorted, and the totals for the summary are collected.

  The execution contexts are read through the argument \<open>ctx\<close>, from the address of a context to its contents; whether the
  error manager suppresses a record is the argument \<open>suppressed\<close>. The ordered set \<^verbatim>\<open>lr_table\<close> is the list of its records,
  and a lookup compares with them one by one. The output itself is not modelled.
\<close>

section \<open>Execution contexts\<close>

record ExeContext =
  ec_epoch :: u32
  ec_ips :: "addr list"

datatype VgRes = Vg_LowRes | Vg_MedRes | Vg_HighRes

text \<open>The loop over the top callers: a value when it returns, \<^term>\<open>None\<close> when it runs to its end.\<close>

fun cmp_callers :: "nat \<Rightarrow> addr list \<Rightarrow> addr list \<Rightarrow> bool option" where
  "cmp_callers 0 ips1 ips2 = None"
| "cmp_callers (Suc m) [] [] = Some True"
| "cmp_callers (Suc m) [] (y # ys) = Some False"
| "cmp_callers (Suc m) (x # xs) [] = Some False"
| "cmp_callers (Suc m) (x # xs) (y # ys) = (if x \<noteq> y then Some False else cmp_callers m xs ys)"

definition eq_ExeContext :: "(addr \<Rightarrow> ExeContext) \<Rightarrow> VgRes \<Rightarrow> addr \<Rightarrow> addr \<Rightarrow> bool option" where
  "eq_ExeContext ctx res e1 e2 =
     (if e1 = 0 \<or> e2 = 0 then Some False
      else if ec_ips (ctx e1) = [] \<or> ec_ips (ctx e2) = [] then None
      else let same_top = (\<lambda>m. case cmp_callers m (ec_ips (ctx e1)) (ec_ips (ctx e2)) of
                 Some r \<Rightarrow> r | None \<Rightarrow> ec_epoch (ctx e1) = ec_epoch (ctx e2))
           in Some (case res of Vg_LowRes \<Rightarrow> same_top 2 | Vg_MedRes \<Rightarrow> same_top 4 | Vg_HighRes \<Rightarrow> e1 = e2))"

text \<open>A context that was recorded: not null, with an address in its trace.\<close>

definition recorded :: "(addr \<Rightarrow> ExeContext) \<Rightarrow> addr \<Rightarrow> bool" where
  "recorded ctx e \<longleftrightarrow> e \<noteq> 0 \<and> ec_ips (ctx e) \<noteq> []"


section \<open>Loss records\<close>

record LossRecord =
  lr_state :: Reachedness
  lr_allocated_at :: u64
  lr_szB :: u64
  lr_indirect_szB :: u64
  lr_num_blocks :: u32
  lr_old_szB :: u64
  lr_old_indirect_szB :: u64
  lr_old_num_blocks :: u32

definition state_no :: "Reachedness \<Rightarrow> nat" where
  "state_no s = (case s of Reachable \<Rightarrow> 0 | Possible \<Rightarrow> 1 | IndirectLeak \<Rightarrow> 2 | Unreached \<Rightarrow> 3)"

text \<open>The order of the record set. \<^term>\<open>None\<close> is the panic for contexts that are neither equal nor ordered.\<close>

definition cmp_LossRecordKey_LossRecord ::
  "(addr \<Rightarrow> ExeContext) \<Rightarrow> VgRes \<Rightarrow> Reachedness \<times> addr \<Rightarrow> LossRecord \<Rightarrow> int option" where
  "cmp_LossRecordKey_LossRecord ctx res = (\<lambda>(state, ec) b.
     if state_no state < state_no (lr_state b) then Some (-1)
     else if state_no state > state_no (lr_state b) then Some 1
     else do {
       same \<leftarrow> eq_ExeContext ctx res ec (lr_allocated_at b);
       if same then Some 0
       else if ec < lr_allocated_at b then Some (-1)
       else if ec > lr_allocated_at b then Some 1
       else None
     })"

definition cmp_LossRecords :: "LossRecord \<Rightarrow> LossRecord \<Rightarrow> int" where
  "cmp_LossRecords a b =
     (let total_a = lr_szB a + lr_indirect_szB a; total_b = lr_szB b + lr_indirect_szB b
      in if total_a < total_b then -1 else if total_a > total_b then 1
         else if state_no (lr_state a) < state_no (lr_state b) then -1
         else if state_no (lr_state a) > state_no (lr_state b) then 1
         else if lr_num_blocks a < lr_num_blocks b then -1
         else if lr_num_blocks a > lr_num_blocks b then 1
         else if lr_allocated_at a < lr_allocated_at b then -1
         else if lr_allocated_at a > lr_allocated_at b then 1
         else 0)"

datatype LeakCheckMode = LC_Off | LC_Summary | LC_Full
datatype LeakCheckDeltaMode = LCD_Any | LCD_Increased | LCD_Changed | LCD_New

record LeakCheckParams =
  lcp_mode :: LeakCheckMode
  lcp_show_leak_kinds :: u32
  lcp_errors_for_leak_kinds :: u32
  lcp_deltamode :: LeakCheckDeltaMode
  lcp_max_loss_records_output :: u32

definition RiS :: "Reachedness \<Rightarrow> u32 \<Rightarrow> bool" where
  "RiS r s \<longleftrightarrow> s AND push_bit (state_no r) 1 \<noteq> 0"

definition delta_considered :: "LeakCheckDeltaMode \<Rightarrow> LossRecord \<Rightarrow> bool" where
  "delta_considered mode lr =
     (case mode of
        LCD_Any \<Rightarrow> lr_num_blocks lr > 0
      | LCD_Increased \<Rightarrow> lr_szB lr > lr_old_szB lr \<or> lr_indirect_szB lr > lr_old_indirect_szB lr \<or>
          lr_num_blocks lr > lr_old_num_blocks lr
      | LCD_Changed \<Rightarrow> lr_szB lr \<noteq> lr_old_szB lr \<or> lr_indirect_szB lr \<noteq> lr_old_indirect_szB lr \<or>
          lr_num_blocks lr \<noteq> lr_old_num_blocks lr
      | LCD_New \<Rightarrow> lr_num_blocks lr > 0 \<and> lr_old_num_blocks lr = 0)"

text \<open>The two flags: count as an error, print the record.\<close>

definition get_printing_rules :: "LeakCheckParams \<Rightarrow> LossRecord \<Rightarrow> bool \<times> bool" where
  "get_printing_rules lcp lr =
     (let d = delta_considered (lcp_deltamode lcp) lr
      in (lcp_mode lcp = LC_Full \<and> d \<and> RiS (lr_state lr) (lcp_errors_for_leak_kinds lcp),
          lcp_mode lcp = LC_Full \<and> d \<and> RiS (lr_state lr) (lcp_show_leak_kinds lcp)))"


section \<open>Merging the blocks\<close>

text \<open>Records of the previous search: empty ones go, the others become the old values.\<close>

definition age_records :: "LossRecord list \<Rightarrow> LossRecord list" where
  "age_records table =
     map (\<lambda>lr. lr\<lparr>lr_old_szB := lr_szB lr, lr_old_indirect_szB := lr_indirect_szB lr, lr_old_num_blocks := lr_num_blocks lr,
                  lr_szB := 0, lr_indirect_szB := 0, lr_num_blocks := 0\<rparr>)
       (filter (\<lambda>lr. lr_num_blocks lr \<noteq> 0) table)"

definition new_record :: "MC_Chunk \<Rightarrow> LC_Extra \<Rightarrow> LossRecord" where
  "new_record ch ex =
     \<lparr>lr_state = ex_state ex, lr_allocated_at = ch_allocated_at ch, lr_szB = ch_szB ch,
      lr_indirect_szB = (if ex_state ex = Unreached then ex_IorC ex else 0), lr_num_blocks = 1,
      lr_old_szB = 0, lr_old_indirect_szB = 0, lr_old_num_blocks = 0\<rparr>"

fun merge_block :: "(addr \<Rightarrow> ExeContext) \<Rightarrow> VgRes \<Rightarrow> MC_Chunk \<times> LC_Extra \<Rightarrow> LossRecord list \<Rightarrow> LossRecord list option" where
  "merge_block ctx res (ch, ex) [] = Some [new_record ch ex]"
| "merge_block ctx res (ch, ex) (lr # table) = do {
     c \<leftarrow> cmp_LossRecordKey_LossRecord ctx res (ex_state ex, ch_allocated_at ch) lr;
     if c = 0
     then Some (lr\<lparr>lr_szB := lr_szB lr + ch_szB ch,
                   lr_indirect_szB := (if ex_state ex = Unreached then lr_indirect_szB lr + ex_IorC ex else lr_indirect_szB lr),
                   lr_num_blocks := lr_num_blocks lr + 1\<rparr> # table)
     else do {
       table \<leftarrow> merge_block ctx res (ch, ex) table;
       Some (lr # table)
     }
   }"

definition merge_blocks ::
  "(addr \<Rightarrow> ExeContext) \<Rightarrow> VgRes \<Rightarrow> (MC_Chunk \<times> LC_Extra) list \<Rightarrow> LossRecord list \<Rightarrow> LossRecord list option" where
  "merge_blocks ctx res blocks table = foldO (merge_block ctx res) blocks table"

text \<open>The bytes and blocks that a heuristic made reachable.\<close>

definition heuristic_bytes :: "LeakCheckHeuristic \<Rightarrow> (MC_Chunk \<times> LC_Extra) list \<Rightarrow> u64 \<times> u64" where
  "heuristic_bytes h blocks =
     fold (\<lambda>(ch, ex) (bytes, n). if ex_heuristic ex \<noteq> LchNone \<and> ex_heuristic ex = h
                                 then (bytes + ch_szB ch, n + 1) else (bytes, n)) blocks (0, 0)"


section \<open>Totals\<close>

record leak_totals =
  blocks_leaked :: u64
  bytes_leaked :: u64
  blocks_indirect :: u64
  bytes_indirect :: u64
  blocks_dubious :: u64
  bytes_dubious :: u64
  blocks_reachable :: u64
  bytes_reachable :: u64
  blocks_suppressed :: u64
  bytes_suppressed :: u64

definition zero_totals :: leak_totals where
  "zero_totals = \<lparr>blocks_leaked = 0, bytes_leaked = 0, blocks_indirect = 0, bytes_indirect = 0, blocks_dubious = 0,
     bytes_dubious = 0, blocks_reachable = 0, bytes_reachable = 0, blocks_suppressed = 0, bytes_suppressed = 0\<rparr>"

text \<open>
  Where the output starts when only the last \<^verbatim>\<open>max_loss_records_output\<close> printable records are wanted:
  \<^verbatim>\<open>for (i = n - 1; i >= 0 && start == 0; i--)\<close>.
\<close>

fun scan_from_end :: "LeakCheckParams \<Rightarrow> (LossRecord \<Rightarrow> bool) \<Rightarrow> LossRecord list \<Rightarrow> nat \<Rightarrow> u32 \<Rightarrow> nat" where
  "scan_from_end lcp suppressed lr_array 0 printable = 0"
| "scan_from_end lcp suppressed lr_array (Suc i) printable =
     (let lr = lr_array ! i
      in if snd (get_printing_rules lcp lr) \<and> \<not> suppressed lr
         then (if printable + 1 = lcp_max_loss_records_output lcp
               then (if i = 0 then scan_from_end lcp suppressed lr_array i (printable + 1) else i)
               else scan_from_end lcp suppressed lr_array i (printable + 1))
         else scan_from_end lcp suppressed lr_array i printable)"

definition start_lr_output_scan :: "LeakCheckParams \<Rightarrow> (LossRecord \<Rightarrow> bool) \<Rightarrow> LossRecord list \<Rightarrow> nat" where
  "start_lr_output_scan lcp suppressed lr_array =
     (if lcp_mode lcp = LC_Full \<and> lcp_max_loss_records_output lcp < of_nat (length lr_array)
      then scan_from_end lcp suppressed lr_array (length lr_array) 0 else 0)"

definition add_totals :: "(LossRecord \<Rightarrow> bool) \<Rightarrow> LossRecord \<Rightarrow> leak_totals \<Rightarrow> leak_totals" where
  "add_totals suppressed lr t =
     (let n = ucast (lr_num_blocks lr)
      in if suppressed lr
         then t\<lparr>blocks_suppressed := blocks_suppressed t + n, bytes_suppressed := bytes_suppressed t + lr_szB lr\<rparr>
         else (case lr_state lr of
             Unreached \<Rightarrow> t\<lparr>blocks_leaked := blocks_leaked t + n, bytes_leaked := bytes_leaked t + lr_szB lr\<rparr>
           | IndirectLeak \<Rightarrow> t\<lparr>blocks_indirect := blocks_indirect t + n, bytes_indirect := bytes_indirect t + lr_szB lr\<rparr>
           | Possible \<Rightarrow> t\<lparr>blocks_dubious := blocks_dubious t + n, bytes_dubious := bytes_dubious t + lr_szB lr\<rparr>
           | Reachable \<Rightarrow> t\<lparr>blocks_reachable := blocks_reachable t + n, bytes_reachable := bytes_reachable t + lr_szB lr\<rparr>))"

text \<open>
  The new record table, the sorted array of records and the totals. \<open>base\<close> is the address of the array, on which the
  sort decides how to swap.
\<close>

definition print_results ::
  "(addr \<Rightarrow> ExeContext) \<Rightarrow> VgRes \<Rightarrow> (LossRecord \<Rightarrow> bool) \<Rightarrow> nat \<Rightarrow> LeakCheckParams \<Rightarrow> LossRecord list \<Rightarrow>
    (MC_Chunk \<times> LC_Extra) list \<Rightarrow> (LossRecord list \<times> LossRecord list \<times> leak_totals) option" where
  "print_results ctx res suppressed base lcp lr_table blocks = do {
     table \<leftarrow> merge_blocks ctx res blocks (age_records lr_table);
     lr_array \<leftarrow> VG_ssort cmp_LossRecords base (length table) 8 table;
     let start = start_lr_output_scan lcp suppressed lr_array;
     Some (table, lr_array, fold (add_totals suppressed) (drop start lr_array) zero_totals)
   }"


section \<open>The sort of the records\<close>

interpretation by_size: comparator cmp_LossRecords
  by unfold_locales (auto simp: cmp_LossRecords_def Let_def split: if_splits)


section \<open>Sums over the records\<close>

definition state_sum :: "('r \<Rightarrow> 'a :: comm_monoid_add) \<Rightarrow> ('r \<Rightarrow> bool) \<Rightarrow> 'r list \<Rightarrow> 'a" where
  "state_sum f P xs = (\<Sum>x \<leftarrow> xs. if P x then f x else 0)"

lemma state_sum_simps [simp]:
  "state_sum f P [] = 0"
  "state_sum f P (x # xs) = (if P x then f x else 0) + state_sum f P xs"
  by (simp_all add: state_sum_def)

lemma state_sum_mset: "mset xs = mset ys \<Longrightarrow> state_sum f P xs = state_sum f P ys"
  by (simp add: state_sum_def flip: sum_mset_sum_list)

lemma state_no_inj [simp]: "state_no a = state_no b \<longleftrightarrow> a = b"
  by (auto simp: state_no_def split: Reachedness.splits)

lemma cmp_callers_same: "cmp_callers m xs xs = (if length xs < m then Some True else None)"
proof (induction m arbitrary: xs)
  case (Suc m)
  then show ?case by (cases xs) auto
qed simp

lemma eq_ExeContext_refl: "recorded ctx e \<Longrightarrow> eq_ExeContext ctx res e e = Some True"
  by (auto simp: eq_ExeContext_def recorded_def Let_def cmp_callers_same split: VgRes.splits)

lemma eq_ExeContext_total:
  "recorded ctx e1 \<Longrightarrow> recorded ctx e2 \<Longrightarrow> \<exists>b. eq_ExeContext ctx res e1 e2 = Some b"
  by (simp add: eq_ExeContext_def recorded_def Let_def)

lemma cmp_key_total:
  assumes "recorded ctx ec" "recorded ctx (lr_allocated_at b)"
  shows "\<exists>c. cmp_LossRecordKey_LossRecord ctx res (st, ec) b = Some c \<and> (c = 0 \<longrightarrow> lr_state b = st)"
proof -
  obtain e where e: "eq_ExeContext ctx res ec (lr_allocated_at b) = Some e"
    using eq_ExeContext_total assms by blast
  with assms eq_ExeContext_refl[of ctx ec res] have "\<not> e \<Longrightarrow> ec \<noteq> lr_allocated_at b" by auto
  with e show ?thesis
    by (cases "state_no st < state_no (lr_state b)"; cases "state_no (lr_state b) < state_no st"; cases e)
      (auto simp: cmp_LossRecordKey_LossRecord_def dest: le_neq_trans)
qed

text \<open>One block adds its size to the records of its state, and one to their number.\<close>

abbreviation in_state :: "Reachedness \<Rightarrow> LossRecord \<Rightarrow> bool" where
  "in_state s lr \<equiv> lr_state lr = s"

abbreviation nblocks :: "LossRecord \<Rightarrow> nat" where
  "nblocks lr \<equiv> unat (lr_num_blocks lr)"

lemma unat_Suc_u32: "unat (n :: u32) < 4294967295 \<Longrightarrow> unat (1 + n) = Suc (unat n)"
  by (simp add: unat_word_ariths)

lemma merge_block_adds:
  assumes "recorded ctx (ch_allocated_at ch)" "\<forall>lr \<in> set table. recorded ctx (lr_allocated_at lr)"
    and "state_sum nblocks (\<lambda>_. True) table + 1 < 2 ^ 32"
  shows "\<exists>table'. merge_block ctx res (ch, ex) table = Some table' \<and>
    (\<forall>lr \<in> set table'. recorded ctx (lr_allocated_at lr)) \<and>
    (\<forall>s. state_sum lr_szB (in_state s) table' = state_sum lr_szB (in_state s) table + (if ex_state ex = s then ch_szB ch else 0)) \<and>
    (\<forall>s. state_sum nblocks (in_state s) table' =
       state_sum nblocks (in_state s) table + (if ex_state ex = s then 1 else 0)) \<and>
    state_sum nblocks (\<lambda>_. True) table' = state_sum nblocks (\<lambda>_. True) table + 1"
  using assms(2,3)
proof (induction table)
  case Nil
  then show ?case using assms(1) by (simp add: new_record_def)
next
  case (Cons lr table)
  obtain c where c: "cmp_LossRecordKey_LossRecord ctx res (ex_state ex, ch_allocated_at ch) lr = Some c"
    "c = 0 \<longrightarrow> lr_state lr = ex_state ex"
    using cmp_key_total[OF assms(1)] Cons.prems by (metis list.set_intros(1))
  show ?case
  proof (cases "c = 0")
    case True
    with c Cons.prems show ?thesis by (simp add: algebra_simps unat_Suc_u32)
  next
    case False
    with c Cons show ?thesis by (auto simp: algebra_simps)
  qed
qed

lemma merge_blocks_adds:
  assumes "\<forall>(ch, ex) \<in> set blocks. recorded ctx (ch_allocated_at ch)" "\<forall>lr \<in> set table. recorded ctx (lr_allocated_at lr)"
    and "state_sum nblocks (\<lambda>_. True) table + length blocks < 2 ^ 32"
  shows "\<exists>table'. merge_blocks ctx res blocks table = Some table' \<and>
    (\<forall>s. state_sum lr_szB (in_state s) table' =
       state_sum lr_szB (in_state s) table + state_sum (ch_szB \<circ> fst) (\<lambda>(ch, ex). ex_state ex = s) blocks) \<and>
    (\<forall>s. state_sum nblocks (in_state s) table' =
       state_sum nblocks (in_state s) table + state_sum (\<lambda>_. 1) (\<lambda>(ch, ex). ex_state ex = s) blocks)"
  using assms
proof (induction blocks arbitrary: table)
  case (Cons b blocks)
  obtain ch ex where b: "b = (ch, ex)" by (cases b)
  obtain table1 where t1: "merge_block ctx res (ch, ex) table = Some table1"
    "\<forall>lr \<in> set table1. recorded ctx (lr_allocated_at lr)"
    "\<forall>s. state_sum lr_szB (in_state s) table1 = state_sum lr_szB (in_state s) table + (if ex_state ex = s then ch_szB ch else 0)"
    "\<forall>s. state_sum nblocks (in_state s) table1 =
       state_sum nblocks (in_state s) table + (if ex_state ex = s then 1 else 0)"
    "state_sum nblocks (\<lambda>_. True) table1 = state_sum nblocks (\<lambda>_. True) table + 1"
    using merge_block_adds[of ctx ch table res ex] Cons.prems b by auto
  from Cons.IH[OF _ t1(2)] Cons.prems b t1 show ?case
    by (auto simp: merge_blocks_def algebra_simps)
qed (simp add: merge_blocks_def)

lemma merge_block_length: "merge_block ctx res b table = Some table' \<Longrightarrow> length table' \<le> Suc (length table)"
  by (induction ctx res b table arbitrary: table' rule: merge_block.induct)
    (fastforce split: bind_splits if_splits)+

lemma merge_blocks_length:
  "merge_blocks ctx res blocks table = Some table' \<Longrightarrow> length table' \<le> length table + length blocks"
  unfolding merge_blocks_def
proof (induction blocks arbitrary: table)
  case (Cons b blocks)
  then obtain table1 where "merge_block ctx res b table = Some table1" "length table' \<le> length table1 + length blocks"
    by (auto split: option.splits)
  with merge_block_length show ?case by fastforce
qed simp

lemma age_records_length: "length (age_records table) \<le> length table"
  by (simp add: age_records_def)

lemma age_records_zero:
  "state_sum lr_szB P (age_records table) = 0" "state_sum nblocks P (age_records table) = 0"
  by (induction table) (auto simp: age_records_def)

lemma age_records_recorded:
  "\<forall>lr \<in> set table. recorded ctx (lr_allocated_at lr) \<Longrightarrow>
   \<forall>lr \<in> set (age_records table). recorded ctx (lr_allocated_at lr)"
  by (auto simp: age_records_def)

lemma unat_of_nat_le: "unat (of_nat n :: 'a::len word) \<le> n"
  by (simp add: unat_of_nat take_bit_nat_less_eq_self)

text \<open>What the totals hold after a list of records.\<close>

definition bytes_of_state :: "Reachedness \<Rightarrow> leak_totals \<Rightarrow> u64" where
  "bytes_of_state s t = (case s of Unreached \<Rightarrow> bytes_leaked t | IndirectLeak \<Rightarrow> bytes_indirect t
     | Possible \<Rightarrow> bytes_dubious t | Reachable \<Rightarrow> bytes_reachable t)"

definition blocks_of_state :: "Reachedness \<Rightarrow> leak_totals \<Rightarrow> u64" where
  "blocks_of_state s t = (case s of Unreached \<Rightarrow> blocks_leaked t | IndirectLeak \<Rightarrow> blocks_indirect t
     | Possible \<Rightarrow> blocks_dubious t | Reachable \<Rightarrow> blocks_reachable t)"

lemmas totals_defs = bytes_of_state_def blocks_of_state_def add_totals_def Let_def

lemma add_totals_sums:
  "bytes_of_state s (fold (add_totals hidden) lrs t) =
     bytes_of_state s t + state_sum lr_szB (\<lambda>lr. in_state s lr \<and> \<not> hidden lr) lrs"
  "blocks_of_state s (fold (add_totals hidden) lrs t) =
     blocks_of_state s t + of_nat (state_sum nblocks (\<lambda>lr. in_state s lr \<and> \<not> hidden lr) lrs)"
  "bytes_suppressed (fold (add_totals hidden) lrs t) = bytes_suppressed t + state_sum lr_szB hidden lrs"
  by (induction lrs arbitrary: t) (auto simp: totals_defs algebra_simps split: Reachedness.splits)

lemma zero_totals_zero: "bytes_of_state s zero_totals = 0" "blocks_of_state s zero_totals = 0"
  by (simp_all add: zero_totals_def totals_defs split: Reachedness.splits)

lemma state_sum_count: "state_sum (\<lambda>_. 1) P xs = length (filter P xs)"
  by (induction xs) auto

lemma merge_blocks_aged:
  assumes "\<forall>(ch, ex) \<in> set blocks. recorded ctx (ch_allocated_at ch)" "\<forall>lr \<in> set table. recorded ctx (lr_allocated_at lr)"
    and "length blocks < 2 ^ 32"
  obtains table' where "merge_blocks ctx res blocks (age_records table) = Some table'"
    "\<And>s. state_sum lr_szB (in_state s) table' = state_sum (ch_szB \<circ> fst) (\<lambda>(ch, ex). ex_state ex = s) blocks"
    "\<And>s. state_sum nblocks (in_state s) table' = length (filter (\<lambda>(ch, ex). ex_state ex = s) blocks)"
  using merge_blocks_adds[OF assms(1) age_records_recorded[OF assms(2)], of res] assms(3)
  by (auto simp: age_records_zero state_sum_count[unfolded One_nat_def])


definition test_ctx :: "addr \<Rightarrow> ExeContext" where
  "test_ctx e = \<lparr>ec_epoch = 0, ec_ips = [e + 0x100]\<rparr>"

definition test_block :: "u64 \<Rightarrow> Reachedness \<Rightarrow> MC_Chunk \<times> LC_Extra" where
  "test_block n s = (test_chunk (0x1000 * n) n \<lparr>ch_allocated_at := n\<rparr>,
     \<lparr>ex_state = s, ex_pending = False, ex_heuristic = LchNone, ex_IorC = 0\<rparr>)"

definition test_lcp :: "u32 \<Rightarrow> LeakCheckParams" where
  "test_lcp limit = \<lparr>lcp_mode = LC_Full, lcp_show_leak_kinds = 0xf, lcp_errors_for_leak_kinds = 0xf,
     lcp_deltamode = LCD_Any, lcp_max_loss_records_output = limit\<rparr>"

lemmas test_report = test_ctx_def test_block_def test_lcp_def test_chunk_def


text \<open>
  With a limit on the records to output the summary is not the sum over the blocks: the records before the first one that is
  output are left out of the totals too. Here two blocks of 5 and 6 bytes are lost and the summary says 6 bytes in one block.
\<close>

theorem limited_summary_omits:
  "map_option (\<lambda>(table, lrs, t). (length lrs, bytes_leaked t, blocks_leaked t))
     (print_results test_ctx Vg_LowRes (\<lambda>_. False) 0 (test_lcp 1) [] [test_block 5 Unreached, test_block 6 Unreached]) =
   Some (2, 6, 1)"
  by code_simp

text \<open>
  Two contexts with one and the same address in their traces are equal at low and medium resolution whatever their epochs,
  because the loop over the callers returns before the epochs are compared; with the full number of callers the epochs decide.
\<close>

theorem eq_ExeContext_epochs:
  assumes "e1 \<noteq> 0" "e2 \<noteq> 0" "ec_ips (ctx e1) = ips" "ec_ips (ctx e2) = ips" "ips \<noteq> []"
  shows "eq_ExeContext ctx Vg_LowRes e1 e2 = Some (length ips < 2 \<or> ec_epoch (ctx e1) = ec_epoch (ctx e2)) \<and>
    eq_ExeContext ctx Vg_MedRes e1 e2 = Some (length ips < 4 \<or> ec_epoch (ctx e1) = ec_epoch (ctx e2))"
  using assms by (simp add: eq_ExeContext_def cmp_callers_same)

theorem eq_ExeContext_epochs_witness:
  "let ctx = (\<lambda>e. \<lparr>ec_epoch = ucast e, ec_ips = [0x400]\<rparr>) in eq_ExeContext ctx Vg_LowRes 1 2 = Some True"
  using eq_ExeContext_epochs[of 1 2 "\<lambda>e. \<lparr>ec_epoch = ucast e, ec_ips = [0x400]\<rparr>" "[0x400]"] by simp

end
