(* ===== verification/Shadow.thy ===== *)
theory Shadow
  imports Prelude "HOL-Library.AList"
begin

text \<open>
  The shadow memory of Memcheck, \<^verbatim>\<open>memcheck/mc_main.c\<close>: two bits of state for every byte of the client's address space, the
  primary and the auxiliary map that find them, and the table of the V bits of partially defined bytes.

  A secondary map that is not distinguished is referred to by one entry of the primary map or of the auxiliary table
  only, so the entry holds the map itself; the three distinguished maps are values of their own and never written.
  The entries of the front cache \<^verbatim>\<open>auxmap_L1\<close> point to nodes of \<^verbatim>\<open>auxmap_L2\<close>, which are never removed: such a pointer is the base
  address of the node. The ordered sets are association lists. A failed assertion is \<^term>\<open>None\<close>. Memory for a new map is
  always there (the program ends otherwise), counters of searches are left out, and origin tracking is off.
\<close>

abbreviation VG_IS_2_ALIGNED :: "addr \<Rightarrow> bool" where "VG_IS_2_ALIGNED a \<equiv> a AND 1 = 0"
abbreviation VG_IS_4_ALIGNED :: "addr \<Rightarrow> bool" where "VG_IS_4_ALIGNED a \<equiv> a AND 3 = 0"
abbreviation VG_IS_8_ALIGNED :: "addr \<Rightarrow> bool" where "VG_IS_8_ALIGNED a \<equiv> a AND 7 = 0"
abbreviation VG_IS_16_ALIGNED :: "addr \<Rightarrow> bool" where "VG_IS_16_ALIGNED a \<equiv> a AND 15 = 0"


section \<open>Constants\<close>

definition N_PRIMARY_MAP :: u64 where "N_PRIMARY_MAP = push_bit 21 1"
definition MAX_PRIMARY_ADDRESS :: addr where "MAX_PRIMARY_ADDRESS = 0x10000 * N_PRIMARY_MAP - 1"

definition V_BITS8_DEFINED :: u8 where "V_BITS8_DEFINED = 0"
definition V_BITS8_UNDEFINED :: u8 where "V_BITS8_UNDEFINED = 0xff"

definition VA_BITS2_NOACCESS :: u8 where "VA_BITS2_NOACCESS = 0"
definition VA_BITS2_UNDEFINED :: u8 where "VA_BITS2_UNDEFINED = 1"
definition VA_BITS2_DEFINED :: u8 where "VA_BITS2_DEFINED = 2"
definition VA_BITS2_PARTDEFINED :: u8 where "VA_BITS2_PARTDEFINED = 3"
definition VA_BITS4_UNDEFINED :: u8 where "VA_BITS4_UNDEFINED = 5"
definition VA_BITS4_DEFINED :: u8 where "VA_BITS4_DEFINED = 0xa"
definition VA_BITS8_NOACCESS :: u8 where "VA_BITS8_NOACCESS = 0"
definition VA_BITS8_UNDEFINED :: u8 where "VA_BITS8_UNDEFINED = 0x55"
definition VA_BITS8_DEFINED :: u8 where "VA_BITS8_DEFINED = 0xaa"
definition VA_BITS16_NOACCESS :: u16 where "VA_BITS16_NOACCESS = 0"
definition VA_BITS16_UNDEFINED :: u16 where "VA_BITS16_UNDEFINED = 0x5555"
definition VA_BITS16_DEFINED :: u16 where "VA_BITS16_DEFINED = 0xaaaa"

lemmas va_consts = V_BITS8_DEFINED_def V_BITS8_UNDEFINED_def VA_BITS2_NOACCESS_def VA_BITS2_UNDEFINED_def
  VA_BITS2_DEFINED_def VA_BITS2_PARTDEFINED_def VA_BITS4_UNDEFINED_def VA_BITS4_DEFINED_def VA_BITS8_NOACCESS_def
  VA_BITS8_UNDEFINED_def VA_BITS8_DEFINED_def VA_BITS16_NOACCESS_def VA_BITS16_UNDEFINED_def VA_BITS16_DEFINED_def

definition SM_OFF :: "addr \<Rightarrow> u64" where "SM_OFF a = drop_bit 2 (a AND 0xffff)"
definition SM_OFF_16 :: "addr \<Rightarrow> u64" where "SM_OFF_16 a = drop_bit 3 (a AND 0xffff)"

definition base_64k :: "addr \<Rightarrow> addr" where "base_64k a = a AND NOT 0xffff"
definition start_of_this_sm :: "addr \<Rightarrow> addr" where "start_of_this_sm a = a AND NOT 0xffff"
definition is_start_of_sm :: "addr \<Rightarrow> bool" where "is_start_of_sm a \<longleftrightarrow> start_of_this_sm a = a"


section \<open>Secondary maps\<close>

datatype sm_dist = SM_DIST_NOACCESS | SM_DIST_UNDEFINED | SM_DIST_DEFINED

text \<open>The contents of a map: the array \<^verbatim>\<open>vabits8\<close>, indexed by \<^term>\<open>SM_OFF a\<close>.\<close>

type_synonym vabits = "u64 \<Rightarrow> u8"

datatype SecMap = Distinguished sm_dist | Issued vabits

fun is_distinguished_sm :: "SecMap \<Rightarrow> bool" where
  "is_distinguished_sm (Distinguished d) = True"
| "is_distinguished_sm (Issued f) = False"

definition dist_vabits8 :: "sm_dist \<Rightarrow> u8" where
  "dist_vabits8 d = (case d of SM_DIST_NOACCESS \<Rightarrow> VA_BITS8_NOACCESS | SM_DIST_UNDEFINED \<Rightarrow> VA_BITS8_UNDEFINED
     | SM_DIST_DEFINED \<Rightarrow> VA_BITS8_DEFINED)"

fun contents :: "SecMap \<Rightarrow> vabits" where
  "contents (Distinguished d) = (\<lambda>_. dist_vabits8 d)"
| "contents (Issued f) = f"

text \<open>The second member of the union, \<^verbatim>\<open>vabits16\<close>, on a little-endian machine.\<close>

definition get16 :: "vabits \<Rightarrow> u64 \<Rightarrow> u16" where
  "get16 f i = ucast (f (2 * i)) OR push_bit 8 (ucast (f (2 * i + 1)))"

definition set16 :: "u64 \<Rightarrow> u16 \<Rightarrow> vabits \<Rightarrow> vabits" where
  "set16 i v f = f(2 * i := ucast v, 2 * i + 1 := ucast (drop_bit 8 v))"


section \<open>The state\<close>

record SM_counts =
  n_issued_SMs :: int
  n_deissued_SMs :: int
  n_noaccess_SMs :: int
  n_undefined_SMs :: int
  n_defined_SMs :: int
  n_non_DSM_SMs :: int
  max_noaccess_SMs :: int
  max_undefined_SMs :: int
  max_defined_SMs :: int
  max_non_DSM_SMs :: int

record address_error =
  err_addr :: addr
  err_szB :: u64
  err_isWrite :: bool

text \<open>
  \<open>sec_limit\<close> gives the new limit of the V bits table after a collection, from the number of surviving nodes and the old
  limit: it is computed in floating point. \<open>errors\<close> is what was handed to \<^verbatim>\<open>MC_(record_address_error)\<close>, latest last.
\<close>

record shadow =
  primary_map :: "u64 \<Rightarrow> SecMap"
  auxmap_L1 :: "(addr \<times> addr option) list"
  auxmap_L2 :: "(addr \<times> SecMap) list"
  n_auxmap_L2_nodes :: nat
  sm_counts :: SM_counts
  secVBitTable :: "(addr \<times> u8 list) list"
  secVBitLimit :: nat
  sec_limit :: "nat \<Rightarrow> nat \<Rightarrow> nat"
  GCs_done :: u32
  clo_partial_loads_ok :: bool
  errors :: "address_error list"

definition N_AUXMAP_L1 :: nat where "N_AUXMAP_L1 = 24"
definition AUXMAP_L1_INSERT_IX :: nat where "AUXMAP_L1_INSERT_IX = 12"

definition update_SM_counts :: "SecMap \<Rightarrow> SecMap \<Rightarrow> shadow \<Rightarrow> shadow" where
  "update_SM_counts oldSM newSM sh = sh\<lparr>sm_counts :=
     (let c = sm_counts sh;
          c = (case oldSM of
                 Distinguished SM_DIST_NOACCESS \<Rightarrow> c\<lparr>n_noaccess_SMs := n_noaccess_SMs c - 1\<rparr>
               | Distinguished SM_DIST_UNDEFINED \<Rightarrow> c\<lparr>n_undefined_SMs := n_undefined_SMs c - 1\<rparr>
               | Distinguished SM_DIST_DEFINED \<Rightarrow> c\<lparr>n_defined_SMs := n_defined_SMs c - 1\<rparr>
               | Issued f \<Rightarrow> c\<lparr>n_non_DSM_SMs := n_non_DSM_SMs c - 1, n_deissued_SMs := n_deissued_SMs c + 1\<rparr>);
          c = (case newSM of
                 Distinguished SM_DIST_NOACCESS \<Rightarrow> c\<lparr>n_noaccess_SMs := n_noaccess_SMs c + 1\<rparr>
               | Distinguished SM_DIST_UNDEFINED \<Rightarrow> c\<lparr>n_undefined_SMs := n_undefined_SMs c + 1\<rparr>
               | Distinguished SM_DIST_DEFINED \<Rightarrow> c\<lparr>n_defined_SMs := n_defined_SMs c + 1\<rparr>
               | Issued f \<Rightarrow> c\<lparr>n_non_DSM_SMs := n_non_DSM_SMs c + 1, n_issued_SMs := n_issued_SMs c + 1\<rparr>)
      in c\<lparr>max_noaccess_SMs := max (max_noaccess_SMs c) (n_noaccess_SMs c),
           max_undefined_SMs := max (max_undefined_SMs c) (n_undefined_SMs c),
           max_defined_SMs := max (max_defined_SMs c) (n_defined_SMs c),
           max_non_DSM_SMs := max (max_non_DSM_SMs c) (n_non_DSM_SMs c)\<rparr>)\<rparr>"

text \<open>A writable copy of a distinguished map.\<close>

definition copy_for_writing :: "sm_dist \<Rightarrow> shadow \<Rightarrow> vabits \<times> shadow" where
  "copy_for_writing d sh =
     (let f = contents (Distinguished d) in (f, update_SM_counts (Distinguished d) (Issued f) sh))"

definition init_shadow_memory :: "(nat \<Rightarrow> nat \<Rightarrow> nat) \<Rightarrow> bool \<Rightarrow> shadow" where
  "init_shadow_memory policy plok =
     \<lparr>primary_map = (\<lambda>_. Distinguished SM_DIST_NOACCESS),
      auxmap_L1 = replicate N_AUXMAP_L1 (0, None), auxmap_L2 = [], n_auxmap_L2_nodes = 0,
      sm_counts = \<lparr>n_issued_SMs = 0, n_deissued_SMs = 0, n_noaccess_SMs = uint N_PRIMARY_MAP, n_undefined_SMs = 0,
        n_defined_SMs = 0, n_non_DSM_SMs = 0, max_noaccess_SMs = 0, max_undefined_SMs = 0, max_defined_SMs = 0,
        max_non_DSM_SMs = 0\<rparr>,
      secVBitTable = [], secVBitLimit = 1000, sec_limit = policy, GCs_done = 0,
      clo_partial_loads_ok = plok, errors = []\<rparr>"


section \<open>The auxiliary map\<close>

definition insert_into_auxmap_L1_at :: "nat \<Rightarrow> addr \<Rightarrow> shadow \<Rightarrow> shadow option" where
  "insert_into_auxmap_L1_at rank ent sh =
     (let l1 = auxmap_L1 sh
      in if rank < N_AUXMAP_L1
         then Some (sh\<lparr>auxmap_L1 := take rank l1 @ [(ent, Some ent)] @ drop rank (butlast l1)\<rparr>) else None)"

definition swap_L1 :: "nat \<Rightarrow> nat \<Rightarrow> shadow \<Rightarrow> shadow" where
  "swap_L1 i j sh = (let l1 = auxmap_L1 sh in sh\<lparr>auxmap_L1 := l1[i := l1 ! j, j := l1 ! i]\<rparr>)"

text \<open>The index at which the search loop of the front cache stops.\<close>

definition search_L1 :: "addr \<Rightarrow> shadow \<Rightarrow> nat" where
  "search_L1 a sh = length (takeWhile (\<lambda>(base, ent). base \<noteq> a) (auxmap_L1 sh))"

text \<open>The result is the pointer to the node, with \<^term>\<open>None\<close> for the null pointer.\<close>

definition maybe_find_in_auxmap :: "addr \<Rightarrow> shadow \<Rightarrow> (addr option \<times> shadow) option" where
  "maybe_find_in_auxmap a0 sh =
     (if \<not> a0 > MAX_PRIMARY_ADDRESS then None
      else let a = base_64k a0
           in if fst (auxmap_L1 sh ! 0) = a then Some (snd (auxmap_L1 sh ! 0), sh)
              else if fst (auxmap_L1 sh ! 1) = a
              then let sh = swap_L1 0 1 sh in Some (snd (auxmap_L1 sh ! 0), sh)
              else let i = search_L1 a sh
                   in if i < N_AUXMAP_L1
                      then (if i > 0
                            then let sh = swap_L1 (i - 1) i sh in Some (snd (auxmap_L1 sh ! (i - 1)), sh)
                            else Some (snd (auxmap_L1 sh ! i), sh))
                      else if map_of (auxmap_L2 sh) a \<noteq> None
                      then do { sh \<leftarrow> insert_into_auxmap_L1_at AUXMAP_L1_INSERT_IX a sh; Some (Some a, sh) }
                      else Some (None, sh))"

definition find_or_alloc_in_auxmap :: "addr \<Rightarrow> shadow \<Rightarrow> (addr \<times> shadow) option" where
  "find_or_alloc_in_auxmap a0 sh = do {
     (res, sh) \<leftarrow> maybe_find_in_auxmap a0 sh;
     case res of
       Some ent \<Rightarrow> Some (ent, sh)
     | None \<Rightarrow> do {
         let a = base_64k a0;
         let sh = sh\<lparr>auxmap_L2 := (a, Distinguished SM_DIST_NOACCESS) # auxmap_L2 sh\<rparr>;
         sh \<leftarrow> insert_into_auxmap_L1_at AUXMAP_L1_INSERT_IX a sh;
         Some (a, sh\<lparr>n_auxmap_L2_nodes := n_auxmap_L2_nodes sh + 1\<rparr>)
       }
   }"


section \<open>Finding the secondary map of an address\<close>

text \<open>A pointer to an entry that holds a map: an index of the primary map, or a node of the auxiliary one.\<close>

datatype sm_ptr = Low u64 | High addr

fun deref :: "sm_ptr \<Rightarrow> shadow \<Rightarrow> SecMap option" where
  "deref (Low i) sh = Some (primary_map sh i)"
| "deref (High ent) sh = map_of (auxmap_L2 sh) ent"

fun assign :: "sm_ptr \<Rightarrow> SecMap \<Rightarrow> shadow \<Rightarrow> shadow" where
  "assign (Low i) sm sh = sh\<lparr>primary_map := (primary_map sh)(i := sm)\<rparr>"
| "assign (High ent) sm sh = sh\<lparr>auxmap_L2 := AList.update ent sm (auxmap_L2 sh)\<rparr>"

definition get_primary_map_low_offset :: "addr \<Rightarrow> u64" where
  "get_primary_map_low_offset a = drop_bit 16 a"

definition get_secmap_low_ptr :: "addr \<Rightarrow> sm_ptr" where
  "get_secmap_low_ptr a = Low (drop_bit 16 a)"

definition get_secmap_high_ptr :: "addr \<Rightarrow> shadow \<Rightarrow> (sm_ptr \<times> shadow) option" where
  "get_secmap_high_ptr a sh = do { (ent, sh) \<leftarrow> find_or_alloc_in_auxmap a sh; Some (High ent, sh) }"

definition get_secmap_ptr :: "addr \<Rightarrow> shadow \<Rightarrow> (sm_ptr \<times> shadow) option" where
  "get_secmap_ptr a sh = (if a \<le> MAX_PRIMARY_ADDRESS then Some (get_secmap_low_ptr a, sh) else get_secmap_high_ptr a sh)"

definition get_secmap_for_reading_low :: "addr \<Rightarrow> shadow \<Rightarrow> SecMap option" where
  "get_secmap_for_reading_low a sh = deref (get_secmap_low_ptr a) sh"

definition get_secmap_for_reading_high :: "addr \<Rightarrow> shadow \<Rightarrow> (SecMap \<times> shadow) option" where
  "get_secmap_for_reading_high a sh = do {
     (p, sh) \<leftarrow> get_secmap_high_ptr a sh;
     sm \<leftarrow> deref p sh;
     Some (sm, sh)
   }"

text \<open>A map for writing comes as its entry and its contents.\<close>

definition make_writable :: "sm_ptr \<Rightarrow> shadow \<Rightarrow> (vabits \<times> shadow) option" where
  "make_writable p sh = do {
     sm \<leftarrow> deref p sh;
     case sm of
       Issued f \<Rightarrow> Some (f, sh)
     | Distinguished d \<Rightarrow> let (f, sh) = copy_for_writing d sh in Some (f, assign p (Issued f) sh)
   }"

definition get_secmap_for_writing_low :: "addr \<Rightarrow> shadow \<Rightarrow> (sm_ptr \<times> vabits \<times> shadow) option" where
  "get_secmap_for_writing_low a sh = do {
     let p = get_secmap_low_ptr a;
     (f, sh) \<leftarrow> make_writable p sh;
     Some (p, f, sh)
   }"

definition get_secmap_for_writing_high :: "addr \<Rightarrow> shadow \<Rightarrow> (sm_ptr \<times> vabits \<times> shadow) option" where
  "get_secmap_for_writing_high a sh = do {
     (p, sh) \<leftarrow> get_secmap_high_ptr a sh;
     (f, sh) \<leftarrow> make_writable p sh;
     Some (p, f, sh)
   }"

definition get_secmap_for_reading :: "addr \<Rightarrow> shadow \<Rightarrow> (SecMap \<times> shadow) option" where
  "get_secmap_for_reading a sh =
     (if a \<le> MAX_PRIMARY_ADDRESS then do { sm \<leftarrow> get_secmap_for_reading_low a sh; Some (sm, sh) }
      else get_secmap_for_reading_high a sh)"

definition get_secmap_for_writing :: "addr \<Rightarrow> shadow \<Rightarrow> (sm_ptr \<times> vabits \<times> shadow) option" where
  "get_secmap_for_writing a sh =
     (if a \<le> MAX_PRIMARY_ADDRESS then get_secmap_for_writing_low a sh else get_secmap_for_writing_high a sh)"

definition maybe_get_secmap_for :: "addr \<Rightarrow> shadow \<Rightarrow> (SecMap option \<times> shadow) option" where
  "maybe_get_secmap_for a sh =
     (if a \<le> MAX_PRIMARY_ADDRESS then do { sm \<leftarrow> get_secmap_for_reading_low a sh; Some (Some sm, sh) }
      else do {
        (am, sh) \<leftarrow> maybe_find_in_auxmap a sh;
        case am of None \<Rightarrow> Some (None, sh) | Some ent \<Rightarrow> do { sm \<leftarrow> deref (High ent) sh; Some (Some sm, sh) }
      })"


section \<open>The two bits of a byte\<close>

definition shift2 :: "addr \<Rightarrow> nat" where "shift2 a = unat (push_bit 1 (a AND 3))"
definition shift4 :: "addr \<Rightarrow> nat" where "shift4 a = unat (push_bit 1 (a AND 2))"

definition insert_vabits2_into_vabits8 :: "addr \<Rightarrow> u8 \<Rightarrow> u8 \<Rightarrow> u8" where
  "insert_vabits2_into_vabits8 a vabits2 vabits8 =
     (vabits8 AND NOT (push_bit (shift2 a) 0x3)) OR push_bit (shift2 a) vabits2"

definition insert_vabits4_into_vabits8 :: "addr \<Rightarrow> u8 \<Rightarrow> u8 \<Rightarrow> u8 option" where
  "insert_vabits4_into_vabits8 a vabits4 vabits8 =
     (if VG_IS_2_ALIGNED a
      then Some ((vabits8 AND NOT (push_bit (shift4 a) 0xf)) OR push_bit (shift4 a) vabits4) else None)"

definition extract_vabits2_from_vabits8 :: "addr \<Rightarrow> u8 \<Rightarrow> u8" where
  "extract_vabits2_from_vabits8 a vabits8 = 0x3 AND drop_bit (shift2 a) vabits8"

definition extract_vabits4_from_vabits8 :: "addr \<Rightarrow> u8 \<Rightarrow> u8 option" where
  "extract_vabits4_from_vabits8 a vabits8 =
     (if VG_IS_2_ALIGNED a then Some (0xf AND drop_bit (shift4 a) vabits8) else None)"

definition set_vabits2 :: "addr \<Rightarrow> u8 \<Rightarrow> shadow \<Rightarrow> shadow option" where
  "set_vabits2 a vabits2 sh = do {
     (p, f, sh) \<leftarrow> get_secmap_for_writing a sh;
     let sm_off = SM_OFF a;
     Some (assign p (Issued (f(sm_off := insert_vabits2_into_vabits8 a vabits2 (f sm_off)))) sh)
   }"

definition get_vabits2 :: "addr \<Rightarrow> shadow \<Rightarrow> (u8 \<times> shadow) option" where
  "get_vabits2 a sh = do {
     (sm, sh) \<leftarrow> get_secmap_for_reading a sh;
     Some (extract_vabits2_from_vabits8 a (contents sm (SM_OFF a)), sh)
   }"

definition get_vabits8_for_aligned_word32 :: "addr \<Rightarrow> shadow \<Rightarrow> (u8 \<times> shadow) option" where
  "get_vabits8_for_aligned_word32 a sh = do {
     (sm, sh) \<leftarrow> get_secmap_for_reading a sh;
     Some (contents sm (SM_OFF a), sh)
   }"

definition set_vabits8_for_aligned_word32 :: "addr \<Rightarrow> u8 \<Rightarrow> shadow \<Rightarrow> shadow option" where
  "set_vabits8_for_aligned_word32 a vabits8 sh = do {
     (p, f, sh) \<leftarrow> get_secmap_for_writing a sh;
     Some (assign p (Issued (f(SM_OFF a := vabits8))) sh)
   }"


section \<open>The table of V bits\<close>

definition BYTES_PER_SEC_VBIT_NODE :: u64 where "BYTES_PER_SEC_VBIT_NODE = 16"

definition sec_aligned :: "addr \<Rightarrow> addr" where "sec_aligned a = a AND NOT (BYTES_PER_SEC_VBIT_NODE - 1)"
definition sec_amod :: "addr \<Rightarrow> nat" where "sec_amod a = unat (a mod BYTES_PER_SEC_VBIT_NODE)"

text \<open>Is one of the bytes of a node partially defined? The loop stops at the first one.\<close>

fun node_in_use :: "addr \<Rightarrow> nat \<Rightarrow> nat \<Rightarrow> shadow \<Rightarrow> (bool \<times> shadow) option" where
  "node_in_use a i 0 sh = Some (False, sh)"
| "node_in_use a i (Suc n) sh = do {
     (vabits2, sh) \<leftarrow> get_vabits2 (a + of_nat i) sh;
     if VA_BITS2_PARTDEFINED = vabits2 then Some (True, sh) else node_in_use a (Suc i) n sh
   }"

fun gc_nodes :: "(addr \<times> u8 list) list \<Rightarrow> (addr \<times> u8 list) list \<Rightarrow> shadow \<Rightarrow> ((addr \<times> u8 list) list \<times> shadow) option" where
  "gc_nodes [] kept sh = Some (kept, sh)"
| "gc_nodes (n # nodes) kept sh = do {
     (used, sh) \<leftarrow> node_in_use (fst n) 0 (unat BYTES_PER_SEC_VBIT_NODE) sh;
     gc_nodes nodes (if used then n # kept else kept) sh
   }"

definition gcSecVBitTable :: "shadow \<Rightarrow> shadow option" where
  "gcSecVBitTable sh = do {
     (kept, sh) \<leftarrow> gc_nodes (secVBitTable sh) [] (sh\<lparr>GCs_done := GCs_done sh + 1\<rparr>);
     Some (sh\<lparr>secVBitTable := kept, secVBitLimit := sec_limit sh (length kept) (secVBitLimit sh)\<rparr>)
   }"

definition get_sec_vbits8 :: "addr \<Rightarrow> shadow \<Rightarrow> u8 option" where
  "get_sec_vbits8 a sh = do {
     n \<leftarrow> map_of (secVBitTable sh) (sec_aligned a);
     let vbits8 = n ! sec_amod a;
     if vbits8 \<noteq> V_BITS8_DEFINED \<and> vbits8 \<noteq> V_BITS8_UNDEFINED then Some vbits8 else None
   }"

definition set_sec_vbits8 :: "addr \<Rightarrow> u8 \<Rightarrow> shadow \<Rightarrow> shadow option" where
  "set_sec_vbits8 a vbits8 sh =
     (if vbits8 \<noteq> V_BITS8_DEFINED \<and> vbits8 \<noteq> V_BITS8_UNDEFINED
      then (case map_of (secVBitTable sh) (sec_aligned a) of
          Some n \<Rightarrow> Some (sh\<lparr>secVBitTable := AList.update (sec_aligned a) (n[sec_amod a := vbits8]) (secVBitTable sh)\<rparr>)
        | None \<Rightarrow> do {
            sh \<leftarrow> (if secVBitLimit sh = length (secVBitTable sh) then gcSecVBitTable sh else Some sh);
            let n = (replicate (unat BYTES_PER_SEC_VBIT_NODE) V_BITS8_UNDEFINED)[sec_amod a := vbits8];
            Some (sh\<lparr>secVBitTable := (sec_aligned a, n) # secVBitTable sh\<rparr>)
          })
      else None)"


section \<open>The V bits of a byte\<close>

text \<open>The first component is false for an address that is not accessible.\<close>

definition set_vbits8 :: "addr \<Rightarrow> u8 \<Rightarrow> shadow \<Rightarrow> (bool \<times> shadow) option" where
  "set_vbits8 a vbits8 sh = do {
     (vabits2, sh) \<leftarrow> get_vabits2 a sh;
     if VA_BITS2_NOACCESS \<noteq> vabits2
     then do {
       (vabits2, sh) \<leftarrow>
         (if V_BITS8_DEFINED = vbits8 then Some (VA_BITS2_DEFINED, sh)
          else if V_BITS8_UNDEFINED = vbits8 then Some (VA_BITS2_UNDEFINED, sh)
          else do { sh \<leftarrow> set_sec_vbits8 a vbits8 sh; Some (VA_BITS2_PARTDEFINED, sh) });
       sh \<leftarrow> set_vabits2 a vabits2 sh;
       Some (True, sh)
     }
     else Some (False, sh)
   }"

definition get_vbits8 :: "addr \<Rightarrow> shadow \<Rightarrow> (bool \<times> u8 \<times> shadow) option" where
  "get_vbits8 a sh = do {
     (vabits2, sh) \<leftarrow> get_vabits2 a sh;
     if VA_BITS2_DEFINED = vabits2 then Some (True, V_BITS8_DEFINED, sh)
     else if VA_BITS2_UNDEFINED = vabits2 then Some (True, V_BITS8_UNDEFINED, sh)
     else if VA_BITS2_NOACCESS = vabits2 then Some (False, V_BITS8_DEFINED, sh)
     else if VA_BITS2_PARTDEFINED = vabits2
     then do { vbits8 \<leftarrow> get_sec_vbits8 a sh; Some (True, vbits8, sh) }
     else None
   }"

end
