(* ===== verification/Shadow_Range.thy ===== *)
theory Shadow_Range
  imports Shadow
begin

text \<open>
  Operations of the shadow memory on ranges of addresses: setting the state of a range, copying the state of a range, and the
  checks of a range before it is used.
\<close>

section \<open>Setting the state of a range\<close>

definition put_vabits2 :: "addr \<Rightarrow> u8 \<Rightarrow> vabits \<Rightarrow> vabits" where
  "put_vabits2 a vabits2 f = f(SM_OFF a := insert_vabits2_into_vabits8 a vabits2 (f (SM_OFF a)))"

text \<open>The loops inside one secondary map: single bytes up to an aligned address, eight bytes at a time, single bytes.\<close>

function loop1_aligned :: "u8 \<Rightarrow> vabits \<Rightarrow> addr \<Rightarrow> u64 \<Rightarrow> vabits \<times> addr \<times> u64" where
  "loop1_aligned vabits2 f a len =
     (if VG_IS_8_ALIGNED a then (f, a, len)
      else if len < 1 then (f, a, len)
      else loop1_aligned vabits2 (put_vabits2 a vabits2 f) (a + 1) (len - 1))"
  by pat_completeness auto
termination
  by (relation "measure (\<lambda>(v, f, a, len). unat len)") (auto simp: unat_sub word_le_nat_alt word_less_nat_alt)

function loop8 :: "u16 \<Rightarrow> vabits \<Rightarrow> addr \<Rightarrow> u64 \<Rightarrow> vabits \<times> addr \<times> u64" where
  "loop8 vabits16 f a len =
     (if len < 8 then (f, a, len) else loop8 vabits16 (set16 (SM_OFF_16 a) vabits16 f) (a + 8) (len - 8))"
  by pat_completeness auto
termination
  by (relation "measure (\<lambda>(v, f, a, len). unat len)") (auto simp: unat_sub word_le_nat_alt word_less_nat_alt)

function loop1 :: "u8 \<Rightarrow> vabits \<Rightarrow> addr \<Rightarrow> u64 \<Rightarrow> vabits \<times> addr \<times> u64" where
  "loop1 vabits2 f a len =
     (if len < 1 then (f, a, len) else loop1 vabits2 (put_vabits2 a vabits2 f) (a + 1) (len - 1))"
  by pat_completeness auto
termination
  by (relation "measure (\<lambda>(v, f, a, len). unat len)") (auto simp: unat_sub word_le_nat_alt word_less_nat_alt)

declare loop1_aligned.simps [simp del] loop8.simps [simp del] loop1.simps [simp del]

text \<open>Part 1: the first, partial secondary map. The result is the address reached.\<close>

definition sarp_part1 :: "u16 \<Rightarrow> sm_dist \<Rightarrow> addr \<Rightarrow> u64 \<Rightarrow> shadow \<Rightarrow> (addr \<times> shadow) option" where
  "sarp_part1 vabits16 dsm a lenA sh = do {
     (p, sh) \<leftarrow> get_secmap_ptr a sh;
     sm \<leftarrow> deref p sh;
     if sm = Distinguished dsm then Some (start_of_this_sm a + SM_SIZE, sh)
     else do {
       (f, sh) \<leftarrow> make_writable p sh;
       let vabits2 = ucast (vabits16 AND 0x3);
       let (f, a, lenA) = loop1_aligned vabits2 f a lenA;
       let (f, a, lenA) = loop8 vabits16 f a lenA;
       let (f, a, lenA) = loop1 vabits2 f a lenA;
       Some (a, assign p (Issued f) sh)
     }
   }"

text \<open>Part 2: whole secondary maps.\<close>

function sarp_part2 :: "sm_dist \<Rightarrow> addr \<Rightarrow> u64 \<Rightarrow> shadow \<Rightarrow> (addr \<times> u64 \<times> shadow) option" where
  "sarp_part2 dsm a lenB sh =
     (if lenB < SM_SIZE then Some (a, lenB, sh)
      else if \<not> is_start_of_sm a then None
      else do {
        (p, sh) \<leftarrow> get_secmap_ptr a sh;
        old \<leftarrow> deref p sh;
        sarp_part2 dsm (a + SM_SIZE) (lenB - SM_SIZE)
          (assign p (Distinguished dsm) (update_SM_counts old (Distinguished dsm) sh))
      })"
  by pat_completeness auto
termination
  by (relation "measure (\<lambda>(d, a, len, sh). unat len)")
    (auto simp: unat_sub word_le_nat_alt word_less_nat_alt SM_SIZE_def)

declare sarp_part2.simps [simp del]

text \<open>Part 3: the last, partial secondary map.\<close>

definition sarp_part3 :: "u16 \<Rightarrow> sm_dist \<Rightarrow> addr \<Rightarrow> u64 \<Rightarrow> shadow \<Rightarrow> shadow option" where
  "sarp_part3 vabits16 dsm a lenB sh =
     (if \<not> (is_start_of_sm a \<and> lenB < SM_SIZE) then None
      else do {
        (p, sh) \<leftarrow> get_secmap_ptr a sh;
        sm \<leftarrow> deref p sh;
        if sm = Distinguished dsm then Some sh
        else do {
          (f, sh) \<leftarrow> make_writable p sh;
          let (f, a, lenB) = loop8 vabits16 f a lenB;
          let (f, a, lenB) = loop1 (ucast (vabits16 AND 0x3)) f a lenB;
          Some (assign p (Issued f) sh)
        }
      })"

definition sarp_parts23 :: "u16 \<Rightarrow> sm_dist \<Rightarrow> addr \<Rightarrow> u64 \<Rightarrow> shadow \<Rightarrow> shadow option" where
  "sarp_parts23 vabits16 dsm a lenB sh = do {
     (a, lenB, sh) \<leftarrow> sarp_part2 dsm a lenB sh;
     if lenB = 0 then Some sh else sarp_part3 vabits16 dsm a lenB sh
   }"

definition set_address_range_perms :: "addr \<Rightarrow> u64 \<Rightarrow> u16 \<Rightarrow> sm_dist \<Rightarrow> shadow \<Rightarrow> shadow option" where
  "set_address_range_perms a lenT vabits16 dsm sh =
     (if \<not> (vabits16 = VA_BITS16_NOACCESS \<or> vabits16 = VA_BITS16_UNDEFINED \<or> vabits16 = VA_BITS16_DEFINED) then None
      else if lenT = 0 then Some sh
      else let aNext = start_of_this_sm a + SM_SIZE; len_to_next_secmap = aNext - a
           in if lenT \<le> len_to_next_secmap
              then do { (a, sh) \<leftarrow> sarp_part1 vabits16 dsm a lenT sh; Some sh }
              else if is_start_of_sm a then sarp_parts23 vabits16 dsm a lenT sh
              else do {
                (a, sh) \<leftarrow> sarp_part1 vabits16 dsm a len_to_next_secmap sh;
                sarp_parts23 vabits16 dsm a (lenT - len_to_next_secmap) sh
              })"

definition make_mem_noaccess :: "addr \<Rightarrow> u64 \<Rightarrow> shadow \<Rightarrow> shadow option" where
  "make_mem_noaccess a len sh = set_address_range_perms a len VA_BITS16_NOACCESS SM_DIST_NOACCESS sh"

definition make_mem_undefined :: "addr \<Rightarrow> u64 \<Rightarrow> shadow \<Rightarrow> shadow option" where
  "make_mem_undefined a len sh = set_address_range_perms a len VA_BITS16_UNDEFINED SM_DIST_UNDEFINED sh"

definition make_mem_defined :: "addr \<Rightarrow> u64 \<Rightarrow> shadow \<Rightarrow> shadow option" where
  "make_mem_defined a len sh = set_address_range_perms a len VA_BITS16_DEFINED SM_DIST_DEFINED sh"

definition make_mem_defined_if_addressable :: "addr \<Rightarrow> u64 \<Rightarrow> shadow \<Rightarrow> shadow option" where
  "make_mem_defined_if_addressable a len sh =
     foldO (\<lambda>i sh. do {
         (vabits2, sh) \<leftarrow> get_vabits2 (a + of_nat i) sh;
         if VA_BITS2_NOACCESS \<noteq> vabits2 then set_vabits2 (a + of_nat i) VA_BITS2_DEFINED sh else Some sh
       }) [0..<unat len] sh"

definition make_mem_defined_if_noaccess :: "addr \<Rightarrow> u64 \<Rightarrow> shadow \<Rightarrow> shadow option" where
  "make_mem_defined_if_noaccess a len sh =
     foldO (\<lambda>i sh. do {
         (vabits2, sh) \<leftarrow> get_vabits2 (a + of_nat i) sh;
         if VA_BITS2_NOACCESS = vabits2 then set_vabits2 (a + of_nat i) VA_BITS2_DEFINED sh else Some sh
       }) [0..<unat len] sh"


section \<open>Copying the state of a range\<close>

definition copy_byte :: "addr \<Rightarrow> addr \<Rightarrow> shadow \<Rightarrow> shadow option" where
  "copy_byte src dst sh = do {
     (vabits2, sh) \<leftarrow> get_vabits2 src sh;
     sh \<leftarrow> set_vabits2 dst vabits2 sh;
     if VA_BITS2_PARTDEFINED = vabits2
     then do { vbits8 \<leftarrow> get_sec_vbits8 src sh; set_sec_vbits8 dst vbits8 sh }
     else Some sh
   }"

definition copy_sec :: "addr \<Rightarrow> addr \<Rightarrow> shadow \<Rightarrow> shadow option" where
  "copy_sec src dst sh = do {
     (vabits2, sh) \<leftarrow> get_vabits2 src sh;
     if VA_BITS2_PARTDEFINED = vabits2
     then do { vbits8 \<leftarrow> get_sec_vbits8 src sh; set_sec_vbits8 dst vbits8 sh }
     else Some sh
   }"

definition copy_word32 :: "addr \<Rightarrow> addr \<Rightarrow> shadow \<Rightarrow> shadow option" where
  "copy_word32 src dst sh = do {
     (vabits8, sh) \<leftarrow> get_vabits8_for_aligned_word32 src sh;
     sh \<leftarrow> set_vabits8_for_aligned_word32 dst vabits8 sh;
     if VA_BITS8_DEFINED = vabits8 \<or> VA_BITS8_UNDEFINED = vabits8 \<or> VA_BITS8_NOACCESS = vabits8 then Some sh
     else do {
       sh \<leftarrow> copy_sec src dst sh;
       sh \<leftarrow> copy_sec (src + 1) (dst + 1) sh;
       sh \<leftarrow> copy_sec (src + 2) (dst + 2) sh;
       copy_sec (src + 3) (dst + 3) sh
     }
   }"

text \<open>The vectorised loop and the loop for the last bytes.\<close>

fun copy_vector :: "nat \<Rightarrow> addr \<Rightarrow> addr \<Rightarrow> shadow \<Rightarrow> shadow option" where
  "copy_vector len src dst sh =
     (if len \<ge> 4
      then do { sh \<leftarrow> copy_word32 src dst sh; copy_vector (len - 4) (src + 4) (dst + 4) sh }
      else if len \<ge> 1
      then do { sh \<leftarrow> copy_byte src dst sh; copy_vector (len - 1) (src + 1) (dst + 1) sh }
      else Some sh)"

declare copy_vector.simps [simp del]

definition copy_address_range_state :: "addr \<Rightarrow> addr \<Rightarrow> u64 \<Rightarrow> shadow \<Rightarrow> shadow option" where
  "copy_address_range_state src dst len sh =
     (if len = 0 \<or> src = dst then Some sh
      else let aligned = VG_IS_4_ALIGNED src \<and> VG_IS_4_ALIGNED dst;
               nooverlap = src + len \<le> dst \<or> dst + len \<le> src
           in if nooverlap \<and> aligned then copy_vector (unat len) src dst sh
              else if src < dst
              then foldO (\<lambda>j. copy_byte (src + of_nat j) (dst + of_nat j)) (rev [0..<unat len]) sh
              else foldO (\<lambda>i. copy_byte (src + of_nat i) (dst + of_nat i)) [0..<unat len] sh)"


section \<open>Checking a range\<close>

text \<open>Each check scans upwards and stops at the first bad address, which is \<^term>\<open>Some\<close> result.\<close>

fun scan_range :: "(u8 \<Rightarrow> bool) \<Rightarrow> addr \<Rightarrow> nat \<Rightarrow> shadow \<Rightarrow> ((addr \<times> u8) option \<times> shadow) option" where
  "scan_range bad a 0 sh = Some (None, sh)"
| "scan_range bad a (Suc n) sh = do {
     (vabits2, sh) \<leftarrow> get_vabits2 a sh;
     if bad vabits2 then Some (Some (a, vabits2), sh) else scan_range bad (a + 1) n sh
   }"

definition check_mem_is_noaccess :: "addr \<Rightarrow> u64 \<Rightarrow> shadow \<Rightarrow> (addr option \<times> shadow) option" where
  "check_mem_is_noaccess a len sh = do {
     (r, sh) \<leftarrow> scan_range (\<lambda>v. VA_BITS2_NOACCESS \<noteq> v) a (unat len) sh;
     Some (map_option fst r, sh)
   }"

definition is_mem_addressable :: "addr \<Rightarrow> u64 \<Rightarrow> shadow \<Rightarrow> (addr option \<times> shadow) option" where
  "is_mem_addressable a len sh = do {
     (r, sh) \<leftarrow> scan_range (\<lambda>v. VA_BITS2_NOACCESS = v) a (unat len) sh;
     Some (map_option fst r, sh)
   }"

datatype MC_ReadResult = MC_Ok | MC_AddrErr | MC_ValueErr

text \<open>\<^verbatim>\<open>MC_(clo_mc_level)\<close> is an argument; the origin tag of level 3 is not modelled. \<open>bad\<close> is \<^verbatim>\<open>*bad_addr\<close>.\<close>

fun is_mem_defined_loop :: "nat \<Rightarrow> addr \<Rightarrow> nat \<Rightarrow> addr \<Rightarrow> shadow \<Rightarrow> (MC_ReadResult \<times> addr \<times> shadow) option" where
  "is_mem_defined_loop mc_level a 0 bad sh = Some (MC_Ok, bad, sh)"
| "is_mem_defined_loop mc_level a (Suc n) bad sh = do {
     (vabits2, sh) \<leftarrow> get_vabits2 a sh;
     if VA_BITS2_DEFINED \<noteq> vabits2
     then (if VA_BITS2_NOACCESS = vabits2 then Some (MC_AddrErr, a, sh)
           else if mc_level \<ge> 2 then Some (MC_ValueErr, a, sh)
           else is_mem_defined_loop mc_level (a + 1) n a sh)
     else is_mem_defined_loop mc_level (a + 1) n bad sh
   }"

definition is_mem_defined :: "nat \<Rightarrow> addr \<Rightarrow> u64 \<Rightarrow> shadow \<Rightarrow> (MC_ReadResult \<times> addr \<times> shadow) option" where
  "is_mem_defined mc_level a len sh = is_mem_defined_loop mc_level a (unat len) 0 sh"

text \<open>The first undefined address and the address at which the scan gave up.\<close>

fun is_mem_defined_comprehensive_loop ::
  "addr \<Rightarrow> nat \<Rightarrow> addr option \<Rightarrow> shadow \<Rightarrow> (addr option \<times> addr option \<times> shadow) option" where
  "is_mem_defined_comprehensive_loop a 0 errV sh = Some (errV, None, sh)"
| "is_mem_defined_comprehensive_loop a (Suc n) errV sh = do {
     (vabits2, sh) \<leftarrow> get_vabits2 a sh;
     if vabits2 = VA_BITS2_DEFINED then is_mem_defined_comprehensive_loop (a + 1) n errV sh
     else if vabits2 = VA_BITS2_UNDEFINED \<or> vabits2 = VA_BITS2_PARTDEFINED
     then is_mem_defined_comprehensive_loop (a + 1) n (case errV of None \<Rightarrow> Some a | Some b \<Rightarrow> Some b) sh
     else if vabits2 = VA_BITS2_NOACCESS then Some (errV, Some a, sh)
     else None
   }"

definition is_mem_defined_comprehensive :: "addr \<Rightarrow> u64 \<Rightarrow> shadow \<Rightarrow> (addr option \<times> addr option \<times> shadow) option" where
  "is_mem_defined_comprehensive a len sh = is_mem_defined_comprehensive_loop a (unat len) None sh"

end
