(* ===== verification/Shadow_Bits.thy ===== *)
theory Shadow_Bits
  imports Shadow
begin

text \<open>
  Facts about the addresses and the packed state bits of the shadow memory: an address is determined by its 64K block,
  the offset of its group of four bytes and its place in the group; inserting two bits changes the state of one byte only.
\<close>

section \<open>Addresses\<close>

abbreviation hi :: "addr \<Rightarrow> u64" where "hi a \<equiv> drop_bit 16 a"
abbreviation lo :: "addr \<Rightarrow> nat" where "lo a \<equiv> unat a mod 65536"

lemma and_masks:
  "(a :: u64) AND 0xffff = take_bit 16 a" "a AND 1 = take_bit 1 a" "a AND 3 = take_bit 2 a" "a AND 7 = take_bit 3 a"
  "a AND 15 = take_bit 4 a"
  by (simp_all add: take_bit_eq_mask mask_eq_exp_minus_1)

lemma unat_and:
  "unat ((a :: u64) AND 0xffff) = unat a mod 65536" "unat (a AND 1) = unat a mod 2" "unat (a AND 3) = unat a mod 4"
  "unat (a AND 7) = unat a mod 8" "unat (a AND 15) = unat a mod 16"
  by (simp_all only: and_masks unsigned_take_bit_eq) (simp_all add: take_bit_eq_mod)

lemma unat_hi: "unat (hi a) = unat a div 65536"
  by (simp add: unat_drop_bit_div)

lemma unat_SM_OFF: "unat (SM_OFF a) = lo a div 4"
  by (simp only: SM_OFF_def unat_drop_bit_div unat_and) simp

lemma unat_SM_OFF_16: "unat (SM_OFF_16 a) = lo a div 8"
  by (simp only: SM_OFF_16_def unat_drop_bit_div unat_and) simp

lemma hi_eq_iff: "hi a = hi b \<longleftrightarrow> unat a div 65536 = unat b div 65536"
  by (metis unat_hi word_unat_eq_iff)

lemma SM_OFF_eq_iff: "SM_OFF a = SM_OFF b \<longleftrightarrow> lo a div 4 = lo b div 4"
  by (metis unat_SM_OFF word_unat_eq_iff)

lemma base_shift: "(a :: u64) AND NOT 0xffff = push_bit 16 (hi a)"
proof -
  have "a AND NOT (mask 16) = push_bit 16 (hi a)"
    by (rule bit_eqI) (auto simp: bit_simps simp del: mask_numeral dest: bit_imp_le_length)
  moreover have "(0xffff :: u64) = mask 16" by (simp add: mask_eq_exp_minus_1)
  ultimately show ?thesis by (simp only:)
qed

lemma unat_base: "unat (base_64k a) = 65536 * (unat a div 65536)"
proof -
  have "unat a < 2 ^ 64" using unat_bound[of a] by simp
  then have "unat a div 65536 * 65536 < 2 ^ 64" by (meson div_times_less_eq_dividend le_less_trans)
  then show ?thesis by (simp only: base_64k_def base_shift unat_push_bit_mod unat_hi) simp
qed

lemma base_eq_iff: "base_64k a = base_64k b \<longleftrightarrow> hi a = hi b"
  unfolding hi_eq_iff by (metis unat_base word_unat_eq_iff mult_cancel1 zero_neq_numeral)

lemma addr_eqI:
  assumes "hi a = hi b" "SM_OFF a = SM_OFF b" "unat a mod 4 = unat b mod 4"
  shows "a = b"
proof -
  have "lo a div 4 = lo b div 4" "unat a div 65536 = unat b div 65536"
    using assms by (simp_all add: SM_OFF_eq_iff hi_eq_iff)
  moreover have "lo a mod 4 = lo b mod 4" using assms(3) by (simp add: mod_mod_cancel)
  ultimately have "unat a = unat b" by (metis div_mult_mod_eq)
  then show ?thesis by (simp add: word_unat_eq_iff)
qed

lemma hi_low_iff: "a \<le> MAX_PRIMARY_ADDRESS \<longleftrightarrow> unat a div 65536 < 2097152"
proof -
  have "a \<le> MAX_PRIMARY_ADDRESS \<longleftrightarrow> unat a \<le> 137438953471"
    by (simp add: word_le_nat_alt MAX_PRIMARY_ADDRESS_def N_PRIMARY_MAP_def)
  also have "\<dots> \<longleftrightarrow> unat a div 65536 < 2097152" by (simp add: div_less_iff_less_mult) linarith
  finally show ?thesis .
qed

lemma hi_low: "hi a = hi b \<Longrightarrow> a \<le> MAX_PRIMARY_ADDRESS \<longleftrightarrow> b \<le> MAX_PRIMARY_ADDRESS"
  by (simp add: hi_low_iff hi_eq_iff)

lemma hi_base: "hi (base_64k a) = hi a"
  unfolding hi_eq_iff unat_base by simp


section \<open>Packed bits\<close>

lemma shift2_eq: "shift2 a = 2 * (unat a mod 4)"
proof -
  have "unat a mod 4 * 2 mod 2 ^ 64 = 2 * (unat a mod 4)" by simp
  then show ?thesis by (simp only: shift2_def unat_push_bit_mod unat_and) simp
qed

lemma mod4_cases:
  obtains "(n :: nat) mod 4 = 0" | "n mod 4 = 1" | "n mod 4 = 2" | "n mod 4 = 3"
  by linarith

definition is_vabits2 :: "u8 \<Rightarrow> bool" where "is_vabits2 v \<longleftrightarrow> v = 0 \<or> v = 1 \<or> v = 2 \<or> v = 3"

lemma and_3_vabits2: "is_vabits2 (3 AND v)"
proof -
  have "3 AND v = take_bit 2 v" by (simp add: take_bit_eq_mask mask_eq_exp_minus_1 and.commute)
  then have "unat (3 AND v) = unat v mod 4" by (simp only: unsigned_take_bit_eq) (simp add: take_bit_eq_mod)
  moreover have "unat v mod 4 < 4" by simp
  ultimately have "unat (3 AND v) = 0 \<or> unat (3 AND v) = 1 \<or> unat (3 AND v) = 2 \<or> unat (3 AND v) = 3" by linarith
  then show ?thesis unfolding is_vabits2_def word_unat_eq_iff by simp
qed

lemma extract_vabits2: "is_vabits2 (extract_vabits2_from_vabits8 a v)"
  unfolding extract_vabits2_from_vabits8_def by (rule and_3_vabits2)

lemma bit_3: "bit (3 :: u8) n \<longleftrightarrow> n < 2"
proof -
  have "(3 :: u8) = mask 2" by (simp add: mask_eq_exp_minus_1)
  then show ?thesis by (simp only: bit_mask_iff) auto
qed

lemma bit_vabits2: "is_vabits2 v \<Longrightarrow> bit v n \<Longrightarrow> n < 2"
  by (auto simp: is_vabits2_def bit_3 bit_1_iff bit_2_iff simp del: bit_numeral_word_iff)

lemma bit_extract: "bit (extract_vabits2_from_vabits8 a w) n \<longleftrightarrow> n < 2 \<and> bit w (2 * (unat a mod 4) + n)"
  unfolding extract_vabits2_from_vabits8_def by (simp add: bit_and_iff bit_drop_bit_eq bit_3 shift2_eq del: bit_numeral_word_iff)

lemma bit_insert:
  assumes "is_vabits2 v"
  shows "bit (insert_vabits2_into_vabits8 b v w) n \<longleftrightarrow>
    (if 2 * (unat b mod 4) \<le> n \<and> n < 2 * (unat b mod 4) + 2 then bit v (n - 2 * (unat b mod 4)) else bit w n)"
proof -
  have le: "n < 8" if "2 * (unat b mod 4) \<le> n \<and> n < 2 * (unat b mod 4) + 2" using that by linarith
  have lw: "n < 8" if "bit w n" using bit_imp_le_length[OF that] by simp
  show ?thesis
    unfolding insert_vabits2_into_vabits8_def
    using le lw bit_vabits2[OF assms, of "n - 2 * (unat b mod 4)"]
    by (auto simp: bit_and_iff bit_or_iff bit_not_iff bit_push_bit_iff bit_3 shift2_eq simp del: bit_numeral_word_iff)
qed

lemma extract_insert:
  assumes "is_vabits2 v"
  shows "extract_vabits2_from_vabits8 a (insert_vabits2_into_vabits8 b v w) =
    (if unat a mod 4 = unat b mod 4 then v else extract_vabits2_from_vabits8 a w)"
proof (rule bit_eqI)
  fix n
  have "\<not> (2 * (unat b mod 4) \<le> 2 * (unat a mod 4) + n \<and> 2 * (unat a mod 4) + n < 2 * (unat b mod 4) + 2)"
    if "n < 2" "unat a mod 4 \<noteq> unat b mod 4" using that by linarith
  then show "bit (extract_vabits2_from_vabits8 a (insert_vabits2_into_vabits8 b v w)) n =
    bit (if unat a mod 4 = unat b mod 4 then v else extract_vabits2_from_vabits8 a w) n"
    using bit_vabits2[OF assms, of n] by (auto simp: bit_extract bit_insert[OF assms])
qed

end
