(* ===== verification/Shadow_Aux.thy ===== *)
theory Shadow_Aux
  imports Shadow_Bits "HOL-Library.Multiset"
begin

text \<open>
  The auxiliary map with its self-organising front cache behaves as a map from 64K blocks to secondary maps: a lookup
  rearranges the cache and may allocate an entry for a block without one, but no address changes its secondary map.
\<close>

section \<open>The invariant\<close>

definition L1_ok :: "addr set \<Rightarrow> (addr \<times> addr option) list \<Rightarrow> bool" where
  "L1_ok keys l1 \<longleftrightarrow> length l1 = N_AUXMAP_L1 \<and>
     (\<forall>(base, ent) \<in> set l1. (base = 0 \<and> ent = None) \<or> (ent = Some base \<and> base \<in> keys)) \<and>
     distinct (filter (\<lambda>b. b \<noteq> 0) (map fst l1))"

definition L2_ok :: "(addr \<times> SecMap) list \<Rightarrow> bool" where
  "L2_ok l2 \<longleftrightarrow> distinct (map fst l2) \<and> (\<forall>b \<in> fst ` set l2. base_64k b = b \<and> b > MAX_PRIMARY_ADDRESS)"

definition aux_ok :: "shadow \<Rightarrow> bool" where
  "aux_ok sh \<longleftrightarrow> L1_ok (fst ` set (auxmap_L2 sh)) (auxmap_L1 sh) \<and> L2_ok (auxmap_L2 sh) \<and>
     n_auxmap_L2_nodes sh = length (auxmap_L2 sh)"

text \<open>The secondary map of an address.\<close>

definition sm_of :: "shadow \<Rightarrow> addr \<Rightarrow> SecMap" where
  "sm_of sh a =
     (if a \<le> MAX_PRIMARY_ADDRESS then primary_map sh (hi a)
      else case map_of (auxmap_L2 sh) (base_64k a) of Some sm \<Rightarrow> sm | None \<Rightarrow> Distinguished SM_DIST_NOACCESS)"

definition rest :: "shadow \<Rightarrow> (addr \<times> u8 list) list \<times> nat \<times> (nat \<Rightarrow> nat \<Rightarrow> nat) \<times> bool \<times> address_error list" where
  "rest sh = (secVBitTable sh, secVBitLimit sh, sec_limit sh, clo_partial_loads_ok sh, errors sh)"

text \<open>A change that no address sees.\<close>

definition unseen :: "shadow \<Rightarrow> shadow \<Rightarrow> bool" where
  "unseen sh sh' \<longleftrightarrow> aux_ok sh' \<and> sm_of sh' = sm_of sh \<and> rest sh' = rest sh"

lemma unseen_refl: "aux_ok sh \<Longrightarrow> unseen sh sh"
  by (simp add: unseen_def)

lemma unseen_trans: "unseen sh sh' \<Longrightarrow> unseen sh' sh'' \<Longrightarrow> unseen sh sh''"
  by (simp add: unseen_def)

lemma L1_ok_perm:
  assumes "mset l1' = mset l1" "L1_ok keys l1"
  shows "L1_ok keys l1'"
proof -
  have "mset (filter (\<lambda>b. b \<noteq> 0) (map fst l1')) = mset (filter (\<lambda>b. b \<noteq> 0) (map fst l1))"
    using assms(1) by simp
  from mset_eq_imp_distinct_iff[OF this] mset_eq_length[OF assms(1)] mset_eq_setD[OF assms(1)] assms(2) show ?thesis
    unfolding L1_ok_def by simp
qed

lemma L1_ok_entry:
  assumes "L1_ok keys l1" "i < N_AUXMAP_L1" "fst (l1 ! i) = b" "b \<noteq> 0"
  shows "l1 ! i = (b, Some b)" "b \<in> keys"
proof -
  have "l1 ! i \<in> set l1" using assms by (simp add: L1_ok_def)
  with assms show "l1 ! i = (b, Some b)" "b \<in> keys" by (cases "l1 ! i"; auto simp: L1_ok_def)+
qed

lemma mset_take_insert: "mset (take r xs @ [x] @ drop r xs) = mset (x # xs)"
proof -
  have "mset xs = mset (take r xs) + mset (drop r xs)" by (metis append_take_drop_id mset_append)
  then show ?thesis by simp
qed

lemma L1_ok_insert:
  assumes "L1_ok keys l1" "b \<notin> fst ` set l1" "r < N_AUXMAP_L1" "b \<in> keys'" "keys \<subseteq> keys'"
  shows "L1_ok keys' (take r l1 @ [(b, Some b)] @ drop r (butlast l1))"
proof -
  have ne: "l1 \<noteq> []" "length l1 = N_AUXMAP_L1" using assms(1) by (auto simp: L1_ok_def N_AUXMAP_L1_def)
  have sub: "set (butlast l1) \<subseteq> set l1" by (meson in_set_butlastD subsetI)
  have "distinct (filter (\<lambda>b. b \<noteq> 0) (map fst (butlast l1 @ [last l1])))"
    using assms(1) ne(1) by (simp add: L1_ok_def)
  then have "distinct (filter (\<lambda>b. b \<noteq> 0) (map fst (butlast l1)))"
    by (simp only: map_append filter_append distinct_append)
  moreover have "\<forall>(base, ent) \<in> set (butlast l1). (base = 0 \<and> ent = None) \<or> (ent = Some base \<and> base \<in> keys')"
    using assms(1,5) sub unfolding L1_ok_def by blast
  moreover have "b \<notin> fst ` set (butlast l1)" using assms(2) sub by blast
  ultimately have ok: "L1_ok keys' ((b, Some b) # butlast l1)"
    using assms(4) ne unfolding L1_ok_def by (auto simp: N_AUXMAP_L1_def)
  have "take r l1 = take r (butlast l1)"
    using assms(3) ne by (simp add: butlast_conv_take)
  then have "mset (take r l1 @ [(b, Some b)] @ drop r (butlast l1)) = mset ((b, Some b) # butlast l1)"
    by (simp only: mset_take_insert)
  then show ?thesis using ok by (rule L1_ok_perm)
qed

lemma high_base:
  assumes "a > MAX_PRIMARY_ADDRESS"
  shows "base_64k a \<noteq> 0" "base_64k a > MAX_PRIMARY_ADDRESS" "base_64k (base_64k a) = base_64k a"
proof -
  have e: "hi (base_64k a) = hi a" by (rule hi_base)
  show gt: "base_64k a > MAX_PRIMARY_ADDRESS" using hi_low[OF e] assms by (simp add: not_le[symmetric])
  then show "base_64k a \<noteq> 0" by auto
  show "base_64k (base_64k a) = base_64k a" using base_eq_iff e by blast
qed


section \<open>Lookups\<close>

lemma swap_L1_unseen:
  assumes "aux_ok sh" "i < N_AUXMAP_L1" "j < N_AUXMAP_L1"
  shows "unseen sh (swap_L1 i j sh)" "auxmap_L2 (swap_L1 i j sh) = auxmap_L2 sh"
    "auxmap_L1 (swap_L1 i j sh) ! i = auxmap_L1 sh ! j"
proof -
  let ?l1 = "auxmap_L1 sh"
  have len: "length ?l1 = N_AUXMAP_L1" using assms(1) by (simp add: aux_ok_def L1_ok_def)
  have "mset (?l1[i := ?l1 ! j, j := ?l1 ! i]) = mset ?l1" by (rule mset_swap) (use assms len in simp_all)
  with assms(1) show "unseen sh (swap_L1 i j sh)"
    by (auto simp: unseen_def swap_L1_def Let_def aux_ok_def sm_of_def rest_def fun_eq_iff intro: L1_ok_perm)
qed (use assms in \<open>auto simp: swap_L1_def Let_def aux_ok_def L1_ok_def nth_list_update\<close>)

lemma insert_L1_unseen:
  assumes "L1_ok keys (auxmap_L1 sh)" "keys \<subseteq> fst ` set (auxmap_L2 sh)" "L2_ok (auxmap_L2 sh)"
    "n_auxmap_L2_nodes sh = length (auxmap_L2 sh)" "b \<notin> fst ` set (auxmap_L1 sh)" "b \<in> fst ` set (auxmap_L2 sh)"
  shows "\<exists>sh'. insert_into_auxmap_L1_at AUXMAP_L1_INSERT_IX b sh = Some sh' \<and> unseen sh sh' \<and>
    auxmap_L2 sh' = auxmap_L2 sh \<and> n_auxmap_L2_nodes sh' = n_auxmap_L2_nodes sh"
proof -
  have r: "AUXMAP_L1_INSERT_IX < N_AUXMAP_L1" by (simp add: AUXMAP_L1_INSERT_IX_def N_AUXMAP_L1_def)
  from L1_ok_insert[OF assms(1,5) r assms(6,2)] assms(3,4) r show ?thesis
    by (auto simp: insert_into_auxmap_L1_at_def Let_def unseen_def aux_ok_def sm_of_def rest_def fun_eq_iff)
qed

lemma search_L1_spec:
  "search_L1 b sh \<le> length (auxmap_L1 sh)"
  "search_L1 b sh < length (auxmap_L1 sh) \<Longrightarrow> fst (auxmap_L1 sh ! search_L1 b sh) = b"
  "\<not> search_L1 b sh < length (auxmap_L1 sh) \<Longrightarrow> b \<notin> fst ` set (auxmap_L1 sh)"
proof -
  let ?P = "\<lambda>(base, ent :: addr option). base \<noteq> b" and ?l1 = "auxmap_L1 sh"
  show le: "search_L1 b sh \<le> length ?l1" by (simp add: search_L1_def length_takeWhile_le)
  show "fst (?l1 ! search_L1 b sh) = b" if "search_L1 b sh < length ?l1"
    using nth_length_takeWhile[of ?P ?l1] that by (simp add: search_L1_def case_prod_beta)
  show "b \<notin> fst ` set ?l1" if "\<not> search_L1 b sh < length ?l1"
  proof -
    have "length (takeWhile ?P ?l1) = length ?l1" using that le by (simp add: search_L1_def)
    then have "takeWhile ?P ?l1 = ?l1" by (metis append_take_drop_id takeWhile_eq_take take_all_iff order_refl)
    then have "\<forall>x \<in> set ?l1. ?P x" by (simp add: takeWhile_eq_all_conv)
    then show ?thesis by auto
  qed
qed

lemma maybe_find_spec:
  assumes "aux_ok sh" "a > MAX_PRIMARY_ADDRESS"
  shows "\<exists>sh'. maybe_find_in_auxmap a sh =
      Some (if base_64k a \<in> fst ` set (auxmap_L2 sh) then Some (base_64k a) else None, sh') \<and>
    unseen sh sh' \<and> auxmap_L2 sh' = auxmap_L2 sh \<and>
    (base_64k a \<notin> fst ` set (auxmap_L2 sh) \<longrightarrow> sh' = sh)"
proof -
  let ?b = "base_64k a" and ?l1 = "auxmap_L1 sh" and ?keys = "fst ` set (auxmap_L2 sh)"
  have ok: "L1_ok ?keys ?l1" and len: "length ?l1 = N_AUXMAP_L1" using assms(1) by (auto simp: aux_ok_def L1_ok_def)
  note ent = L1_ok_entry[OF ok _ _ high_base(1)[OF assms(2)]]
  have pos: "0 < N_AUXMAP_L1" "1 < N_AUXMAP_L1" by (simp_all add: N_AUXMAP_L1_def)
  consider "fst (?l1 ! 0) = ?b" | "fst (?l1 ! 0) \<noteq> ?b" "fst (?l1 ! 1) = ?b"
    | "fst (?l1 ! 0) \<noteq> ?b" "fst (?l1 ! 1) \<noteq> ?b" "search_L1 ?b sh < N_AUXMAP_L1"
    | "fst (?l1 ! 0) \<noteq> ?b" "fst (?l1 ! 1) \<noteq> ?b" "\<not> search_L1 ?b sh < N_AUXMAP_L1" by blast
  then show ?thesis
  proof cases
    case 1
    with ent[OF pos(1)] assms show ?thesis
      by (auto simp: maybe_find_in_auxmap_def Let_def unseen_refl)
  next
    case 2
    with ent[OF pos(2)] assms swap_L1_unseen[OF assms(1) pos] show ?thesis
      by (auto simp: maybe_find_in_auxmap_def Let_def)
  next
    case 3
    let ?i = "search_L1 ?b sh"
    have i: "fst (?l1 ! ?i) = ?b" using search_L1_spec(2) 3(3) len by simp
    then have "?i > 0" using 3(1) by (metis neq0_conv)
    moreover from this have "?i - 1 < N_AUXMAP_L1" using 3(3) by simp
    ultimately show ?thesis
      using ent[OF 3(3) i] assms 3 swap_L1_unseen[OF assms(1), of "?i - 1" ?i]
      by (auto simp: maybe_find_in_auxmap_def Let_def)
  next
    case 4
    have n: "?b \<notin> fst ` set ?l1" using search_L1_spec(3) 4(3) len by simp
    show ?thesis
    proof (cases "?b \<in> ?keys")
      case True
      with insert_L1_unseen[OF ok subset_refl _ _ n] assms(1) obtain sh' where
        "insert_into_auxmap_L1_at AUXMAP_L1_INSERT_IX ?b sh = Some sh'" "unseen sh sh'" "auxmap_L2 sh' = auxmap_L2 sh"
        by (auto simp: aux_ok_def)
      moreover have "map_of (auxmap_L2 sh) ?b \<noteq> None" using True by (simp add: map_of_eq_None_iff)
      ultimately show ?thesis using 4 assms True by (simp add: maybe_find_in_auxmap_def Let_def)
    next
      case False
      then have "map_of (auxmap_L2 sh) ?b = None" by (simp add: map_of_eq_None_iff)
      with 4 assms False show ?thesis by (simp add: maybe_find_in_auxmap_def Let_def unseen_refl)
    qed
  qed
qed

lemma find_or_alloc_spec:
  assumes "aux_ok sh" "a > MAX_PRIMARY_ADDRESS"
  shows "\<exists>sh'. find_or_alloc_in_auxmap a sh = Some (base_64k a, sh') \<and> unseen sh sh' \<and>
    map_of (auxmap_L2 sh') (base_64k a) = Some (sm_of sh a)"
proof -
  let ?b = "base_64k a"
  from maybe_find_spec[OF assms] obtain sh1 where
    sh1: "maybe_find_in_auxmap a sh = Some (if ?b \<in> fst ` set (auxmap_L2 sh) then Some ?b else None, sh1)"
    "unseen sh sh1" "auxmap_L2 sh1 = auxmap_L2 sh" "?b \<notin> fst ` set (auxmap_L2 sh) \<longrightarrow> sh1 = sh" by blast
  show ?thesis
  proof (cases "?b \<in> fst ` set (auxmap_L2 sh)")
    case True
    then obtain sm where "map_of (auxmap_L2 sh) ?b = Some sm" by (metis map_of_eq_None_iff not_None_eq)
    with True sh1 assms(2) show ?thesis by (auto simp: find_or_alloc_in_auxmap_def sm_of_def)
  next
    case False
    define l2 where "l2 = (?b, Distinguished SM_DIST_NOACCESS) # auxmap_L2 sh"
    let ?sh = "sh\<lparr>auxmap_L2 := l2, n_auxmap_L2_nodes := length l2\<rparr>"
    have l2: "L2_ok l2" using False assms high_base[OF assms(2)] by (auto simp: l2_def aux_ok_def L2_ok_def)
    have n1: "?b \<notin> fst ` set (auxmap_L1 sh)"
      using False assms(1) high_base(1)[OF assms(2)] unfolding aux_ok_def L1_ok_def by force
    have none: "map_of (auxmap_L2 sh) ?b = None" using False by (simp add: map_of_eq_None_iff)
    have view: "sm_of ?sh = sm_of sh"
      by (auto simp: sm_of_def l2_def fun_eq_iff none split: option.splits)
    from insert_L1_unseen[of "fst ` set (auxmap_L2 sh)" ?sh ?b] assms(1) l2 n1 obtain sh2 where
      sh2: "insert_into_auxmap_L1_at AUXMAP_L1_INSERT_IX ?b ?sh = Some sh2" "unseen ?sh sh2" "auxmap_L2 sh2 = l2"
      "n_auxmap_L2_nodes sh2 = length l2"
      by (auto simp: aux_ok_def l2_def)
    have "insert_into_auxmap_L1_at AUXMAP_L1_INSERT_IX ?b (sh\<lparr>auxmap_L2 := l2\<rparr>) = Some (sh2\<lparr>n_auxmap_L2_nodes := n_auxmap_L2_nodes sh\<rparr>)"
      using sh2(1) by (auto simp: insert_into_auxmap_L1_at_def Let_def split: if_splits)
    moreover have "n_auxmap_L2_nodes sh + 1 = length l2" using assms(1) by (simp add: aux_ok_def l2_def)
    ultimately have "find_or_alloc_in_auxmap a sh = Some (?b, sh2)"
      using False sh1 sh2(4) by (simp add: find_or_alloc_in_auxmap_def Let_def flip: l2_def)
    moreover have "unseen sh sh2" using sh2(2) view by (simp add: unseen_def rest_def)
    moreover have "map_of (auxmap_L2 sh2) ?b = Some (sm_of sh a)"
      using sh2(3) none assms(2) by (auto simp: l2_def sm_of_def)
    ultimately show ?thesis by blast
  qed
qed


section \<open>Secondary maps for reading and for writing\<close>

definition ptr_of :: "sm_ptr \<Rightarrow> addr \<Rightarrow> shadow \<Rightarrow> bool" where
  "ptr_of p a sh \<longleftrightarrow>
     (if a \<le> MAX_PRIMARY_ADDRESS then p = Low (hi a)
      else p = High (base_64k a) \<and> base_64k a \<in> fst ` set (auxmap_L2 sh))"

lemma deref_ptr: "ptr_of p a sh \<Longrightarrow> deref p sh = Some (sm_of sh a)"
  by (auto simp: ptr_of_def sm_of_def map_of_eq_None_iff split: if_splits option.splits)

lemma sm_of_same: "hi b = hi a \<Longrightarrow> sm_of sh b = sm_of sh a"
  unfolding sm_of_def by (simp only: hi_low[of b a] base_eq_iff[of b a, THEN iffD2])

lemma assign_ptr:
  assumes "aux_ok sh" "ptr_of p a sh"
  shows "aux_ok (assign p sm sh)" "sm_of (assign p sm sh) = (\<lambda>b. if hi b = hi a then sm else sm_of sh b)"
    "rest (assign p sm sh) = rest sh" "ptr_of p a (assign p sm sh)"
proof -
  have l2: "L2_ok (AList.update k v l) \<and> fst ` set (AList.update k v l) = fst ` set l \<and> length (AList.update k v l) = length l"
    if "L2_ok l" "k \<in> fst ` set l" for k v and l :: "(addr \<times> SecMap) list"
  proof -
    have "map fst (AList.update k v l) = map fst l" using that(2) by (induction l) auto
    then show ?thesis using that(1) unfolding L2_ok_def by (metis length_map set_map)
  qed
  show "aux_ok (assign p sm sh)" "rest (assign p sm sh) = rest sh" "ptr_of p a (assign p sm sh)"
    using assms l2 by (auto simp: aux_ok_def ptr_of_def rest_def split: if_splits)
  have at: "sm_of (assign p sm sh) a = sm"
    using assms(2) by (auto simp: ptr_of_def sm_of_def update_conv split: if_splits)
  have "sm_of (assign p sm sh) b = sm_of sh b" if "hi b \<noteq> hi a" for b
    using assms(2) that base_eq_iff[of b a] by (auto simp: ptr_of_def sm_of_def update_conv split: if_splits)
  then show "sm_of (assign p sm sh) = (\<lambda>b. if hi b = hi a then sm else sm_of sh b)"
    using at sm_of_same by (intro ext) metis
qed

lemma get_secmap_ptr_spec:
  assumes "aux_ok sh"
  shows "\<exists>p sh'. get_secmap_ptr a sh = Some (p, sh') \<and> unseen sh sh' \<and> ptr_of p a sh'"
proof (cases "a \<le> MAX_PRIMARY_ADDRESS")
  case True
  then show ?thesis using assms by (simp add: get_secmap_ptr_def get_secmap_low_ptr_def ptr_of_def unseen_refl)
next
  case False
  with find_or_alloc_spec[OF assms, of a] obtain sh' where
    "find_or_alloc_in_auxmap a sh = Some (base_64k a, sh')" "unseen sh sh'"
    "map_of (auxmap_L2 sh') (base_64k a) = Some (sm_of sh a)" by (auto simp: not_le)
  with False show ?thesis
    by (force simp: get_secmap_ptr_def get_secmap_high_ptr_def ptr_of_def dest: map_of_SomeD)
qed

lemma get_secmap_for_reading_ptr:
  "get_secmap_for_reading a sh = do { (p, sh) \<leftarrow> get_secmap_ptr a sh; sm \<leftarrow> deref p sh; Some (sm, sh) }"
  by (simp add: get_secmap_for_reading_def get_secmap_for_reading_low_def get_secmap_for_reading_high_def get_secmap_ptr_def)

lemma get_secmap_for_writing_ptr:
  "get_secmap_for_writing a sh = do { (p, sh) \<leftarrow> get_secmap_ptr a sh; (f, sh) \<leftarrow> make_writable p sh; Some (p, f, sh) }"
  by (simp add: get_secmap_for_writing_def get_secmap_for_writing_low_def get_secmap_for_writing_high_def get_secmap_ptr_def
      Let_def)

lemma reading_spec:
  assumes "aux_ok sh"
  shows "\<exists>sh'. get_secmap_for_reading a sh = Some (sm_of sh a, sh') \<and> unseen sh sh'"
proof -
  from get_secmap_ptr_spec[OF assms] obtain p sh' where
    p: "get_secmap_ptr a sh = Some (p, sh')" "unseen sh sh'" "ptr_of p a sh'" by blast
  have "deref p sh' = Some (sm_of sh a)" using deref_ptr[OF p(3)] p(2) by (simp add: unseen_def)
  with p show ?thesis by (simp add: get_secmap_for_reading_ptr)
qed

lemma update_SM_counts_unseen:
  "aux_ok (update_SM_counts x y sh) = aux_ok sh" "sm_of (update_SM_counts x y sh) = sm_of sh"
  "rest (update_SM_counts x y sh) = rest sh" "ptr_of p a (update_SM_counts x y sh) = ptr_of p a sh"
  by (simp_all add: update_SM_counts_def aux_ok_def sm_of_def rest_def ptr_of_def fun_eq_iff)

lemma make_writable_spec:
  assumes "aux_ok sh" "ptr_of p a sh"
  shows "\<exists>sh'. make_writable p sh = Some (contents (sm_of sh a), sh') \<and> aux_ok sh' \<and> rest sh' = rest sh \<and> ptr_of p a sh' \<and>
    sm_of sh' = (\<lambda>b. if hi b = hi a then Issued (contents (sm_of sh a)) else sm_of sh b)"
proof (cases "sm_of sh a")
  case (Issued f)
  then have "sm_of sh = (\<lambda>b. if hi b = hi a then Issued (contents (sm_of sh a)) else sm_of sh b)"
    using sm_of_same by (intro ext) (metis contents.simps(2))
  moreover have "make_writable p sh = Some (contents (sm_of sh a), sh)"
    using Issued deref_ptr[OF assms(2)] by (simp add: make_writable_def)
  ultimately show ?thesis using assms by blast
next
  case (Distinguished d)
  let ?f = "contents (Distinguished d)"
  let ?sh = "update_SM_counts (Distinguished d) (Issued ?f) sh"
  have "make_writable p sh = Some (?f, assign p (Issued ?f) ?sh)"
    using deref_ptr[OF assms(2)] Distinguished by (simp add: make_writable_def copy_for_writing_def Let_def)
  with assign_ptr[of ?sh p a "Issued ?f"] assms Distinguished show ?thesis
    by (simp add: update_SM_counts_unseen fun_eq_iff)
qed

text \<open>Writing a new contents into the map of an address.\<close>

lemma writing_spec:
  assumes "aux_ok sh"
  shows "\<exists>p sh'. get_secmap_for_writing a sh = Some (p, contents (sm_of sh a), sh') \<and>
    (\<forall>f. aux_ok (assign p (Issued f) sh') \<and> rest (assign p (Issued f) sh') = rest sh \<and>
      sm_of (assign p (Issued f) sh') = (\<lambda>b. if hi b = hi a then Issued f else sm_of sh b))"
proof -
  from get_secmap_ptr_spec[OF assms] obtain p sh1 where
    p: "get_secmap_ptr a sh = Some (p, sh1)" "unseen sh sh1" "ptr_of p a sh1" by blast
  then have ok: "aux_ok sh1" and e: "sm_of sh1 = sm_of sh" "rest sh1 = rest sh" by (simp_all add: unseen_def)
  from make_writable_spec[OF ok p(3)] obtain sh2 where
    sh2: "make_writable p sh1 = Some (contents (sm_of sh a), sh2)" "aux_ok sh2" "rest sh2 = rest sh" "ptr_of p a sh2"
    "sm_of sh2 = (\<lambda>b. if hi b = hi a then Issued (contents (sm_of sh a)) else sm_of sh b)"
    unfolding e by blast
  from assign_ptr[OF sh2(2,4)] p(1) sh2 show ?thesis
    by (simp add: get_secmap_for_writing_ptr fun_eq_iff)
qed


section \<open>The state bits\<close>

text \<open>The two bits of the byte at an address.\<close>

definition va_of :: "SecMap \<Rightarrow> addr \<Rightarrow> u8" where
  "va_of sm a = extract_vabits2_from_vabits8 a (contents sm (SM_OFF a))"

definition va :: "shadow \<Rightarrow> addr \<Rightarrow> u8" where "va sh a = va_of (sm_of sh a) a"

lemma irrelevant_updates [simp]:
  "sm_of (sh\<lparr>secVBitTable := t\<rparr>) = sm_of sh" "sm_of (sh\<lparr>secVBitLimit := m\<rparr>) = sm_of sh"
  "sm_of (sh\<lparr>GCs_done := g\<rparr>) = sm_of sh" "sm_of (sh\<lparr>errors := es\<rparr>) = sm_of sh"
  "va (sh\<lparr>secVBitTable := t\<rparr>) = va sh" "va (sh\<lparr>secVBitLimit := m\<rparr>) = va sh"
  "va (sh\<lparr>GCs_done := g\<rparr>) = va sh" "va (sh\<lparr>errors := es\<rparr>) = va sh"
  "aux_ok (sh\<lparr>secVBitTable := t\<rparr>) = aux_ok sh" "aux_ok (sh\<lparr>secVBitLimit := m\<rparr>) = aux_ok sh"
  "aux_ok (sh\<lparr>GCs_done := g\<rparr>) = aux_ok sh" "aux_ok (sh\<lparr>errors := es\<rparr>) = aux_ok sh"
  by (simp_all add: aux_ok_def va_def sm_of_def fun_eq_iff)

lemma va_cases: "is_vabits2 (va sh a)"
  unfolding va_def va_of_def by (rule extract_vabits2)

lemma unseen_va: "unseen sh sh' \<Longrightarrow> va sh' = va sh"
  by (simp add: unseen_def va_def fun_eq_iff)

lemma get_vabits2_spec:
  assumes "aux_ok sh"
  shows "\<exists>sh'. get_vabits2 a sh = Some (va sh a, sh') \<and> unseen sh sh'"
  using reading_spec[OF assms, of a] by (auto simp: get_vabits2_def va_def va_of_def)

lemma set_vabits2_spec:
  assumes "aux_ok sh" "is_vabits2 v"
  shows "\<exists>sh'. set_vabits2 a v sh = Some sh' \<and> aux_ok sh' \<and> va sh' = (va sh)(a := v) \<and> rest sh' = rest sh"
proof -
  from writing_spec[OF assms(1), of a] obtain p sh1 where
    p: "get_secmap_for_writing a sh = Some (p, contents (sm_of sh a), sh1)" and
    w: "\<And>f. aux_ok (assign p (Issued f) sh1) \<and> rest (assign p (Issued f) sh1) = rest sh \<and>
      sm_of (assign p (Issued f) sh1) = (\<lambda>b. if hi b = hi a then Issued f else sm_of sh b)" by blast
  let ?f = "contents (sm_of sh a)"
  let ?g = "?f(SM_OFF a := insert_vabits2_into_vabits8 a v (?f (SM_OFF a)))"
  have "va (assign p (Issued ?g) sh1) b = ((va sh)(a := v)) b" for b
    using addr_eqI[of b a] w[of ?g] sm_of_same[of b a sh]
    by (auto simp: va_def va_of_def extract_insert[OF assms(2)])
  then have "va (assign p (Issued ?g) sh1) = (va sh)(a := v)" by blast
  with w[of ?g] p show ?thesis by (simp add: set_vabits2_def Let_def)
qed

end
