(* ===== verification/Shadow_Bytes.thy ===== *)
theory Shadow_Bytes
  imports Shadow_Aux
begin

text \<open>
  The V bits of single bytes: the table of partially defined bytes with its garbage collection, and the refinement of
  the byte operations to the abstract memory \<open>vb\<close>, which gives every address its V bits or \<^term>\<open>None\<close> where it is not accessible.
\<close>

section \<open>Nodes of the table\<close>

lemma sec_amod_bound: "sec_amod a < 16"
  by (simp add: sec_amod_def BYTES_PER_SEC_VBIT_NODE_def unat_mod)

lemma sec_split: "sec_aligned a + of_nat (sec_amod a) = a"
proof -
  have "of_nat (sec_amod a) = take_bit 4 a"
    by (simp add: sec_amod_def BYTES_PER_SEC_VBIT_NODE_def take_bit_eq_mod)
  moreover have "a AND NOT (mask 4) = push_bit 4 (drop_bit 4 a)"
    by (rule bit_eqI) (auto simp: bit_simps simp del: mask_numeral dest: bit_imp_le_length)
  moreover have "BYTES_PER_SEC_VBIT_NODE - 1 = mask 4" by (simp add: BYTES_PER_SEC_VBIT_NODE_def mask_eq_exp_minus_1)
  ultimately show ?thesis by (simp only: sec_aligned_def bits_ident)
qed

lemma sec_inj: "sec_aligned a = sec_aligned b \<Longrightarrow> sec_amod a = sec_amod b \<Longrightarrow> a = b"
  by (metis sec_split)

definition table_ok :: "(addr \<times> u8 list) list \<Rightarrow> bool" where
  "table_ok t \<longleftrightarrow> distinct (map fst t) \<and> (\<forall>n \<in> set t. length (snd n) = 16)"

definition sec_lookup :: "(addr \<times> u8 list) list \<Rightarrow> addr \<Rightarrow> u8 option" where
  "sec_lookup t a = do {
     n \<leftarrow> map_of t (sec_aligned a);
     if n ! sec_amod a \<noteq> V_BITS8_DEFINED \<and> n ! sec_amod a \<noteq> V_BITS8_UNDEFINED then Some (n ! sec_amod a) else None
   }"

lemma get_sec_vbits8_lookup: "get_sec_vbits8 a sh = sec_lookup (secVBitTable sh) a"
  by (simp add: get_sec_vbits8_def sec_lookup_def Let_def)

definition in_use :: "(addr \<Rightarrow> u8) \<Rightarrow> addr \<Rightarrow> bool" where
  "in_use v k \<longleftrightarrow> (\<exists>i < 16. v (k + of_nat i) = VA_BITS2_PARTDEFINED)"

lemma node_in_use_spec:
  assumes "aux_ok sh"
  shows "\<exists>sh'. node_in_use k i n sh = Some (\<exists>j. i \<le> j \<and> j < i + n \<and> va sh (k + of_nat j) = VA_BITS2_PARTDEFINED, sh') \<and>
    unseen sh sh'"
  using assms
proof (induction n arbitrary: i sh)
  case 0
  then show ?case by (simp add: unseen_refl)
next
  case (Suc n)
  from get_vabits2_spec[OF Suc.prems, of "k + of_nat i"] obtain sh1 where
    sh1: "get_vabits2 (k + of_nat i) sh = Some (va sh (k + of_nat i), sh1)" "unseen sh sh1" by blast
  let ?P = "\<lambda>j. va sh (k + of_nat j) = VA_BITS2_PARTDEFINED"
  have split: "(\<exists>j. i \<le> j \<and> j < i + Suc n \<and> ?P j) \<longleftrightarrow> ?P i \<or> (\<exists>j. Suc i \<le> j \<and> j < Suc i + n \<and> ?P j)"
    by (metis Suc_leD add_Suc_right add_Suc le_eq_less_or_eq Suc_leI less_add_Suc1 order_refl)
  show ?case
  proof (cases "va sh (k + of_nat i) = VA_BITS2_PARTDEFINED")
    case True
    with sh1 split show ?thesis by simp
  next
    case False
    have "aux_ok sh1" using sh1(2) by (simp add: unseen_def)
    from Suc.IH[OF this, of "Suc i"] obtain sh2 where
      "node_in_use k (Suc i) n sh1 = Some (\<exists>j. Suc i \<le> j \<and> j < Suc i + n \<and> ?P j, sh2)" "unseen sh1 sh2"
      by (auto simp: unseen_va[OF sh1(2)])
    with sh1 False unseen_trans[OF sh1(2)] split show ?thesis by simp
  qed
qed

lemma gc_nodes_spec:
  assumes "aux_ok sh"
  shows "\<exists>sh'. gc_nodes nodes kept sh = Some (rev (filter (\<lambda>n. in_use (va sh) (fst n)) nodes) @ kept, sh') \<and> unseen sh sh'"
  using assms
proof (induction nodes arbitrary: kept sh)
  case Nil
  then show ?case by (simp add: unseen_refl)
next
  case (Cons n nodes)
  from node_in_use_spec[OF Cons.prems, of "fst n" 0 "unat BYTES_PER_SEC_VBIT_NODE"] obtain sh1 where
    sh1: "node_in_use (fst n) 0 (unat BYTES_PER_SEC_VBIT_NODE) sh = Some (in_use (va sh) (fst n), sh1)" "unseen sh sh1"
    by (auto simp: in_use_def BYTES_PER_SEC_VBIT_NODE_def)
  have "aux_ok sh1" using sh1(2) by (simp add: unseen_def)
  from Cons.IH[OF this, of "if in_use (va sh) (fst n) then n # kept else kept"] sh1 show ?case
    using unseen_trans[OF sh1(2)] by (auto simp: unseen_va[OF sh1(2)])
qed

text \<open>What the collection keeps of the state: everything but stale nodes and the limit.\<close>

definition other :: "shadow \<Rightarrow> (nat \<Rightarrow> nat \<Rightarrow> nat) \<times> bool \<times> address_error list" where
  "other sh = (sec_limit sh, clo_partial_loads_ok sh, errors sh)"

lemma rest_other: "rest sh' = rest sh \<Longrightarrow> other sh' = other sh \<and> secVBitTable sh' = secVBitTable sh"
  by (simp add: rest_def other_def)

lemma gc_spec:
  assumes "aux_ok sh" "table_ok (secVBitTable sh)"
  shows "\<exists>sh'. gcSecVBitTable sh = Some sh' \<and> aux_ok sh' \<and> table_ok (secVBitTable sh') \<and> va sh' = va sh \<and> other sh' = other sh \<and>
    (\<forall>a. va sh a = VA_BITS2_PARTDEFINED \<longrightarrow> sec_lookup (secVBitTable sh') a = sec_lookup (secVBitTable sh) a) \<and>
    set (secVBitTable sh') = {n \<in> set (secVBitTable sh). in_use (va sh) (fst n)}"
proof -
  let ?t = "secVBitTable sh" and ?sh = "sh\<lparr>GCs_done := GCs_done sh + 1\<rparr>"
  let ?kept = "rev (filter (\<lambda>n. in_use (va sh) (fst n)) ?t)"
  have e: "aux_ok ?sh" "va ?sh = va sh" "other ?sh = other sh"
    using assms(1) by (simp_all add: other_def)
  from gc_nodes_spec[OF e(1), of ?t "[]"] obtain sh1 where
    sh1: "gc_nodes ?t [] ?sh = Some (?kept, sh1)" "unseen ?sh sh1" by (auto simp: e)
  define sh' where "sh' = sh1\<lparr>secVBitTable := ?kept, secVBitLimit := sec_limit sh1 (length ?kept) (secVBitLimit sh1)\<rparr>"
  have run: "gcSecVBitTable sh = Some sh'" using sh1(1) by (simp add: gcSecVBitTable_def sh'_def)
  have ok: "aux_ok sh'" "va sh' = va sh" "other sh' = other sh" "secVBitTable sh' = ?kept"
    using sh1(2) e unseen_va[OF sh1(2)]
    by (simp_all add: sh'_def unseen_def other_def rest_def)
  have d: "distinct (map fst ?kept)" using assms(2) by (simp add: table_ok_def distinct_map_filter flip: rev_map)
  have kept: "map_of ?kept k = map_of ?t k" if "in_use (va sh) k" for k
  proof -
    have "map_of ?kept k = Some n \<longleftrightarrow> map_of ?t k = Some n" for n
      using that assms(2) by (simp only: map_of_eq_Some_iff[OF d] map_of_eq_Some_iff table_ok_def) simp
    then show ?thesis by (metis not_None_eq)
  qed
  have "sec_lookup ?kept a = sec_lookup ?t a" if "va sh a = VA_BITS2_PARTDEFINED" for a
  proof -
    have "in_use (va sh) (sec_aligned a)" unfolding in_use_def using sec_amod_bound sec_split that by metis
    then show ?thesis by (simp add: sec_lookup_def kept)
  qed
  moreover have "table_ok ?kept" using d assms(2) by (simp add: table_ok_def)
  moreover have "set ?kept = {n \<in> set ?t. in_use (va sh) (fst n)}" by auto
  ultimately show ?thesis using run ok by auto
qed

lemma set_update_subset: "set (AList.update k v al) \<subseteq> insert (k, v) (set al)"
  by (induction al) auto

lemma table_ok_update: "table_ok t \<Longrightarrow> length n = 16 \<Longrightarrow> table_ok (AList.update k n t)"
  using set_update_subset[of k n t] by (auto simp: table_ok_def distinct_update)

lemma set_sec_spec:
  assumes "aux_ok sh" "table_ok (secVBitTable sh)" "v \<noteq> V_BITS8_DEFINED" "v \<noteq> V_BITS8_UNDEFINED"
  shows "\<exists>sh'. set_sec_vbits8 a v sh = Some sh' \<and> aux_ok sh' \<and> table_ok (secVBitTable sh') \<and> va sh' = va sh \<and> other sh' = other sh \<and>
    sec_lookup (secVBitTable sh') a = Some v \<and>
    (\<forall>b. b \<noteq> a \<and> va sh b = VA_BITS2_PARTDEFINED \<longrightarrow> sec_lookup (secVBitTable sh') b = sec_lookup (secVBitTable sh) b)"
proof (cases "map_of (secVBitTable sh) (sec_aligned a)")
  case (Some n)
  let ?t = "secVBitTable sh"
  let ?t' = "AList.update (sec_aligned a) (n[sec_amod a := v]) ?t"
  have n: "length n = 16" using Some assms(2) by (auto simp: table_ok_def dest: map_of_SomeD)
  have "sec_lookup ?t' b = sec_lookup ?t b" if "b \<noteq> a" for b
  proof (cases "sec_aligned b = sec_aligned a")
    case True
    then have "sec_amod a \<noteq> sec_amod b" using that sec_inj by metis
    with True Some show ?thesis by (simp add: sec_lookup_def update_conv)
  qed (simp add: sec_lookup_def update_conv)
  moreover have "sec_lookup ?t' a = Some v"
    using assms n sec_amod_bound[of a] by (simp add: sec_lookup_def update_conv)
  moreover have "table_ok ?t'"
    using assms(2) n by (simp add: table_ok_update)
  ultimately show ?thesis
    using Some assms by (auto simp: set_sec_vbits8_def other_def)
next
  case None
  obtain sh1 where sh1: "(if secVBitLimit sh = length (secVBitTable sh) then gcSecVBitTable sh else Some sh) = Some sh1"
    "aux_ok sh1" "table_ok (secVBitTable sh1)" "va sh1 = va sh" "other sh1 = other sh"
    "\<forall>a. va sh a = VA_BITS2_PARTDEFINED \<longrightarrow> sec_lookup (secVBitTable sh1) a = sec_lookup (secVBitTable sh) a"
    "fst ` set (secVBitTable sh1) \<subseteq> fst ` set (secVBitTable sh)"
    using gc_spec[OF assms(1,2)] assms(1,2) by (cases "secVBitLimit sh = length (secVBitTable sh)") auto
  let ?n = "(replicate (unat BYTES_PER_SEC_VBIT_NODE) V_BITS8_UNDEFINED)[sec_amod a := v]"
  let ?t = "(sec_aligned a, ?n) # secVBitTable sh1"
  have new: "sec_aligned a \<notin> fst ` set (secVBitTable sh)" using None by (simp add: map_of_eq_None_iff)
  have "sec_lookup ?t b = sec_lookup (secVBitTable sh) b" if "b \<noteq> a" "va sh b = VA_BITS2_PARTDEFINED" for b
  proof (cases "sec_aligned b = sec_aligned a")
    case True
    then have "sec_amod a \<noteq> sec_amod b" using that(1) sec_inj by metis
    then have "?n ! sec_amod b = V_BITS8_UNDEFINED"
      using sec_amod_bound[of b] by (simp add: BYTES_PER_SEC_VBIT_NODE_def)
    with True None show ?thesis by (simp add: sec_lookup_def)
  next
    case False
    then have "sec_lookup ?t b = sec_lookup (secVBitTable sh1) b" by (simp add: sec_lookup_def)
    with sh1(6) that(2) show ?thesis by simp
  qed
  moreover have "sec_lookup ?t a = Some v"
    using assms sec_amod_bound[of a] by (simp add: sec_lookup_def BYTES_PER_SEC_VBIT_NODE_def)
  moreover have "table_ok ?t" using sh1(3,7) new by (auto simp: table_ok_def BYTES_PER_SEC_VBIT_NODE_def)
  ultimately show ?thesis
    using None assms(3,4) sh1(1,2,4,5)
    by (auto simp: set_sec_vbits8_def Let_def other_def)
qed


section \<open>The abstract memory\<close>

definition vb :: "shadow \<Rightarrow> addr \<Rightarrow> u8 option" where
  "vb sh a =
     (if va sh a = VA_BITS2_NOACCESS then None
      else if va sh a = VA_BITS2_UNDEFINED then Some V_BITS8_UNDEFINED
      else if va sh a = VA_BITS2_DEFINED then Some V_BITS8_DEFINED
      else sec_lookup (secVBitTable sh) a)"

definition shadow_ok :: "shadow \<Rightarrow> bool" where
  "shadow_ok sh \<longleftrightarrow> aux_ok sh \<and> table_ok (secVBitTable sh) \<and>
     (\<forall>a. va sh a = VA_BITS2_PARTDEFINED \<longrightarrow> sec_lookup (secVBitTable sh) a \<noteq> None)"

lemma shadow_okD: "shadow_ok sh \<Longrightarrow> aux_ok sh" "shadow_ok sh \<Longrightarrow> table_ok (secVBitTable sh)"
  by (simp_all add: shadow_ok_def)

lemma va_exhaust:
  obtains "va sh a = VA_BITS2_NOACCESS" | "va sh a = VA_BITS2_UNDEFINED" | "va sh a = VA_BITS2_DEFINED"
    | "va sh a = VA_BITS2_PARTDEFINED"
  using va_cases[of sh a] by (auto simp: is_vabits2_def va_consts)

lemma va_or: "va sh a = VA_BITS2_NOACCESS \<or> va sh a = VA_BITS2_UNDEFINED \<or> va sh a = VA_BITS2_DEFINED \<or> va sh a = VA_BITS2_PARTDEFINED"
  by (rule va_exhaust[of sh a]) simp_all

lemma va_consts_neq:
  "VA_BITS2_NOACCESS \<noteq> VA_BITS2_UNDEFINED" "VA_BITS2_NOACCESS \<noteq> VA_BITS2_DEFINED" "VA_BITS2_NOACCESS \<noteq> VA_BITS2_PARTDEFINED"
  "VA_BITS2_UNDEFINED \<noteq> VA_BITS2_DEFINED" "VA_BITS2_UNDEFINED \<noteq> VA_BITS2_PARTDEFINED" "VA_BITS2_DEFINED \<noteq> VA_BITS2_PARTDEFINED"
  "V_BITS8_DEFINED \<noteq> V_BITS8_UNDEFINED"
  by (simp_all add: va_consts)

lemmas va_neq [simp] = va_consts_neq va_consts_neq[symmetric]

lemma is_vabits2_consts [simp]:
  "is_vabits2 VA_BITS2_NOACCESS" "is_vabits2 VA_BITS2_UNDEFINED" "is_vabits2 VA_BITS2_DEFINED" "is_vabits2 VA_BITS2_PARTDEFINED"
  by (simp_all add: is_vabits2_def va_consts)

lemma vb_None_iff: "shadow_ok sh \<Longrightarrow> vb sh a = None \<longleftrightarrow> va sh a = VA_BITS2_NOACCESS"
  by (rule va_exhaust[of sh a]) (auto simp: vb_def shadow_ok_def)

lemma sec_lookup_range: "sec_lookup t a = Some v \<Longrightarrow> v \<noteq> V_BITS8_DEFINED \<and> v \<noteq> V_BITS8_UNDEFINED"
  by (auto simp: sec_lookup_def split: bind_splits if_splits)

text \<open>The abstract memory determines the two bits of a byte.\<close>

definition compress :: "u8 option \<Rightarrow> u8" where
  "compress x = (case x of None \<Rightarrow> VA_BITS2_NOACCESS
     | Some v \<Rightarrow> if v = V_BITS8_DEFINED then VA_BITS2_DEFINED else if v = V_BITS8_UNDEFINED then VA_BITS2_UNDEFINED
                else VA_BITS2_PARTDEFINED)"

lemma va_compress: "shadow_ok sh \<Longrightarrow> va sh a = compress (vb sh a)"
  by (rule va_exhaust[of sh a])
    (auto simp: vb_def shadow_ok_def compress_def split: option.splits dest: sec_lookup_range)

lemma unseen_vb: "unseen sh sh' \<Longrightarrow> vb sh' = vb sh"
  using unseen_va[of sh sh'] rest_other[of sh' sh] by (simp add: vb_def fun_eq_iff unseen_def)

lemma unseen_ok: "shadow_ok sh \<Longrightarrow> unseen sh sh' \<Longrightarrow> shadow_ok sh'"
  using unseen_va[of sh sh'] rest_other[of sh' sh] by (simp add: shadow_ok_def unseen_def)

text \<open>A step that leaves the abstract memory as it is.\<close>

definition same_mem :: "shadow \<Rightarrow> shadow \<Rightarrow> bool" where
  "same_mem sh sh' \<longleftrightarrow> shadow_ok sh' \<and> vb sh' = vb sh \<and> other sh' = other sh"

lemma unseen_same: "shadow_ok sh \<Longrightarrow> unseen sh sh' \<Longrightarrow> same_mem sh sh'"
  unfolding same_mem_def by (metis rest_other unseen_def unseen_ok unseen_vb)

lemma same_mem_refl: "shadow_ok sh \<Longrightarrow> same_mem sh sh"
  by (simp add: same_mem_def)

lemma same_mem_trans: "same_mem sh sh' \<Longrightarrow> same_mem sh' sh'' \<Longrightarrow> same_mem sh sh''"
  by (simp add: same_mem_def)

lemma get_vbits8_spec:
  assumes "shadow_ok sh"
  shows "\<exists>sh'. get_vbits8 a sh = Some (vb sh a \<noteq> None, case vb sh a of None \<Rightarrow> V_BITS8_DEFINED | Some v \<Rightarrow> v, sh') \<and>
    unseen sh sh'"
proof -
  from get_vabits2_spec[OF shadow_okD(1)[OF assms], of a] obtain sh' where
    g: "get_vabits2 a sh = Some (va sh a, sh')" "unseen sh sh'" by blast
  then have "secVBitTable sh' = secVBitTable sh" by (simp add: unseen_def rest_def)
  with g assms show ?thesis
    by (rule_tac va_exhaust[of sh a])
      (auto simp: get_vbits8_def vb_def get_sec_vbits8_lookup shadow_ok_def)
qed

text \<open>Writing one byte: the two bits and, for a partially defined byte, its node.\<close>

lemma write_byte_ok:
  assumes "shadow_ok sh" "aux_ok sh'" "table_ok (secVBitTable sh')" "va sh' = (va sh)(a := v)"
    and "v = VA_BITS2_PARTDEFINED \<Longrightarrow> sec_lookup (secVBitTable sh') a \<noteq> None"
    and "\<forall>b. b \<noteq> a \<and> va sh b = VA_BITS2_PARTDEFINED \<longrightarrow> sec_lookup (secVBitTable sh') b = sec_lookup (secVBitTable sh) b"
  shows "shadow_ok sh'" "b \<noteq> a \<Longrightarrow> vb sh' b = vb sh b"
  using assms va_or[of sh b] by (auto simp: shadow_ok_def vb_def)

lemma set_vbits8_spec:
  assumes "shadow_ok sh"
  shows "\<exists>sh'. set_vbits8 a v sh = Some (vb sh a \<noteq> None, sh') \<and> shadow_ok sh' \<and> other sh' = other sh \<and>
    vb sh' = (if vb sh a = None then vb sh else (vb sh)(a \<mapsto> v))"
proof -
  from get_vabits2_spec[OF shadow_okD(1)[OF assms], of a] obtain sh1 where
    g: "get_vabits2 a sh = Some (va sh a, sh1)" "unseen sh sh1" by blast
  have ok1: "shadow_ok sh1" "other sh1 = other sh" "vb sh1 = vb sh" "va sh1 = va sh"
    using unseen_same[OF assms g(2)] unseen_va[OF g(2)] by (simp_all add: same_mem_def)
  show ?thesis
  proof (cases "va sh a = VA_BITS2_NOACCESS")
    case True
    then show ?thesis using g ok1 vb_None_iff[OF assms] by (simp add: set_vbits8_def)
  next
    case False
    define w where "w = compress (Some v)"
    obtain sh2 where sh2: "(if V_BITS8_DEFINED = v then Some (VA_BITS2_DEFINED, sh1)
          else if V_BITS8_UNDEFINED = v then Some (VA_BITS2_UNDEFINED, sh1)
          else do { sh \<leftarrow> set_sec_vbits8 a v sh1; Some (VA_BITS2_PARTDEFINED, sh) }) = Some (w, sh2)"
      "aux_ok sh2" "table_ok (secVBitTable sh2)" "va sh2 = va sh1" "other sh2 = other sh1"
      "w = VA_BITS2_PARTDEFINED \<Longrightarrow> sec_lookup (secVBitTable sh2) a = Some v"
      "\<forall>b. b \<noteq> a \<and> va sh1 b = VA_BITS2_PARTDEFINED \<longrightarrow> sec_lookup (secVBitTable sh2) b = sec_lookup (secVBitTable sh1) b"
    proof (cases "v = V_BITS8_DEFINED \<or> v = V_BITS8_UNDEFINED")
      case True
      then show thesis using that[of sh1] shadow_okD[OF ok1(1)] by (auto simp: w_def compress_def)
    next
      case False
      with set_sec_spec[of sh1 v a] shadow_okD[OF ok1(1)] obtain sh2 where
        "set_sec_vbits8 a v sh1 = Some sh2" "aux_ok sh2" "table_ok (secVBitTable sh2)" "va sh2 = va sh1" "other sh2 = other sh1"
        "sec_lookup (secVBitTable sh2) a = Some v"
        "\<forall>b. b \<noteq> a \<and> va sh1 b = VA_BITS2_PARTDEFINED \<longrightarrow> sec_lookup (secVBitTable sh2) b = sec_lookup (secVBitTable sh1) b"
        by blast
      with False show thesis using that[of sh2] by (auto simp: w_def compress_def)
    qed
    have "is_vabits2 w" by (simp add: w_def compress_def)
    from set_vabits2_spec[OF sh2(2) this, of a] obtain sh3 where
      sh3: "set_vabits2 a w sh2 = Some sh3" "aux_ok sh3" "va sh3 = (va sh1)(a := w)" "rest sh3 = rest sh2"
      by (auto simp: sh2(4))
    have t: "secVBitTable sh3 = secVBitTable sh2" "other sh3 = other sh" using rest_other[OF sh3(4)] sh2(5) ok1(2) by auto
    have "shadow_ok sh3" "\<And>b. b \<noteq> a \<Longrightarrow> vb sh3 b = vb sh1 b"
      using write_byte_ok[OF ok1(1) sh3(2) _ sh3(3)] sh2(3,6,7) by (auto simp: t)
    moreover have "vb sh3 a = Some v"
      using sh3(3) sh2(6) by (auto simp: vb_def t w_def compress_def)
    moreover have "set_vbits8 a v sh = Some (True, sh3)"
      using g(1) False sh2(1) sh3(1) by (simp add: set_vbits8_def)
    ultimately show ?thesis using False vb_None_iff[OF assms] ok1 t by auto
  qed
qed

end
