(* ===== verification/Shadow_Range_Props.thy ===== *)
theory Shadow_Range_Props
  imports Shadow_Range Shadow_Bytes
begin

text \<open>
  Setting the state of a range sets exactly the bytes of the range, whichever of the three parts of the routine and whichever
  of its loops handle them.
\<close>

section \<open>Inside one secondary map\<close>

definition vw :: "vabits \<Rightarrow> addr \<Rightarrow> u8" where "vw f b = extract_vabits2_from_vabits8 b (f (SM_OFF b))"

lemma va_of_vw: "va_of sm b = vw (contents sm) b"
  by (simp add: va_of_def vw_def)

definition covers :: "u8 \<Rightarrow> vabits \<Rightarrow> addr \<Rightarrow> nat \<Rightarrow> vabits \<Rightarrow> bool" where
  "covers v f a k f' \<longleftrightarrow> (\<forall>b. vw f' b = (if lo a \<le> lo b \<and> lo b < lo a + k then v else vw f b))"

lemma covers_0: "covers v f a 0 f"
  by (auto simp: covers_def)

lemma covers_trans:
  assumes "covers v f a k f'" "covers v f' a' m f''" "m = 0 \<or> lo a' = lo a + k"
  shows "covers v f a (k + m) f''"
  using assms by (auto simp: covers_def)

lemma lo_mod4: "lo a mod 4 = unat a mod 4"
  by (simp add: mod_mod_cancel)

lemma put_vabits2_covers:
  assumes "is_vabits2 v"
  shows "covers v f a 1 (put_vabits2 a v f)"
proof -
  have "vw (put_vabits2 a v f) b = (if lo b = lo a then v else vw f b)" for b
  proof (cases "SM_OFF b = SM_OFF a")
    case True
    have "lo b = lo a \<longleftrightarrow> unat b mod 4 = unat a mod 4"
      using True lo_mod4[of a] lo_mod4[of b] unfolding SM_OFF_eq_iff by (metis div_mult_mod_eq)
    with True show ?thesis by (simp add: vw_def put_vabits2_def extract_insert[OF assms])
  next
    case False
    then have "lo b \<noteq> lo a" by (auto simp: SM_OFF_eq_iff)
    with False show ?thesis by (simp add: vw_def put_vabits2_def)
  qed
  then show ?thesis by (auto simp: covers_def)
qed

text \<open>The three uniform patterns.\<close>

definition uniform :: "u16 \<Rightarrow> sm_dist \<Rightarrow> u8 \<Rightarrow> bool" where
  "uniform v16 dsm v2 \<longleftrightarrow>
     v16 = VA_BITS16_NOACCESS \<and> dsm = SM_DIST_NOACCESS \<and> v2 = VA_BITS2_NOACCESS \<or>
     v16 = VA_BITS16_UNDEFINED \<and> dsm = SM_DIST_UNDEFINED \<and> v2 = VA_BITS2_UNDEFINED \<or>
     v16 = VA_BITS16_DEFINED \<and> dsm = SM_DIST_DEFINED \<and> v2 = VA_BITS2_DEFINED"

lemma extract_uniform:
  assumes "uniform v16 dsm v2"
  shows "extract_vabits2_from_vabits8 b (ucast v16) = v2" "extract_vabits2_from_vabits8 b (ucast (drop_bit 8 v16)) = v2"
    "extract_vabits2_from_vabits8 b (dist_vabits8 dsm) = v2" "is_vabits2 v2" "ucast (v16 AND 3) = v2"
proof -
  have num: "(21845 :: u8) = 85" "(43690 :: u8) = 170" by simp_all
  have "extract_vabits2_from_vabits8 b 0 = 0" by (simp add: extract_vabits2_from_vabits8_def)
  moreover have "extract_vabits2_from_vabits8 b 0x55 = 1" "extract_vabits2_from_vabits8 b 0xaa = 2"
    by (rule mod4_cases[of "unat b"]; simp add: extract_vabits2_from_vabits8_def shift2_eq)+
  ultimately show "extract_vabits2_from_vabits8 b (ucast v16) = v2"
    "extract_vabits2_from_vabits8 b (ucast (drop_bit 8 v16)) = v2"
    "extract_vabits2_from_vabits8 b (dist_vabits8 dsm) = v2" "is_vabits2 v2" "ucast (v16 AND 3) = v2"
    using assms by (auto simp: uniform_def va_consts dist_vabits8_def is_vabits2_def num)
qed

lemma eight_bytes:
  "(x :: nat) mod 8 = 0 \<Longrightarrow> x \<le> y \<and> y < x + 8 \<longleftrightarrow> y div 4 = 2 * (x div 8) \<or> y div 4 = 2 * (x div 8) + 1"
proof -
  assume "x mod 8 = 0"
  then obtain m where x: "x = 8 * m" by auto
  define q where "q = y div 4"
  have "4 * q \<le> y" "y < 4 * q + 4" by (simp_all add: q_def)
  then show ?thesis unfolding x q_def[symmetric] by auto
qed

lemma set16_covers:
  assumes "VG_IS_8_ALIGNED a" "uniform v16 dsm v2"
  shows "covers v2 f a 8 (set16 (SM_OFF_16 a) v16 f)"
proof -
  have al: "lo a mod 8 = 0" using arg_cong[OF assms(1), of unat] by (simp add: unat_and mod_mod_cancel)
  have i: "unat (SM_OFF_16 a) = lo a div 8" "lo a div 8 < 8192" by (simp_all add: unat_SM_OFF_16 div_less_iff_less_mult)
  then have u: "unat (2 * SM_OFF_16 a) = 2 * (lo a div 8)" "unat (2 * SM_OFF_16 a + 1) = 2 * (lo a div 8) + 1"
    by (simp_all add: unat_word_ariths)
  have "vw (set16 (SM_OFF_16 a) v16 f) b = (if lo a \<le> lo b \<and> lo b < lo a + 8 then v2 else vw f b)" for b
  proof -
    have "SM_OFF b = 2 * SM_OFF_16 a \<longleftrightarrow> lo b div 4 = 2 * (lo a div 8)"
      "SM_OFF b = 2 * SM_OFF_16 a + 1 \<longleftrightarrow> lo b div 4 = 2 * (lo a div 8) + 1"
      by (simp_all only: word_unat_eq_iff unat_SM_OFF u)
    moreover have "lo a \<le> lo b \<and> lo b < lo a + 8 \<longleftrightarrow> lo b div 4 = 2 * (lo a div 8) \<or> lo b div 4 = 2 * (lo a div 8) + 1"
      using al by (rule eight_bytes)
    ultimately show ?thesis by (auto simp: vw_def set16_def extract_uniform[OF assms(2)])
  qed
  then show ?thesis by (simp add: covers_def)
qed

lemma lo_add:
  assumes "lo a + k < 65536"
  shows "lo (a + of_nat k) = lo a + k"
proof -
  have "unat (a + of_nat k) mod 65536 = (unat a + k) mod 65536"
    using assms by (simp add: unat_word_ariths unat_of_nat take_bit_eq_mod mod_mod_cancel mod_add_right_eq)
  also have "\<dots> = lo a + k" using assms by (metis mod_add_left_eq mod_less)
  finally show ?thesis .
qed

lemma aligned_lo: "VG_IS_8_ALIGNED a \<longleftrightarrow> lo a mod 8 = 0"
proof -
  have "VG_IS_8_ALIGNED a \<longleftrightarrow> unat (a AND 7) = 0" by (simp add: unat_eq_0)
  then show ?thesis by (simp add: unat_and mod_mod_cancel)
qed

lemma unat_less_numeral: "\<not> len < 1 \<longleftrightarrow> 1 \<le> unat (len :: u64)" "\<not> len < 8 \<longleftrightarrow> 8 \<le> unat (len :: u64)"
  by (simp_all add: word_less_nat_alt not_less Suc_le_eq)

text \<open>The premise: the bytes still to be set lie in the same secondary map.\<close>

definition fits :: "addr \<Rightarrow> u64 \<Rightarrow> bool" where "fits a len \<longleftrightarrow> len = 0 \<or> lo a + unat len \<le> 65536"

lemma fits_step:
  assumes "fits a len" "k \<le> unat len" "k < 65536"
  shows "unat (len - of_nat k) = unat len - k" "fits (a + of_nat k) (len - of_nat k)"
    "unat len - k = 0 \<or> lo (a + of_nat k) = lo a + k"
proof -
  have "unat (of_nat k :: u64) = k" using assms(3) by (simp add: unat_of_nat take_bit_eq_mod)
  then show u: "unat (len - of_nat k) = unat len - k"
    using assms(2) by (simp add: unat_sub word_le_nat_alt)
  show l: "unat len - k = 0 \<or> lo (a + of_nat k) = lo a + k"
  proof (cases "unat len - k = 0")
    case False
    then have "lo a + k < 65536" using assms(1,2) by (auto simp: fits_def)
    then show ?thesis using lo_add by blast
  qed simp
  show "fits (a + of_nat k) (len - of_nat k)"
  proof (cases "unat len - k = 0")
    case True
    then show ?thesis using u by (metis fits_def unat_eq_0)
  next
    case False
    with l u assms(1,2) show ?thesis by (auto simp: fits_def)
  qed
qed

lemma loop1_covers:
  assumes "is_vabits2 v" "fits a len"
  shows "\<exists>f'. loop1 v f a len = (f', a + len, 0) \<and> covers v f a (unat len) f'"
  using assms
proof (induction v f a len rule: loop1.induct)
  case (1 v f a len)
  show ?case
  proof (cases "len < 1")
    case True
    then have "len = 0" by (simp add: word_less_nat_alt unat_eq_0)
    then show ?thesis by (simp add: loop1.simps covers_0)
  next
    case False
    note st = fits_step[OF 1(3), of 1, simplified]
    have one: "1 \<le> unat len" using False unat_less_numeral(1) by blast
    from 1(1)[OF False 1(2)] st one obtain f' where
      f': "loop1 v (put_vabits2 a v f) (a + 1) (len - 1) = (f', a + len, 0)"
      "covers v (put_vabits2 a v f) (a + 1) (unat len - 1) f'" by auto
    have "covers v f a (1 + (unat len - 1)) f'"
      by (rule covers_trans[OF put_vabits2_covers[OF 1(2)] f'(2)]) (use st one in auto)
    with f'(1) one False show ?thesis by (simp add: loop1.simps[of v f a len])
  qed
qed

lemma loop1_aligned_covers:
  assumes "is_vabits2 v" "fits a len"
  shows "\<exists>f' k. k \<le> unat len \<and> loop1_aligned v f a len = (f', a + of_nat k, len - of_nat k) \<and> covers v f a k f' \<and>
    (VG_IS_8_ALIGNED (a + of_nat k) \<or> k = unat len)"
  using assms
proof (induction v f a len rule: loop1_aligned.induct)
  case (1 v f a len)
  show ?case
  proof (cases "VG_IS_8_ALIGNED a \<or> len < 1")
    case True
    then show ?thesis
      by (intro exI[of _ f] exI[of _ 0]) (auto simp: loop1_aligned.simps[of v f a len] covers_0 word_less_nat_alt)
  next
    case False
    note st = fits_step[OF 1(3), of 1, simplified]
    have one: "1 \<le> unat len" using False unat_less_numeral(1) by blast
    from 1(1) False 1(2) st one obtain f' k where
      f': "k \<le> unat len - 1"
      "loop1_aligned v (put_vabits2 a v f) (a + 1) (len - 1) = (f', a + 1 + of_nat k, len - 1 - of_nat k)"
      "covers v (put_vabits2 a v f) (a + 1) k f'" "VG_IS_8_ALIGNED (a + 1 + of_nat k) \<or> k = unat len - 1" by auto
    have "covers v f a (1 + k) f'"
      by (rule covers_trans[OF put_vabits2_covers[OF 1(2)] f'(3)]) (use st one f'(1) in auto)
    then show ?thesis using f' one False
      by (intro exI[of _ f'] exI[of _ "1 + k"]) (auto simp: loop1_aligned.simps[of v f a len] algebra_simps)
  qed
qed

lemma loop8_covers:
  assumes "uniform v16 dsm v2" "fits a len" "VG_IS_8_ALIGNED a"
  shows "\<exists>f' k. k \<le> unat len \<and> k < 65537 \<and> unat len - k < 8 \<and> loop8 v16 f a len = (f', a + of_nat k, len - of_nat k) \<and>
    covers v2 f a k f'"
  using assms
proof (induction v16 f a len rule: loop8.induct)
  case (1 v16 f a len)
  show ?case
  proof (cases "len < 8")
    case True
    then show ?thesis
      by (intro exI[of _ f] exI[of _ 0]) (auto simp: loop8.simps[of v16 f a len] covers_0 word_less_nat_alt)
  next
    case False
    note st = fits_step[OF 1(3), of 8, simplified]
    have eight: "8 \<le> unat len" using False unat_less_numeral(2) by blast
    have al: "VG_IS_8_ALIGNED (a + 8)"
    proof -
      have "unat (a + 8) mod 8 = (unat a + 8) mod 8" by (simp add: unat_word_ariths mod_mod_cancel)
      also have "\<dots> = 0" using 1(4) by (metis mod_add_self2 unat_0 unat_and(4))
      finally show ?thesis by (metis unat_and(4) unat_eq_0)
    qed
    from 1(1)[OF False 1(2) _ al] st eight obtain f' k where
      f': "k \<le> unat len - 8" "unat len - 8 - k < 8"
      "loop8 v16 (set16 (SM_OFF_16 a) v16 f) (a + 8) (len - 8) = (f', a + 8 + of_nat k, len - 8 - of_nat k)"
      "covers v2 (set16 (SM_OFF_16 a) v16 f) (a + 8) k f'" by auto
    have "covers v2 f a (8 + k) f'"
      by (rule covers_trans[OF set16_covers[OF 1(4,2)] f'(4)]) (use st eight f'(1) in auto)
    moreover have "8 + k < 65537" using f'(1) eight 1(3) by (auto simp: fits_def)
    ultimately show ?thesis using f' eight False
      by (intro exI[of _ f'] exI[of _ "8 + k"]) (auto simp: loop8.simps[of v16 f a len] algebra_simps)
  qed
qed

lemma fits_step_weak:
  assumes "fits a len" "k \<le> unat len"
  shows "unat (len - of_nat k) = unat len - k" "fits (a + of_nat k) (len - of_nat k)"
    "unat len - k = 0 \<or> lo (a + of_nat k) = lo a + k"
proof -
  have "k < 65536 \<or> k = unat len" using assms by (auto simp: fits_def)
  then have "k < 65536 \<or> k = unat len \<and> of_nat k = len" by auto
  then show "unat (len - of_nat k) = unat len - k" "fits (a + of_nat k) (len - of_nat k)"
    "unat len - k = 0 \<or> lo (a + of_nat k) = lo a + k"
    using fits_step[OF assms] by (auto simp: fits_def)
qed

text \<open>The two sequences of loops of the routine.\<close>

lemma loop81_covers:
  assumes "uniform v16 dsm v2" "fits a len" "VG_IS_8_ALIGNED a \<or> len = 0"
  shows "\<exists>f'. (let (f, a, len) = loop8 v16 f a len in loop1 v2 f a len) = (f', a + len, 0) \<and> covers v2 f a (unat len) f'"
proof (cases "len = 0")
  case True
  then show ?thesis by (simp add: loop8.simps loop1.simps covers_0)
next
  case False
  from loop8_covers[OF assms(1,2)] False assms(3) obtain f1 k where
    f1: "k \<le> unat len" "loop8 v16 f a len = (f1, a + of_nat k, len - of_nat k)" "covers v2 f a k f1" by blast
  note st = fits_step_weak[OF assms(2) f1(1)]
  from loop1_covers[OF extract_uniform(4)[OF assms(1)] st(2), of f1] obtain f2 where
    f2: "loop1 v2 f1 (a + of_nat k) (len - of_nat k) = (f2, a + len, 0)" "covers v2 f1 (a + of_nat k) (unat len - k) f2"
    by (auto simp: st(1))
  have "covers v2 f a (k + (unat len - k)) f2" by (rule covers_trans[OF f1(3) f2(2)]) (use st in auto)
  with f1 f2 show ?thesis by simp
qed

lemma loop181_covers:
  assumes "uniform v16 dsm v2" "fits a len"
  shows "\<exists>f'. (let (f, a, len) = loop1_aligned v2 f a len; (f, a, len) = loop8 v16 f a len in loop1 v2 f a len) = (f', a + len, 0) \<and>
    covers v2 f a (unat len) f'"
proof -
  from loop1_aligned_covers[OF extract_uniform(4)[OF assms(1)] assms(2), of f] obtain f1 k where
    f1: "k \<le> unat len" "loop1_aligned v2 f a len = (f1, a + of_nat k, len - of_nat k)" "covers v2 f a k f1"
    "VG_IS_8_ALIGNED (a + of_nat k) \<or> k = unat len" by blast
  note st = fits_step_weak[OF assms(2) f1(1)]
  from f1(4) have "VG_IS_8_ALIGNED (a + of_nat k) \<or> len - of_nat k = 0" by auto
  from loop81_covers[OF assms(1) st(2) this, of f1] obtain f2 where
    f2: "(let (f, a, len) = loop8 v16 f1 (a + of_nat k) (len - of_nat k) in loop1 v2 f a len) = (f2, a + len, 0)"
    "covers v2 f1 (a + of_nat k) (unat len - k) f2" by (auto simp: st(1))
  have "covers v2 f a (k + (unat len - k)) f2" by (rule covers_trans[OF f1(3) f2(2)]) (use st in auto)
  with f1 f2 show ?thesis by simp
qed


section \<open>Ranges of addresses\<close>

definition in_range :: "addr \<Rightarrow> nat \<Rightarrow> addr \<Rightarrow> bool" where
  "in_range a n b \<longleftrightarrow> unat a \<le> unat b \<and> unat b < unat a + n"

lemma in_range_0 [simp]: "\<not> in_range a 0 b"
  by (simp add: in_range_def)

lemma in_range_add:
  assumes "n = 0 \<or> unat a' = unat a + m"
  shows "in_range a (m + n) b \<longleftrightarrow> in_range a m b \<or> in_range a' n b"
  using assms by (auto simp: in_range_def)

lemma block_arith:
  fixes A B x y n k :: nat
  assumes "y < k" "x + n \<le> k"
  shows "k * A + x \<le> k * B + y \<and> k * B + y < k * A + x + n \<longleftrightarrow> B = A \<and> x \<le> y \<and> y < x + n"
proof -
  consider "B = A" | "Suc B \<le> A" | "Suc A \<le> B" by linarith
  then show ?thesis
  proof cases
    case 2
    then have "k * Suc B \<le> k * A" by (rule mult_le_mono2)
    with assms 2 show ?thesis by simp
  next
    case 3
    then have "k * Suc A \<le> k * B" by (rule mult_le_mono2)
    with assms 3 show ?thesis by simp
  qed auto
qed

lemma in_range_lo:
  assumes "lo a + n \<le> 65536"
  shows "in_range a n b \<longleftrightarrow> hi b = hi a \<and> lo a \<le> lo b \<and> lo b < lo a + n"
proof -
  have e: "unat x = 65536 * (unat x div 65536) + lo x" for x :: addr by simp
  have "in_range a n b \<longleftrightarrow> 65536 * (unat a div 65536) + lo a \<le> 65536 * (unat b div 65536) + lo b \<and>
      65536 * (unat b div 65536) + lo b < 65536 * (unat a div 65536) + lo a + n"
    unfolding in_range_def using e[of a] e[of b] by simp
  also have "\<dots> \<longleftrightarrow> unat b div 65536 = unat a div 65536 \<and> lo a \<le> lo b \<and> lo b < lo a + n"
    using assms by (intro block_arith) simp_all
  finally show ?thesis by (simp add: hi_eq_iff)
qed

lemma unat_lo: "unat (of_nat (lo a) :: u64) = lo a"
  by (simp add: unat_of_nat take_bit_eq_mod)

lemma start_add_lo: "start_of_this_sm a + of_nat (lo a) = a"
proof -
  have s: "unat (start_of_this_sm a) = 65536 * (unat a div 65536)"
    using unat_base[of a] by (simp add: base_64k_def start_of_this_sm_def)
  note l = unat_lo[of a]
  have "unat a < 2 ^ 64" using unat_bound[of a] by simp
  then have "unat (start_of_this_sm a) + unat (of_nat (lo a) :: u64) < 2 ^ 64" by (simp add: s l)
  then show ?thesis by (simp add: word_unat_eq_iff unat_word_ariths s l)
qed

lemma len_to_next: "start_of_this_sm a + SM_SIZE - a = SM_SIZE - of_nat (lo a)"
  "unat (start_of_this_sm a + SM_SIZE - a) = 65536 - lo a"
proof -
  show e: "start_of_this_sm a + SM_SIZE - a = SM_SIZE - of_nat (lo a)"
    using add_diff_cancel_left[of "start_of_this_sm a" SM_SIZE "of_nat (lo a)"] by (simp only: start_add_lo)
  note l = unat_lo[of a]
  have "lo a \<le> 65536" by (simp add: less_imp_le)
  then have "of_nat (lo a) \<le> SM_SIZE" by (simp add: word_le_nat_alt l SM_SIZE_def)
  then show "unat (start_of_this_sm a + SM_SIZE - a) = 65536 - lo a"
    unfolding e by (simp add: unat_sub l SM_SIZE_def)
qed

lemma start_of_sm_iff: "is_start_of_sm a \<longleftrightarrow> lo a = 0"
proof -
  have "is_start_of_sm a \<longleftrightarrow> start_of_this_sm a = start_of_this_sm a + of_nat (lo a)"
    by (simp only: is_start_of_sm_def start_add_lo)
  also have "\<dots> \<longleftrightarrow> of_nat (lo a) = (0 :: u64)" by (rule add_cancel_right_right)
  also have "\<dots> \<longleftrightarrow> unat (of_nat (lo a) :: u64) = 0" by (simp only: word_unat_eq_iff unat_0)
  also have "\<dots> \<longleftrightarrow> lo a = 0" by (simp only: unat_lo)
  finally show ?thesis .
qed


section \<open>The parts of the routine\<close>

definition set_range :: "addr \<Rightarrow> nat \<Rightarrow> 'v \<Rightarrow> (addr \<Rightarrow> 'v) \<Rightarrow> addr \<Rightarrow> 'v" where
  "set_range a n v m = (\<lambda>b. if in_range a n b then v else m b)"

lemma uniform_dist: "uniform v16 dsm v2 \<Longrightarrow> va_of (Distinguished dsm) b = v2"
  by (simp add: va_of_def extract_uniform)

lemma write_covers:
  assumes "covers v2 (contents (sm_of sh a)) a n f" "lo a + n \<le> 65536"
    and "sm_of sh' = (\<lambda>b. if hi b = hi a then Issued f else sm_of sh b)"
  shows "va sh' = set_range a n v2 (va sh)"
proof
  fix b
  have "contents (sm_of sh b) = contents (sm_of sh a)" if "hi b = hi a" using sm_of_same[OF that] by simp
  then show "va sh' b = set_range a n v2 (va sh) b"
    using assms(1,3) by (auto simp: va_def va_of_vw set_range_def in_range_lo[OF assms(2)] covers_def)
qed

lemma part1_spec:
  assumes "aux_ok sh" "uniform v16 dsm v2" "lo a + unat len \<le> 65536"
  shows "\<exists>a' sh'. sarp_part1 v16 dsm a len sh = Some (a', sh') \<and> (a' = a + len \<or> a' = start_of_this_sm a + SM_SIZE) \<and>
    aux_ok sh' \<and> rest sh' = rest sh \<and> va sh' = set_range a (unat len) v2 (va sh)"
proof -
  from get_secmap_ptr_spec[OF assms(1), of a] obtain p sh1 where
    p: "get_secmap_ptr a sh = Some (p, sh1)" "unseen sh sh1" "ptr_of p a sh1" by blast
  then have e: "aux_ok sh1" "sm_of sh1 = sm_of sh" "rest sh1 = rest sh" "va sh1 = va sh"
    by (auto simp: unseen_def unseen_va)
  show ?thesis
  proof (cases "sm_of sh a = Distinguished dsm")
    case True
    have "va sh b = v2" if "hi b = hi a" for b
      using uniform_dist[OF assms(2)] True sm_of_same[OF that] by (simp add: va_def)
    then have "va sh = set_range a (unat len) v2 (va sh)"
      by (auto simp: set_range_def in_range_lo[OF assms(3)])
    with True p(1) e deref_ptr[OF p(3)] show ?thesis by (auto simp: sarp_part1_def)
  next
    case False
    from make_writable_spec[OF e(1) p(3)] obtain sh2 where
      sh2: "make_writable p sh1 = Some (contents (sm_of sh a), sh2)" "aux_ok sh2" "rest sh2 = rest sh" "ptr_of p a sh2"
      "sm_of sh2 = (\<lambda>b. if hi b = hi a then Issued (contents (sm_of sh a)) else sm_of sh b)"
      unfolding e by blast
    have "fits a len" using assms(3) by (simp add: fits_def)
    from loop181_covers[OF assms(2) this, of "contents (sm_of sh a)"] obtain f where
      f: "(let (f, a, len) = loop1_aligned v2 (contents (sm_of sh a)) a len; (f, a, len) = loop8 v16 f a len in loop1 v2 f a len) = (f, a + len, 0)"
      "covers v2 (contents (sm_of sh a)) a (unat len) f" by blast
    note as = assign_ptr[OF sh2(2,4), of "Issued f"]
    have "sm_of (assign p (Issued f) sh2) = (\<lambda>b. if hi b = hi a then Issued f else sm_of sh b)"
      by (simp add: as sh2(5) fun_eq_iff)
    from write_covers[OF f(2) assms(3) this]
    have "va (assign p (Issued f) sh2) = set_range a (unat len) v2 (va sh)" .
    moreover have "sarp_part1 v16 dsm a len sh = Some (a + len, assign p (Issued f) sh2)"
      using False p(1) deref_ptr[OF p(3)] sh2(1) f(1) extract_uniform(5)[OF assms(2)]
      by (simp add: sarp_part1_def e Let_def case_prod_beta)
    ultimately show ?thesis using as(1,3) sh2(3) by auto
  qed
qed

lemma set_range_trans:
  assumes "n = 0 \<or> unat a' = unat a + m"
  shows "set_range a' n v (set_range a m v f) = set_range a (m + n) v f"
  using in_range_add[OF assms] by (auto simp: set_range_def)

text \<open>The next block, unless the range ends with the address space.\<close>

lemma next_block:
  assumes "lo a = 0" "unat a + unat len \<le> 2 ^ 64" "65536 \<le> unat len"
  shows "unat (len - SM_SIZE) = unat len - 65536" "lo (a + SM_SIZE) = 0"
    "unat (len - SM_SIZE) = 0 \<or> unat (a + SM_SIZE) = unat a + 65536"
    "unat (a + SM_SIZE) + unat (len - SM_SIZE) \<le> 2 ^ 64"
proof -
  show u: "unat (len - SM_SIZE) = unat len - 65536" using assms(3) by (simp add: unat_sub word_le_nat_alt SM_SIZE_def)
  have s: "unat (a + SM_SIZE) = (unat a + 65536) mod 2 ^ 64" by (simp add: unat_word_ariths SM_SIZE_def)
  have "(unat a + 65536) mod 2 ^ 64 mod 65536 = (unat a + 65536) mod 65536" by (rule mod_mod_cancel) simp
  then show "lo (a + SM_SIZE) = 0" using assms(1) by (simp add: s)
  have "unat a + 65536 = 2 ^ 64 \<or> unat a + 65536 < 2 ^ 64" using assms(2,3) by linarith
  then show "unat (len - SM_SIZE) = 0 \<or> unat (a + SM_SIZE) = unat a + 65536"
    "unat (a + SM_SIZE) + unat (len - SM_SIZE) \<le> 2 ^ 64"
    using assms(2,3) u s by auto
qed

lemma part2_spec:
  assumes "aux_ok sh" "uniform v16 dsm v2" "lo a = 0" "unat a + unat len \<le> 2 ^ 64"
  shows "\<exists>a' len' sh' n. sarp_part2 dsm a len sh = Some (a', len', sh') \<and> aux_ok sh' \<and> rest sh' = rest sh \<and>
    va sh' = set_range a n v2 (va sh) \<and> unat len' < 65536 \<and> lo a' = 0 \<and> n + unat len' = unat len \<and>
    (unat len' = 0 \<or> unat a' = unat a + n)"
  using assms
proof (induction dsm a len sh rule: sarp_part2.induct)
  case (1 dsm a len sh)
  show ?case
  proof (cases "len < SM_SIZE")
    case True
    then show ?thesis using 1(2,4)
      by (intro exI[of _ a] exI[of _ len] exI[of _ sh] exI[of _ 0])
        (auto simp: sarp_part2.simps[of dsm a len sh] set_range_def SM_SIZE_def word_less_nat_alt)
  next
    case False
    have big: "65536 \<le> unat len" using False by (simp add: SM_SIZE_def word_less_nat_alt)
    note nb = next_block[OF 1(4,5) big]
    from get_secmap_ptr_spec[OF 1(2), of a] obtain p sh1 where
      p: "get_secmap_ptr a sh = Some (p, sh1)" "unseen sh sh1" "ptr_of p a sh1" by blast
    define sh2 where "sh2 = assign p (Distinguished dsm) (update_SM_counts (sm_of sh1 a) (Distinguished dsm) sh1)"
    have up: "aux_ok (update_SM_counts (sm_of sh1 a) (Distinguished dsm) sh1)"
      "ptr_of p a (update_SM_counts (sm_of sh1 a) (Distinguished dsm) sh1)"
      using p by (simp_all add: update_SM_counts_unseen unseen_def)
    have sh2: "aux_ok sh2" "rest sh2 = rest sh" "sm_of sh2 = (\<lambda>b. if hi b = hi a then Distinguished dsm else sm_of sh b)"
      using assign_ptr[OF up, of "Distinguished dsm"] p(2)
      by (simp_all add: sh2_def update_SM_counts_unseen unseen_def fun_eq_iff)
    have "lo a + 65536 \<le> 65536" using 1(4) by simp
    then have va2: "va sh2 = set_range a 65536 v2 (va sh)"
      using uniform_dist[OF 1(3)] sh2(3) 1(4) by (auto simp: set_range_def in_range_lo va_def fun_eq_iff)
    have start: "\<not> \<not> is_start_of_sm a" using 1(4) by (simp add: start_of_sm_iff)
    from 1(1)[OF False start p(1) refl deref_ptr[OF p(3)] sh2(1)[unfolded sh2_def] 1(3) nb(2,4), folded sh2_def] obtain a' len' sh' n where
      r: "sarp_part2 dsm (a + SM_SIZE) (len - SM_SIZE) sh2 = Some (a', len', sh')" "aux_ok sh'" "rest sh' = rest sh2"
      "va sh' = set_range (a + SM_SIZE) n v2 (va sh2)" "unat len' < 65536" "lo a' = 0" "n + unat len' = unat (len - SM_SIZE)"
      "unat len' = 0 \<or> unat a' = unat (a + SM_SIZE) + n"
      by (elim exE conjE) (rule that)
    have "sarp_part2 dsm a len sh = Some (a', len', sh')"
      using r(1) False start p(1) deref_ptr[OF p(3)] by (simp add: sarp_part2.simps[of dsm a len sh] sh2_def)
    moreover have "n = 0 \<or> unat (a + SM_SIZE) = unat a + 65536" using nb(3) r(7) by auto
    then have "va sh' = set_range a (65536 + n) v2 (va sh)" by (simp add: r(4) va2 set_range_trans)
    moreover have "65536 + n + unat len' = unat len" using r(7) nb(1) big by simp
    moreover have "unat len' = 0 \<or> unat a' = unat a + (65536 + n)" using r(7,8) nb(3) by auto
    ultimately show ?thesis using r(2,3,5,6) sh2(2) by metis
  qed
qed

lemma part3_spec:
  assumes "aux_ok sh" "uniform v16 dsm v2" "lo a = 0" "unat len < 65536"
  shows "\<exists>sh'. sarp_part3 v16 dsm a len sh = Some sh' \<and> aux_ok sh' \<and> rest sh' = rest sh \<and> va sh' = set_range a (unat len) v2 (va sh)"
proof -
  have al: "VG_IS_8_ALIGNED a" using assms(3) by (simp add: aligned_lo)
  have fit: "lo a + unat len \<le> 65536" "fits a len" using assms(3,4) by (simp_all add: fits_def)
  have l1: "loop1_aligned v2 f a len = (f, a, len)" for f using al by (simp add: loop1_aligned.simps)
  have guard: "is_start_of_sm a \<and> len < SM_SIZE" using assms(3,4) by (simp add: start_of_sm_iff SM_SIZE_def word_less_nat_alt)
  have "sarp_part3 v16 dsm a len sh = map_option snd (sarp_part1 v16 dsm a len sh)"
    using guard extract_uniform(5)[OF assms(2)]
    by (cases "get_secmap_ptr a sh")
      (auto simp: sarp_part3_def sarp_part1_def l1 Let_def case_prod_beta bind_map_option map_option_bind split: bind_splits)
  with part1_spec[OF assms(1,2) fit(1)] show ?thesis by auto
qed

lemma parts23_spec:
  assumes "aux_ok sh" "uniform v16 dsm v2" "lo a = 0" "unat a + unat len \<le> 2 ^ 64"
  shows "\<exists>sh'. sarp_parts23 v16 dsm a len sh = Some sh' \<and> aux_ok sh' \<and> rest sh' = rest sh \<and> va sh' = set_range a (unat len) v2 (va sh)"
proof -
  from part2_spec[OF assms] obtain a' len' sh' n where
    p2: "sarp_part2 dsm a len sh = Some (a', len', sh')" "aux_ok sh'" "rest sh' = rest sh" "va sh' = set_range a n v2 (va sh)"
    "unat len' < 65536" "lo a' = 0" "n + unat len' = unat len" "unat len' = 0 \<or> unat a' = unat a + n"
    by (elim exE conjE) (rule that)
  show ?thesis
  proof (cases "len' = 0")
    case True
    then show ?thesis using p2 by (simp add: sarp_parts23_def)
  next
    case False
    from part3_spec[OF p2(2) assms(2) p2(6,5)] obtain sh'' where
      p3: "sarp_part3 v16 dsm a' len' sh' = Some sh''" "aux_ok sh''" "rest sh'' = rest sh'" "va sh'' = set_range a' (unat len') v2 (va sh')"
      by (elim exE conjE) (rule that)
    have "va sh'' = set_range a (n + unat len') v2 (va sh)"
      unfolding p3(4) p2(4) by (rule set_range_trans) (use p2(8) in simp)
    then show ?thesis using False p2(1,3,7) p3(1-3) by (simp add: sarp_parts23_def)
  qed
qed

lemma round_up:
  fixes x l q :: nat
  assumes "x = 65536 * q + l" "l \<le> 65536"
  shows "(x + (65536 - l)) mod 65536 = 0"
proof -
  have "x + (65536 - l) = 65536 * (q + 1)" using assms by (simp add: algebra_simps)
  then show ?thesis by (simp only: mod_mult_self1_is_0)
qed

lemma set_address_range_perms_va:
  assumes "aux_ok sh" "uniform v16 dsm v2" "unat a + unat lenT \<le> 2 ^ 64"
  shows "\<exists>sh'. set_address_range_perms a lenT v16 dsm sh = Some sh' \<and> aux_ok sh' \<and> rest sh' = rest sh \<and>
    va sh' = set_range a (unat lenT) v2 (va sh)"
proof -
  let ?n = "start_of_this_sm a + SM_SIZE - a"
  have v16: "v16 = VA_BITS16_NOACCESS \<or> v16 = VA_BITS16_UNDEFINED \<or> v16 = VA_BITS16_DEFINED"
    using assms(2) by (auto simp: uniform_def)
  note nx = len_to_next(2)[of a]
  consider "lenT = 0" | "lenT \<noteq> 0" "lenT \<le> ?n" | "\<not> lenT \<le> ?n" "is_start_of_sm a" "lenT \<noteq> 0"
    | "\<not> lenT \<le> ?n" "\<not> is_start_of_sm a" "lenT \<noteq> 0" by blast
  then show ?thesis
  proof cases
    case 1
    then show ?thesis using assms(1) v16 by (simp add: set_address_range_perms_def set_range_def)
  next
    case 2
    then have "lo a + unat lenT \<le> 65536" using nx by (simp add: word_le_nat_alt)
    from part1_spec[OF assms(1,2) this] 2 v16 show ?thesis by (auto simp: set_address_range_perms_def)
  next
    case 3
    with parts23_spec[OF assms(1,2) _ assms(3)] v16 show ?thesis
      by (simp add: set_address_range_perms_def start_of_sm_iff)
  next
    case 4
    have big: "65536 - lo a < unat lenT" using 4(1) nx by (simp add: word_le_nat_alt)
    have "lo a \<le> 65536" by (simp add: less_imp_le)
    then have "lo a + unat ?n \<le> 65536" by (simp add: nx)
    from part1_spec[OF assms(1,2) this] obtain a' sh1 where
      p1: "sarp_part1 v16 dsm a ?n sh = Some (a', sh1)" "a' = a + ?n" "aux_ok sh1" "rest sh1 = rest sh"
      "va sh1 = set_range a (unat ?n) v2 (va sh)" by auto
    have n0: "unat a = 65536 * (unat a div 65536) + lo a" by simp
    have "unat a' = (unat a + (65536 - lo a)) mod 2 ^ 64"
      unfolding p1(2) by (subst unat_word_ariths(1), subst nx) simp
    then have ua: "unat a' = unat a + (65536 - lo a)" "unat (lenT - ?n) = unat lenT - (65536 - lo a)"
      using big assms(3) nx by (simp_all add: unat_sub word_le_nat_alt)
    have "lo a' = 0" unfolding ua by (rule round_up[OF n0 \<open>lo a \<le> 65536\<close>])
    from parts23_spec[OF p1(3) assms(2) this, of "lenT - ?n"] ua big assms(3) obtain sh' where
      p2: "sarp_parts23 v16 dsm a' (lenT - ?n) sh1 = Some sh'" "aux_ok sh'" "rest sh' = rest sh1"
      "va sh' = set_range a' (unat (lenT - ?n)) v2 (va sh1)" by auto
    have "va sh' = set_range a (unat ?n + unat (lenT - ?n)) v2 (va sh)"
      unfolding p2(4) p1(5) by (rule set_range_trans) (use ua nx in simp)
    then have "va sh' = set_range a (unat lenT) v2 (va sh)" using ua nx big by simp
    then show ?thesis using p1 p2 4 v16 by (simp add: set_address_range_perms_def)
  qed
qed

text \<open>On the abstract memory: the three fills.\<close>

definition fill :: "u8 \<Rightarrow> u8 option" where
  "fill v2 = (if v2 = VA_BITS2_NOACCESS then None else if v2 = VA_BITS2_UNDEFINED then Some V_BITS8_UNDEFINED
     else Some V_BITS8_DEFINED)"

lemma uniform_not_part: "uniform v16 dsm v2 \<Longrightarrow> v2 \<noteq> VA_BITS2_PARTDEFINED"
  by (auto simp: uniform_def)

lemma fill_vb:
  assumes "shadow_ok sh" "aux_ok sh'" "rest sh' = rest sh" "uniform v16 dsm v2" "va sh' = set_range a n v2 (va sh)"
  shows "shadow_ok sh' \<and> other sh' = other sh \<and> vb sh' = set_range a n (fill v2) (vb sh)"
proof -
  have t: "secVBitTable sh' = secVBitTable sh" "other sh' = other sh" using rest_other[OF assms(3)] by auto
  show ?thesis
    using assms(1,2,4,5) t by (auto simp: shadow_ok_def vb_def set_range_def fill_def uniform_def fun_eq_iff)
qed

lemma set_address_range_perms_spec:
  assumes "shadow_ok sh" "uniform v16 dsm v2" "unat a + unat lenT \<le> 2 ^ 64"
  shows "\<exists>sh'. set_address_range_perms a lenT v16 dsm sh = Some sh' \<and> shadow_ok sh' \<and> other sh' = other sh \<and>
    vb sh' = set_range a (unat lenT) (fill v2) (vb sh)"
  using set_address_range_perms_va[OF shadow_okD(1)[OF assms(1)] assms(2,3)] fill_vb[OF assms(1) _ _ assms(2)] by blast

end
