(* ===== verification/Shadow_Cells.thy ===== *)
theory Shadow_Cells
  imports Shadow_Range_Props
begin

text \<open>
  Groups of bytes that share one entry of a secondary map: the four bytes of an aligned word and the eight bytes of an
  aligned double word, as they are read and written in one go.
\<close>

section \<open>Offsets\<close>

lemma add_off: "(a :: addr) + of_nat (unat (b - a)) = b"
  by simp

lemma unat_off: "k < 2 ^ 64 \<Longrightarrow> unat (of_nat k :: addr) = k"
  by (simp add: unat_of_nat take_bit_eq_mod)

lemma off_eq_iff: "k < 2 ^ 64 \<Longrightarrow> unat (b - a) = k \<longleftrightarrow> b = (a :: addr) + of_nat k"
  using unat_off[of k] by auto

lemma in_range_off:
  assumes "unat a + n \<le> 2 ^ 64" "n < 2 ^ 64"
  shows "in_range a n b \<longleftrightarrow> unat (b - a) < n"
proof (cases "a \<le> b")
  case True
  then show ?thesis by (auto simp: in_range_def unat_sub word_le_nat_alt)
next
  case False
  then have l: "unat b < unat a" by (simp add: word_le_nat_alt)
  then have "unat (b - a) = unat b + 2 ^ 64 - unat a" by (simp add: unat_sub_if')
  with l assms show ?thesis by (simp add: in_range_def)
qed

lemma add_nowrap:
  assumes "unat (a :: addr) + k < 2 ^ 64"
  shows "unat (a + of_nat k) = unat a + k"
  using assms unat_off[of k] by (simp add: unat_word_ariths)

lemma sub_off:
  assumes "k + c \<le> 2 ^ 64" "c < 2 ^ 64" "k < 2 ^ 64"
  shows "unat ((w :: addr) - of_nat k) < c \<longleftrightarrow> k \<le> unat w \<and> unat w < k + c"
  using in_range_off[of "of_nat k" c w] assms by (simp add: unat_off in_range_def)


section \<open>Aligned words\<close>

lemma aligned4: "VG_IS_4_ALIGNED a \<longleftrightarrow> unat a mod 4 = 0"
  using unat_and(3)[of a] by (metis unat_0 unat_eq_0)

lemma word_div:
  fixes x i :: nat
  assumes "x mod 4 = 0" "i < 4"
  shows "(x + i) div 65536 = x div 65536" "(x + i) mod 65536 div 4 = x mod 65536 div 4" "(x + i) mod 4 = i"
proof -
  from assms(1) obtain m where x: "x = 4 * m" by auto
  have d: "(x + i) div 4 = m" using assms(2) x by simp
  have "(y :: nat) div 65536 = y div 4 div 16384" for y by (simp add: div_mult2_eq[symmetric])
  then show "(x + i) div 65536 = x div 65536" using d x by simp
  have "(y :: nat) mod 65536 div 4 = y div 4 mod 16384" for y
    using mod_mult2_eq[of y 4 16384] by simp
  then show "(x + i) mod 65536 div 4 = x mod 65536 div 4" using d x by simp
  show "(x + i) mod 4 = i" using assms(2) x by simp
qed

lemma word_add:
  assumes "VG_IS_4_ALIGNED a" "i < 4"
  shows "unat (a + of_nat i) = unat a + i" "hi (a + of_nat i) = hi a" "SM_OFF (a + of_nat i) = SM_OFF a"
    "unat (a + of_nat i) mod 4 = i"
proof -
  have m: "unat a mod 4 = 0" using assms(1) by (simp add: aligned4)
  have "unat a < 2 ^ 64" using unat_bound[of a] by simp
  moreover from m obtain q where "unat a = 4 * q" by auto
  ultimately have "unat a + i < 2 ^ 64" using assms(2) by simp
  then show u: "unat (a + of_nat i) = unat a + i" by (rule add_nowrap)
  show "hi (a + of_nat i) = hi a" "SM_OFF (a + of_nat i) = SM_OFF a" "unat (a + of_nat i) mod 4 = i"
    unfolding hi_eq_iff SM_OFF_eq_iff u using word_div[OF m assms(2)] by simp_all
qed

lemma same_word:
  assumes "VG_IS_4_ALIGNED a"
  shows "hi b = hi a \<and> SM_OFF b = SM_OFF a \<longleftrightarrow> unat (b - a) < 4"
proof
  assume "hi b = hi a \<and> SM_OFF b = SM_OFF a"
  then have h: "hi b = hi a" "SM_OFF b = SM_OFF a" by blast+
  have "unat b mod 4 < 4" by simp
  note wa = word_add(2-4)[OF assms this]
  have "b = a + of_nat (unat b mod 4)" by (rule addr_eqI) (simp_all only: h wa)
  then have "b - a = of_nat (unat b mod 4)" by (metis add_diff_cancel_left')
  then show "unat (b - a) < 4" by (simp add: unat_of_nat take_bit_eq_mod)
next
  assume "unat (b - a) < 4"
  from word_add(2,3)[OF assms this] show "hi b = hi a \<and> SM_OFF b = SM_OFF a" by simp
qed

definition cell :: "shadow \<Rightarrow> addr \<Rightarrow> u8" where "cell sh a = contents (sm_of sh a) (SM_OFF a)"

lemma va_cell:
  assumes "VG_IS_4_ALIGNED a" "unat (b - a) < 4"
  shows "va sh b = extract_vabits2_from_vabits8 b (cell sh a)"
  using same_word[OF assms(1), of b] assms(2) sm_of_same[of b a sh] by (simp add: va_def va_of_def cell_def)

lemma get8_spec:
  assumes "aux_ok sh"
  shows "\<exists>sh'. get_vabits8_for_aligned_word32 a sh = Some (cell sh a, sh') \<and> unseen sh sh'"
  using reading_spec[OF assms, of a] by (auto simp: get_vabits8_for_aligned_word32_def cell_def)

text \<open>Writing one entry.\<close>

definition put_word :: "addr \<Rightarrow> u8 \<Rightarrow> (addr \<Rightarrow> u8) \<Rightarrow> addr \<Rightarrow> u8" where
  "put_word a w m = (\<lambda>b. if unat (b - a) < 4 then extract_vabits2_from_vabits8 b w else m b)"

lemma va_put_word:
  assumes "VG_IS_4_ALIGNED a"
    and "sm_of sh' = (\<lambda>b. if hi b = hi a then Issued ((contents (sm_of sh a))(SM_OFF a := w)) else sm_of sh b)"
  shows "va sh' = put_word a w (va sh)"
proof
  fix b
  have "sm_of sh b = sm_of sh a" if "hi b = hi a" using sm_of_same[OF that] .
  then show "va sh' b = put_word a w (va sh) b"
    using same_word[OF assms(1), of b] assms(2) by (auto simp: va_def va_of_def put_word_def)
qed

lemma set8_spec:
  assumes "aux_ok sh" "VG_IS_4_ALIGNED a"
  shows "\<exists>sh'. set_vabits8_for_aligned_word32 a w sh = Some sh' \<and> aux_ok sh' \<and> rest sh' = rest sh \<and> va sh' = put_word a w (va sh)"
proof -
  from writing_spec[OF assms(1), of a] obtain p sh1 where
    p: "get_secmap_for_writing a sh = Some (p, contents (sm_of sh a), sh1)" and
    w: "\<And>f. aux_ok (assign p (Issued f) sh1) \<and> rest (assign p (Issued f) sh1) = rest sh \<and>
      sm_of (assign p (Issued f) sh1) = (\<lambda>b. if hi b = hi a then Issued f else sm_of sh b)" by blast
  with va_put_word[OF assms(2)] show ?thesis by (simp add: set_vabits8_for_aligned_word32_def)
qed

end
