(* ===== verification/Shadow_Copy.thy ===== *)
theory Shadow_Copy
  imports Shadow_Cells
begin

text \<open>
  Copying the state of a range: whatever the alignment and the overlap of the two ranges, every byte of the destination
  gets the state, the V bits of partially defined bytes included, that its source had before.
\<close>

section \<open>One byte\<close>

text \<open>The V bits of a partially defined byte, copied after the two state bits.\<close>

lemma copy_node:
  assumes "aux_ok sh" "table_ok (secVBitTable sh)" "sec_lookup (secVBitTable sh) src = Some v"
  shows "\<exists>sh'. do { vbits8 \<leftarrow> get_sec_vbits8 src sh; set_sec_vbits8 dst vbits8 sh } = Some sh' \<and>
    aux_ok sh' \<and> table_ok (secVBitTable sh') \<and> va sh' = va sh \<and> other sh' = other sh \<and>
    sec_lookup (secVBitTable sh') dst = Some v \<and>
    (\<forall>b. b \<noteq> dst \<and> va sh b = VA_BITS2_PARTDEFINED \<longrightarrow> sec_lookup (secVBitTable sh') b = sec_lookup (secVBitTable sh) b)"
  using set_sec_spec[OF assms(1,2), of v dst] sec_lookup_range[OF assms(3)] assms(3) by (simp add: get_sec_vbits8_lookup)

lemma copy_byte_spec:
  assumes "shadow_ok sh"
  shows "\<exists>sh'. copy_byte src dst sh = Some sh' \<and> shadow_ok sh' \<and> other sh' = other sh \<and> vb sh' = (vb sh)(dst := vb sh src)"
proof -
  note ok = shadow_okD[OF assms]
  from get_vabits2_spec[OF ok(1), of src] obtain sh1 where
    g: "get_vabits2 src sh = Some (va sh src, sh1)" "unseen sh sh1" by blast
  then have e1: "aux_ok sh1" "va sh1 = va sh" "rest sh1 = rest sh" by (auto simp: unseen_def unseen_va)
  from set_vabits2_spec[OF e1(1) va_cases, of dst sh src] obtain sh2 where
    sh2: "set_vabits2 dst (va sh src) sh1 = Some sh2" "aux_ok sh2" "va sh2 = (va sh)(dst := va sh src)" "rest sh2 = rest sh"
    by (auto simp: e1)
  have t2: "secVBitTable sh2 = secVBitTable sh" "other sh2 = other sh" using rest_other[OF sh2(4)] by auto
  show ?thesis
  proof (cases "va sh src = VA_BITS2_PARTDEFINED")
    case False
    have "shadow_ok sh2" "\<And>b. b \<noteq> dst \<Longrightarrow> vb sh2 b = vb sh b"
      using write_byte_ok[OF assms sh2(2) _ sh2(3)] ok(2) False by (auto simp: t2)
    moreover have "vb sh2 dst = vb sh src" using sh2(3) False va_or[of sh src] by (auto simp: vb_def)
    ultimately show ?thesis using g(1) sh2(1) t2 False by (auto simp: copy_byte_def fun_eq_iff)
  next
    case True
    then obtain v where v: "sec_lookup (secVBitTable sh2) src = Some v" using assms by (auto simp: t2 shadow_ok_def)
    from copy_node[OF sh2(2) _ v, of dst] ok(2) obtain sh3 where
      sh3: "do { vbits8 \<leftarrow> get_sec_vbits8 src sh2; set_sec_vbits8 dst vbits8 sh2 } = Some sh3"
      "aux_ok sh3" "table_ok (secVBitTable sh3)" "va sh3 = va sh2" "other sh3 = other sh2"
      "sec_lookup (secVBitTable sh3) dst = Some v"
      "\<forall>b. b \<noteq> dst \<and> va sh2 b = VA_BITS2_PARTDEFINED \<longrightarrow> sec_lookup (secVBitTable sh3) b = sec_lookup (secVBitTable sh2) b"
      by (auto simp: t2)
    have "shadow_ok sh3" "\<And>b. b \<noteq> dst \<Longrightarrow> vb sh3 b = vb sh b"
      using write_byte_ok[OF assms sh3(2,3), of dst "va sh src"] sh3(4,6,7) sh2(3) by (auto simp: t2)
    moreover have "vb sh3 dst = vb sh src" using sh3(4,6) sh2(3) True v by (simp add: vb_def t2)
    ultimately show ?thesis using g(1) sh2(1) sh3(1,5) t2 True by (auto simp: copy_byte_def fun_eq_iff)
  qed
qed


section \<open>One aligned word\<close>

text \<open>Where the state of a byte comes from after the bytes with the offsets in \<open>I\<close> have been copied.\<close>

definition source :: "addr \<Rightarrow> addr \<Rightarrow> nat set \<Rightarrow> addr \<Rightarrow> addr" where
  "source src dst I b = (if unat (b - dst) \<in> I then src + (b - dst) else b)"

definition moved :: "addr \<Rightarrow> addr \<Rightarrow> nat set \<Rightarrow> (addr \<Rightarrow> 'v) \<Rightarrow> addr \<Rightarrow> 'v" where
  "moved src dst I m = m \<circ> source src dst I"

text \<open>The table while the nodes of the word are copied one byte after the other: the first \<open>k\<close> bytes are done.\<close>

definition nodes_copied :: "addr \<Rightarrow> addr \<Rightarrow> nat \<Rightarrow> shadow \<Rightarrow> shadow \<Rightarrow> bool" where
  "nodes_copied src dst k sh sh' \<longleftrightarrow> aux_ok sh' \<and> table_ok (secVBitTable sh') \<and> other sh' = other sh \<and>
     va sh' = moved src dst {..<4} (va sh) \<and>
     (\<forall>b. va sh' b = VA_BITS2_PARTDEFINED \<and> (unat (b - dst) < 4 \<longrightarrow> unat (b - dst) < k) \<longrightarrow>
        sec_lookup (secVBitTable sh') b = sec_lookup (secVBitTable sh) (source src dst {..<4} b))"

lemma copy_sec_step:
  assumes "shadow_ok sh" "nodes_copied src dst k sh sh'" "k < 4" "\<not> unat (src + of_nat k - dst) < 4"
  shows "\<exists>sh''. copy_sec (src + of_nat k) (dst + of_nat k) sh' = Some sh'' \<and> nodes_copied src dst (Suc k) sh sh''"
proof -
  let ?s = "src + of_nat k" and ?d = "dst + of_nat k"
  have n: "aux_ok sh'" "table_ok (secVBitTable sh')" "va sh' = moved src dst {..<4} (va sh)"
    using assms(2) by (simp_all add: nodes_copied_def)
  have off: "unat (?d - dst) = k" using assms(3) by (simp add: unat_off)
  have s: "source src dst {..<4} ?s = ?s" "source src dst {..<4} ?d = ?s"
    using assms(3,4) off by (simp_all add: source_def)
  then have vas: "va sh' ?s = va sh ?s" by (simp add: n moved_def)
  from get_vabits2_spec[OF n(1), of ?s] obtain sh1 where
    g: "get_vabits2 ?s sh' = Some (va sh ?s, sh1)" "unseen sh' sh1" by (auto simp: vas)
  then have e: "aux_ok sh1" "va sh1 = va sh'" "secVBitTable sh1 = secVBitTable sh'" "other sh1 = other sh'"
    using rest_other[of sh1 sh'] by (auto simp: unseen_def unseen_va)
  have kth: "unat (b - dst) < k \<or> b = ?d" if "unat (b - dst) < Suc k" for b
    using that off_eq_iff[of k b dst] assms(3) by (auto simp: less_Suc_eq)
  show ?thesis
  proof (cases "va sh ?s = VA_BITS2_PARTDEFINED")
    case False
    then have nd: "va sh' ?d \<noteq> VA_BITS2_PARTDEFINED" using s by (simp add: n moved_def)
    have "sec_lookup (secVBitTable sh') b = sec_lookup (secVBitTable sh) (source src dst {..<4} b)"
      if "va sh' b = VA_BITS2_PARTDEFINED" "unat (b - dst) < 4 \<longrightarrow> unat (b - dst) < Suc k" for b
    proof -
      have "b \<noteq> ?d" using that(1) nd by blast
      then have "unat (b - dst) < 4 \<longrightarrow> unat (b - dst) < k" using that(2) kth by blast
      then show ?thesis using that(1) assms(2) by (simp add: nodes_copied_def)
    qed
    then show ?thesis using False g(1) e assms(2) by (simp add: copy_sec_def nodes_copied_def)
  next
    case True
    then obtain v where v: "sec_lookup (secVBitTable sh) ?s = Some v" using assms(1) by (auto simp: shadow_ok_def)
    have "sec_lookup (secVBitTable sh1) ?s = Some v"
      using assms(2,4) True v vas s(1) by (simp add: e nodes_copied_def)
    from copy_node[OF e(1) _ this, of ?d] n(2) obtain sh2 where
      sh2: "do { vbits8 \<leftarrow> get_sec_vbits8 ?s sh1; set_sec_vbits8 ?d vbits8 sh1 } = Some sh2"
      "aux_ok sh2" "table_ok (secVBitTable sh2)" "va sh2 = va sh'" "other sh2 = other sh'"
      "sec_lookup (secVBitTable sh2) ?d = Some v"
      "\<forall>b. b \<noteq> ?d \<and> va sh' b = VA_BITS2_PARTDEFINED \<longrightarrow> sec_lookup (secVBitTable sh2) b = sec_lookup (secVBitTable sh') b"
      by (auto simp: e)
    have "sec_lookup (secVBitTable sh2) b = sec_lookup (secVBitTable sh) (source src dst {..<4} b)"
      if "va sh' b = VA_BITS2_PARTDEFINED" "unat (b - dst) < 4 \<longrightarrow> unat (b - dst) < Suc k" for b
    proof (cases "b = ?d")
      case True
      then show ?thesis using s v sh2(6) by simp
    next
      case False
      then have "unat (b - dst) < 4 \<longrightarrow> unat (b - dst) < k" using that(2) kth by blast
      then show ?thesis using False that(1) sh2(7) assms(2) by (simp add: nodes_copied_def)
    qed
    then show ?thesis using True g(1) sh2(1-5) assms(2) by (simp add: copy_sec_def nodes_copied_def)
  qed
qed

lemma put_word_moved:
  assumes "VG_IS_4_ALIGNED src" "VG_IS_4_ALIGNED dst"
  shows "put_word dst (cell sh src) (va sh) = moved src dst {..<4} (va sh)"
proof
  fix b
  have "extract_vabits2_from_vabits8 b (cell sh src) = va sh (src + (b - dst))" if "unat (b - dst) < 4"
  proof -
    have "unat b mod 4 = unat (b - dst)" using word_add(4)[OF assms(2) that] by simp
    moreover have "unat (src + (b - dst)) mod 4 = unat (b - dst)" using word_add(4)[OF assms(1) that] by simp
    moreover have "va sh (src + (b - dst)) = extract_vabits2_from_vabits8 (src + (b - dst)) (cell sh src)"
      using that by (intro va_cell[OF assms(1)]) simp
    ultimately show ?thesis by (simp add: extract_vabits2_from_vabits8_def shift2_eq)
  qed
  then show "put_word dst (cell sh src) (va sh) b = moved src dst {..<4} (va sh) b"
    by (simp add: put_word_def moved_def source_def)
qed

lemma uniform_cell_not_part:
  assumes "VG_IS_4_ALIGNED a" "cell sh a = VA_BITS8_DEFINED \<or> cell sh a = VA_BITS8_UNDEFINED \<or> cell sh a = VA_BITS8_NOACCESS"
    "unat (b - a) < 4"
  shows "va sh b \<noteq> VA_BITS2_PARTDEFINED"
proof -
  from assms(2) obtain d where "cell sh a = dist_vabits8 d"
    by (auto simp: dist_vabits8_def intro: that[of SM_DIST_DEFINED] that[of SM_DIST_UNDEFINED] that[of SM_DIST_NOACCESS])
  moreover obtain v16 v2 where "uniform v16 d v2" by (cases d) (auto simp: uniform_def)
  ultimately show ?thesis
    using va_cell[OF assms(1,3), of sh] extract_uniform(3)[of v16 d v2 b] uniform_not_part[of v16 d v2] by simp
qed

text \<open>Once the nodes of all four bytes are there the abstract memory is the copied one.\<close>

lemma nodes_copied_done:
  assumes "shadow_ok sh" "nodes_copied src dst 4 sh sh'"
  shows "shadow_ok sh' \<and> other sh' = other sh \<and> vb sh' = moved src dst {..<4} (vb sh)"
proof -
  have "vb sh' b = moved src dst {..<4} (vb sh) b" for b
    using assms(2) by (rule_tac va_exhaust[of sh "source src dst {..<4} b"])
      (auto simp: nodes_copied_def vb_def moved_def fun_eq_iff)
  moreover have "shadow_ok sh' \<and> other sh' = other sh"
    using assms by (auto simp: nodes_copied_def shadow_ok_def moved_def fun_eq_iff)
  ultimately show ?thesis by blast
qed

lemma copy_word32_spec:
  assumes "shadow_ok sh" "VG_IS_4_ALIGNED src" "VG_IS_4_ALIGNED dst" "src \<noteq> dst"
  shows "\<exists>sh'. copy_word32 src dst sh = Some sh' \<and> shadow_ok sh' \<and> other sh' = other sh \<and> vb sh' = moved src dst {..<4} (vb sh)"
proof -
  from get8_spec[OF shadow_okD(1)[OF assms(1)], of src] obtain sh1 where
    g: "get_vabits8_for_aligned_word32 src sh = Some (cell sh src, sh1)" "unseen sh sh1" by blast
  then have e: "aux_ok sh1" "va sh1 = va sh" "rest sh1 = rest sh" by (auto simp: unseen_def unseen_va)
  from set8_spec[OF e(1) assms(3), of "cell sh src"] obtain sh2 where
    sh2: "set_vabits8_for_aligned_word32 dst (cell sh src) sh1 = Some sh2" "aux_ok sh2" "rest sh2 = rest sh"
    "va sh2 = moved src dst {..<4} (va sh)"
    by (auto simp: e put_word_moved[OF assms(2,3)])
  have t2: "secVBitTable sh2 = secVBitTable sh" "other sh2 = other sh" using rest_other[OF sh2(3)] by auto
  have apart: "\<not> unat (src + of_nat k - dst) < 4" if "k < 4" for k
  proof
    assume "unat (src + of_nat k - dst) < 4"
    then have "hi (src + of_nat k) = hi dst \<and> SM_OFF (src + of_nat k) = SM_OFF dst" by (simp only: same_word[OF assms(3)])
    with word_add(2,3)[OF assms(2) that] have "hi src = hi dst" "SM_OFF src = SM_OFF dst" by simp_all
    moreover have "unat src mod 4 = unat dst mod 4" using assms(2,3) by (simp add: aligned4)
    ultimately have "src = dst" by (rule addr_eqI)
    with assms(4) show False ..
  qed
  have n0: "nodes_copied src dst 0 sh sh2"
    using sh2(2,4) shadow_okD(2)[OF assms(1)] by (auto simp: nodes_copied_def t2 source_def)
  show ?thesis
  proof (cases "VA_BITS8_DEFINED = cell sh src \<or> VA_BITS8_UNDEFINED = cell sh src \<or> VA_BITS8_NOACCESS = cell sh src")
    case True
    have "va sh (src + (b - dst)) \<noteq> VA_BITS2_PARTDEFINED" if "unat (b - dst) < 4" for b
      by (rule uniform_cell_not_part[OF assms(2)]) (use True that in auto)
    then have "nodes_copied src dst 4 sh sh2"
      using n0 by (auto simp: nodes_copied_def moved_def source_def split: if_splits)
    with True show ?thesis using g(1) sh2(1) nodes_copied_done[OF assms(1)] by (auto simp: copy_word32_def)
  next
    case False
    note step = copy_sec_step[OF assms(1)]
    from step[OF n0 _ apart] obtain s1 where s1: "copy_sec src dst sh2 = Some s1" "nodes_copied src dst 1 sh s1" by auto
    from step[OF s1(2) _ apart] obtain s2 where s2: "copy_sec (src + 1) (dst + 1) s1 = Some s2" "nodes_copied src dst 2 sh s2" by (auto simp: numeral_2_eq_2)
    from step[OF s2(2) _ apart] obtain s3 where s3: "copy_sec (src + 2) (dst + 2) s2 = Some s3" "nodes_copied src dst 3 sh s3" by (auto simp: numeral_3_eq_3)
    from step[OF s3(2) _ apart] obtain s4 where s4: "copy_sec (src + 3) (dst + 3) s3 = Some s4" "nodes_copied src dst 4 sh s4" by (auto simp: eval_nat_numeral)
    from False g(1) sh2(1) s1(1) s2(1) s3(1) s4(1) have "copy_word32 src dst sh = Some s4" by (simp add: copy_word32_def)
    then show ?thesis using nodes_copied_done[OF assms(1) s4(2)] by blast
  qed
qed


section \<open>Ranges\<close>

lemma moved_byte: "m(dst := m src) = moved src dst {..<1} m"
  by (auto simp: moved_def source_def fun_eq_iff unat_eq_0)

text \<open>A further piece of the copy reads bytes that no earlier piece has written.\<close>

lemma moved_piece:
  assumes "k + c < 2 ^ 64" "\<forall>i < c. unat (src + of_nat (k + i) - dst) \<notin> {..<k}"
  shows "moved (src + of_nat k) (dst + of_nat k) {..<c} (moved src dst {..<k} m) = moved src dst {..<k + c} m"
proof
  fix b
  have sub: "b - (dst + of_nat k) = b - dst - of_nat k" by simp
  show "moved (src + of_nat k) (dst + of_nat k) {..<c} (moved src dst {..<k} m) b = moved src dst {..<k + c} m b"
  proof (cases "k \<le> unat (b - dst) \<and> unat (b - dst) < k + c")
    case True
    define i where "i = unat (b - dst) - k"
    have i: "i < c" "b - dst = of_nat (k + i)" using True by (auto simp: i_def)
    have "source (src + of_nat k) (dst + of_nat k) {..<c} b = src + (b - dst)"
      using True sub_off[of k c "b - dst"] assms(1) by (simp add: source_def sub)
    moreover have "source src dst {..<k} (src + (b - dst)) = src + (b - dst)"
      using assms(2) i by (auto simp: source_def)
    ultimately show ?thesis using True by (simp add: moved_def source_def)
  next
    case False
    have "\<not> unat (b - dst - of_nat k) < c" using False sub_off[of k c "b - dst"] assms(1) by auto
    then have "source (src + of_nat k) (dst + of_nat k) {..<c} b = b" by (simp add: source_def sub)
    then show ?thesis using False by (auto simp: moved_def source_def)
  qed
qed

lemma aligned4_add: "VG_IS_4_ALIGNED a \<Longrightarrow> VG_IS_4_ALIGNED (a + 4)"
  by (simp add: aligned4 unat_word_ariths mod_mod_cancel mod_add_eq)

lemma copy_vector_spec:
  assumes "shadow_ok sh" "vb sh = moved src dst {..<k} m" "VG_IS_4_ALIGNED (src + of_nat k) \<and> VG_IS_4_ALIGNED (dst + of_nat k) \<or> len < 4"
    and "src \<noteq> dst" "k + len < 2 ^ 64" "\<forall>i < k + len. \<not> unat (src + of_nat i - dst) < k + len"
  shows "\<exists>sh'. copy_vector len (src + of_nat k) (dst + of_nat k) sh = Some sh' \<and> shadow_ok sh' \<and> other sh' = other sh \<and>
    vb sh' = moved src dst {..<k + len} m"
  using assms
proof (induction len arbitrary: k sh rule: less_induct)
  case (less len)
  let ?s = "src + of_nat k" and ?d = "dst + of_nat k"
  have piece: "moved ?s ?d {..<c} (vb sh) = moved src dst {..<k + c} m" if "c \<le> len" for c
  proof -
    have "unat (src + of_nat (k + i) - dst) \<notin> {..<k}" if "i < c" for i
    proof -
      have "k + i < k + len" using that \<open>c \<le> len\<close> by simp
      then have "\<not> unat (src + of_nat (k + i) - dst) < k + len" using less.prems(6) by blast
      then show ?thesis by simp
    qed
    then show ?thesis unfolding less.prems(2) by (intro moved_piece) (use less.prems(5) that in auto)
  qed
  consider "4 \<le> len" | "1 \<le> len" "len < 4" | "len = 0" by linarith
  then show ?case
  proof cases
    case 1
    from copy_word32_spec[OF less.prems(1), of ?s ?d] less.prems(3,4) 1 obtain sh1 where
      sh1: "copy_word32 ?s ?d sh = Some sh1" "shadow_ok sh1" "other sh1 = other sh" "vb sh1 = moved src dst {..<k + 4} m"
      using piece[OF 1] by auto
    have al: "VG_IS_4_ALIGNED (src + of_nat (k + 4)) \<and> VG_IS_4_ALIGNED (dst + of_nat (k + 4))"
      using less.prems(3) 1 aligned4_add[of ?s] aligned4_add[of ?d] by (simp add: algebra_simps)
    from less.IH[of "len - 4" sh1 "k + 4"] sh1 al less.prems 1 obtain sh' where
      "copy_vector (len - 4) (src + of_nat (k + 4)) (dst + of_nat (k + 4)) sh1 = Some sh'" "shadow_ok sh'" "other sh' = other sh1"
      "vb sh' = moved src dst {..<k + len} m" by auto
    then show ?thesis using sh1 1 by (simp add: copy_vector.simps[of len] algebra_simps)
  next
    case 2
    from copy_byte_spec[OF less.prems(1), of ?s ?d] obtain sh1 where
      sh1: "copy_byte ?s ?d sh = Some sh1" "shadow_ok sh1" "other sh1 = other sh" "vb sh1 = moved src dst {..<k + 1} m"
      using piece[OF 2(1)] unfolding moved_byte by auto
    have "len - 1 < 4" "k + 1 + (len - 1) = k + len" using 2 by simp_all
    with less.IH[of "len - 1" sh1 "k + 1"] sh1 less.prems(4-6) 2 obtain sh' where
      "copy_vector (len - 1) (src + of_nat (k + 1)) (dst + of_nat (k + 1)) sh1 = Some sh'" "shadow_ok sh'" "other sh' = other sh1"
      "vb sh' = moved src dst {..<k + len} m" by auto
    then show ?thesis using sh1 2 by (simp add: copy_vector.simps[of len] algebra_simps)
  next
    case 3
    then show ?thesis using less.prems(1,2) by (simp add: copy_vector.simps[of 0])
  qed
qed

text \<open>The two byte loops: the order of the offsets has to respect the overlap.\<close>

lemma copy_bytes_spec:
  assumes "shadow_ok sh" "\<forall>i \<in> set is. i < 2 ^ 64"
    and "\<forall>ys i zs. is = ys @ i # zs \<longrightarrow> unat (src + of_nat i - dst) \<notin> set ys"
  shows "\<exists>sh'. foldO (\<lambda>i. copy_byte (src + of_nat i) (dst + of_nat i)) is sh = Some sh' \<and> shadow_ok sh' \<and>
    other sh' = other sh \<and> vb sh' = moved src dst (set is) (vb sh)"
  using assms(2,3)
proof (induction "is" rule: rev_induct)
  case Nil
  then show ?case using assms(1) by (simp add: moved_def source_def fun_eq_iff)
next
  case (snoc i ys)
  have "\<forall>xs j zs. ys = xs @ j # zs \<longrightarrow> unat (src + of_nat j - dst) \<notin> set xs" using snoc.prems(2) by simp
  with snoc.IH snoc.prems(1) obtain sh1 where
    sh1: "foldO (\<lambda>i. copy_byte (src + of_nat i) (dst + of_nat i)) ys sh = Some sh1" "shadow_ok sh1" "other sh1 = other sh"
    "vb sh1 = moved src dst (set ys) (vb sh)" by auto
  from copy_byte_spec[OF sh1(2), of "src + of_nat i" "dst + of_nat i"] obtain sh2 where
    sh2: "copy_byte (src + of_nat i) (dst + of_nat i) sh1 = Some sh2" "shadow_ok sh2" "other sh2 = other sh1"
    "vb sh2 = (vb sh1)(dst + of_nat i := vb sh1 (src + of_nat i))" by blast
  have "unat (src + of_nat i - dst) \<notin> set ys" using snoc.prems(2) by blast
  then have r: "vb sh1 (src + of_nat i) = vb sh (src + of_nat i)" by (simp add: sh1(4) moved_def source_def)
  have "vb sh2 b = moved src dst (set (ys @ [i])) (vb sh) b" for b
  proof (cases "b = dst + of_nat i")
    case True
    then show ?thesis using snoc.prems(1) by (simp add: sh2(4) r moved_def source_def unat_off)
  next
    case False
    then have "unat (b - dst) \<noteq> i" using off_eq_iff[of i b dst] snoc.prems(1) by simp
    then show ?thesis using False by (simp add: sh2(4) sh1(4) moved_def source_def)
  qed
  then have "vb sh2 = moved src dst (set (ys @ [i])) (vb sh)" by (rule ext)
  moreover have "foldO (\<lambda>i. copy_byte (src + of_nat i) (dst + of_nat i)) (ys @ [i]) sh = Some sh2"
    using sh1(1) sh2(1) by (simp add: foldO_append loop_simps)
  ultimately show ?case using sh1(3) sh2(2,3) by metis
qed


text \<open>The condition under which each of the three loops reads old states only.\<close>

lemma apart_off:
  fixes src dst :: addr
  assumes "unat src + n < 2 ^ 64" "unat dst + n < 2 ^ 64" "unat src + n \<le> unat dst \<or> unat dst + n \<le> unat src" "i < n"
  shows "\<not> unat (src + of_nat i - dst) < n"
proof -
  have "unat (src + of_nat i) = unat src + i" using assms(1,4) by (intro add_nowrap) simp
  then have "\<not> in_range dst n (src + of_nat i)" using assms(3,4) by (auto simp: in_range_def)
  then show ?thesis using assms(2) by (simp add: in_range_off)
qed

lemma forward_off:
  fixes src dst :: addr
  assumes "unat src + n < 2 ^ 64" "unat dst + n < 2 ^ 64" "dst < src" "i < n"
  shows "\<not> unat (src + of_nat i - dst) < i"
proof -
  have "unat (src + of_nat i) = unat src + i" using assms(1,4) by (intro add_nowrap) simp
  then have "\<not> in_range dst i (src + of_nat i)" using assms(3) by (auto simp: in_range_def word_less_nat_alt)
  then show ?thesis using assms(2,4) by (simp add: in_range_off)
qed

lemma backward_off:
  fixes src dst :: addr
  assumes "unat src + n < 2 ^ 64" "unat dst + n < 2 ^ 64" "src < dst" "i < n"
  shows "\<not> (i < unat (src + of_nat i - dst) \<and> unat (src + of_nat i - dst) < n)"
proof
  assume a: "i < unat (src + of_nat i - dst) \<and> unat (src + of_nat i - dst) < n"
  then have r: "in_range dst n (src + of_nat i)" using assms(2) by (simp add: in_range_off)
  have u: "unat (src + of_nat i) = unat src + i" using assms(1,4) by (intro add_nowrap) simp
  with r have "dst \<le> src + of_nat i" by (simp add: in_range_def word_le_nat_alt)
  then have "unat (src + of_nat i - dst) = unat src + i - unat dst" using u by (simp add: unat_sub)
  with a have "i < unat src + i - unat dst" by simp
  with assms(3) show False unfolding word_less_nat_alt by linarith
qed

lemma upt_split:
  assumes "[0..<n] = ys @ i # zs"
  shows "i < n \<and> set ys = {..<i} \<and> set zs = {i<..<n}"
proof -
  have "length [0..<n] = length ys + Suc (length zs)" by (simp only: assms length_append length_Cons)
  then have l: "length ys < n" by simp
  have "[0..<n] ! length ys = i" by (simp only: assms nth_append_length)
  then have i: "i = length ys" using l by simp
  have "take i [0..<n] = ys" "drop (Suc i) [0..<n] = zs" by (simp_all add: assms i)
  then have "ys = [0..<i]" "zs = [Suc i..<n]" using l i by (simp_all add: min_def)
  then have "set ys = {..<i}" "set zs = {i<..<n}" by (metis atLeast0LessThan atLeast_upt set_upt) (auto simp: \<open>zs = _\<close>)
  then show ?thesis using l i by simp
qed

lemma rev_upt_split: "rev [0..<n] = ys @ i # zs \<Longrightarrow> i < n \<and> set ys = {i<..<n}"
  using upt_split[of n "rev zs" i "rev ys"] by (simp add: rev_swap)

lemma copy_address_range_moved:
  assumes "shadow_ok sh" "unat src + unat len < 2 ^ 64" "unat dst + unat len < 2 ^ 64"
  shows "\<exists>sh'. copy_address_range_state src dst len sh = Some sh' \<and> shadow_ok sh' \<and> other sh' = other sh \<and>
    vb sh' = moved src dst {..<unat len} (vb sh)"
proof -
  let ?n = "unat len" and ?byte = "\<lambda>i. copy_byte (src + of_nat i) (dst + of_nat i)"
  have n: "\<forall>i < ?n. i < 2 ^ 64" using assms(2) by simp
  consider "len = 0 \<or> src = dst"
    | "\<not> (len = 0 \<or> src = dst)" "(src + len \<le> dst \<or> dst + len \<le> src) \<and> VG_IS_4_ALIGNED src \<and> VG_IS_4_ALIGNED dst"
    | "\<not> (len = 0 \<or> src = dst)" "\<not> ((src + len \<le> dst \<or> dst + len \<le> src) \<and> VG_IS_4_ALIGNED src \<and> VG_IS_4_ALIGNED dst)" "src < dst"
    | "\<not> (len = 0 \<or> src = dst)" "\<not> ((src + len \<le> dst \<or> dst + len \<le> src) \<and> VG_IS_4_ALIGNED src \<and> VG_IS_4_ALIGNED dst)" "dst < src"
    by (metis linorder_less_linear)
  then show ?thesis
  proof cases
    case 1
    then show ?thesis using assms(1) by (auto simp: copy_address_range_state_def moved_def source_def fun_eq_iff)
  next
    case 2
    have "unat (src + len) = unat src + ?n" "unat (dst + len) = unat dst + ?n"
      using assms(2,3) add_nowrap[of src ?n] add_nowrap[of dst ?n] by simp_all
    then have "unat src + ?n \<le> unat dst \<or> unat dst + ?n \<le> unat src" using 2(2) by (simp add: word_le_nat_alt)
    from copy_vector_spec[OF assms(1), of src dst 0 "vb sh" ?n] apart_off[OF assms(2,3) this] 2 assms(2) show ?thesis
      by (simp add: copy_address_range_state_def moved_def source_def fun_eq_iff)
  next
    case 3
    have "\<forall>ys i zs. rev [0..<?n] = ys @ i # zs \<longrightarrow> unat (src + of_nat i - dst) \<notin> set ys"
      using backward_off[OF assms(2,3) 3(3)] by (metis greaterThanLessThan_iff rev_upt_split)
    with copy_bytes_spec[OF assms(1), of "rev [0..<?n]" src dst] n 3 show ?thesis
      by (auto simp: copy_address_range_state_def Let_def atLeast0LessThan)
  next
    case 4
    have "\<forall>ys i zs. [0..<?n] = ys @ i # zs \<longrightarrow> unat (src + of_nat i - dst) \<notin> set ys"
      using forward_off[OF assms(2,3) 4(3)] by (metis lessThan_iff upt_split)
    with copy_bytes_spec[OF assms(1), of "[0..<?n]" src dst] n 4 show ?thesis
      by (auto simp: copy_address_range_state_def Let_def atLeast0LessThan)
  qed
qed

lemma moved_range:
  assumes "unat dst + n < 2 ^ 64"
  shows "moved src dst {..<n} m = (\<lambda>b. if in_range dst n b then m (src + (b - dst)) else m b)"
  using assms by (auto simp: moved_def source_def in_range_off)

end
