(* ===== verification/Shadow_Checks.thy ===== *)
theory Shadow_Checks
  imports Shadow_Cells
begin

text \<open>
  The checks of a range find the first byte that fails them and leave the abstract memory as it is; the two conditional
  operations make exactly the bytes defined that satisfy their condition.
\<close>

section \<open>Scanning\<close>

text \<open>The first offset below \<open>n\<close> at which \<open>bad\<close> holds.\<close>

definition first_bad :: "(nat \<Rightarrow> bool) \<Rightarrow> nat \<Rightarrow> nat option \<Rightarrow> bool" where
  "first_bad bad n r \<longleftrightarrow> (case r of None \<Rightarrow> \<forall>i < n. \<not> bad i | Some i \<Rightarrow> i < n \<and> bad i \<and> (\<forall>j < i. \<not> bad j))"

lemma first_bad_0: "bad 0 \<Longrightarrow> first_bad bad (Suc n) (Some 0)"
  by (simp add: first_bad_def)

lemma first_bad_Suc: "\<not> bad 0 \<Longrightarrow> first_bad (\<lambda>i. bad (Suc i)) n r \<Longrightarrow> first_bad bad (Suc n) (map_option Suc r)"
  by (auto simp: first_bad_def All_less_Suc2 less_Suc_eq_0_disj split: option.splits)

lemma add_Suc_off: "a + 1 + of_nat i = (a :: addr) + of_nat (Suc i)"
  by simp

lemma scan_range_spec:
  assumes "aux_ok sh"
  shows "\<exists>r sh'. scan_range bad a n sh = Some (map_option (\<lambda>i. (a + of_nat i, va sh (a + of_nat i))) r, sh') \<and> unseen sh sh' \<and>
    first_bad (\<lambda>i. bad (va sh (a + of_nat i))) n r"
  using assms
proof (induction n arbitrary: a sh)
  case 0
  then show ?case by (auto simp: first_bad_def unseen_refl intro!: exI[of _ None])
next
  case (Suc n)
  from get_vabits2_spec[OF Suc.prems, of a] obtain sh1 where
    g: "get_vabits2 a sh = Some (va sh a, sh1)" "unseen sh sh1" by blast
  show ?case
  proof (cases "bad (va sh a)")
    case True
    then show ?thesis using g by (intro exI[of _ "Some 0"] exI[of _ sh1]) (simp add: first_bad_0)
  next
    case False
    have "aux_ok sh1" using g(2) by (simp add: unseen_def)
    from Suc.IH[OF this, of "a + 1"] obtain r sh2 where
      r: "scan_range bad (a + 1) n sh1 = Some (map_option (\<lambda>i. (a + of_nat (Suc i), va sh (a + of_nat (Suc i)))) r, sh2)"
      "unseen sh1 sh2" "first_bad (\<lambda>i. bad (va sh (a + of_nat (Suc i)))) n r"
      unfolding unseen_va[OF g(2)] add_Suc_off by blast
    have "first_bad (\<lambda>i. bad (va sh (a + of_nat i))) (Suc n) (map_option Suc r)"
      by (rule first_bad_Suc) (use False r(3) in simp_all)
    with False g r(1) unseen_trans[OF g(2) r(2)] show ?thesis
      by (intro exI[of _ "map_option Suc r"] exI[of _ sh2]) (simp add: option.map_comp o_def)
  qed
qed

lemma noaccess_spec:
  assumes "shadow_ok sh"
  shows "\<exists>r sh'. check_mem_is_noaccess a len sh = Some (map_option (\<lambda>i. a + of_nat i) r, sh') \<and> same_mem sh sh' \<and>
    first_bad (\<lambda>i. vb sh (a + of_nat i) \<noteq> None) (unat len) r"
proof -
  have e: "(VA_BITS2_NOACCESS \<noteq> va sh b) = (vb sh b \<noteq> None)" for b using vb_None_iff[OF assms, of b] by auto
  from scan_range_spec[OF shadow_okD(1)[OF assms], of "\<lambda>v. VA_BITS2_NOACCESS \<noteq> v" a "unat len"] show ?thesis
    unfolding e using unseen_same[OF assms] by (auto simp: check_mem_is_noaccess_def option.map_comp o_def)
qed

lemma addressable_spec:
  assumes "shadow_ok sh"
  shows "\<exists>r sh'. is_mem_addressable a len sh = Some (map_option (\<lambda>i. a + of_nat i) r, sh') \<and> same_mem sh sh' \<and>
    first_bad (\<lambda>i. vb sh (a + of_nat i) = None) (unat len) r"
proof -
  have e: "(VA_BITS2_NOACCESS = va sh b) = (vb sh b = None)" for b using vb_None_iff[OF assms, of b] by auto
  from scan_range_spec[OF shadow_okD(1)[OF assms], of "\<lambda>v. VA_BITS2_NOACCESS = v" a "unat len"] show ?thesis
    unfolding e using unseen_same[OF assms] by (auto simp: is_mem_addressable_def option.map_comp o_def)
qed

text \<open>With definedness checks on (level 2 and 3), the first byte that is not defined decides.\<close>

lemma defined_loop_spec:
  assumes "aux_ok sh" "2 \<le> lev"
  shows "\<exists>r sh'. is_mem_defined_loop lev a n bad sh =
      Some (case r of None \<Rightarrow> (MC_Ok, bad, sh')
        | Some i \<Rightarrow> (if va sh (a + of_nat i) = VA_BITS2_NOACCESS then MC_AddrErr else MC_ValueErr, a + of_nat i, sh')) \<and>
    unseen sh sh' \<and> first_bad (\<lambda>i. va sh (a + of_nat i) \<noteq> VA_BITS2_DEFINED) n r"
  using assms
proof (induction n arbitrary: a sh)
  case 0
  then show ?case by (auto simp: first_bad_def unseen_refl intro!: exI[of _ None])
next
  case (Suc n)
  from get_vabits2_spec[OF Suc.prems(1), of a] obtain sh1 where
    g: "get_vabits2 a sh = Some (va sh a, sh1)" "unseen sh sh1" by blast
  show ?case
  proof (cases "va sh a = VA_BITS2_DEFINED")
    case False
    then show ?thesis using g Suc.prems(2) by (intro exI[of _ "Some 0"] exI[of _ sh1]) (auto simp: first_bad_0)
  next
    case True
    have "aux_ok sh1" using g(2) by (simp add: unseen_def)
    from Suc.IH[OF this Suc.prems(2), of "a + 1"] obtain r sh2 where
      r: "is_mem_defined_loop lev (a + 1) n bad sh1 = Some (case r of None \<Rightarrow> (MC_Ok, bad, sh2)
          | Some i \<Rightarrow> (if va sh (a + of_nat (Suc i)) = VA_BITS2_NOACCESS then MC_AddrErr else MC_ValueErr, a + of_nat (Suc i), sh2))"
      "unseen sh1 sh2" "first_bad (\<lambda>i. va sh (a + of_nat (Suc i)) \<noteq> VA_BITS2_DEFINED) n r"
      unfolding unseen_va[OF g(2)] add_Suc_off by blast
    have "first_bad (\<lambda>i. va sh (a + of_nat i) \<noteq> VA_BITS2_DEFINED) (Suc n) (map_option Suc r)"
      by (rule first_bad_Suc) (use True r(3) in simp_all)
    with True g r(1) unseen_trans[OF g(2) r(2)] show ?thesis
      by (intro exI[of _ "map_option Suc r"] exI[of _ sh2]) (simp split: option.split)
  qed
qed

lemma va_defined_iff:
  assumes "shadow_ok sh"
  shows "va sh b = VA_BITS2_DEFINED \<longleftrightarrow> vb sh b = Some V_BITS8_DEFINED"
  using va_compress[OF assms, of b] by (auto simp: compress_def split: option.splits)

lemma is_mem_defined_spec:
  assumes "shadow_ok sh" "2 \<le> lev"
  shows "\<exists>r sh'. is_mem_defined lev a len sh =
      Some (case r of None \<Rightarrow> (MC_Ok, 0, sh')
        | Some i \<Rightarrow> (if vb sh (a + of_nat i) = None then MC_AddrErr else MC_ValueErr, a + of_nat i, sh')) \<and>
    same_mem sh sh' \<and> first_bad (\<lambda>i. vb sh (a + of_nat i) \<noteq> Some V_BITS8_DEFINED) (unat len) r"
  using defined_loop_spec[OF shadow_okD(1)[OF assms(1)] assms(2), of a "unat len" 0] unseen_same[OF assms(1)]
  unfolding is_mem_defined_def va_defined_iff[OF assms(1)] vb_None_iff[OF assms(1), symmetric] by blast


section \<open>Making bytes defined\<close>

lemma cond_define_va:
  assumes "aux_ok sh" "n \<le> 2 ^ 64"
  shows "\<exists>sh'. foldO (\<lambda>i sh. do {
         (vabits2, sh) \<leftarrow> get_vabits2 (a + of_nat i) sh;
         if P vabits2 then set_vabits2 (a + of_nat i) VA_BITS2_DEFINED sh else Some sh
       }) [0..<n] sh = Some sh' \<and> aux_ok sh' \<and> rest sh' = rest sh \<and>
    va sh' = (\<lambda>b. if unat (b - a) < n \<and> P (va sh b) then VA_BITS2_DEFINED else va sh b)"
    (is "\<exists>sh'. foldO ?f [0..<n] sh = Some sh' \<and> _ sh'")
  using assms(2)
proof (induction n)
  case 0
  then show ?case using assms(1) by simp
next
  case (Suc n)
  let ?b = "a + of_nat n"
  from Suc obtain sh1 where sh1: "foldO ?f [0..<n] sh = Some sh1" "aux_ok sh1" "rest sh1 = rest sh"
    "va sh1 = (\<lambda>b. if unat (b - a) < n \<and> P (va sh b) then VA_BITS2_DEFINED else va sh b)" by auto
  have off: "unat (?b - a) = n" using Suc.prems by (simp add: unat_off)
  have iff: "unat (b - a) < Suc n \<longleftrightarrow> unat (b - a) < n \<or> b = ?b" for b
    using off_eq_iff[of n b a] Suc.prems by (auto simp: less_Suc_eq)
  from get_vabits2_spec[OF sh1(2), of ?b] obtain sh2 where
    g: "get_vabits2 ?b sh1 = Some (va sh ?b, sh2)" "unseen sh1 sh2" using off by (auto simp: sh1(4))
  then have e: "aux_ok sh2" "va sh2 = va sh1" "rest sh2 = rest sh" 
    using unseen_va[OF g(2)] sh1(3) by (simp_all add: unseen_def)
  show ?case
  proof (cases "P (va sh ?b)")
    case True
    from set_vabits2_spec[OF e(1), of VA_BITS2_DEFINED ?b] obtain sh3 where
      "set_vabits2 ?b VA_BITS2_DEFINED sh2 = Some sh3" "aux_ok sh3" "rest sh3 = rest sh"
      "va sh3 = (va sh1)(?b := VA_BITS2_DEFINED)" by (auto simp: e)
    with True g(1) sh1(1,4) show ?thesis by (auto simp: foldO_append loop_simps iff fun_eq_iff)
  next
    case False
    with g(1) sh1(1,4) e show ?thesis by (auto simp: foldO_append loop_simps iff fun_eq_iff)
  qed
qed

lemma cond_define_vb:
  assumes "shadow_ok sh" "aux_ok sh'" "rest sh' = rest sh"
    "va sh' = (\<lambda>b. if unat (b - a) < n \<and> Q b then VA_BITS2_DEFINED else va sh b)"
  shows "shadow_ok sh' \<and> other sh' = other sh \<and>
    vb sh' = (\<lambda>b. if unat (b - a) < n \<and> Q b then Some V_BITS8_DEFINED else vb sh b)"
proof -
  have t: "secVBitTable sh' = secVBitTable sh" "other sh' = other sh" using rest_other[OF assms(3)] by auto
  show ?thesis using assms(1,2,4) t by (auto simp: shadow_ok_def vb_def fun_eq_iff)
qed

lemma if_addressable_spec:
  assumes "shadow_ok sh"
  shows "\<exists>sh'. make_mem_defined_if_addressable a len sh = Some sh' \<and> shadow_ok sh' \<and> other sh' = other sh \<and>
    vb sh' = (\<lambda>b. if unat (b - a) < unat len \<and> vb sh b \<noteq> None then Some V_BITS8_DEFINED else vb sh b)"
proof -
  have l: "unat len \<le> 2 ^ 64" using unat_bound[of len] by simp
  have e: "(VA_BITS2_NOACCESS \<noteq> va sh b) = (vb sh b \<noteq> None)" for b using vb_None_iff[OF assms, of b] by auto
  from cond_define_va[OF shadow_okD(1)[OF assms] l, of a "\<lambda>v. VA_BITS2_NOACCESS \<noteq> v", unfolded e] obtain sh' where
    s: "make_mem_defined_if_addressable a len sh = Some sh'" "aux_ok sh'" "rest sh' = rest sh"
    "va sh' = (\<lambda>b. if unat (b - a) < unat len \<and> vb sh b \<noteq> None then VA_BITS2_DEFINED else va sh b)"
    unfolding make_mem_defined_if_addressable_def by blast
  from cond_define_vb[OF assms s(2-4)] s(1) show ?thesis by blast
qed

lemma if_noaccess_spec:
  assumes "shadow_ok sh"
  shows "\<exists>sh'. make_mem_defined_if_noaccess a len sh = Some sh' \<and> shadow_ok sh' \<and> other sh' = other sh \<and>
    vb sh' = (\<lambda>b. if unat (b - a) < unat len \<and> vb sh b = None then Some V_BITS8_DEFINED else vb sh b)"
proof -
  have l: "unat len \<le> 2 ^ 64" using unat_bound[of len] by simp
  have e: "(VA_BITS2_NOACCESS = va sh b) = (vb sh b = None)" for b using vb_None_iff[OF assms, of b] by auto
  from cond_define_va[OF shadow_okD(1)[OF assms] l, of a "\<lambda>v. VA_BITS2_NOACCESS = v", unfolded e] obtain sh' where
    s: "make_mem_defined_if_noaccess a len sh = Some sh'" "aux_ok sh'" "rest sh' = rest sh"
    "va sh' = (\<lambda>b. if unat (b - a) < unat len \<and> vb sh b = None then VA_BITS2_DEFINED else va sh b)"
    unfolding make_mem_defined_if_noaccess_def by blast
  from cond_define_vb[OF assms s(2-4)] s(1) show ?thesis by blast
qed

end
