(* ===== verification/Shadow_Access.thy ===== *)
theory Shadow_Access
  imports Shadow
begin

text \<open>
  The handlers of loads and stores: the slow cases, which go byte by byte, and the fast cases, which read and write one
  entry of a secondary map. The code is the one for 64-bit machines without assembly helpers. A pointer to a secondary map that was
  found for reading is kept as the entry that refers to the map, so that a fast case can write through it.
\<close>

section \<open>Slow cases\<close>

definition V_BITS64_DEFINED :: u64 where "V_BITS64_DEFINED = 0"
definition V_BITS64_UNDEFINED :: u64 where "V_BITS64_UNDEFINED = 0xffffffffffffffff"
definition V_BITS32_DEFINED :: u64 where "V_BITS32_DEFINED = 0"
definition V_BITS32_UNDEFINED :: u64 where "V_BITS32_UNDEFINED = 0xffffffff"
definition V_BITS16_DEFINED :: u64 where "V_BITS16_DEFINED = 0"
definition V_BITS16_UNDEFINED :: u64 where "V_BITS16_UNDEFINED = 0xffff"

definition byte_offset_w :: "u64 \<Rightarrow> bool \<Rightarrow> u64 \<Rightarrow> u64" where
  "byte_offset_w wordszB bigendian byteno = (if bigendian then wordszB - 1 - byteno else byteno)"

definition record_address_error :: "addr \<Rightarrow> u64 \<Rightarrow> bool \<Rightarrow> shadow \<Rightarrow> shadow" where
  "record_address_error a szB isWrite sh =
     sh\<lparr>errors := errors sh @ [\<lparr>err_addr = a, err_szB = szB, err_isWrite = isWrite\<rparr>]\<rparr>"

text \<open>
  The loop of a load, from the most significant byte down: the V bits, the pessimising value and the number of bad
  addresses so far. The operation that reads one byte is an argument.
\<close>

fun loadv_loop :: "(addr \<Rightarrow> 's \<Rightarrow> (bool \<times> u8 \<times> 's) option) \<Rightarrow> addr \<Rightarrow> u64 \<Rightarrow> bool \<Rightarrow> nat \<Rightarrow> u64 \<Rightarrow> u64 \<Rightarrow> nat \<Rightarrow> 's \<Rightarrow>
  (u64 \<times> u64 \<times> nat \<times> 's) option" where
  "loadv_loop get a szB bigendian 0 vbits64 pessim64 n_addrs_bad s = Some (vbits64, pessim64, n_addrs_bad, s)"
| "loadv_loop get a szB bigendian (Suc i) vbits64 pessim64 n_addrs_bad s = do {
     (ok, vbits8, s) \<leftarrow> get (a + byte_offset_w szB bigendian (of_nat i)) s;
     loadv_loop get a szB bigendian i (push_bit 8 vbits64 OR ucast vbits8)
       (push_bit 8 pessim64 OR ucast (if ok then V_BITS8_DEFINED else V_BITS8_UNDEFINED))
       (if ok then n_addrs_bad else n_addrs_bad + 1) s
   }"

text \<open>The loop of a store, from the least significant byte up; \<open>n\<close> bytes are left.\<close>

fun storev_loop :: "(addr \<Rightarrow> u8 \<Rightarrow> 's \<Rightarrow> (bool \<times> 's) option) \<Rightarrow> addr \<Rightarrow> u64 \<Rightarrow> bool \<Rightarrow> nat \<Rightarrow> nat \<Rightarrow> u64 \<Rightarrow> nat \<Rightarrow> 's \<Rightarrow>
  (nat \<times> 's) option" where
  "storev_loop put a szB bigendian i 0 vbytes n_addrs_bad s = Some (n_addrs_bad, s)"
| "storev_loop put a szB bigendian i (Suc n) vbytes n_addrs_bad s = do {
     (ok, s) \<leftarrow> put (a + byte_offset_w szB bigendian (of_nat i)) (ucast (vbytes AND 0xff)) s;
     storev_loop put a szB bigendian (Suc i) n (drop_bit 8 vbytes) (if ok then n_addrs_bad else n_addrs_bad + 1) s
   }"

text \<open>The semi-fast cases return the V bits, or nothing when the slow case has to be taken.\<close>

definition semi_fast_load64 :: "addr \<Rightarrow> shadow \<Rightarrow> (u64 option \<times> shadow) option" where
  "semi_fast_load64 a sh = do {
     (sm, sh) \<leftarrow> get_secmap_for_reading a sh;
     let vabits16 = get16 (contents sm) (SM_OFF_16 a);
     Some (if vabits16 = VA_BITS16_DEFINED then Some V_BITS64_DEFINED
       else if vabits16 = VA_BITS16_UNDEFINED then Some V_BITS64_UNDEFINED else None, sh)
   }"

definition semi_fast_load32 :: "addr \<Rightarrow> shadow \<Rightarrow> (u64 option \<times> shadow) option" where
  "semi_fast_load32 a sh = do {
     (sm, sh) \<leftarrow> get_secmap_for_reading a sh;
     let vabits8 = contents sm (SM_OFF a);
     Some (if vabits8 = VA_BITS8_DEFINED then Some (0xffffffff00000000 OR V_BITS32_DEFINED)
       else if vabits8 = VA_BITS8_UNDEFINED then Some (0xffffffff00000000 OR V_BITS32_UNDEFINED) else None, sh)
   }"

definition loadv_bytes :: "addr \<Rightarrow> nat \<Rightarrow> bool \<Rightarrow> shadow \<Rightarrow> (u64 \<times> shadow) option" where
  "loadv_bytes a nBits bigendian sh = do {
     let szB = nBits div 8;
     if \<not> (nBits = 64 \<or> nBits = 32 \<or> nBits = 16 \<or> nBits = 8) then None else do {
       (vbits64, pessim64, n_addrs_bad, sh) \<leftarrow>
         loadv_loop get_vbits8 a (of_nat szB) bigendian szB V_BITS64_UNDEFINED V_BITS64_DEFINED 0 sh;
       if n_addrs_bad = 0 then Some (vbits64, sh)
       else if \<not> clo_partial_loads_ok sh then Some (vbits64, record_address_error a (of_nat szB) False sh)
       else if pessim64 = V_BITS64_DEFINED then None
       else if szB = 8 \<and> VG_IS_8_ALIGNED a \<and> n_addrs_bad < 8 then Some (vbits64 OR pessim64, sh)
       else if VG_IS_4_ALIGNED a \<and> nBits = 32 \<and> n_addrs_bad < 4
       then Some (vbits64 OR pessim64 OR push_bit 32 V_BITS32_UNDEFINED, sh)
       else Some (vbits64, record_address_error a (of_nat szB) False sh)
     }
   }"

definition mc_LOADVn_slow :: "addr \<Rightarrow> nat \<Rightarrow> bool \<Rightarrow> shadow \<Rightarrow> (u64 \<times> shadow) option" where
  "mc_LOADVn_slow a nBits bigendian sh = do {
     (r, sh) \<leftarrow> (if nBits = 64 \<and> VG_IS_8_ALIGNED a then semi_fast_load64 a sh else Some (None, sh));
     case r of Some vbits64 \<Rightarrow> Some (vbits64, sh)
     | None \<Rightarrow> do {
         (r, sh) \<leftarrow> (if nBits = 32 \<and> VG_IS_4_ALIGNED a then semi_fast_load32 a sh else Some (None, sh));
         case r of Some vbits64 \<Rightarrow> Some (vbits64, sh) | None \<Rightarrow> loadv_bytes a nBits bigendian sh
       }
   }"

text \<open>The semi-fast cases of a store return whether they have done it.\<close>

definition semi_fast_store64 :: "addr \<Rightarrow> u64 \<Rightarrow> shadow \<Rightarrow> (bool \<times> shadow) option" where
  "semi_fast_store64 a vbytes sh = do {
     (p, sh) \<leftarrow> get_secmap_ptr a sh;
     sm \<leftarrow> deref p sh;
     let vabits16 = get16 (contents sm) (SM_OFF_16 a);
     if \<not> is_distinguished_sm sm \<and> (VA_BITS16_DEFINED = vabits16 \<or> VA_BITS16_UNDEFINED = vabits16)
     then (if V_BITS64_DEFINED = vbytes
           then Some (True, assign p (Issued (set16 (SM_OFF_16 a) VA_BITS16_DEFINED (contents sm))) sh)
           else if V_BITS64_UNDEFINED = vbytes
           then Some (True, assign p (Issued (set16 (SM_OFF_16 a) VA_BITS16_UNDEFINED (contents sm))) sh)
           else Some (False, sh))
     else Some (False, sh)
   }"

definition semi_fast_store32 :: "addr \<Rightarrow> u64 \<Rightarrow> shadow \<Rightarrow> (bool \<times> shadow) option" where
  "semi_fast_store32 a vbytes sh = do {
     (p, sh) \<leftarrow> get_secmap_ptr a sh;
     sm \<leftarrow> deref p sh;
     let vabits8 = contents sm (SM_OFF a);
     if \<not> is_distinguished_sm sm \<and> (VA_BITS8_DEFINED = vabits8 \<or> VA_BITS8_UNDEFINED = vabits8)
     then (if V_BITS32_DEFINED = vbytes AND 0xffffffff
           then Some (True, assign p (Issued ((contents sm)(SM_OFF a := VA_BITS8_DEFINED))) sh)
           else if V_BITS32_UNDEFINED = vbytes AND 0xffffffff
           then Some (True, assign p (Issued ((contents sm)(SM_OFF a := VA_BITS8_UNDEFINED))) sh)
           else Some (False, sh))
     else Some (False, sh)
   }"

definition storev_bytes :: "addr \<Rightarrow> nat \<Rightarrow> u64 \<Rightarrow> bool \<Rightarrow> shadow \<Rightarrow> shadow option" where
  "storev_bytes a nBits vbytes bigendian sh = do {
     let szB = nBits div 8;
     if \<not> (nBits = 64 \<or> nBits = 32 \<or> nBits = 16 \<or> nBits = 8) then None else do {
       (n_addrs_bad, sh) \<leftarrow> storev_loop set_vbits8 a (of_nat szB) bigendian 0 szB vbytes 0 sh;
       Some (if n_addrs_bad > 0 then record_address_error a (of_nat szB) True sh else sh)
     }
   }"

definition mc_STOREVn_slow :: "addr \<Rightarrow> nat \<Rightarrow> u64 \<Rightarrow> bool \<Rightarrow> shadow \<Rightarrow> shadow option" where
  "mc_STOREVn_slow a nBits vbytes bigendian sh = do {
     (stored, sh) \<leftarrow> (if nBits = 64 \<and> VG_IS_8_ALIGNED a then semi_fast_store64 a vbytes sh else Some (False, sh));
     if stored then Some sh
     else do {
       (stored, sh) \<leftarrow> (if nBits = 32 \<and> VG_IS_4_ALIGNED a then semi_fast_store32 a vbytes sh else Some (False, sh));
       if stored then Some sh else storev_bytes a nBits vbytes bigendian sh
     }
   }"

text \<open>Loads of 128 and 256 bits: the double words of the result with their pessimising values, the last one first.\<close>

fun loadv_longs :: "addr \<Rightarrow> nat \<Rightarrow> bool \<Rightarrow> nat \<Rightarrow> u64 list \<Rightarrow> u64 list \<Rightarrow> nat \<Rightarrow> shadow \<Rightarrow>
  (u64 list \<times> u64 list \<times> nat \<times> shadow) option" where
  "loadv_longs a szL bigendian 0 res pessim n_addrs_bad sh = Some (res, pessim, n_addrs_bad, sh)"
| "loadv_longs a szL bigendian (Suc j) res pessim n_addrs_bad sh = do {
     let long_index = byte_offset_w (of_nat szL) bigendian (of_nat j);
     (vbits64, pessim64, n_addrs_bad, sh) \<leftarrow>
       loadv_loop get_vbits8 (a + 8 * long_index) 8 bigendian 8 V_BITS64_UNDEFINED V_BITS64_DEFINED n_addrs_bad sh;
     loadv_longs a szL bigendian j (res[unat long_index := vbits64]) (pessim[unat long_index := pessim64]) n_addrs_bad sh
   }"

definition mc_LOADV_128_or_256_slow :: "addr \<Rightarrow> nat \<Rightarrow> bool \<Rightarrow> shadow \<Rightarrow> (u64 list \<times> shadow) option" where
  "mc_LOADV_128_or_256_slow a nBits bigendian sh = do {
     let szB = nBits div 8;
     let szL = szB div 8;
     if \<not> ((of_nat szB :: u64) AND (of_nat szB - 1) = 0 \<and> szL > 0 \<and> szL \<le> 4) then None else do {
       (res, pessim, n_addrs_bad, sh) \<leftarrow>
         loadv_longs a szL bigendian szL (replicate szL V_BITS64_UNDEFINED) (replicate szL V_BITS64_DEFINED) 0 sh;
       if n_addrs_bad = 0 then Some (res, sh)
       else if \<not> clo_partial_loads_ok sh then Some (res, record_address_error a (of_nat szB) False sh)
       else if \<forall>p \<in> set pessim. p = V_BITS64_DEFINED then None
       else if a AND (of_nat szB - 1) = 0 \<and> n_addrs_bad < szB then Some (map2 (OR) res pessim, sh)
       else Some (res, record_address_error a (of_nat szB) False sh)
     }
   }"


section \<open>Fast cases\<close>

definition MASK :: "u64 \<Rightarrow> u64" where
  "MASK szInBytes = NOT ((0x10000 - szInBytes) OR push_bit 16 (N_PRIMARY_MAP - 1))"

definition UNALIGNED_OR_HIGH :: "addr \<Rightarrow> u64 \<Rightarrow> bool" where
  "UNALIGNED_OR_HIGH a szInBits \<longleftrightarrow> a AND MASK (drop_bit 3 szInBits) \<noteq> 0"

text \<open>The double words of a fast load, up to the first one that is neither defined nor undefined.\<close>

fun fast_longs :: "addr \<Rightarrow> nat \<Rightarrow> nat \<Rightarrow> u64 list \<Rightarrow> shadow \<Rightarrow> u64 list option option" where
  "fast_longs a j 0 res sh = Some (Some res)"
| "fast_longs a j (Suc n) res sh = do {
     sm \<leftarrow> get_secmap_for_reading_low (a + 8 * of_nat j) sh;
     let vabits16 = get16 (contents sm) (SM_OFF_16 (a + 8 * of_nat j));
     if vabits16 = VA_BITS16_DEFINED then fast_longs a (Suc j) n (res @ [V_BITS64_DEFINED]) sh
     else if vabits16 = VA_BITS16_UNDEFINED then fast_longs a (Suc j) n (res @ [V_BITS64_UNDEFINED]) sh
     else Some None
   }"

definition mc_LOADV_128_or_256 :: "addr \<Rightarrow> nat \<Rightarrow> bool \<Rightarrow> shadow \<Rightarrow> (u64 list \<times> shadow) option" where
  "mc_LOADV_128_or_256 a nBits isBigEndian sh =
     (if UNALIGNED_OR_HIGH a (of_nat nBits) then mc_LOADV_128_or_256_slow a nBits isBigEndian sh
      else do {
        r \<leftarrow> fast_longs a 0 (nBits div 8 div 8) [] sh;
        case r of Some res \<Rightarrow> Some (res, sh) | None \<Rightarrow> mc_LOADV_128_or_256_slow a nBits isBigEndian sh
      })"

definition mc_LOADV64 :: "addr \<Rightarrow> bool \<Rightarrow> shadow \<Rightarrow> (u64 \<times> shadow) option" where
  "mc_LOADV64 a isBigEndian sh =
     (if UNALIGNED_OR_HIGH a 64 then mc_LOADVn_slow a 64 isBigEndian sh
      else do {
        sm \<leftarrow> get_secmap_for_reading_low a sh;
        let vabits16 = get16 (contents sm) (SM_OFF_16 a);
        if vabits16 = VA_BITS16_DEFINED then Some (V_BITS64_DEFINED, sh)
        else if vabits16 = VA_BITS16_UNDEFINED then Some (V_BITS64_UNDEFINED, sh)
        else mc_LOADVn_slow a 64 isBigEndian sh
      })"

definition mc_LOADV32 :: "addr \<Rightarrow> bool \<Rightarrow> shadow \<Rightarrow> (u64 \<times> shadow) option" where
  "mc_LOADV32 a isBigEndian sh =
     (if UNALIGNED_OR_HIGH a 32 then mc_LOADVn_slow a 32 isBigEndian sh
      else do {
        sm \<leftarrow> get_secmap_for_reading_low a sh;
        let vabits8 = contents sm (SM_OFF a);
        if vabits8 = VA_BITS8_DEFINED then Some (0xffffffff00000000 OR V_BITS32_DEFINED, sh)
        else if vabits8 = VA_BITS8_UNDEFINED then Some (0xffffffff00000000 OR V_BITS32_UNDEFINED, sh)
        else mc_LOADVn_slow a 32 isBigEndian sh
      })"

definition mc_LOADV16 :: "addr \<Rightarrow> bool \<Rightarrow> shadow \<Rightarrow> (u64 \<times> shadow) option" where
  "mc_LOADV16 a isBigEndian sh =
     (if UNALIGNED_OR_HIGH a 16 then mc_LOADVn_slow a 16 isBigEndian sh
      else do {
        sm \<leftarrow> get_secmap_for_reading_low a sh;
        let vabits8 = contents sm (SM_OFF a);
        if vabits8 = VA_BITS8_DEFINED then Some (V_BITS16_DEFINED, sh)
        else if vabits8 = VA_BITS8_UNDEFINED then Some (V_BITS16_UNDEFINED, sh)
        else do {
          vabits4 \<leftarrow> extract_vabits4_from_vabits8 a vabits8;
          if vabits4 = VA_BITS4_DEFINED then Some (V_BITS16_DEFINED, sh)
          else if vabits4 = VA_BITS4_UNDEFINED then Some (V_BITS16_UNDEFINED, sh)
          else mc_LOADVn_slow a 16 isBigEndian sh
        }
      })"

definition helperc_LOADV8 :: "addr \<Rightarrow> shadow \<Rightarrow> (u64 \<times> shadow) option" where
  "helperc_LOADV8 a sh =
     (if UNALIGNED_OR_HIGH a 8 then mc_LOADVn_slow a 8 False sh
      else do {
        sm \<leftarrow> get_secmap_for_reading_low a sh;
        let vabits8 = contents sm (SM_OFF a);
        if vabits8 = VA_BITS8_DEFINED then Some (ucast V_BITS8_DEFINED, sh)
        else if vabits8 = VA_BITS8_UNDEFINED then Some (ucast V_BITS8_UNDEFINED, sh)
        else let vabits2 = extract_vabits2_from_vabits8 a vabits8
          in if vabits2 = VA_BITS2_DEFINED then Some (ucast V_BITS8_DEFINED, sh)
             else if vabits2 = VA_BITS2_UNDEFINED then Some (ucast V_BITS8_UNDEFINED, sh)
             else mc_LOADVn_slow a 8 False sh
      })"

text \<open>The map found for reading is written through the same pointer.\<close>

definition write_low :: "addr \<Rightarrow> vabits \<Rightarrow> shadow \<Rightarrow> shadow" where
  "write_low a f sh = assign (get_secmap_low_ptr a) (Issued f) sh"

definition mc_STOREV64 :: "addr \<Rightarrow> u64 \<Rightarrow> bool \<Rightarrow> shadow \<Rightarrow> shadow option" where
  "mc_STOREV64 a vbits64 isBigEndian sh =
     (if UNALIGNED_OR_HIGH a 64 then mc_STOREVn_slow a 64 vbits64 isBigEndian sh
      else do {
        sm \<leftarrow> get_secmap_for_reading_low a sh;
        let vabits16 = get16 (contents sm) (SM_OFF_16 a);
        if V_BITS64_DEFINED = vbits64
        then (if vabits16 = VA_BITS16_DEFINED then Some sh
              else if \<not> is_distinguished_sm sm \<and> VA_BITS16_UNDEFINED = vabits16
              then Some (write_low a (set16 (SM_OFF_16 a) VA_BITS16_DEFINED (contents sm)) sh)
              else mc_STOREVn_slow a 64 vbits64 isBigEndian sh)
        else if V_BITS64_UNDEFINED = vbits64
        then (if vabits16 = VA_BITS16_UNDEFINED then Some sh
              else if \<not> is_distinguished_sm sm \<and> VA_BITS16_DEFINED = vabits16
              then Some (write_low a (set16 (SM_OFF_16 a) VA_BITS16_UNDEFINED (contents sm)) sh)
              else mc_STOREVn_slow a 64 vbits64 isBigEndian sh)
        else mc_STOREVn_slow a 64 vbits64 isBigEndian sh
      })"

definition mc_STOREV32 :: "addr \<Rightarrow> u64 \<Rightarrow> bool \<Rightarrow> shadow \<Rightarrow> shadow option" where
  "mc_STOREV32 a vbits32 isBigEndian sh =
     (if UNALIGNED_OR_HIGH a 32 then mc_STOREVn_slow a 32 vbits32 isBigEndian sh
      else do {
        sm \<leftarrow> get_secmap_for_reading_low a sh;
        let vabits8 = contents sm (SM_OFF a);
        if V_BITS32_DEFINED = vbits32
        then (if vabits8 = VA_BITS8_DEFINED then Some sh
              else if \<not> is_distinguished_sm sm \<and> VA_BITS8_UNDEFINED = vabits8
              then Some (write_low a ((contents sm)(SM_OFF a := VA_BITS8_DEFINED)) sh)
              else mc_STOREVn_slow a 32 vbits32 isBigEndian sh)
        else if V_BITS32_UNDEFINED = vbits32
        then (if vabits8 = VA_BITS8_UNDEFINED then Some sh
              else if \<not> is_distinguished_sm sm \<and> VA_BITS8_DEFINED = vabits8
              then Some (write_low a ((contents sm)(SM_OFF a := VA_BITS8_UNDEFINED)) sh)
              else mc_STOREVn_slow a 32 vbits32 isBigEndian sh)
        else mc_STOREVn_slow a 32 vbits32 isBigEndian sh
      })"

definition accessible_vabits4_in_vabits8 :: "addr \<Rightarrow> u8 \<Rightarrow> bool option" where
  "accessible_vabits4_in_vabits8 a vabits8 =
     (if VG_IS_2_ALIGNED a
      then let vabits8 = drop_bit (shift4 a) vabits8
        in Some (0x3 AND vabits8 \<noteq> VA_BITS2_NOACCESS \<and> 0xc AND vabits8 \<noteq> push_bit 2 VA_BITS2_NOACCESS)
      else None)"

text \<open>The condition of a direct modification of two bytes; the accessibility is looked at only if the map can be written.\<close>

definition direct16 :: "addr \<Rightarrow> SecMap \<Rightarrow> bool option" where
  "direct16 a sm = (if is_distinguished_sm sm then Some False else accessible_vabits4_in_vabits8 a (contents sm (SM_OFF a)))"

definition insert4_low :: "addr \<Rightarrow> u8 \<Rightarrow> vabits \<Rightarrow> shadow \<Rightarrow> shadow option" where
  "insert4_low a vabits4 f sh = do {
     v \<leftarrow> insert_vabits4_into_vabits8 a vabits4 (f (SM_OFF a));
     Some (write_low a (f(SM_OFF a := v)) sh)
   }"

text \<open>
  The branch for defined V bits does not return after its call of the slow case: control goes on to the call at the end.
\<close>

definition mc_STOREV16 :: "addr \<Rightarrow> u64 \<Rightarrow> bool \<Rightarrow> shadow \<Rightarrow> shadow option" where
  "mc_STOREV16 a vbits16 isBigEndian sh =
     (if UNALIGNED_OR_HIGH a 16 then mc_STOREVn_slow a 16 vbits16 isBigEndian sh
      else do {
        sm \<leftarrow> get_secmap_for_reading_low a sh;
        let vabits8 = contents sm (SM_OFF a);
        direct \<leftarrow> direct16 a sm;
        if V_BITS16_DEFINED = vbits16
        then (if vabits8 = VA_BITS8_DEFINED then Some sh
              else if direct then insert4_low a VA_BITS4_DEFINED (contents sm) sh
              else do {
                sh \<leftarrow> mc_STOREVn_slow a 16 vbits16 isBigEndian sh;
                mc_STOREVn_slow a 16 vbits16 isBigEndian sh
              })
        else if V_BITS16_UNDEFINED = vbits16
        then (if vabits8 = VA_BITS8_UNDEFINED then Some sh
              else if direct then insert4_low a VA_BITS4_UNDEFINED (contents sm) sh
              else mc_STOREVn_slow a 16 vbits16 isBigEndian sh)
        else mc_STOREVn_slow a 16 vbits16 isBigEndian sh
      })"

definition helperc_STOREV8 :: "addr \<Rightarrow> u64 \<Rightarrow> shadow \<Rightarrow> shadow option" where
  "helperc_STOREV8 a vbits8 sh =
     (if UNALIGNED_OR_HIGH a 8 then mc_STOREVn_slow a 8 vbits8 False sh
      else do {
        sm \<leftarrow> get_secmap_for_reading_low a sh;
        let vabits8 = contents sm (SM_OFF a);
        let direct = (\<not> is_distinguished_sm sm \<and> VA_BITS2_NOACCESS \<noteq> extract_vabits2_from_vabits8 a vabits8);
        if ucast V_BITS8_DEFINED = vbits8
        then (if vabits8 = VA_BITS8_DEFINED then Some sh
              else if direct
              then Some (write_low a ((contents sm)(SM_OFF a := insert_vabits2_into_vabits8 a VA_BITS2_DEFINED vabits8)) sh)
              else mc_STOREVn_slow a 8 vbits8 False sh)
        else if ucast V_BITS8_UNDEFINED = vbits8
        then (if vabits8 = VA_BITS8_UNDEFINED then Some sh
              else if direct
              then Some (write_low a ((contents sm)(SM_OFF a := insert_vabits2_into_vabits8 a VA_BITS2_UNDEFINED vabits8)) sh)
              else mc_STOREVn_slow a 8 vbits8 False sh)
        else mc_STOREVn_slow a 8 vbits8 False sh
      })"


section \<open>The leak checker's questions\<close>

definition is_within_valid_secondary_sh :: "addr \<Rightarrow> shadow \<Rightarrow> (bool \<times> shadow) option" where
  "is_within_valid_secondary_sh a sh = do {
     (sm, sh) \<leftarrow> maybe_get_secmap_for a sh;
     Some (\<not> (sm = None \<or> sm = Some (Distinguished SM_DIST_NOACCESS)), sh)
   }"

text \<open>\<^verbatim>\<open>MC_(in_ignored_range)\<close> is an argument.\<close>

definition is_valid_aligned_word_sh :: "(addr \<Rightarrow> bool) \<Rightarrow> addr \<Rightarrow> shadow \<Rightarrow> (bool \<times> shadow) option" where
  "is_valid_aligned_word_sh in_ignored_range a sh =
     (if \<not> VG_IS_8_ALIGNED a then None
      else do {
        (v, sh) \<leftarrow> get_vabits8_for_aligned_word32 a sh;
        if v \<noteq> VA_BITS8_DEFINED then Some (False, sh)
        else do {
          (v, sh) \<leftarrow> get_vabits8_for_aligned_word32 (a + 4) sh;
          if v \<noteq> VA_BITS8_DEFINED then Some (False, sh) else Some (\<not> in_ignored_range a, sh)
        }
      })"

end
