(* ===== verification/Shadow_Loops.thy ===== *)
theory Shadow_Loops
  imports Shadow_Access Shadow_Cells
begin

text \<open>
  The slow loops of loads and stores against an abstract memory. The interface they rely on, reading and writing the V bits
  of one byte, is the locale \<open>byte_memory\<close>; it is interpreted on \<^const>\<open>get_vbits8\<close> and \<^const>\<open>set_vbits8\<close>.
\<close>

section \<open>Bytes of a word\<close>

definition byte_of :: "u64 \<Rightarrow> nat \<Rightarrow> u8" where "byte_of w i = ucast (drop_bit (8 * i) w)"

lemma bit_byte_of: "bit (byte_of w i) n \<longleftrightarrow> n < 8 \<and> bit w (8 * i + n)"
  by (simp add: byte_of_def bit_unsigned_iff bit_drop_bit_eq)

lemma bit_shift_in: "bit (push_bit 8 w OR ucast (v :: u8) :: u64) n \<longleftrightarrow> (if n < 8 then bit v n else n < 64 \<and> bit w (n - 8))"
  using bit_imp_le_length[of v n] by (auto simp: bit_or_iff bit_push_bit_iff bit_unsigned_iff)

lemma byte_shift_in:
  assumes "i < 8"
  shows "byte_of (push_bit 8 w OR ucast v) i = (case i of 0 \<Rightarrow> v | Suc j \<Rightarrow> byte_of w j)"
proof (rule bit_eqI)
  fix n
  show "bit (byte_of (push_bit 8 w OR ucast v) i) n = bit (case i of 0 \<Rightarrow> v | Suc j \<Rightarrow> byte_of w j) n"
    using assms bit_imp_le_length[of v n] by (cases i) (auto simp: bit_byte_of bit_shift_in)
qed

lemma byte_shift_in_0 [simp]: "byte_of (push_bit 8 w OR ucast v) 0 = v"
  using byte_shift_in[of 0 w v] by simp

lemma byte_of_drop: "byte_of (drop_bit 8 w) i = byte_of w (Suc i)"
  by (rule bit_eqI) (simp add: bit_byte_of bit_drop_bit_eq algebra_simps)

lemma byte_0: "ucast (w AND 0xff) = byte_of w 0"
proof -
  have m: "(0xff :: u64) = mask 8" by (simp add: mask_eq_exp_minus_1)
  show ?thesis
    by (rule bit_eqI) (simp only: m, auto simp: bit_byte_of bit_unsigned_iff bit_and_iff bit_mask_iff simp del: mask_numeral)
qed

lemma byte_of_or: "byte_of (v OR w) i = byte_of v i OR byte_of w i"
  by (rule bit_eqI) (auto simp: bit_byte_of bit_or_iff)

lemma byte_of_0 [simp]: "byte_of 0 i = 0"
  by (simp add: byte_of_def)

lemma bytes_eq:
  assumes "\<forall>i < 8. byte_of v i = byte_of w i"
  shows "v = w"
proof (rule bit_eqI)
  fix n
  show "bit v n = bit w n"
  proof (cases "n < 64")
    case True
    have "bit (byte_of x (n div 8)) (n mod 8) = bit x n" for x using True by (simp add: bit_byte_of)
    moreover have "n div 8 < 8" using True by (simp add: div_less_iff_less_mult)
    ultimately show ?thesis using assms by metis
  next
    case False
    then show ?thesis using bit_imp_le_length[of v n] bit_imp_le_length[of w n] by auto
  qed
qed

lemma eq_0_bytes: "w = 0 \<longleftrightarrow> (\<forall>i < 8. byte_of w i = 0)"
  using bytes_eq[of w 0] by auto


section \<open>Addresses of bytes\<close>

text \<open>The place in memory of the byte of significance \<open>i\<close>, and the inverse.\<close>

definition place :: "nat \<Rightarrow> bool \<Rightarrow> nat \<Rightarrow> nat" where "place n be i = (if be then n - 1 - i else i)"

lemma place_inv: "i < n \<Longrightarrow> place n be i < n" "i < n \<Longrightarrow> place n be (place n be i) = i"
  by (auto simp: place_def)

lemma byte_offset_place:
  assumes "i < n" "n < 2 ^ 64"
  shows "byte_offset_w (of_nat n) be (of_nat i) = of_nat (place n be i)"
  using assms by (simp add: byte_offset_w_def place_def of_nat_diff)

lemma place_addr:
  assumes "i < n" "n < 2 ^ 64"
  shows "unat (b - a) < n \<and> place n be (unat (b - a)) = i \<longleftrightarrow> b = (a :: addr) + of_nat (place n be i)"
proof -
  have "unat (b - a) = place n be i \<longleftrightarrow> b = a + of_nat (place n be i)"
    using off_eq_iff[of "place n be i" b a] place_inv(1)[OF assms(1), of be] assms(2) by simp
  then show ?thesis using place_inv[OF assms(1), of be] place_inv[of "unat (b - a)" n be] by metis
qed


section \<open>Loaded and stored bytes\<close>

text \<open>
  What a load finds in the byte of significance \<open>i\<close>: its V bits, defined where there is no memory. The pessimising value
  is undefined exactly there.
\<close>

definition found :: "(addr \<Rightarrow> u8 option) \<Rightarrow> addr \<Rightarrow> nat \<Rightarrow> bool \<Rightarrow> nat \<Rightarrow> u8" where
  "found m a n be i = (case m (a + of_nat (place n be i)) of None \<Rightarrow> V_BITS8_DEFINED | Some v \<Rightarrow> v)"

definition gap :: "(addr \<Rightarrow> u8 option) \<Rightarrow> addr \<Rightarrow> nat \<Rightarrow> bool \<Rightarrow> nat \<Rightarrow> u8" where
  "gap m a n be i = (if m (a + of_nat (place n be i)) \<noteq> None then V_BITS8_DEFINED else V_BITS8_UNDEFINED)"

definition bad_bytes :: "(addr \<Rightarrow> u8 option) \<Rightarrow> addr \<Rightarrow> nat \<Rightarrow> bool \<Rightarrow> nat \<Rightarrow> nat" where
  "bad_bytes m a n be k = card {i. i < k \<and> m (a + of_nat (place n be i)) = None}"

lemma bad_bytes_Suc:
  "bad_bytes m a n be (Suc k) = bad_bytes m a n be k + (if m (a + of_nat (place n be k)) = None then 1 else 0)"
proof -
  have "{i. i < Suc k \<and> P i} = (if P k then insert k {i. i < k \<and> P i} else {i. i < k \<and> P i})" for P :: "nat \<Rightarrow> bool"
    by (auto simp: less_Suc_eq)
  then show ?thesis by (simp add: bad_bytes_def)
qed

text \<open>A store from the byte of significance \<open>i\<close> on.\<close>

definition stored :: "addr \<Rightarrow> nat \<Rightarrow> bool \<Rightarrow> nat \<Rightarrow> nat \<Rightarrow> u64 \<Rightarrow> (addr \<Rightarrow> u8 option) \<Rightarrow> addr \<Rightarrow> u8 option" where
  "stored a n be i k w m = (\<lambda>b. let j = place n be (unat (b - a)) in
     if unat (b - a) < n \<and> i \<le> j \<and> j < i + k \<and> m b \<noteq> None then Some (byte_of w (j - i)) else m b)"

lemma stored_step:
  assumes "i + Suc k \<le> n" "n \<le> 8"
    and "m' = (if m (a + of_nat (place n be i)) = None then m else m(a + of_nat (place n be i) \<mapsto> byte_of w 0))"
  shows "stored a n be (Suc i) k (drop_bit 8 w) m' = stored a n be i (Suc k) w m"
proof
  fix b
  have at: "unat (b - a) < n \<and> place n be (unat (b - a)) = i \<longleftrightarrow> b = a + of_nat (place n be i)"
    by (rule place_addr) (use assms(1,2) in auto)
  show "stored a n be (Suc i) k (drop_bit 8 w) m' b = stored a n be i (Suc k) w m b"
  proof (cases "b = a + of_nat (place n be i)")
    case True
    then have "place n be (unat (b - a)) = i" "unat (b - a) < n" using at by auto
    then show ?thesis using True by (auto simp: stored_def assms(3))
  next
    case False
    then have ne: "unat (b - a) < n \<Longrightarrow> place n be (unat (b - a)) \<noteq> i" using at by blast
    have m: "m' b = m b" using False by (simp add: assms(3))
    have "byte_of (drop_bit 8 w) (j - Suc i) = byte_of w (j - i)" if "Suc i \<le> j" for j
      using that by (simp add: byte_of_drop Suc_diff_Suc)
    then show ?thesis using ne by (auto simp: stored_def m Let_def)
  qed
qed


section \<open>The interface\<close>

locale byte_memory =
  fixes inv :: "'s \<Rightarrow> bool" and mem :: "'s \<Rightarrow> addr \<Rightarrow> u8 option" and obs :: "'s \<Rightarrow> 'o"
    and get :: "addr \<Rightarrow> 's \<Rightarrow> (bool \<times> u8 \<times> 's) option" and put :: "addr \<Rightarrow> u8 \<Rightarrow> 's \<Rightarrow> (bool \<times> 's) option"
  assumes get_law: "inv s \<Longrightarrow> \<exists>s'. get a s = Some (mem s a \<noteq> None, case mem s a of None \<Rightarrow> V_BITS8_DEFINED | Some v \<Rightarrow> v, s') \<and>
      inv s' \<and> mem s' = mem s \<and> obs s' = obs s"
    and put_law: "inv s \<Longrightarrow> \<exists>s'. put a v s = Some (mem s a \<noteq> None, s') \<and> inv s' \<and> obs s' = obs s \<and>
      mem s' = (if mem s a = None then mem s else (mem s)(a \<mapsto> v))"
begin

lemma load_law:
  assumes "inv s" "k \<le> n" "n \<le> 8"
  shows "\<exists>v' p' s'. loadv_loop get a (of_nat n) be k v p m s = Some (v', p', m + bad_bytes (mem s) a n be k, s') \<and>
    inv s' \<and> mem s' = mem s \<and> obs s' = obs s \<and>
    (\<forall>i < 8. byte_of v' i = (if i < k then found (mem s) a n be i else byte_of v (i - k))) \<and>
    (\<forall>i < 8. byte_of p' i = (if i < k then gap (mem s) a n be i else byte_of p (i - k)))"
  using assms
proof (induction k arbitrary: v p m s)
  case 0
  then show ?case by (simp add: bad_bytes_def)
next
  case (Suc k)
  let ?b = "a + of_nat (place n be k)"
  have off: "a + byte_offset_w (of_nat n) be (of_nat k) = ?b" using Suc.prems by (simp add: byte_offset_place)
  from get_law[OF Suc.prems(1), of ?b] obtain s1 where
    s1: "get ?b s = Some (mem s ?b \<noteq> None, found (mem s) a n be k, s1)" "inv s1" "mem s1 = mem s" "obs s1 = obs s"
    unfolding found_def by blast
  let ?v = "push_bit 8 v OR ucast (found (mem s) a n be k)" and ?p = "push_bit 8 p OR ucast (gap (mem s) a n be k)"
  let ?m = "if mem s ?b \<noteq> None then m else m + 1"
  from Suc.IH[OF s1(2), of ?v ?p ?m] Suc.prems(2,3) obtain v' p' s' where
    r: "loadv_loop get a (of_nat n) be k ?v ?p ?m s1 = Some (v', p', ?m + bad_bytes (mem s) a n be k, s')"
    "inv s'" "mem s' = mem s" "obs s' = obs s"
    "\<forall>i < 8. byte_of v' i = (if i < k then found (mem s) a n be i else byte_of ?v (i - k))"
    "\<forall>i < 8. byte_of p' i = (if i < k then gap (mem s) a n be i else byte_of ?p (i - k))"
    unfolding s1(3,4) by auto
  have top: "byte_of (push_bit 8 w OR ucast x) (i - k) = (if i < Suc k then x else byte_of w (i - Suc k))"
    if h: "i < 8" "\<not> i < k" for i w x
  proof (cases "i = k")
    case False
    then obtain j where "i = k + Suc j" using h(2) by (metis add_Suc_right less_imp_Suc_add linorder_neqE_nat)
    then show ?thesis using h byte_shift_in[of "Suc j" w x] by simp
  qed simp
  have "loadv_loop get a (of_nat n) be (Suc k) v p m s = Some (v', p', m + bad_bytes (mem s) a n be (Suc k), s')"
    using r(1) s1(1) by (simp add: off bad_bytes_Suc gap_def)
  moreover have "\<forall>i < 8. byte_of v' i = (if i < Suc k then found (mem s) a n be i else byte_of v (i - Suc k))"
    "\<forall>i < 8. byte_of p' i = (if i < Suc k then gap (mem s) a n be i else byte_of p (i - Suc k))"
    using r(5,6) top by (auto simp: less_Suc_eq)
  ultimately show ?case using r(2-4) by blast
qed

lemma store_law:
  assumes "inv s" "i + k \<le> n" "n \<le> 8"
  shows "\<exists>c s'. storev_loop put a (of_nat n) be i k w m s = Some (m + c, s') \<and>
    (c = 0 \<longleftrightarrow> (\<forall>j. i \<le> j \<and> j < i + k \<longrightarrow> mem s (a + of_nat (place n be j)) \<noteq> None)) \<and>
    inv s' \<and> obs s' = obs s \<and> mem s' = stored a n be i k w (mem s)"
  using assms
proof (induction k arbitrary: i w m s)
  case 0
  then show ?case by (auto simp: stored_def Let_def fun_eq_iff)
next
  case (Suc k)
  let ?b = "a + of_nat (place n be i)"
  have off: "a + byte_offset_w (of_nat n) be (of_nat i) = ?b" using Suc.prems by (simp add: byte_offset_place)
  from put_law[OF Suc.prems(1), of ?b "byte_of w 0"] obtain s1 where
    s1: "put ?b (byte_of w 0) s = Some (mem s ?b \<noteq> None, s1)" "inv s1" "obs s1 = obs s"
    "mem s1 = (if mem s ?b = None then mem s else (mem s)(?b \<mapsto> byte_of w 0))" by blast
  let ?m = "if mem s ?b \<noteq> None then m else m + 1"
  from Suc.IH[OF s1(2), of "Suc i" "drop_bit 8 w" ?m] Suc.prems(2,3) obtain c s' where
    r: "storev_loop put a (of_nat n) be (Suc i) k (drop_bit 8 w) ?m s1 = Some (?m + c, s')"
    "c = 0 \<longleftrightarrow> (\<forall>j. Suc i \<le> j \<and> j < Suc i + k \<longrightarrow> mem s1 (a + of_nat (place n be j)) \<noteq> None)"
    "inv s'" "obs s' = obs s" "mem s' = stored a n be (Suc i) k (drop_bit 8 w) (mem s1)"
    using s1(3) by auto
  have none: "mem s1 b = None \<longleftrightarrow> mem s b = None" for b by (auto simp: s1(4))
  have "(\<forall>j. i \<le> j \<and> j < i + Suc k \<longrightarrow> Q j) \<longleftrightarrow> Q i \<and> (\<forall>j. Suc i \<le> j \<and> j < Suc i + k \<longrightarrow> Q j)" for Q :: "nat \<Rightarrow> bool"
    by (metis Suc_leI add_Suc_right add_Suc le_add1 le_eq_less_or_eq less_Suc_eq_le Suc_leD)
  with r(2) have "(if mem s ?b \<noteq> None then c else c + 1) = 0 \<longleftrightarrow>
      (\<forall>j. i \<le> j \<and> j < i + Suc k \<longrightarrow> mem s (a + of_nat (place n be j)) \<noteq> None)" by (simp add: none)
  moreover have "storev_loop put a (of_nat n) be i (Suc k) w m s = Some (m + (if mem s ?b \<noteq> None then c else c + 1), s')"
    using r(1) s1(1) by (simp add: off byte_0)
  moreover have "mem s' = stored a n be i (Suc k) w (mem s)"
    unfolding r(5) by (rule stored_step[OF _ Suc.prems(3) s1(4)]) (use Suc.prems(2) in simp)
  ultimately show ?case using r(3,4)
    by (intro exI[of _ "if mem s ?b \<noteq> None then c else c + 1"] exI[of _ s'] conjI)
qed

end

interpretation shadow_bytes: byte_memory shadow_ok vb other get_vbits8 set_vbits8
proof
  fix s :: shadow and a v
  assume ok: "shadow_ok s"
  show "\<exists>s'. get_vbits8 a s = Some (vb s a \<noteq> None, case vb s a of None \<Rightarrow> V_BITS8_DEFINED | Some v \<Rightarrow> v, s') \<and>
      shadow_ok s' \<and> vb s' = vb s \<and> other s' = other s"
    using get_vbits8_spec[OF ok, of a] unseen_same[OF ok] unfolding same_mem_def by blast
  show "\<exists>s'. set_vbits8 a v s = Some (vb s a \<noteq> None, s') \<and> shadow_ok s' \<and> other s' = other s \<and>
      vb s' = (if vb s a = None then vb s else (vb s)(a \<mapsto> v))"
    by (rule set_vbits8_spec[OF ok])
qed

end
