(* ===== verification/Shadow_Fast.thy ===== *)
theory Shadow_Fast
  imports Shadow_Loops
begin

text \<open>
  The fast cases of loads and stores: what they find in one entry of a secondary map holds of each of the bytes, and what they
  write changes exactly these bytes.
\<close>

section \<open>The address test\<close>

lemma MASK_eq:
  "MASK 1 = NOT (push_bit 0 (mask 37))" "MASK 2 = NOT (push_bit 1 (mask 36))" "MASK 4 = NOT (push_bit 2 (mask 35))"
  "MASK 8 = NOT (push_bit 3 (mask 34))" "MASK 16 = NOT (push_bit 4 (mask 33))" "MASK 32 = NOT (push_bit 5 (mask 32))"
  by (simp_all add: MASK_def N_PRIMARY_MAP_def mask_eq_exp_minus_1)

lemma mask_test:
  fixes a :: addr
  assumes "k \<le> 37"
  shows "a AND NOT (push_bit k (mask (37 - k))) = 0 \<longleftrightarrow> a \<le> MAX_PRIMARY_ADDRESS \<and> unat a mod 2 ^ k = 0"
proof -
  have "a AND NOT (push_bit k (mask (37 - k))) = 0 \<longleftrightarrow> drop_bit 37 a = 0 \<and> take_bit k a = 0"
  proof
    assume z: "a AND NOT (push_bit k (mask (37 - k))) = 0"
    have b: "bit a n \<Longrightarrow> k \<le> n \<and> n < 37" for n
      using arg_cong[OF z, of "\<lambda>w. bit w n"] bit_imp_le_length[of a n] assms
      by (auto simp: bit_and_iff bit_not_iff bit_push_bit_iff bit_mask_iff simp del: mask_numeral)
    have "drop_bit 37 a = 0"
    proof (rule bit_eqI)
      fix n show "bit (drop_bit 37 a) n = bit 0 n" using b[of "37 + n"] by (auto simp: bit_drop_bit_eq)
    qed
    moreover have "take_bit k a = 0"
    proof (rule bit_eqI)
      fix n show "bit (take_bit k a) n = bit 0 n" using b[of n] by (auto simp: bit_take_bit_iff)
    qed
    ultimately show "drop_bit 37 a = 0 \<and> take_bit k a = 0" by blast
  next
    assume d: "drop_bit 37 a = 0 \<and> take_bit k a = 0"
    have h: "bit (drop_bit 37 a) m = bit (0 :: u64) m" "bit (take_bit k a) m = bit (0 :: u64) m" for m using d by simp_all
    have "\<not> bit a (37 + m)" "m < k \<Longrightarrow> \<not> bit a m" for m
      using h[of m] by (auto simp: bit_drop_bit_eq bit_take_bit_iff)
    then have b: "bit a n \<Longrightarrow> k \<le> n \<and> n < 37" for n by (metis le_add_diff_inverse not_le)
    show "a AND NOT (push_bit k (mask (37 - k))) = 0"
    proof (rule bit_eqI)
      fix n
      have "n - k < 37 - k" "n - k < 64" if "bit a n" using b[OF that] by auto
      then show "bit (a AND NOT (push_bit k (mask (37 - k)))) n = bit 0 n"
        using b[of n] by (auto simp: bit_and_iff bit_not_iff bit_push_bit_iff bit_mask_iff simp del: mask_numeral)
    qed
  qed
  moreover have "drop_bit 37 a = 0 \<longleftrightarrow> a \<le> MAX_PRIMARY_ADDRESS"
  proof -
    have "drop_bit 37 a = 0 \<longleftrightarrow> unat a div 2 ^ 37 = 0" by (simp only: word_unat_eq_iff unat_drop_bit_div unat_0)
    also have "\<dots> \<longleftrightarrow> unat a div 65536 < 2097152" by (simp add: div_less_iff_less_mult div_eq_0_iff)
    finally show ?thesis by (simp only: hi_low_iff)
  qed
  moreover have "take_bit k a = 0 \<longleftrightarrow> unat a mod 2 ^ k = 0"
    by (simp only: word_unat_eq_iff unsigned_take_bit_eq unat_0) (simp add: take_bit_eq_mod)
  ultimately show ?thesis by (simp only:)
qed

lemma UNALIGNED_OR_HIGH_iff:
  "\<not> UNALIGNED_OR_HIGH a 8 \<longleftrightarrow> a \<le> MAX_PRIMARY_ADDRESS"
  "\<not> UNALIGNED_OR_HIGH a 16 \<longleftrightarrow> a \<le> MAX_PRIMARY_ADDRESS \<and> unat a mod 2 = 0"
  "\<not> UNALIGNED_OR_HIGH a 32 \<longleftrightarrow> a \<le> MAX_PRIMARY_ADDRESS \<and> unat a mod 4 = 0"
  "\<not> UNALIGNED_OR_HIGH a 64 \<longleftrightarrow> a \<le> MAX_PRIMARY_ADDRESS \<and> unat a mod 8 = 0"
  "\<not> UNALIGNED_OR_HIGH a 128 \<longleftrightarrow> a \<le> MAX_PRIMARY_ADDRESS \<and> unat a mod 16 = 0"
  "\<not> UNALIGNED_OR_HIGH a 256 \<longleftrightarrow> a \<le> MAX_PRIMARY_ADDRESS \<and> unat a mod 32 = 0"
  using mask_test[of 0 a] mask_test[of 1 a] mask_test[of 2 a] mask_test[of 3 a] mask_test[of 4 a] mask_test[of 5 a]
  by (simp_all add: UNALIGNED_OR_HIGH_def MASK_eq del: mask_numeral)


section \<open>Bytes of one map\<close>

lemma block_off:
  assumes "lo a + n \<le> 65536" "0 < n"
  shows "unat (b - a) < n \<longleftrightarrow> hi b = hi a \<and> lo a \<le> lo b \<and> lo b < lo a + n"
proof -
  have "unat a div 65536 < 2 ^ 48" using unat_bound[of a] by (simp add: div_less_iff_less_mult)
  then have "65536 * (unat a div 65536) + 65536 \<le> 2 ^ 64" by simp
  then have "unat a + n \<le> 2 ^ 64" using assms(1) mult_div_mod_eq[of 65536 "unat a"] by linarith
  then show ?thesis using in_range_off[of a n b] in_range_lo[OF assms(1), of b] assms(1) by simp
qed

lemma block_nowrap:
  assumes "lo a + n \<le> 65536"
  shows "unat a + n \<le> 2 ^ 64"
proof -
  have "unat a div 65536 < 2 ^ 48" using unat_bound[of a] by (simp add: div_less_iff_less_mult)
  then have "65536 * (unat a div 65536) + 65536 \<le> 2 ^ 64" by simp
  then show ?thesis using assms mult_div_mod_eq[of 65536 "unat a"] by linarith
qed

lemma aligned_fits:
  assumes "unat (a :: addr) mod n = 0" "n dvd 65536"
  shows "lo a + n \<le> 65536"
proof -
  from assms(2) obtain k where k: "65536 = n * k" by blast
  have "lo a mod n = 0" using assms by (simp add: mod_mod_cancel)
  then obtain j where j: "lo a = n * j" by blast
  have "n * j < n * k" unfolding j[symmetric] k[symmetric] by simp
  then have "n * Suc j \<le> n * k" by (metis Suc_leI mult_le_mono2 nat_mult_less_cancel_disj)
  then show ?thesis using j k by simp
qed

definition holds :: "u8 \<Rightarrow> shadow \<Rightarrow> addr \<Rightarrow> nat \<Rightarrow> bool" where
  "holds v sh a n \<longleftrightarrow> (\<forall>b. unat (b - a) < n \<longrightarrow> va sh b = v)"

lemma covers_holds:
  assumes "covers v f a n f" "contents (sm_of sh a) = f" "lo a + n \<le> 65536" "0 < n"
  shows "holds v sh a n"
  unfolding holds_def
proof (intro allI impI)
  fix b assume "unat (b - a) < n"
  then have b: "hi b = hi a" "lo a \<le> lo b \<and> lo b < lo a + n" using block_off[OF assms(3,4), of b] by auto
  have "vw f b = v" using assms(1) b(2) unfolding covers_def by metis
  then show "va sh b = v" using sm_of_same[OF b(1), of sh] assms(2) by (simp add: va_def va_of_vw)
qed

lemma get16_bytes: "ucast (get16 f i) = f (2 * i)" "ucast (drop_bit 8 (get16 f i)) = f (2 * i + 1)"
  by (rule bit_eqI, auto simp: get16_def bit_or_iff bit_push_bit_iff bit_unsigned_iff bit_drop_bit_eq dest: bit_imp_le_length)+

lemma set16_get16: "set16 i (get16 f i) f = f"
  by (simp add: set16_def get16_bytes)

lemma holds16:
  assumes "unat a mod 8 = 0" "uniform v16 dsm v2" "get16 (contents (sm_of sh a)) (SM_OFF_16 a) = v16"
  shows "holds v2 sh a 8"
proof -
  have "VG_IS_8_ALIGNED a" using assms(1) unat_and(4)[of a] by (metis unat_eq_0)
  from set16_covers[OF this assms(2), of "contents (sm_of sh a)"] have "covers v2 (contents (sm_of sh a)) a 8 (contents (sm_of sh a))"
    by (simp add: assms(3)[symmetric] set16_get16)
  then show ?thesis by (rule covers_holds[OF _ refl]) (use aligned_fits[OF assms(1)] in simp_all)
qed

text \<open>An entry of four bytes; the bytes of a smaller access lie in it.\<close>

definition uniform8 :: "u8 \<Rightarrow> u8 \<Rightarrow> bool" where
  "uniform8 w v2 \<longleftrightarrow> (\<forall>b. extract_vabits2_from_vabits8 b w = v2)"

lemma uniform8_consts:
  "uniform8 VA_BITS8_DEFINED VA_BITS2_DEFINED" "uniform8 VA_BITS8_UNDEFINED VA_BITS2_UNDEFINED"
  using extract_uniform(3)[of VA_BITS16_DEFINED SM_DIST_DEFINED VA_BITS2_DEFINED]
    extract_uniform(3)[of VA_BITS16_UNDEFINED SM_DIST_UNDEFINED VA_BITS2_UNDEFINED]
  by (simp_all add: uniform8_def uniform_def dist_vabits8_def)

lemma entry_arith:
  fixes x y n :: nat
  assumes "x mod n = 0" "n = 1 \<or> n = 2 \<or> n = 4" "x \<le> y" "y < x + n"
  shows "y div 4 = x div 4"
proof -
  from assms(1) obtain m where x: "x = n * m" by blast
  have four: "z div 4 = z div 2 div 2" for z :: nat by (simp add: div_mult2_eq[symmetric])
  from assms(2) show ?thesis
  proof (elim disjE)
    assume "n = 1"
    then show ?thesis using assms(3,4) by simp
  next
    assume "n = 2"
    then have "y = 2 * m \<or> y = Suc (2 * m)" "x = 2 * m" using assms(3,4) x by auto
    then show ?thesis by (auto simp: four)
  next
    assume "n = 4"
    then have "y div 4 = m" "x = 4 * m" using assms(3,4) x by auto
    then show ?thesis by simp
  qed
qed

lemma same_entry:
  fixes a b :: addr
  assumes "unat a mod n = 0" "n = 1 \<or> n = 2 \<or> n = 4" "unat (b - a) < n"
  shows "hi b = hi a \<and> SM_OFF b = SM_OFF a"
proof -
  have f: "lo a + n \<le> 65536" using assms(2) by (intro aligned_fits[OF assms(1)]) auto
  have m: "lo a mod n = 0" using assms(1,2) by (auto simp: mod_mod_cancel)
  have b: "hi b = hi a" "lo a \<le> lo b" "lo b < lo a + n" using block_off[OF f, of b] assms(2,3) by auto
  have "lo b div 4 = lo a div 4" by (rule entry_arith[OF m assms(2) b(2,3)])
  with b(1) show ?thesis by (simp only: SM_OFF_eq_iff)
qed

lemma holds8:
  assumes "unat a mod n = 0" "n = 1 \<or> n = 2 \<or> n = 4" "uniform8 w v2" "contents (sm_of sh a) (SM_OFF a) = w"
  shows "holds v2 sh a n"
  unfolding holds_def
proof (intro allI impI)
  fix b assume "unat (b - a) < n"
  from same_entry[OF assms(1,2) this] have b: "hi b = hi a" "SM_OFF b = SM_OFF a" by blast+
  show "va sh b = v2"
    using assms(3,4) by (simp only: va_def va_of_def sm_of_same[OF b(1)] b(2) uniform8_def)
qed

lemma set8_covers:
  assumes "unat a mod 4 = 0" "uniform8 w v2"
  shows "covers v2 f a 4 (f(SM_OFF a := w))"
proof -
  have "lo b div 4 = lo a div 4 \<longleftrightarrow> lo a \<le> lo b \<and> lo b < lo a + 4" for b
  proof -
    have "lo a mod 4 = 0" using assms(1) by (simp add: mod_mod_cancel)
    then obtain j where j: "lo a = 4 * j" by blast
    define x where "x = lo b"
    have "x div 4 = j \<longleftrightarrow> 4 * j \<le> x \<and> x < 4 * j + 4" by auto
    then show ?thesis by (simp add: j x_def)
  qed
  then show ?thesis using assms(2) by (auto simp: covers_def vw_def uniform8_def SM_OFF_eq_iff)
qed


text \<open>Two bytes in one half of an entry.\<close>

lemma shift4_eq: "unat a mod 2 = 0 \<Longrightarrow> shift4 a = 2 * (unat a mod 4)"
proof -
  assume e: "unat a mod 2 = 0"
  have "a AND 1 = 0" using unat_and(2)[of a] e by (metis unat_eq_0)
  then have "\<not> bit (a AND 1) 0" by simp
  then have b0: "\<not> bit a 0" unfolding bit_and_iff by simp
  have "unat (a AND 2) = unat a mod 4"
  proof -
    have "a AND 2 = a AND 3"
    proof (rule bit_eqI)
      fix n
      have "(3 :: u64) = 1 OR 2" by simp
      then have "bit (3 :: u64) n \<longleftrightarrow> n = 0 \<or> bit (2 :: u64) n" by (metis bit_1_iff bit_or_iff)
      then show "bit (a AND 2) n = bit (a AND 3) n" using b0 by (auto simp: bit_and_iff simp del: bit_numeral_word_iff)
    qed
    then show ?thesis by (simp only: unat_and)
  qed
  then show ?thesis by (simp only: shift4_def unat_push_bit_mod) simp
qed

lemma bit_15: "bit (15 :: u8) n \<longleftrightarrow> n < 4"
proof -
  have "(15 :: u8) = mask 4" by (simp add: mask_eq_exp_minus_1)
  then show ?thesis by (simp only: bit_mask_iff) auto
qed


lemma half_arith:
  fixes x i :: nat
  assumes "x mod 2 = 0" "i < 2"
  shows "(x + i) mod 4 = x mod 4 + i"
proof -
  from assms(1) obtain m where x: "x = 2 * m" by blast
  obtain q where "m = 2 * q \<or> m = 2 * q + 1" by (metis evenE oddE)
  then have q: "x = 4 * q \<or> x = 4 * q + 2" using x by auto
  have i: "i = 0 \<or> i = 1" using assms(2) by linarith
  have r: "(4 * q + r) mod 4 = r" if "r < 4" for r :: nat using that by simp
  consider "i = 0" | "x = 4 * q" "i = 1" | "x = 4 * q + 2" "i = 1" using q i by blast
  then show ?thesis
  proof cases
    case 2
    then show ?thesis using r[of 1] by simp
  next
    case 3
    then have "x + i = 4 * q + 3" by simp
    then show ?thesis using r[of 2] r[of 3] 3 by simp
  qed simp
qed

lemma half_entry:
  fixes a b :: addr
  assumes "unat a mod 2 = 0" "unat (b - a) < 2"
  shows "unat b mod 4 = unat a mod 4 + unat (b - a)"
proof -
  have "lo a + 2 \<le> 65536" by (rule aligned_fits[OF assms(1)]) simp
  from block_nowrap[OF this] have "unat a + unat (b - a) < 2 ^ 64" using assms(2) by simp
  from add_nowrap[OF this] have "unat b = unat a + unat (b - a)" by simp
  with half_arith[OF assms] show ?thesis by simp
qed

lemma extract4_bytes:
  assumes "extract_vabits4_from_vabits8 a w = Some v4" "unat (b - a) < 2"
  shows "extract_vabits2_from_vabits8 b w = (3 AND drop_bit (2 * unat (b - a)) v4)"
proof -
  have e: "unat a mod 2 = 0" "v4 = 15 AND drop_bit (shift4 a) w"
    using assms(1) unat_and(2)[of a] by (auto simp: extract_vabits4_from_vabits8_def split: if_splits)
  have h: "2 * (unat b mod 4) = 2 * unat (b - a) + shift4 a" using half_entry[OF e(1) assms(2)] by (simp add: shift4_eq[OF e(1)])
  show ?thesis
    unfolding e(2) extract_vabits2_from_vabits8_def shift2_eq h using assms(2)
    by (intro bit_eqI) (auto simp: bit_and_iff bit_drop_bit_eq bit_3 bit_15 add.assoc simp del: bit_numeral_word_iff)
qed

lemma holds4:
  assumes "extract_vabits4_from_vabits8 a (contents (sm_of sh a) (SM_OFF a)) = Some v4"
    and "v4 = VA_BITS4_DEFINED \<and> v2 = VA_BITS2_DEFINED \<or> v4 = VA_BITS4_UNDEFINED \<and> v2 = VA_BITS2_UNDEFINED"
  shows "holds v2 sh a 2"
  unfolding holds_def
proof (intro allI impI)
  fix b assume b: "unat (b - a) < 2"
  have "unat a mod 2 = 0" using assms(1) unat_and(2)[of a] by (auto simp: extract_vabits4_from_vabits8_def split: if_splits)
  from same_entry[OF this _ b] have e: "hi b = hi a" "SM_OFF b = SM_OFF a" by blast+
  have "unat (b - a) = 0 \<or> unat (b - a) = 1" using b by linarith
  then show "va sh b = v2"
    using extract4_bytes[OF assms(1) b] assms(2) by (auto simp: va_def va_of_def sm_of_same[OF e(1)] e(2) va_consts)
qed

text \<open>The patterns of two bytes repeat the pattern of one.\<close>

definition uniform4 :: "u8 \<Rightarrow> u8 \<Rightarrow> bool" where
  "uniform4 v4 v2 \<longleftrightarrow> v4 = VA_BITS4_DEFINED \<and> v2 = VA_BITS2_DEFINED \<or> v4 = VA_BITS4_UNDEFINED \<and> v2 = VA_BITS2_UNDEFINED"

lemma uniform4_bits:
  assumes "uniform4 v4 v2"
  shows "bit v4 j \<longleftrightarrow> j < 4 \<and> bit v2 (j mod 2)" "is_vabits2 v2"
proof -
  show "is_vabits2 v2" using assms by (auto simp: uniform4_def)
  show "bit v4 j \<longleftrightarrow> j < 4 \<and> bit v2 (j mod 2)"
  proof (cases "j < 8")
    case True
    then have "j \<in> {0, 1, 2, 3, 4, 5, 6, 7}" by auto
    then show ?thesis using assms by (auto simp: uniform4_def va_consts)
  next
    case False
    then show ?thesis using bit_imp_le_length[of v4 j] by auto
  qed
qed

lemma bit_insert4:
  fixes w0 v4 :: u8
  assumes "uniform4 v4 v2" "s \<le> 4"
  shows "bit (w0 AND NOT (push_bit s 15) OR push_bit s v4) k \<longleftrightarrow> (if s \<le> k \<and> k < s + 4 then bit v4 (k - s) else bit w0 k)"
  using assms(2) uniform4_bits(1)[OF assms(1), of "k - s"] bit_imp_le_length[of w0 k]
  by (auto simp: bit_or_iff bit_and_iff bit_not_iff bit_push_bit_iff bit_15 simp del: bit_numeral_word_iff)

lemma extract_insert4:
  fixes w0 v4 :: u8
  assumes "uniform4 v4 v2" "A \<le> 2" "B = unat b mod 4"
  shows "extract_vabits2_from_vabits8 b (w0 AND NOT (push_bit (2 * A) 15) OR push_bit (2 * A) v4) =
    (if A \<le> B \<and> B < A + 2 then v2 else extract_vabits2_from_vabits8 b w0)"
proof (rule bit_eqI)
  fix n
  have i: "2 * A \<le> 2 * B + n \<and> 2 * B + n < 2 * A + 4 \<longleftrightarrow> A \<le> B \<and> B < A + 2" if "n < 2" using that by auto
  have m: "(2 * B + n - 2 * A) mod 2 = n \<and> 2 * B + n - 2 * A < 4" if "n < 2" "A \<le> B" "B < A + 2"
  proof -
    have "2 * B + n - 2 * A = 2 * (B - A) + n" using that(2) by simp
    then show ?thesis using that by auto
  qed
  show "bit (extract_vabits2_from_vabits8 b (w0 AND NOT (push_bit (2 * A) 15) OR push_bit (2 * A) v4)) n =
    bit (if A \<le> B \<and> B < A + 2 then v2 else extract_vabits2_from_vabits8 b w0) n"
  proof (cases "n < 2")
    case True
    have "bit (w0 AND NOT (push_bit (2 * A) 15) OR push_bit (2 * A) v4) (2 * B + n) \<longleftrightarrow>
        (if A \<le> B \<and> B < A + 2 then bit v4 (2 * B + n - 2 * A) else bit w0 (2 * B + n))"
      using bit_insert4[OF assms(1), of "2 * A" w0 "2 * B + n"] assms(2) i[OF True] by simp
    then show ?thesis using True m uniform4_bits(1)[OF assms(1), of "2 * B + n - 2 * A"] by (simp add: bit_extract assms(3))
  next
    case False
    then show ?thesis using bit_vabits2[OF uniform4_bits(2)[OF assms(1)], of n] by (auto simp: bit_extract)
  qed
qed

lemma insert4_covers:
  assumes "insert_vabits4_into_vabits8 a v4 (f (SM_OFF a)) = Some w"
    and "uniform4 v4 v2"
  shows "covers v2 f a 2 (f(SM_OFF a := w))"
proof -
  have e: "unat a mod 2 = 0" "w = f (SM_OFF a) AND NOT (push_bit (shift4 a) 15) OR push_bit (shift4 a) v4"
    using assms(1) unat_and(2)[of a] by (auto simp: insert_vabits4_into_vabits8_def split: if_splits)
  have s: "unat a mod 4 \<le> 2" using half_arith[OF e(1), of 1] mod_less_divisor[of 4 "unat a + 1"] by simp
  have "vw (f(SM_OFF a := w)) b = (if lo a \<le> lo b \<and> lo b < lo a + 2 then v2 else vw f b)" for b
  proof (cases "SM_OFF b = SM_OFF a")
    case True
    have d: "lo b div 4 = lo a div 4" using True by (simp only: SM_OFF_eq_iff)
    have l: "lo a = 4 * (lo a div 4) + unat a mod 4" "lo b = 4 * (lo b div 4) + unat b mod 4"
      by (simp_all add: lo_mod4[symmetric])
    have in2: "lo a \<le> lo b \<and> lo b < lo a + 2 \<longleftrightarrow> unat a mod 4 \<le> unat b mod 4 \<and> unat b mod 4 < unat a mod 4 + 2"
      using l d by linarith
    have "extract_vabits2_from_vabits8 b w =
      (if unat a mod 4 \<le> unat b mod 4 \<and> unat b mod 4 < unat a mod 4 + 2 then v2 else extract_vabits2_from_vabits8 b (f (SM_OFF a)))"
      unfolding e(2) shift4_eq[OF e(1)] by (rule extract_insert4[OF assms(2) s refl])
    then show ?thesis using True in2 by (simp add: vw_def)
  next
    case False
    then have "lo b div 4 \<noteq> lo a div 4" unfolding SM_OFF_eq_iff .
    moreover have m: "lo a mod 2 = 0" using e(1) by (simp add: mod_mod_cancel)
    have "lo b div 4 = lo a div 4" if "lo a \<le> lo b" "lo b < lo a + 2" by (rule entry_arith[OF m _ that]) simp
    ultimately have "\<not> (lo a \<le> lo b \<and> lo b < lo a + 2)" by blast
    then show ?thesis using False by (auto simp: vw_def)
  qed
  then show ?thesis by (simp add: covers_def)
qed


section \<open>Values\<close>

text \<open>The V bits of a fully defined or undefined access.\<close>

lemma less_8_cases: "(i :: nat) < 8 \<longleftrightarrow> i \<in> {0, 1, 2, 3, 4, 5, 6, 7}"
  by auto

lemma bytes_consts:
  "i < 8 \<Longrightarrow> byte_of V_BITS64_DEFINED i = V_BITS8_DEFINED" "i < 8 \<Longrightarrow> byte_of V_BITS64_UNDEFINED i = V_BITS8_UNDEFINED"
  "i < 4 \<Longrightarrow> byte_of V_BITS32_DEFINED i = V_BITS8_DEFINED" "i < 4 \<Longrightarrow> byte_of V_BITS32_UNDEFINED i = V_BITS8_UNDEFINED"
  "i < 4 \<Longrightarrow> byte_of (0xffffffff00000000 OR V_BITS32_DEFINED) i = V_BITS8_DEFINED"
  "i < 4 \<Longrightarrow> byte_of (0xffffffff00000000 OR V_BITS32_UNDEFINED) i = V_BITS8_UNDEFINED"
  "i < 2 \<Longrightarrow> byte_of V_BITS16_DEFINED i = V_BITS8_DEFINED" "i < 2 \<Longrightarrow> byte_of V_BITS16_UNDEFINED i = V_BITS8_UNDEFINED"
  "i < 1 \<Longrightarrow> byte_of (ucast V_BITS8_DEFINED) i = V_BITS8_DEFINED" "i < 1 \<Longrightarrow> byte_of (ucast V_BITS8_UNDEFINED) i = V_BITS8_UNDEFINED"
proof -
  have less: "i < 4 \<Longrightarrow> i < 8" "i < 2 \<Longrightarrow> i < 8" "i < 1 \<Longrightarrow> i < 8" for i :: nat by simp_all
  show "i < 8 \<Longrightarrow> byte_of V_BITS64_DEFINED i = V_BITS8_DEFINED" "i < 4 \<Longrightarrow> byte_of V_BITS32_DEFINED i = V_BITS8_DEFINED"
    "i < 2 \<Longrightarrow> byte_of V_BITS16_DEFINED i = V_BITS8_DEFINED" "i < 1 \<Longrightarrow> byte_of (ucast V_BITS8_DEFINED) i = V_BITS8_DEFINED"
    by (simp_all add: V_BITS64_DEFINED_def V_BITS32_DEFINED_def V_BITS16_DEFINED_def V_BITS8_DEFINED_def)
  show "i < 8 \<Longrightarrow> byte_of V_BITS64_UNDEFINED i = V_BITS8_UNDEFINED"
    unfolding less_8_cases by (auto simp: byte_of_def V_BITS64_UNDEFINED_def V_BITS8_UNDEFINED_def)
  have "i < 4 \<longleftrightarrow> i \<in> {0, 1, 2, 3}" "i < 2 \<longleftrightarrow> i \<in> {0, 1}" by auto
  then show "i < 4 \<Longrightarrow> byte_of V_BITS32_UNDEFINED i = V_BITS8_UNDEFINED"
    "i < 4 \<Longrightarrow> byte_of (0xffffffff00000000 OR V_BITS32_DEFINED) i = V_BITS8_DEFINED"
    "i < 4 \<Longrightarrow> byte_of (0xffffffff00000000 OR V_BITS32_UNDEFINED) i = V_BITS8_UNDEFINED"
    "i < 2 \<Longrightarrow> byte_of V_BITS16_UNDEFINED i = V_BITS8_UNDEFINED"
    "i < 1 \<Longrightarrow> byte_of (ucast V_BITS8_UNDEFINED) i = V_BITS8_UNDEFINED"
    by (auto simp: byte_of_def V_BITS32_DEFINED_def V_BITS32_UNDEFINED_def V_BITS16_UNDEFINED_def V_BITS8_UNDEFINED_def V_BITS8_DEFINED_def)
qed

end
