(* ===== verification/Shadow_Loads.thy ===== *)
theory Shadow_Loads
  imports Shadow_Fast
begin

text \<open>
  Loads: every handler returns the V bits of the bytes it loads, whichever of its cases it takes, and reports an address error
  exactly when a byte is not accessible and the exemption for partial loads does not apply.
\<close>

section \<open>The specification\<close>

definition mapped :: "(addr \<Rightarrow> u8 option) \<Rightarrow> addr \<Rightarrow> nat \<Rightarrow> bool" where
  "mapped m a n \<longleftrightarrow> (\<forall>i < n. m (a + of_nat i) \<noteq> None)"

text \<open>An aligned load of four or eight bytes, with a byte that is there.\<close>

definition exempt :: "bool \<Rightarrow> addr \<Rightarrow> nat \<Rightarrow> (addr \<Rightarrow> u8 option) \<Rightarrow> bool" where
  "exempt partial_loads_ok a n m \<longleftrightarrow> partial_loads_ok \<and> (n = 8 \<and> VG_IS_8_ALIGNED a \<or> n = 4 \<and> VG_IS_4_ALIGNED a) \<and>
     (\<exists>i < n. m (a + of_nat i) \<noteq> None)"

text \<open>The V bits of a byte, with a value for bytes that are not there.\<close>

definition loaded_byte :: "u8 \<Rightarrow> u8 option \<Rightarrow> u8" where
  "loaded_byte missing x = (case x of None \<Rightarrow> missing | Some v \<Rightarrow> v)"

definition load_result :: "addr \<Rightarrow> nat \<Rightarrow> bool \<Rightarrow> shadow \<Rightarrow> u64 \<times> shadow \<Rightarrow> bool" where
  "load_result a n be sh r \<longleftrightarrow> (let ex = exempt (clo_partial_loads_ok sh) a n (vb sh) in
     shadow_ok (snd r) \<and> vb (snd r) = vb sh \<and> clo_partial_loads_ok (snd r) = clo_partial_loads_ok sh \<and>
     errors (snd r) = errors sh @
       (if mapped (vb sh) a n \<or> ex then [] else [\<lparr>err_addr = a, err_szB = of_nat n, err_isWrite = False\<rparr>]) \<and>
     (\<forall>i < n. byte_of (fst r) i =
        loaded_byte (if ex then V_BITS8_UNDEFINED else V_BITS8_DEFINED) (vb sh (a + of_nat (place n be i)))))"

lemma place_all: "(\<forall>i < n. P (place n be i)) \<longleftrightarrow> (\<forall>i < n. P i)"
  using place_inv[of _ n be] by metis

lemma card_below:
  fixes P :: "nat \<Rightarrow> bool"
  shows "card {i. i < n \<and> P i} = 0 \<longleftrightarrow> (\<forall>i < n. \<not> P i)" "card {i. i < n \<and> P i} < n \<longleftrightarrow> \<not> (\<forall>i < n. P i)"
proof -
  show "card {i. i < n \<and> P i} = 0 \<longleftrightarrow> (\<forall>i < n. \<not> P i)" by auto
  have sub: "{i. i < n \<and> P i} \<subseteq> {..<n}" by auto
  show "card {i. i < n \<and> P i} < n \<longleftrightarrow> \<not> (\<forall>i < n. P i)"
  proof (cases "\<forall>i < n. P i")
    case True
    then have "{i. i < n \<and> P i} = {..<n}" by auto
    then show ?thesis using True by simp
  next
    case False
    then have "{i. i < n \<and> P i} \<subset> {..<n}" by auto
    from psubset_card_mono[OF finite_lessThan this] have "card {i. i < n \<and> P i} < n" by (simp only: card_lessThan)
    with False show ?thesis by blast
  qed
qed

lemma bad_bytes_iff:
  "bad_bytes m a n be n = 0 \<longleftrightarrow> mapped m a n" "bad_bytes m a n be n < n \<longleftrightarrow> (\<exists>i < n. m (a + of_nat i) \<noteq> None)"
proof -
  have "bad_bytes m a n be n = 0 \<longleftrightarrow> (\<forall>i < n. m (a + of_nat (place n be i)) \<noteq> None)"
    unfolding bad_bytes_def by (rule card_below(1))
  then show "bad_bytes m a n be n = 0 \<longleftrightarrow> mapped m a n"
    unfolding mapped_def place_all[of n "\<lambda>i. m (a + of_nat i) \<noteq> None" be] .
  have "bad_bytes m a n be n < n \<longleftrightarrow> \<not> (\<forall>i < n. m (a + of_nat (place n be i)) = None)"
    unfolding bad_bytes_def by (rule card_below(2))
  then show "bad_bytes m a n be n < n \<longleftrightarrow> (\<exists>i < n. m (a + of_nat i) \<noteq> None)"
    unfolding place_all[of n "\<lambda>i. m (a + of_nat i) = None" be] by (simp only: not_all not_imp)
qed

lemma other_eqD: "other s = other t \<Longrightarrow> errors s = errors t \<and> clo_partial_loads_ok s = clo_partial_loads_ok t"
  by (simp add: other_def)

lemma record_error [simp]:
  "vb (record_address_error a n w sh) = vb sh" "shadow_ok (record_address_error a n w sh) = shadow_ok sh"
  "clo_partial_loads_ok (record_address_error a n w sh) = clo_partial_loads_ok sh"
  "errors (record_address_error a n w sh) = errors sh @ [\<lparr>err_addr = a, err_szB = n, err_isWrite = w\<rparr>]"
  by (simp_all add: record_address_error_def vb_def shadow_ok_def fun_eq_iff)

lemma byte_of_high: "i < 4 \<Longrightarrow> byte_of (push_bit 32 w) i = 0"
  by (rule bit_eqI) (auto simp: bit_byte_of bit_push_bit_iff)


section \<open>The slow case\<close>

text \<open>The outcome of the loop, put together with the pessimising value where the exemption applies.\<close>

lemma found_or_gap:
  assumes "\<forall>i < n. byte_of v i = found m a n be i" "\<forall>i < n. byte_of p i = gap m a n be i" "i < n"
  shows "byte_of v i = loaded_byte V_BITS8_DEFINED (m (a + of_nat (place n be i)))"
    "byte_of (v OR p) i = loaded_byte V_BITS8_UNDEFINED (m (a + of_nat (place n be i)))"
  using assms by (auto simp: byte_of_or found_def gap_def loaded_byte_def V_BITS8_DEFINED_def V_BITS8_UNDEFINED_def split: option.splits)

lemma gap_seen:
  assumes "n \<le> 8" "\<not> mapped m a n" "\<forall>i < n. byte_of p i = gap m a n be i"
  shows "p \<noteq> V_BITS64_DEFINED"
proof
  assume "p = V_BITS64_DEFINED"
  then have "\<forall>i < n. gap m a n be i = 0" using assms(3) by (simp add: V_BITS64_DEFINED_def)
  then have "\<forall>i < n. m (a + of_nat (place n be i)) \<noteq> None"
    by (auto simp: gap_def V_BITS8_DEFINED_def V_BITS8_UNDEFINED_def split: if_splits)
  then have "mapped m a n" unfolding mapped_def place_all[of n "\<lambda>i. m (a + of_nat i) \<noteq> None" be] .
  with assms(2) show False ..
qed

lemma loadv_bytes_spec:
  assumes "shadow_ok sh" "n = 1 \<or> n = 2 \<or> n = 4 \<or> n = 8"
  shows "\<exists>r. loadv_bytes a (8 * n) be sh = Some r \<and> load_result a n be sh r"
proof -
  have n8: "n \<le> n" "n \<le> 8" "8 * n div 8 = n" using assms(2) by auto
  from shadow_bytes.load_law[OF assms(1) n8(1,2), of a be V_BITS64_UNDEFINED V_BITS64_DEFINED 0] obtain v p sh' where
    l: "loadv_loop get_vbits8 a (of_nat n) be n V_BITS64_UNDEFINED V_BITS64_DEFINED 0 sh = Some (v, p, bad_bytes (vb sh) a n be n, sh')"
    "shadow_ok sh'" "vb sh' = vb sh" "other sh' = other sh" and
    v: "\<forall>i < n. byte_of v i = found (vb sh) a n be i" and p: "\<forall>i < n. byte_of p i = gap (vb sh) a n be i"
    using n8(2) by auto
  note o = other_eqD[OF l(4)] and bad = bad_bytes_iff[of "vb sh" a n be] and val = found_or_gap[OF v p]
  have run: "loadv_bytes a (8 * n) be sh = (let b = bad_bytes (vb sh) a n be n in
      if b = 0 then Some (v, sh')
      else if \<not> clo_partial_loads_ok sh then Some (v, record_address_error a (of_nat n) False sh')
      else if n = 8 \<and> VG_IS_8_ALIGNED a \<and> b < n then Some (v OR p, sh')
      else if VG_IS_4_ALIGNED a \<and> n = 4 \<and> b < n then Some (v OR p OR push_bit 32 V_BITS32_UNDEFINED, sh')
      else Some (v, record_address_error a (of_nat n) False sh'))"
  proof -
    have g: "8 * n = 64 \<or> 8 * n = 32 \<or> 8 * n = 16 \<or> 8 * n = 8" using assms(2) by auto
    have "bad_bytes (vb sh) a n be n = 0 \<or> p \<noteq> V_BITS64_DEFINED" using gap_seen[OF n8(2) _ p] bad(1) by blast
    then show ?thesis
      using g l(1) o by (elim disjE) (simp_all add: loadv_bytes_def Let_def)
  qed
  let ?ex = "exempt (clo_partial_loads_ok sh) a n (vb sh)"
  consider "mapped (vb sh) a n" | "\<not> mapped (vb sh) a n" "\<not> ?ex" | "\<not> mapped (vb sh) a n" "?ex" "n = 8" | "\<not> mapped (vb sh) a n" "?ex" "n = 4"
    unfolding exempt_def by blast
  then show ?thesis
  proof cases
    case 1
    have "loaded_byte x (vb sh (a + of_nat (place n be i))) = loaded_byte y (vb sh (a + of_nat (place n be i)))" if "i < n" for i x y
      using 1 place_inv(1)[OF that, of be] by (auto simp: mapped_def loaded_byte_def)
    then show ?thesis using 1 run bad(1) l(2,3) o val(1) by (auto simp: load_result_def Let_def)
  next
    case 2
    then have "loadv_bytes a (8 * n) be sh = Some (v, record_address_error a (of_nat n) False sh')"
      using run bad by (auto simp: Let_def exempt_def)
    then show ?thesis using 2 l(2,3) o val(1) by (auto simp: load_result_def)
  next
    case 3
    then have "loadv_bytes a (8 * n) be sh = Some (v OR p, sh')" using run bad by (auto simp: Let_def exempt_def)
    then show ?thesis using 3 l(2,3) o val(2) by (auto simp: load_result_def)
  next
    case 4
    then have "loadv_bytes a (8 * n) be sh = Some (v OR p OR push_bit 32 V_BITS32_UNDEFINED, sh')"
      using run bad by (auto simp: Let_def exempt_def)
    moreover have "byte_of (v OR p OR push_bit 32 V_BITS32_UNDEFINED) i = byte_of (v OR p) i" if "i < 4" for i
      using byte_of_high[OF that] by (simp add: byte_of_or)
    ultimately show ?thesis using 4 l(2,3) o val(2) by (auto simp: load_result_def)
  qed
qed


text \<open>Bytes that all have the same state, as the fast cases find them.\<close>

lemma holds_vb:
  assumes "shadow_ok sh" "holds v2 sh a n" "v2 \<noteq> VA_BITS2_PARTDEFINED" "i < n" "n \<le> 8"
  shows "vb sh (a + of_nat i) = fill v2"
proof -
  have "unat (a + of_nat i - a) < n" using assms(4,5) by (simp add: unat_off)
  then have "va sh (a + of_nat i) = v2" using assms(2) unfolding holds_def by blast
  then show ?thesis using va_or[of sh "a + of_nat i"] assms(3) by (auto simp: vb_def fill_def)
qed

lemma fast_load_result:
  assumes "shadow_ok sh" "holds v2 sh a n" "n \<le> 8" "unseen sh sh'" "\<forall>i < n. byte_of r i = x"
    and "v2 = VA_BITS2_DEFINED \<and> x = V_BITS8_DEFINED \<or> v2 = VA_BITS2_UNDEFINED \<and> x = V_BITS8_UNDEFINED"
  shows "load_result a n be sh (r, sh')"
proof -
  have v: "vb sh (a + of_nat i) = Some x" if "i < n" for i
    using holds_vb[OF assms(1,2) _ that assms(3)] assms(6) by (auto simp: fill_def)
  then have "mapped (vb sh) a n" by (simp add: mapped_def)
  moreover have "vb sh (a + of_nat (place n be i)) = Some x" if "i < n" for i using v place_inv(1)[OF that] by blast
  moreover have "shadow_ok sh'" "vb sh' = vb sh" "other sh' = other sh" using unseen_same[OF assms(1,4)] by (simp_all add: same_mem_def)
  ultimately show ?thesis using assms(5) other_eqD[of sh' sh] by (simp add: load_result_def loaded_byte_def Let_def)
qed

lemmas fast_defined = fast_load_result[where ?v2.0 = VA_BITS2_DEFINED and x = V_BITS8_DEFINED, simplified]
lemmas fast_undefined = fast_load_result[where ?v2.0 = VA_BITS2_UNDEFINED and x = V_BITS8_UNDEFINED, simplified]

lemma load_result_unseen:
  assumes "shadow_ok sh" "unseen sh sh1" "load_result a n be sh1 r"
  shows "load_result a n be sh r"
  using assms(3) unseen_same[OF assms(1,2)] other_eqD[of sh1 sh] by (simp add: load_result_def same_mem_def Let_def)

lemma uniform_consts:
  "uniform VA_BITS16_DEFINED SM_DIST_DEFINED VA_BITS2_DEFINED" "uniform VA_BITS16_UNDEFINED SM_DIST_UNDEFINED VA_BITS2_UNDEFINED"
  by (simp_all add: uniform_def)

lemma semi_fast64:
  assumes "shadow_ok sh" "unat a mod 8 = 0"
  shows "\<exists>r sh'. semi_fast_load64 a sh = Some (r, sh') \<and> unseen sh sh' \<and> (\<forall>v. r = Some v \<longrightarrow> load_result a 8 be sh (v, sh'))"
proof -
  from reading_spec[OF shadow_okD(1)[OF assms(1)], of a] obtain sh' where
    g: "get_secmap_for_reading a sh = Some (sm_of sh a, sh')" "unseen sh sh'" by blast
  have "load_result a 8 be sh (V_BITS64_DEFINED, sh')"
    if "get16 (contents (sm_of sh a)) (SM_OFF_16 a) = VA_BITS16_DEFINED"
    using holds16[OF assms(2) uniform_consts(1) that] g(2) by (intro fast_defined[OF assms(1)]) (simp_all add: bytes_consts)
  moreover have "load_result a 8 be sh (V_BITS64_UNDEFINED, sh')"
    if "get16 (contents (sm_of sh a)) (SM_OFF_16 a) = VA_BITS16_UNDEFINED"
    using holds16[OF assms(2) uniform_consts(2) that] g(2) by (intro fast_undefined[OF assms(1)]) (simp_all add: bytes_consts)
  ultimately show ?thesis using g by (auto simp: semi_fast_load64_def Let_def)
qed

lemma semi_fast32:
  assumes "shadow_ok sh" "unat a mod 4 = 0"
  shows "\<exists>r sh'. semi_fast_load32 a sh = Some (r, sh') \<and> unseen sh sh' \<and> (\<forall>v. r = Some v \<longrightarrow> load_result a 4 be sh (v, sh'))"
proof -
  from reading_spec[OF shadow_okD(1)[OF assms(1)], of a] obtain sh' where
    g: "get_secmap_for_reading a sh = Some (sm_of sh a, sh')" "unseen sh sh'" by blast
  have n: "4 = (1 :: nat) \<or> 4 = (2 :: nat) \<or> 4 = (4 :: nat)" by simp
  have "load_result a 4 be sh (0xffffffff00000000 OR V_BITS32_DEFINED, sh')" if "contents (sm_of sh a) (SM_OFF a) = VA_BITS8_DEFINED"
    using holds8[OF assms(2) n uniform8_consts(1) that] g(2) by (intro fast_defined[OF assms(1)]) (simp_all add: bytes_consts)
  moreover have "load_result a 4 be sh (0xffffffff00000000 OR V_BITS32_UNDEFINED, sh')" if "contents (sm_of sh a) (SM_OFF a) = VA_BITS8_UNDEFINED"
    using holds8[OF assms(2) n uniform8_consts(2) that] g(2) by (intro fast_undefined[OF assms(1)]) (simp_all add: bytes_consts)
  ultimately show ?thesis using g by (auto simp: semi_fast_load32_def Let_def)
qed

lemma aligned8: "VG_IS_8_ALIGNED a \<longleftrightarrow> unat a mod 8 = 0"
  using unat_and(4)[of a] by (metis unat_0 unat_eq_0)

lemma LOADVn_slow_spec:
  assumes "shadow_ok sh" "n = 1 \<or> n = 2 \<or> n = 4 \<or> n = 8"
  shows "\<exists>r. mc_LOADVn_slow a (8 * n) be sh = Some r \<and> load_result a n be sh r"
proof -
  consider "n = 8" "unat a mod 8 = 0" | "n = 4" "unat a mod 4 = 0" | "\<not> (8 * n = 64 \<and> VG_IS_8_ALIGNED a)" "\<not> (8 * n = 32 \<and> VG_IS_4_ALIGNED a)"
    using assms(2) by (auto simp: aligned4 aligned8)
  then show ?thesis
  proof cases
    case 1
    from semi_fast64[OF assms(1) 1(2), of be] obtain r sh1 where
      r: "semi_fast_load64 a sh = Some (r, sh1)" "unseen sh sh1" "\<forall>v. r = Some v \<longrightarrow> load_result a 8 be sh (v, sh1)" by blast
    from loadv_bytes_spec[OF unseen_ok[OF assms(1) r(2)] assms(2), of a be] obtain s where
      "loadv_bytes a (8 * n) be sh1 = Some s" "load_result a n be sh1 s" by blast
    with r 1 load_result_unseen[OF assms(1) r(2)] show ?thesis by (cases r) (auto simp: mc_LOADVn_slow_def aligned8)
  next
    case 2
    from semi_fast32[OF assms(1) 2(2), of be] obtain r sh1 where
      r: "semi_fast_load32 a sh = Some (r, sh1)" "unseen sh sh1" "\<forall>v. r = Some v \<longrightarrow> load_result a 4 be sh (v, sh1)" by blast
    from loadv_bytes_spec[OF unseen_ok[OF assms(1) r(2)] assms(2), of a be] obtain s where
      "loadv_bytes a (8 * n) be sh1 = Some s" "load_result a n be sh1 s" by blast
    with r 2 load_result_unseen[OF assms(1) r(2)] show ?thesis by (cases r) (auto simp: mc_LOADVn_slow_def aligned4)
  next
    case 3
    then have "mc_LOADVn_slow a (8 * n) be sh = loadv_bytes a (8 * n) be sh" 
      unfolding mc_LOADVn_slow_def if_not_P[OF 3(1)] if_not_P[OF 3(2)] by simp
    with loadv_bytes_spec[OF assms] show ?thesis by simp
  qed
qed


section \<open>The handlers\<close>

lemma reading_low: "a \<le> MAX_PRIMARY_ADDRESS \<Longrightarrow> get_secmap_for_reading_low a sh = Some (sm_of sh a)"
  by (simp add: get_secmap_for_reading_low_def get_secmap_low_ptr_def sm_of_def)

text \<open>A handler that returns, with a result as specified.\<close>

definition shadow_loads :: "addr \<Rightarrow> nat \<Rightarrow> bool \<Rightarrow> shadow \<Rightarrow> (u64 \<times> shadow) option \<Rightarrow> bool" where
  "shadow_loads a n be sh x \<longleftrightarrow> (\<exists>r. x = Some r \<and> load_result a n be sh r)"

lemma loads_Some [simp]: "shadow_loads a n be sh (Some r) = load_result a n be sh r"
  by (simp add: shadow_loads_def)

lemma loads_slow:
  assumes "shadow_ok sh"
  shows "shadow_loads a 1 be sh (mc_LOADVn_slow a 8 be sh)" "shadow_loads a 2 be sh (mc_LOADVn_slow a 16 be sh)"
    "shadow_loads a 4 be sh (mc_LOADVn_slow a 32 be sh)" "shadow_loads a 8 be sh (mc_LOADVn_slow a 64 be sh)"
  using LOADVn_slow_spec[OF assms, of 1 a be] LOADVn_slow_spec[OF assms, of 2 a be] LOADVn_slow_spec[OF assms, of 4 a be]
    LOADVn_slow_spec[OF assms, of 8 a be] by (simp_all add: shadow_loads_def)

lemma LOADV64_spec:
  assumes "shadow_ok sh"
  shows "shadow_loads a 8 be sh (mc_LOADV64 a be sh)"
proof (cases "UNALIGNED_OR_HIGH a 64")
  case False
  then have a: "a \<le> MAX_PRIMARY_ADDRESS" "unat a mod 8 = 0" using UNALIGNED_OR_HIGH_iff(4)[of a] by auto
  note u = unseen_refl[OF shadow_okD(1)[OF assms]]
  have "load_result a 8 be sh (V_BITS64_DEFINED, sh)" if "get16 (contents (sm_of sh a)) (SM_OFF_16 a) = VA_BITS16_DEFINED"
    using holds16[OF a(2) uniform_consts(1) that] u by (intro fast_defined[OF assms(1)]) (simp_all add: bytes_consts)
  moreover have "load_result a 8 be sh (V_BITS64_UNDEFINED, sh)" if "get16 (contents (sm_of sh a)) (SM_OFF_16 a) = VA_BITS16_UNDEFINED"
    using holds16[OF a(2) uniform_consts(2) that] u by (intro fast_undefined[OF assms(1)]) (simp_all add: bytes_consts)
  ultimately show ?thesis using loads_slow[OF assms] False by (simp add: mc_LOADV64_def reading_low[OF a(1)] Let_def)
qed (simp add: mc_LOADV64_def loads_slow[OF assms])

text \<open>The three handlers that look at one entry.\<close>

lemma fast_entry:
  assumes "shadow_ok sh" "unat a mod n = 0" "n = 1 \<or> n = 2 \<or> n = 4"
  shows "contents (sm_of sh a) (SM_OFF a) = VA_BITS8_DEFINED \<Longrightarrow> \<forall>i < n. byte_of r i = V_BITS8_DEFINED \<Longrightarrow> load_result a n be sh (r, sh)"
    "contents (sm_of sh a) (SM_OFF a) = VA_BITS8_UNDEFINED \<Longrightarrow> \<forall>i < n. byte_of r i = V_BITS8_UNDEFINED \<Longrightarrow> load_result a n be sh (r, sh)"
  using holds8[OF assms(2,3) uniform8_consts(1)] holds8[OF assms(2,3) uniform8_consts(2)] assms(3)
    unseen_refl[OF shadow_okD(1)[OF assms(1)]] fast_defined[OF assms(1)] fast_undefined[OF assms(1)] by auto

lemma LOADV32_spec:
  assumes "shadow_ok sh"
  shows "shadow_loads a 4 be sh (mc_LOADV32 a be sh)"
proof (cases "UNALIGNED_OR_HIGH a 32")
  case False
  then have a: "a \<le> MAX_PRIMARY_ADDRESS" "unat a mod 4 = 0" using UNALIGNED_OR_HIGH_iff(3)[of a] by auto
  from fast_entry[OF assms a(2)] loads_slow[OF assms] False show ?thesis
    by (simp add: mc_LOADV32_def reading_low[OF a(1)] Let_def bytes_consts)
qed (simp add: mc_LOADV32_def loads_slow[OF assms])

lemma LOADV16_spec:
  assumes "shadow_ok sh"
  shows "shadow_loads a 2 be sh (mc_LOADV16 a be sh)"
proof (cases "UNALIGNED_OR_HIGH a 16")
  case False
  then have a: "a \<le> MAX_PRIMARY_ADDRESS" "unat a mod 2 = 0" using UNALIGNED_OR_HIGH_iff(2)[of a] by auto
  have "VG_IS_2_ALIGNED a" using unat_and(2)[of a] a(2) by (metis unat_eq_0)
  then obtain v4 where v4: "extract_vabits4_from_vabits8 a (contents (sm_of sh a) (SM_OFF a)) = Some v4"
    by (simp add: extract_vabits4_from_vabits8_def)
  note u = unseen_refl[OF shadow_okD(1)[OF assms]]
  have "load_result a 2 be sh (V_BITS16_DEFINED, sh)" if "v4 = VA_BITS4_DEFINED"
    using holds4[OF v4, of VA_BITS2_DEFINED] that u by (intro fast_defined[OF assms]) (simp_all add: bytes_consts)
  moreover have "load_result a 2 be sh (V_BITS16_UNDEFINED, sh)" if "v4 = VA_BITS4_UNDEFINED"
    using holds4[OF v4, of VA_BITS2_UNDEFINED] that u by (intro fast_undefined[OF assms]) (simp_all add: bytes_consts)
  ultimately show ?thesis using fast_entry[OF assms a(2)] loads_slow[OF assms] False
    by (simp add: mc_LOADV16_def reading_low[OF a(1)] Let_def bytes_consts v4)
qed (simp add: mc_LOADV16_def loads_slow[OF assms])

lemma LOADV8_spec:
  assumes "shadow_ok sh"
  shows "shadow_loads a 1 False sh (helperc_LOADV8 a sh)"
proof (cases "UNALIGNED_OR_HIGH a 8")
  case False
  then have a: "a \<le> MAX_PRIMARY_ADDRESS" "unat a mod 1 = 0" using UNALIGNED_OR_HIGH_iff(1)[of a] by auto
  note u = unseen_refl[OF shadow_okD(1)[OF assms]]
  have h: "holds (extract_vabits2_from_vabits8 a (contents (sm_of sh a) (SM_OFF a))) sh a 1"
    by (auto simp: holds_def va_def va_of_def unat_eq_0)
  have "load_result a 1 False sh (ucast V_BITS8_DEFINED, sh)"
    if "extract_vabits2_from_vabits8 a (contents (sm_of sh a) (SM_OFF a)) = VA_BITS2_DEFINED"
    using h that u by (intro fast_defined[OF assms]) (simp_all add: bytes_consts)
  moreover have "load_result a 1 False sh (ucast V_BITS8_UNDEFINED, sh)"
    if "extract_vabits2_from_vabits8 a (contents (sm_of sh a) (SM_OFF a)) = VA_BITS2_UNDEFINED"
    using h that u by (intro fast_undefined[OF assms]) (simp_all add: bytes_consts)
  ultimately show ?thesis using fast_entry[OF assms a(2)] loads_slow[OF assms] False
    by (simp add: helperc_LOADV8_def reading_low[OF a(1)] Let_def bytes_consts)
qed (use loads_slow[OF assms] in \<open>simp add: helperc_LOADV8_def\<close>)

end
