(* ===== verification/Shadow_Stores.thy ===== *)
theory Shadow_Stores
  imports Shadow_Loads
begin

text \<open>
  Stores: every handler gives the accessible bytes it stores to their new V bits and leaves all others alone, whichever of its
  cases it takes, and reports an address error when one of the bytes is not accessible.
\<close>

section \<open>The specification\<close>

text \<open>\<open>k\<close> is the number of reports of an inaccessible byte.\<close>

definition store_result :: "nat \<Rightarrow> addr \<Rightarrow> nat \<Rightarrow> bool \<Rightarrow> u64 \<Rightarrow> shadow \<Rightarrow> shadow \<Rightarrow> bool" where
  "store_result k a n be w sh sh' \<longleftrightarrow> shadow_ok sh' \<and> clo_partial_loads_ok sh' = clo_partial_loads_ok sh \<and>
     vb sh' = stored a n be 0 n w (vb sh) \<and>
     errors sh' = errors sh @
       (if mapped (vb sh) a n then [] else replicate k \<lparr>err_addr = a, err_szB = of_nat n, err_isWrite = True\<rparr>)"

definition stores :: "nat \<Rightarrow> addr \<Rightarrow> nat \<Rightarrow> bool \<Rightarrow> u64 \<Rightarrow> shadow \<Rightarrow> shadow option \<Rightarrow> bool" where
  "stores k a n be w sh x \<longleftrightarrow> (\<exists>sh'. x = Some sh' \<and> store_result k a n be w sh sh')"

lemma stores_Some [simp]: "stores k a n be w sh (Some sh') = store_result k a n be w sh sh'"
  by (simp add: stores_def)

lemma stored_at:
  "stored a n be 0 n w m b =
     (if unat (b - a) < n \<and> m b \<noteq> None then Some (byte_of w (place n be (unat (b - a)))) else m b)"
  using place_inv(1)[of "unat (b - a)" n be] by (auto simp: stored_def Let_def)

lemma mapped_off:
  assumes "mapped m a n" "unat (b - a) < n"
  shows "m b \<noteq> None"
proof -
  have "m (a + of_nat (unat (b - a))) \<noteq> None" using assms unfolding mapped_def by blast
  then show ?thesis by simp
qed

lemma store_result_unseen:
  assumes "shadow_ok sh" "unseen sh sh1" "store_result k a n be w sh1 sh2"
  shows "store_result k a n be w sh sh2"
  using assms(3) unseen_same[OF assms(1,2)] other_eqD[of sh1 sh] by (simp add: store_result_def same_mem_def)


section \<open>The slow case\<close>

lemma storev_bytes_spec:
  assumes "shadow_ok sh" "n = 1 \<or> n = 2 \<or> n = 4 \<or> n = 8"
  shows "stores 1 a n be w sh (storev_bytes a (8 * n) w be sh)"
proof -
  have n8: "0 + n \<le> n" "n \<le> 8" "8 * n div 8 = n" "8 * n = 64 \<or> 8 * n = 32 \<or> 8 * n = 16 \<or> 8 * n = 8" using assms(2) by auto
  from shadow_bytes.store_law[OF assms(1) n8(1,2), of a be w 0] obtain c sh' where
    s: "storev_loop set_vbits8 a (of_nat n) be 0 n w 0 sh = Some (c, sh')"
    "c = 0 \<longleftrightarrow> (\<forall>j < n. vb sh (a + of_nat (place n be j)) \<noteq> None)"
    "shadow_ok sh'" "other sh' = other sh" "vb sh' = stored a n be 0 n w (vb sh)" by auto
  have c: "c = 0 \<longleftrightarrow> mapped (vb sh) a n"
    unfolding s(2) mapped_def place_all[of n "\<lambda>i. vb sh (a + of_nat i) \<noteq> None" be] ..
  show ?thesis
    using n8(4) s(1,3,5) c other_eqD[OF s(4)] by (auto simp: storev_bytes_def n8(3) store_result_def)
qed


section \<open>Direct writes\<close>

text \<open>A uniform value in all bytes.\<close>

definition all_bytes :: "u64 \<Rightarrow> nat \<Rightarrow> u8 \<Rightarrow> bool" where "all_bytes w n x \<longleftrightarrow> (\<forall>i < n. byte_of w i = x)"

lemma stored_uniform:
  assumes "mapped m a n" "all_bytes w n x" "unat a + n \<le> 2 ^ 64" "n < 2 ^ 64"
  shows "stored a n be 0 n w m = set_range a n (Some x) m"
proof
  fix b
  show "stored a n be 0 n w m b = set_range a n (Some x) m b"
    using assms(2) mapped_off[OF assms(1), of b] place_inv(1)[of "unat (b - a)" n be]
    unfolding stored_at set_range_def in_range_off[OF assms(3,4)] all_bytes_def by auto
qed

definition fills :: "u8 \<Rightarrow> u8 \<Rightarrow> bool" where
  "fills v2 x \<longleftrightarrow> v2 = VA_BITS2_DEFINED \<and> x = V_BITS8_DEFINED \<or> v2 = VA_BITS2_UNDEFINED \<and> x = V_BITS8_UNDEFINED"

lemma fills_simps [simp]: "fills VA_BITS2_DEFINED V_BITS8_DEFINED" "fills VA_BITS2_UNDEFINED V_BITS8_UNDEFINED"
  by (simp_all add: fills_def)

lemma fillsD:
  assumes "fills v2 x"
  shows "fill v2 = Some x" "v2 \<noteq> VA_BITS2_PARTDEFINED" "\<exists>v16 dsm. uniform v16 dsm v2"
  using assms by (auto simp: fills_def fill_def uniform_def)

lemma direct_write:
  assumes "shadow_ok sh" "ptr_of p a sh" "covers v2 (contents (sm_of sh a)) a n f" "lo a + n \<le> 65536"
    and "fills v2 x" "mapped (vb sh) a n" "all_bytes w n x" "0 < n"
  shows "store_result k a n be w sh (assign p (Issued f) sh)"
proof -
  obtain v16 dsm where u: "uniform v16 dsm v2" using fillsD(3)[OF assms(5)] by blast
  note as = assign_ptr[OF shadow_okD(1)[OF assms(1)] assms(2), of "Issued f"]
  from fill_vb[OF assms(1) as(1,3) u write_covers[OF assms(3,4) as(2)]]
  have r: "shadow_ok (assign p (Issued f) sh)" "other (assign p (Issued f) sh) = other sh"
    "vb (assign p (Issued f) sh) = set_range a n (Some x) (vb sh)" by (simp_all add: fillsD(1)[OF assms(5)])
  have "stored a n be 0 n w (vb sh) = set_range a n (Some x) (vb sh)"
    by (rule stored_uniform[OF assms(6,7) block_nowrap[OF assms(4)]]) (use assms(4) in simp)
  with r assms(6) other_eqD[OF r(2)] show ?thesis by (simp add: store_result_def)
qed

lemma no_write:
  assumes "shadow_ok sh" "holds v2 sh a n" "fills v2 x" "all_bytes w n x" "n \<le> 8"
  shows "store_result k a n be w sh sh"
proof -
  have v: "vb sh (a + of_nat i) = Some x" if "i < n" for i
    using holds_vb[OF assms(1,2) fillsD(2)[OF assms(3)] that assms(5)] fillsD(1)[OF assms(3)] by simp
  then have m: "mapped (vb sh) a n" by (simp add: mapped_def)
  have "stored a n be 0 n w (vb sh) b = vb sh b" for b
    using v[of "unat (b - a)"] place_inv(1)[of "unat (b - a)" n be] assms(4) by (auto simp: stored_at all_bytes_def)
  with m assms(1) show ?thesis by (simp add: store_result_def fun_eq_iff)
qed

lemma holds_mapped:
  assumes "shadow_ok sh" "holds v2 sh a n" "v2 = VA_BITS2_DEFINED \<or> v2 = VA_BITS2_UNDEFINED" "n \<le> 8"
  shows "mapped (vb sh) a n"
  using holds_vb[OF assms(1,2) _ _ assms(4)] assms(3) by (auto simp: mapped_def fill_def)

lemma entry_mapped16:
  assumes "shadow_ok sh" "unat a mod 8 = 0"
    and "get16 (contents (sm_of sh a)) (SM_OFF_16 a) = VA_BITS16_DEFINED \<or> get16 (contents (sm_of sh a)) (SM_OFF_16 a) = VA_BITS16_UNDEFINED"
  shows "mapped (vb sh) a 8"
  using assms(3) holds16[OF assms(2) uniform_consts(1)] holds16[OF assms(2) uniform_consts(2)] holds_mapped[OF assms(1)] by fastforce

lemma entry_mapped8:
  assumes "shadow_ok sh" "unat a mod 4 = 0"
    and "contents (sm_of sh a) (SM_OFF a) = VA_BITS8_DEFINED \<or> contents (sm_of sh a) (SM_OFF a) = VA_BITS8_UNDEFINED"
  shows "mapped (vb sh) a 4"
  using assms(3) holds8[OF assms(2) _ uniform8_consts(1)] holds8[OF assms(2) _ uniform8_consts(2)] holds_mapped[OF assms(1)] by fastforce

text \<open>Eight bytes at once, four bytes at once.\<close>

lemma write16:
  assumes "shadow_ok sh" "ptr_of p a sh" "unat a mod 8 = 0" "mapped (vb sh) a 8"
  shows "all_bytes w 8 V_BITS8_DEFINED \<Longrightarrow>
      store_result k a 8 be w sh (assign p (Issued (set16 (SM_OFF_16 a) VA_BITS16_DEFINED (contents (sm_of sh a)))) sh)"
    "all_bytes w 8 V_BITS8_UNDEFINED \<Longrightarrow>
      store_result k a 8 be w sh (assign p (Issued (set16 (SM_OFF_16 a) VA_BITS16_UNDEFINED (contents (sm_of sh a)))) sh)"
proof -
  have al: "VG_IS_8_ALIGNED a" and f: "lo a + 8 \<le> 65536" using assms(3) aligned_fits[OF assms(3)] by (simp_all add: aligned8)
  show "all_bytes w 8 V_BITS8_DEFINED \<Longrightarrow>
      store_result k a 8 be w sh (assign p (Issued (set16 (SM_OFF_16 a) VA_BITS16_DEFINED (contents (sm_of sh a)))) sh)"
    by (rule direct_write[OF assms(1,2) set16_covers[OF al uniform_consts(1)] f _ assms(4)]) simp_all
  show "all_bytes w 8 V_BITS8_UNDEFINED \<Longrightarrow>
      store_result k a 8 be w sh (assign p (Issued (set16 (SM_OFF_16 a) VA_BITS16_UNDEFINED (contents (sm_of sh a)))) sh)"
    by (rule direct_write[OF assms(1,2) set16_covers[OF al uniform_consts(2)] f _ assms(4)]) simp_all
qed

lemma write8:
  assumes "shadow_ok sh" "ptr_of p a sh" "unat a mod 4 = 0" "mapped (vb sh) a 4"
  shows "all_bytes w 4 V_BITS8_DEFINED \<Longrightarrow>
      store_result k a 4 be w sh (assign p (Issued ((contents (sm_of sh a))(SM_OFF a := VA_BITS8_DEFINED))) sh)"
    "all_bytes w 4 V_BITS8_UNDEFINED \<Longrightarrow>
      store_result k a 4 be w sh (assign p (Issued ((contents (sm_of sh a))(SM_OFF a := VA_BITS8_UNDEFINED))) sh)"
proof -
  have f: "lo a + 4 \<le> 65536" using aligned_fits[OF assms(3)] by simp
  show "all_bytes w 4 V_BITS8_DEFINED \<Longrightarrow>
      store_result k a 4 be w sh (assign p (Issued ((contents (sm_of sh a))(SM_OFF a := VA_BITS8_DEFINED))) sh)"
    by (rule direct_write[OF assms(1,2) set8_covers[OF assms(3) uniform8_consts(1)] f _ assms(4)]) simp_all
  show "all_bytes w 4 V_BITS8_UNDEFINED \<Longrightarrow>
      store_result k a 4 be w sh (assign p (Issued ((contents (sm_of sh a))(SM_OFF a := VA_BITS8_UNDEFINED))) sh)"
    by (rule direct_write[OF assms(1,2) set8_covers[OF assms(3) uniform8_consts(2)] f _ assms(4)]) simp_all
qed

text \<open>The V bits that the direct cases recognise.\<close>

lemma all_bytes_consts:
  "all_bytes V_BITS64_DEFINED 8 V_BITS8_DEFINED" "all_bytes V_BITS64_UNDEFINED 8 V_BITS8_UNDEFINED"
  "all_bytes V_BITS32_DEFINED 4 V_BITS8_DEFINED" "all_bytes V_BITS32_UNDEFINED 4 V_BITS8_UNDEFINED"
  "all_bytes V_BITS16_DEFINED 2 V_BITS8_DEFINED" "all_bytes V_BITS16_UNDEFINED 2 V_BITS8_UNDEFINED"
  "all_bytes (ucast V_BITS8_DEFINED) 1 V_BITS8_DEFINED" "all_bytes (ucast V_BITS8_UNDEFINED) 1 V_BITS8_UNDEFINED"
  by (simp_all add: all_bytes_def bytes_consts)

lemma all_bytes_low: "all_bytes (w AND 0xffffffff) 4 x \<Longrightarrow> all_bytes w 4 x"
proof -
  have "byte_of (w AND 0xffffffff) i = byte_of w i" if "i < 4" for i
  proof (rule bit_eqI)
    fix n
    have m: "(0xffffffff :: u64) = mask 32" by (simp add: mask_eq_exp_minus_1)
    show "bit (byte_of (w AND 0xffffffff) i) n = bit (byte_of w i) n"
      using that by (simp only: m) (auto simp: bit_byte_of bit_and_iff bit_mask_iff simp del: mask_numeral)
  qed
  then show "all_bytes (w AND 0xffffffff) 4 x \<Longrightarrow> all_bytes w 4 x" by (simp add: all_bytes_def)
qed

text \<open>A semi-fast case has done the store, or changed nothing that can be seen.\<close>

definition semi_stored :: "addr \<Rightarrow> nat \<Rightarrow> bool \<Rightarrow> u64 \<Rightarrow> shadow \<Rightarrow> (bool \<times> shadow) option \<Rightarrow> bool" where
  "semi_stored a n be w sh x \<longleftrightarrow>
     (case x of None \<Rightarrow> False | Some (r, sh') \<Rightarrow> if r then store_result 1 a n be w sh sh' else unseen sh sh')"

lemma semi_store64:
  assumes "shadow_ok sh" "unat a mod 8 = 0"
  shows "semi_stored a 8 be w sh (semi_fast_store64 a w sh)"
proof -
  from get_secmap_ptr_spec[OF shadow_okD(1)[OF assms(1)], of a] obtain p sh1 where
    p: "get_secmap_ptr a sh = Some (p, sh1)" "unseen sh sh1" "ptr_of p a sh1" by blast
  note ok1 = unseen_ok[OF assms(1) p(2)] and lift = store_result_unseen[OF assms(1) p(2)]
  let ?f = "contents (sm_of sh1 a)"
  have m: "mapped (vb sh1) a 8"
    if "VA_BITS16_DEFINED = get16 ?f (SM_OFF_16 a) \<or> VA_BITS16_UNDEFINED = get16 ?f (SM_OFF_16 a)"
    using entry_mapped16[OF ok1 assms(2)] that by metis
  have "store_result 1 a 8 be w sh (assign p (Issued (set16 (SM_OFF_16 a) VA_BITS16_DEFINED ?f)) sh1)"
    if "mapped (vb sh1) a 8" "V_BITS64_DEFINED = w"
    by (rule lift, rule write16(1)[OF ok1 p(3) assms(2) that(1)]) (use that(2) all_bytes_consts(1) in simp)
  moreover have "store_result 1 a 8 be w sh (assign p (Issued (set16 (SM_OFF_16 a) VA_BITS16_UNDEFINED ?f)) sh1)"
    if "mapped (vb sh1) a 8" "V_BITS64_UNDEFINED = w"
    by (rule lift, rule write16(2)[OF ok1 p(3) assms(2) that(1)]) (use that(2) all_bytes_consts(2) in simp)
  ultimately show ?thesis using p(1,2) deref_ptr[OF p(3)] m by (simp add: semi_fast_store64_def semi_stored_def Let_def)
qed

lemma semi_store32:
  assumes "shadow_ok sh" "unat a mod 4 = 0"
  shows "semi_stored a 4 be w sh (semi_fast_store32 a w sh)"
proof -
  from get_secmap_ptr_spec[OF shadow_okD(1)[OF assms(1)], of a] obtain p sh1 where
    p: "get_secmap_ptr a sh = Some (p, sh1)" "unseen sh sh1" "ptr_of p a sh1" by blast
  note ok1 = unseen_ok[OF assms(1) p(2)] and lift = store_result_unseen[OF assms(1) p(2)]
  let ?f = "contents (sm_of sh1 a)"
  have m: "mapped (vb sh1) a 4" if "VA_BITS8_DEFINED = ?f (SM_OFF a) \<or> VA_BITS8_UNDEFINED = ?f (SM_OFF a)"
    using entry_mapped8[OF ok1 assms(2)] that by metis
  have "store_result 1 a 4 be w sh (assign p (Issued (?f(SM_OFF a := VA_BITS8_DEFINED))) sh1)"
    if "mapped (vb sh1) a 4" "V_BITS32_DEFINED = w AND 0xffffffff"
    by (rule lift, rule write8(1)[OF ok1 p(3) assms(2) that(1) all_bytes_low]) (use that(2) all_bytes_consts(3) in simp)
  moreover have "store_result 1 a 4 be w sh (assign p (Issued (?f(SM_OFF a := VA_BITS8_UNDEFINED))) sh1)"
    if "mapped (vb sh1) a 4" "V_BITS32_UNDEFINED = w AND 0xffffffff"
    by (rule lift, rule write8(2)[OF ok1 p(3) assms(2) that(1) all_bytes_low]) (use that(2) all_bytes_consts(4) in simp)
  ultimately show ?thesis using p(1,2) deref_ptr[OF p(3)] m by (simp add: semi_fast_store32_def semi_stored_def Let_def)
qed

lemma STOREVn_slow_spec:
  assumes "shadow_ok sh" "n = 1 \<or> n = 2 \<or> n = 4 \<or> n = 8"
  shows "stores 1 a n be w sh (mc_STOREVn_slow a (8 * n) w be sh)"
proof -
  consider "n = 8" "unat a mod 8 = 0" | "n = 4" "unat a mod 4 = 0" | "\<not> (8 * n = 64 \<and> VG_IS_8_ALIGNED a)" "\<not> (8 * n = 32 \<and> VG_IS_4_ALIGNED a)"
    using assms(2) by (auto simp: aligned4 aligned8)
  then show ?thesis
  proof cases
    case 1
    from semi_store64[OF assms(1) 1(2), of be w] obtain r sh1 where
      r: "semi_fast_store64 a w sh = Some (r, sh1)" "if r then store_result 1 a 8 be w sh sh1 else unseen sh sh1"
      by (auto simp: semi_stored_def split: option.splits)
    from storev_bytes_spec[OF unseen_ok[OF assms(1)] assms(2), of sh1 a be w] r 1 store_result_unseen[OF assms(1), of sh1] show ?thesis
      by (cases r) (auto simp: mc_STOREVn_slow_def aligned8 stores_def)
  next
    case 2
    from semi_store32[OF assms(1) 2(2), of be w] obtain r sh1 where
      r: "semi_fast_store32 a w sh = Some (r, sh1)" "if r then store_result 1 a 4 be w sh sh1 else unseen sh sh1"
      by (auto simp: semi_stored_def split: option.splits)
    from storev_bytes_spec[OF unseen_ok[OF assms(1)] assms(2), of sh1 a be w] r 2 store_result_unseen[OF assms(1), of sh1] show ?thesis
      by (cases r) (auto simp: mc_STOREVn_slow_def aligned4 stores_def)
  next
    case 3
    then have "mc_STOREVn_slow a (8 * n) w be sh = storev_bytes a (8 * n) w be sh"
      unfolding mc_STOREVn_slow_def if_not_P[OF 3(1)] if_not_P[OF 3(2)] by simp
    with storev_bytes_spec[OF assms] show ?thesis by simp
  qed
qed


section \<open>The handlers\<close>

lemma stores_slow:
  assumes "shadow_ok sh"
  shows "stores 1 a 1 be w sh (mc_STOREVn_slow a 8 w be sh)" "stores 1 a 2 be w sh (mc_STOREVn_slow a 16 w be sh)"
    "stores 1 a 4 be w sh (mc_STOREVn_slow a 32 w be sh)" "stores 1 a 8 be w sh (mc_STOREVn_slow a 64 w be sh)"
  using STOREVn_slow_spec[OF assms, of 1 a be w] STOREVn_slow_spec[OF assms, of 2 a be w] STOREVn_slow_spec[OF assms, of 4 a be w]
    STOREVn_slow_spec[OF assms, of 8 a be w] by simp_all

lemma low_ptr: "a \<le> MAX_PRIMARY_ADDRESS \<Longrightarrow> ptr_of (get_secmap_low_ptr a) a sh"
  by (simp add: ptr_of_def get_secmap_low_ptr_def)

lemma STOREV64_spec:
  assumes "shadow_ok sh"
  shows "stores 1 a 8 be w sh (mc_STOREV64 a w be sh)"
proof (cases "UNALIGNED_OR_HIGH a 64")
  case False
  then have a: "a \<le> MAX_PRIMARY_ADDRESS" "unat a mod 8 = 0" using UNALIGNED_OR_HIGH_iff(4)[of a] by auto
  let ?v = "get16 (contents (sm_of sh a)) (SM_OFF_16 a)"
  note wr = write16[OF assms low_ptr[OF a(1)] a(2)] and m = entry_mapped16[OF assms a(2)]
  have 1: "store_result 1 a 8 be V_BITS64_DEFINED sh sh" if "?v = VA_BITS16_DEFINED"
    by (rule no_write[OF assms holds16[OF a(2) uniform_consts(1) that] fills_simps(1) all_bytes_consts(1)]) simp
  have 2: "store_result 1 a 8 be V_BITS64_UNDEFINED sh sh" if "?v = VA_BITS16_UNDEFINED"
    by (rule no_write[OF assms holds16[OF a(2) uniform_consts(2) that] fills_simps(2) all_bytes_consts(2)]) simp
  show ?thesis
    using 1 2 wr(1)[OF m all_bytes_consts(1), of 1 be] wr(2)[OF m all_bytes_consts(2), of 1 be] stores_slow[OF assms] False
    by (auto simp: mc_STOREV64_def reading_low[OF a(1)] Let_def write_low_def)
qed (simp add: mc_STOREV64_def stores_slow[OF assms, simplified])

lemma STOREV32_spec:
  assumes "shadow_ok sh"
  shows "stores 1 a 4 be w sh (mc_STOREV32 a w be sh)"
proof (cases "UNALIGNED_OR_HIGH a 32")
  case False
  then have a: "a \<le> MAX_PRIMARY_ADDRESS" "unat a mod 4 = 0" using UNALIGNED_OR_HIGH_iff(3)[of a] by auto
  have n: "4 = (1 :: nat) \<or> 4 = (2 :: nat) \<or> 4 = (4 :: nat)" by simp
  let ?v = "contents (sm_of sh a) (SM_OFF a)"
  note wr = write8[OF assms low_ptr[OF a(1)] a(2)] and m = entry_mapped8[OF assms a(2)]
  have 1: "store_result 1 a 4 be V_BITS32_DEFINED sh sh" if "?v = VA_BITS8_DEFINED"
    by (rule no_write[OF assms holds8[OF a(2) n uniform8_consts(1) that] fills_simps(1) all_bytes_consts(3)]) simp
  have 2: "store_result 1 a 4 be V_BITS32_UNDEFINED sh sh" if "?v = VA_BITS8_UNDEFINED"
    by (rule no_write[OF assms holds8[OF a(2) n uniform8_consts(2) that] fills_simps(2) all_bytes_consts(4)]) simp
  show ?thesis
    using 1 2 wr(1)[OF m all_bytes_consts(3), of 1 be] wr(2)[OF m all_bytes_consts(4), of 1 be] stores_slow[OF assms] False
    by (auto simp: mc_STOREV32_def reading_low[OF a(1)] Let_def write_low_def)
qed (simp add: mc_STOREV32_def stores_slow[OF assms, simplified])

lemma byte_mapped:
  assumes "shadow_ok sh" "extract_vabits2_from_vabits8 a (contents (sm_of sh a) (SM_OFF a)) \<noteq> VA_BITS2_NOACCESS"
  shows "mapped (vb sh) a 1"
  using assms vb_None_iff[OF assms(1), of a] by (simp add: mapped_def va_def va_of_def)

lemma STOREV8_spec:
  assumes "shadow_ok sh"
  shows "stores 1 a 1 False w sh (helperc_STOREV8 a w sh)"
proof (cases "UNALIGNED_OR_HIGH a 8")
  case False
  then have a: "a \<le> MAX_PRIMARY_ADDRESS" "unat a mod 1 = 0" using UNALIGNED_OR_HIGH_iff(1)[of a] by auto
  have n: "1 = (1 :: nat) \<or> 1 = (2 :: nat) \<or> 1 = (4 :: nat)" by simp
  let ?f = "contents (sm_of sh a)"
  have f: "lo a + 1 \<le> 65536" by (simp add: Suc_leI)
  have wr: "store_result 1 a 1 False (ucast x) sh (assign (get_secmap_low_ptr a) (Issued (?f(SM_OFF a := insert_vabits2_into_vabits8 a v2 (?f (SM_OFF a))))) sh)"
    if "VA_BITS2_NOACCESS \<noteq> extract_vabits2_from_vabits8 a (?f (SM_OFF a))" "fills v2 x" "is_vabits2 v2" "all_bytes (ucast x) 1 x" for v2 x
    using put_vabits2_covers[OF that(3), of ?f a] byte_mapped[OF assms that(1)[symmetric]] that(4) unfolding put_vabits2_def
    by (intro direct_write[OF assms low_ptr[OF a(1)] _ f that(2)]) simp_all
  have 1: "store_result 1 a 1 False (ucast V_BITS8_DEFINED) sh sh" if "?f (SM_OFF a) = VA_BITS8_DEFINED"
    by (rule no_write[OF assms holds8[OF a(2) n uniform8_consts(1) that] fills_simps(1) all_bytes_consts(7)]) simp
  have 2: "store_result 1 a 1 False (ucast V_BITS8_UNDEFINED) sh sh" if "?f (SM_OFF a) = VA_BITS8_UNDEFINED"
    by (rule no_write[OF assms holds8[OF a(2) n uniform8_consts(2) that] fills_simps(2) all_bytes_consts(8)]) simp
  show ?thesis
    using 1 2 wr[OF _ fills_simps(1) _ all_bytes_consts(7)] wr[OF _ fills_simps(2) _ all_bytes_consts(8)] stores_slow(1)[OF assms, of a False w] False
    by (auto simp: helperc_STOREV8_def reading_low[OF a(1)] Let_def write_low_def)
qed (use stores_slow(1)[OF assms] in \<open>simp add: helperc_STOREV8_def\<close>)

lemma bit_12: "bit (12 :: u8) n \<longleftrightarrow> n = 2 \<or> n = 3"
proof (cases "n < 8")
  case True
  then show ?thesis unfolding less_8_cases by auto
next
  case False
  then show ?thesis using bit_imp_le_length[of "12 :: u8" n] by auto
qed

lemma accessible_bytes:
  assumes "accessible_vabits4_in_vabits8 a w = Some True" "unat (b - a) < 2"
  shows "extract_vabits2_from_vabits8 b w \<noteq> VA_BITS2_NOACCESS"
proof -
  have al: "VG_IS_2_ALIGNED a" and n: "3 AND drop_bit (shift4 a) w \<noteq> 0" "12 AND drop_bit (shift4 a) w \<noteq> 0"
    using assms(1) by (auto simp: accessible_vabits4_in_vabits8_def VA_BITS2_NOACCESS_def Let_def split: if_splits)
  have e: "unat a mod 2 = 0" using unat_and(2)[of a] al by simp
  have b: "bit (extract_vabits2_from_vabits8 b w) m \<longleftrightarrow> m < 2 \<and> bit w (shift4 a + 2 * unat (b - a) + m)" for m
    by (simp add: bit_extract half_entry[OF e assms(2)] shift4_eq[OF e] algebra_simps)
  consider "unat (b - a) = 0" | "unat (b - a) = 1" using assms(2) by linarith
  then show ?thesis
  proof cases
    case 1
    from n(1) obtain m where "bit (3 AND drop_bit (shift4 a) w) m" by (metis bit_eqI bit_0_eq bot_apply bot_bool_def)
    then have "m < 2" "bit w (shift4 a + m)" by (simp_all add: bit_and_iff bit_3 bit_drop_bit_eq del: bit_numeral_word_iff)
    then have "bit (extract_vabits2_from_vabits8 b w) m" by (simp add: b 1)
    then show ?thesis by (auto simp: VA_BITS2_NOACCESS_def)
  next
    case 2
    from n(2) obtain m where "bit (12 AND drop_bit (shift4 a) w) m" by (metis bit_eqI bit_0_eq bot_apply bot_bool_def)
    then have m: "m = 2 \<or> m = 3" "bit w (shift4 a + m)" by (simp_all add: bit_and_iff bit_12 bit_drop_bit_eq del: bit_numeral_word_iff)
    have k: "shift4 a + 2 * unat (b - a) + (m - 2) = shift4 a + m" "m - 2 < 2" using m(1) 2 by auto
    have "bit (extract_vabits2_from_vabits8 b w) (m - 2)" using m(2) k(2) by (simp only: b k(1) simp_thms)
    then show ?thesis by (auto simp: VA_BITS2_NOACCESS_def)
  qed
qed

lemma accessible_mapped:
  assumes "shadow_ok sh" "unat a mod 2 = 0" "accessible_vabits4_in_vabits8 a (contents (sm_of sh a) (SM_OFF a)) = Some True"
  shows "mapped (vb sh) a 2"
  unfolding mapped_def
proof (intro allI impI)
  fix i :: nat assume i: "i < 2"
  let ?b = "a + of_nat i"
  have b: "unat (?b - a) < 2" using i by (simp add: unat_off)
  from same_entry[OF assms(2) _ b] have e: "hi ?b = hi a" "SM_OFF ?b = SM_OFF a" by blast+
  have "va sh ?b \<noteq> VA_BITS2_NOACCESS"
    using accessible_bytes[OF assms(3) b] unfolding va_def va_of_def sm_of_same[OF e(1)] e(2) .
  then show "vb sh ?b \<noteq> None" using vb_None_iff[OF assms(1)] by blast
qed

lemma stored_twice: "stored a n be 0 n w (stored a n be 0 n w m) = stored a n be 0 n w m"
  by (rule ext) (auto simp: stored_at)

lemma mapped_stored: "mapped (stored a n be 0 n w m) a n = mapped m a n"
  by (auto simp: mapped_def stored_at)

lemma store_again:
  assumes "store_result j a n be w sh sh1" "store_result k a n be w sh1 sh2"
  shows "store_result (j + k) a n be w sh sh2"
  using assms by (simp add: store_result_def stored_twice mapped_stored replicate_add)

text \<open>
  The handler of two bytes calls the slow case twice for defined V bits: the memory is as it should be, but an address error is
  reported two times.
\<close>

lemma STOREV16_spec:
  assumes "shadow_ok sh"
  shows "stores (if V_BITS16_DEFINED = w \<and> \<not> UNALIGNED_OR_HIGH a 16 then 2 else 1) a 2 be w sh (mc_STOREV16 a w be sh)"
proof (cases "UNALIGNED_OR_HIGH a 16")
  case False
  then have a: "a \<le> MAX_PRIMARY_ADDRESS" "unat a mod 2 = 0" using UNALIGNED_OR_HIGH_iff(2)[of a] by auto
  have n: "2 = (1 :: nat) \<or> 2 = (2 :: nat) \<or> 2 = (4 :: nat)" by simp
  have al: "VG_IS_2_ALIGNED a" using unat_and(2)[of a] a(2) by (metis unat_eq_0)
  let ?f = "contents (sm_of sh a)"
  obtain c where c: "accessible_vabits4_in_vabits8 a (?f (SM_OFF a)) = Some c"
    using al by (simp add: accessible_vabits4_in_vabits8_def Let_def)
  define d where "d = (\<not> is_distinguished_sm (sm_of sh a) \<and> c)"
  have d: "direct16 a (sm_of sh a) = Some d" "d \<Longrightarrow> mapped (vb sh) a 2"
    using accessible_mapped[OF assms a(2)] c by (auto simp: direct16_def d_def)
  have f: "lo a + 2 \<le> 65536" using aligned_fits[OF a(2)] by simp
  have wr: "stores k a 2 be w' sh (insert4_low a v4 ?f sh)" if "d" "uniform4 v4 v2" "fills v2 x" "all_bytes w' 2 x" for k w' v4 v2 x
  proof -
    obtain v where v: "insert_vabits4_into_vabits8 a v4 (?f (SM_OFF a)) = Some v" using al by (simp add: insert_vabits4_into_vabits8_def)
    have "store_result k a 2 be w' sh (assign (get_secmap_low_ptr a) (Issued (?f(SM_OFF a := v))) sh)"
      by (rule direct_write[OF assms low_ptr[OF a(1)] insert4_covers[where f = ?f, OF v that(2)] f that(3) d(2)[OF that(1)] that(4)]) simp
    then show ?thesis by (simp add: insert4_low_def v write_low_def)
  qed
  have 1: "store_result 2 a 2 be V_BITS16_DEFINED sh sh" if "?f (SM_OFF a) = VA_BITS8_DEFINED"
    by (rule no_write[OF assms holds8[OF a(2) n uniform8_consts(1) that] fills_simps(1) all_bytes_consts(5)]) simp
  have 2: "store_result 1 a 2 be V_BITS16_UNDEFINED sh sh" if "?f (SM_OFF a) = VA_BITS8_UNDEFINED"
    by (rule no_write[OF assms holds8[OF a(2) n uniform8_consts(2) that] fills_simps(2) all_bytes_consts(6)]) simp
  have u4: "uniform4 VA_BITS4_DEFINED VA_BITS2_DEFINED" "uniform4 VA_BITS4_UNDEFINED VA_BITS2_UNDEFINED" by (simp_all add: uniform4_def)
  from stores_slow(2)[OF assms, of a be w] obtain sh1 where
    s1: "mc_STOREVn_slow a 16 w be sh = Some sh1" "store_result 1 a 2 be w sh sh1" by (auto simp: stores_def)
  then have "shadow_ok sh1" by (simp add: store_result_def)
  from stores_slow(2)[OF this, of a be w] obtain sh2 where
    s2: "mc_STOREVn_slow a 16 w be sh1 = Some sh2" "store_result 1 a 2 be w sh1 sh2" by (auto simp: stores_def)
  have two: "store_result 2 a 2 be w sh sh2" using store_again[OF s1(2) s2(2)] by (simp add: numeral_2_eq_2)
  show ?thesis
    using 1 2 wr[OF _ u4(1) fills_simps(1) all_bytes_consts(5)] wr[OF _ u4(2) fills_simps(2) all_bytes_consts(6)] s1 s2 two d(1) False
    by (auto simp: mc_STOREV16_def reading_low[OF a(1)] Let_def)
qed (use stores_slow(2)[OF assms] in \<open>simp add: mc_STOREV16_def\<close>)

end
