(* ===== verification/Shadow_Wide.thy ===== *)
theory Shadow_Wide
  imports Shadow_Loads
begin

text \<open>Loads of 128 and 256 bits: each double word of the result holds the V bits of its eight bytes.\<close>

section \<open>The specification\<close>

definition exempt_wide :: "bool \<Rightarrow> addr \<Rightarrow> nat \<Rightarrow> (addr \<Rightarrow> u8 option) \<Rightarrow> bool" where
  "exempt_wide partial_loads_ok a n m \<longleftrightarrow> partial_loads_ok \<and> a AND (of_nat n - 1) = 0 \<and> (\<exists>i < n. m (a + of_nat i) \<noteq> None)"

definition wide_result :: "addr \<Rightarrow> nat \<Rightarrow> bool \<Rightarrow> shadow \<Rightarrow> u64 list \<times> shadow \<Rightarrow> bool" where
  "wide_result a L be sh r \<longleftrightarrow> (let ex = exempt_wide (clo_partial_loads_ok sh) a (8 * L) (vb sh) in
     shadow_ok (snd r) \<and> vb (snd r) = vb sh \<and> clo_partial_loads_ok (snd r) = clo_partial_loads_ok sh \<and> length (fst r) = L \<and>
     errors (snd r) = errors sh @
       (if mapped (vb sh) a (8 * L) \<or> ex then [] else [\<lparr>err_addr = a, err_szB = of_nat (8 * L), err_isWrite = False\<rparr>]) \<and>
     (\<forall>k < L. \<forall>i < 8. byte_of (fst r ! k) i =
        loaded_byte (if ex then V_BITS8_UNDEFINED else V_BITS8_DEFINED) (vb sh (a + 8 * of_nat k + of_nat (place 8 be i)))))"


section \<open>The slow case\<close>

text \<open>The number of bad bytes in the double words that are done.\<close>

definition bad_longs :: "(addr \<Rightarrow> u8 option) \<Rightarrow> addr \<Rightarrow> nat \<Rightarrow> bool \<Rightarrow> nat \<Rightarrow> nat" where
  "bad_longs m a L be j = (\<Sum>t < j. bad_bytes m (a + 8 * of_nat (place L be t)) 8 be 8)"

definition long_done :: "(addr \<Rightarrow> u8 option) \<Rightarrow> addr \<Rightarrow> bool \<Rightarrow> nat \<Rightarrow> u64 \<Rightarrow> u64 \<Rightarrow> bool" where
  "long_done m a be k v p \<longleftrightarrow> (\<forall>i < 8. byte_of v i = found m (a + 8 * of_nat k) 8 be i \<and> byte_of p i = gap m (a + 8 * of_nat k) 8 be i)"

lemma loadv_longs_spec:
  assumes "shadow_ok sh" "j \<le> L" "L \<le> 4" "length res = L" "length pes = L"
  shows "\<exists>res' pes' sh'. loadv_longs a L be j res pes c sh = Some (res', pes', c + bad_longs (vb sh) a L be j, sh') \<and>
    shadow_ok sh' \<and> vb sh' = vb sh \<and> other sh' = other sh \<and> length res' = L \<and> length pes' = L \<and>
    (\<forall>k < L. if place L be k < j then long_done (vb sh) a be k (res' ! k) (pes' ! k) else res' ! k = res ! k \<and> pes' ! k = pes ! k)"
  using assms
proof (induction j arbitrary: res pes c sh)
  case 0
  then show ?case by (simp add: bad_longs_def)
next
  case (Suc j)
  let ?K = "place L be j"
  have K: "?K < L" "place L be ?K = j" using place_inv[of j L be] Suc.prems(2) by auto
  have ix: "byte_offset_w (of_nat L) be (of_nat j) = of_nat ?K" "unat (of_nat ?K :: u64) = ?K"
    using Suc.prems(2,3) K(1) by (simp_all add: byte_offset_place unat_off)
  from shadow_bytes.load_law[OF Suc.prems(1), of 8 8 "a + 8 * of_nat ?K" be V_BITS64_UNDEFINED V_BITS64_DEFINED c] obtain v p sh1 where
    l: "loadv_loop get_vbits8 (a + 8 * of_nat ?K) 8 be 8 V_BITS64_UNDEFINED V_BITS64_DEFINED c sh =
      Some (v, p, c + bad_bytes (vb sh) (a + 8 * of_nat ?K) 8 be 8, sh1)"
    "shadow_ok sh1" "vb sh1 = vb sh" "other sh1 = other sh" "long_done (vb sh) a be ?K v p"
    by (auto simp: long_done_def)
  from Suc.IH[OF l(2), of "res[?K := v]" "pes[?K := p]" "c + bad_bytes (vb sh) (a + 8 * of_nat ?K) 8 be 8"] Suc.prems(2-5) obtain res' pes' sh' where
    r: "loadv_longs a L be j (res[?K := v]) (pes[?K := p]) (c + bad_bytes (vb sh) (a + 8 * of_nat ?K) 8 be 8) sh1 =
      Some (res', pes', c + bad_bytes (vb sh) (a + 8 * of_nat ?K) 8 be 8 + bad_longs (vb sh) a L be j, sh')"
    "shadow_ok sh'" "vb sh' = vb sh" "other sh' = other sh" "length res' = L" "length pes' = L"
    "\<forall>k < L. if place L be k < j then long_done (vb sh) a be k (res' ! k) (pes' ! k)
       else res' ! k = res[?K := v] ! k \<and> pes' ! k = pes[?K := p] ! k" unfolding l(3,4) by auto
  have "if place L be k < Suc j then long_done (vb sh) a be k (res' ! k) (pes' ! k) else res' ! k = res ! k \<and> pes' ! k = pes ! k"
    if k: "k < L" for k
  proof (cases "k = ?K")
    case True
    then show ?thesis using r(7) K l(5) Suc.prems(4,5) by auto
  next
    case False
    then have "place L be k \<noteq> j" using place_inv(2)[OF k, of be] by metis
    then show ?thesis using r(7) k False by (auto simp: less_Suc_eq)
  qed
  moreover have "loadv_longs a L be (Suc j) res pes c sh = Some (res', pes', c + bad_longs (vb sh) a L be (Suc j), sh')"
    using l(1) r(1) by (simp add: ix bad_longs_def algebra_simps)
  ultimately show ?case using r(2-6) by blast
qed

lemma mapped_longs: "mapped m a (8 * L) \<longleftrightarrow> (\<forall>k < L. mapped m (a + 8 * of_nat k) 8)"
  "(\<exists>i < 8 * L. m (a + of_nat i) \<noteq> None) \<longleftrightarrow> (\<exists>k < L. \<exists>i < 8. m (a + 8 * of_nat k + of_nat i) \<noteq> None)"
proof -
  have addr: "a + 8 * of_nat k + of_nat i = (a + of_nat (8 * k + i) :: addr)" for k i :: nat by (simp add: algebra_simps)
  have all: "(\<forall>i < 8 * L. P i) \<longleftrightarrow> (\<forall>k < L. \<forall>i < 8. P (8 * k + i))" for P :: "nat \<Rightarrow> bool"
  proof (intro iffI allI impI)
    fix i assume h: "\<forall>k < L. \<forall>i < 8. P (8 * k + i)" and i: "i < 8 * L"
    have "i div 8 < L" using i by (simp add: div_less_iff_less_mult mult.commute)
    moreover have "i mod 8 < 8" by simp
    ultimately have "P (8 * (i div 8) + i mod 8)" using h by blast
    then show "P i" by simp
  next
    fix k i assume h: "\<forall>i < 8 * L. P i" and k: "k < L" "i < (8 :: nat)"
    have "8 * k + i < 8 * L" using k by linarith
    then show "P (8 * k + i)" using h by blast
  qed
  have ex: "(\<exists>i < 8 * L. P i) \<longleftrightarrow> (\<exists>k < L. \<exists>i < 8. P (8 * k + i))" for P :: "nat \<Rightarrow> bool"
    using all[of "\<lambda>i. \<not> P i"] by blast
  show "mapped m a (8 * L) \<longleftrightarrow> (\<forall>k < L. mapped m (a + 8 * of_nat k) 8)"
    unfolding mapped_def all addr ..
  show "(\<exists>i < 8 * L. m (a + of_nat i) \<noteq> None) \<longleftrightarrow> (\<exists>k < L. \<exists>i < 8. m (a + 8 * of_nat k + of_nat i) \<noteq> None)"
    unfolding addr by (rule ex)
qed

lemma bad_longs_iff:
  "bad_longs m a L be L = 0 \<longleftrightarrow> mapped m a (8 * L)" "bad_longs m a L be L < 8 * L \<longleftrightarrow> (\<exists>i < 8 * L. m (a + of_nat i) \<noteq> None)"
proof -
  let ?B = "\<lambda>k. bad_bytes m (a + 8 * of_nat k) 8 be 8"
  have le: "?B k \<le> 8" for k
  proof -
    have "{i. i < 8 \<and> P i} \<subseteq> {..<8}" for P :: "nat \<Rightarrow> bool" by auto
    from card_mono[OF finite_lessThan this] show ?thesis by (simp only: bad_bytes_def card_lessThan)
  qed
  have "bad_longs m a L be L = 0 \<longleftrightarrow> (\<forall>t < L. ?B (place L be t) = 0)" by (simp add: bad_longs_def Ball_def)
  also have "\<dots> \<longleftrightarrow> (\<forall>k < L. ?B k = 0)" by (rule place_all)
  finally show "bad_longs m a L be L = 0 \<longleftrightarrow> mapped m a (8 * L)" by (simp add: bad_bytes_iff mapped_longs(1))
  have "bad_longs m a L be L < 8 * L \<longleftrightarrow> \<not> (\<forall>t < L. ?B (place L be t) = 8)"
  proof (cases "\<forall>t < L. ?B (place L be t) = 8")
    case True
    then have "bad_longs m a L be L = (\<Sum>t < L. 8)" unfolding bad_longs_def by (intro sum.cong) auto
    then show ?thesis using True by simp
  next
    case False
    then obtain t where t: "t < L" "?B (place L be t) < 8" using le by (metis order_le_less)
    have "bad_longs m a L be L < (\<Sum>t < L. 8)" unfolding bad_longs_def
      by (rule sum_strict_mono_ex1) (use le t in auto)
    then show ?thesis using False by simp
  qed
  also have "\<dots> \<longleftrightarrow> \<not> (\<forall>k < L. ?B k = 8)" by (simp only: place_all[of L "\<lambda>k. ?B k = 8" be])
  also have "\<dots> \<longleftrightarrow> (\<exists>k < L. ?B k < 8)" using le by (metis order_le_less nat_neq_iff)
  finally show "bad_longs m a L be L < 8 * L \<longleftrightarrow> (\<exists>i < 8 * L. m (a + of_nat i) \<noteq> None)"
    by (simp only: bad_bytes_iff(2) mapped_longs(2))
qed

lemma wide_slow_spec:
  assumes "shadow_ok sh" "L = 2 \<or> L = 4"
  shows "\<exists>r. mc_LOADV_128_or_256_slow a (64 * L) be sh = Some r \<and> wide_result a L be sh r"
proof -
  have L: "L \<le> L" "L \<le> 4" "64 * L div 8 = 8 * L" "8 * L div 8 = L" "0 < L" using assms(2) by auto
  have sz: "(of_nat (8 * L) :: u64) AND (of_nat (8 * L) - 1) = 0" using assms(2) by auto
  from loadv_longs_spec[OF assms(1) L(1,2), of "replicate L V_BITS64_UNDEFINED" "replicate L V_BITS64_DEFINED" a be 0] obtain res pes sh' where
    l: "loadv_longs a L be L (replicate L V_BITS64_UNDEFINED) (replicate L V_BITS64_DEFINED) 0 sh =
      Some (res, pes, bad_longs (vb sh) a L be L, sh')"
    "shadow_ok sh'" "vb sh' = vb sh" "other sh' = other sh" "length res = L" "length pes = L"
    "\<forall>k < L. long_done (vb sh) a be k (res ! k) (pes ! k)" using place_inv(1)[of _ L be] by auto
  note o = other_eqD[OF l(4)] and bad = bad_longs_iff[of "vb sh" a L be]
  have d: "\<forall>i < 8. byte_of (res ! k) i = found (vb sh) (a + 8 * of_nat k) 8 be i" "\<forall>i < 8. byte_of (pes ! k) i = gap (vb sh) (a + 8 * of_nat k) 8 be i"
    if "k < L" for k using l(7) that by (auto simp: long_done_def)
  note val = found_or_gap[OF d]
  let ?ex = "exempt_wide (clo_partial_loads_ok sh) a (8 * L) (vb sh)"
  have seen: "\<not> (\<forall>p \<in> set pes. p = V_BITS64_DEFINED)" if "\<not> mapped (vb sh) a (8 * L)"
  proof -
    from that obtain k where k: "k < L" "\<not> mapped (vb sh) (a + 8 * of_nat k) 8" by (auto simp: mapped_longs(1))
    from gap_seen[OF _ k(2) d(2)[OF k(1)]] show ?thesis using k(1) l(6) nth_mem by fastforce
  qed
  have run: "mc_LOADV_128_or_256_slow a (64 * L) be sh = (let b = bad_longs (vb sh) a L be L in
      if b = 0 then Some (res, sh')
      else if \<not> clo_partial_loads_ok sh then Some (res, record_address_error a (of_nat (8 * L)) False sh')
      else if a AND (of_nat (8 * L) - 1) = 0 \<and> b < 8 * L then Some (map2 (OR) res pes, sh')
      else Some (res, record_address_error a (of_nat (8 * L)) False sh'))"
  proof -
    have "bad_longs (vb sh) a L be L = 0 \<or> \<not> (\<forall>p \<in> set pes. p = V_BITS64_DEFINED)" using seen bad(1) by blast
    then show ?thesis
      unfolding mc_LOADV_128_or_256_slow_def Let_def L(3,4) using L(2,5) sz l(1) o by (elim disjE) (auto simp del: of_nat_mult)
  qed
  consider "mapped (vb sh) a (8 * L)" | "\<not> mapped (vb sh) a (8 * L)" "\<not> ?ex" | "\<not> mapped (vb sh) a (8 * L)" "?ex" by blast
  then show ?thesis
  proof cases
    case 1
    then have "mc_LOADV_128_or_256_slow a (64 * L) be sh = Some (res, sh')" using run bad(1) by (simp add: Let_def)
    moreover have "loaded_byte x (vb sh (a + 8 * of_nat k + of_nat (place 8 be i))) = loaded_byte y (vb sh (a + 8 * of_nat k + of_nat (place 8 be i)))"
      if "k < L" "i < 8" for k i x y
    proof -
      have "mapped (vb sh) (a + 8 * of_nat k) 8" using 1 that(1) unfolding mapped_longs(1) by blast
      then show ?thesis using place_inv(1)[OF that(2), of be] by (auto simp: mapped_def loaded_byte_def)
    qed
    ultimately show ?thesis using 1 l(2,3,5) o val(1) by (auto simp: wide_result_def Let_def)
  next
    case 2
    then have "mc_LOADV_128_or_256_slow a (64 * L) be sh = Some (res, record_address_error a (of_nat (8 * L)) False sh')"
      using run bad by (auto simp: Let_def exempt_wide_def)
    then show ?thesis using 2 l(2,3,5) o val(1) by (simp add: wide_result_def)
  next
    case 3
    then have "mc_LOADV_128_or_256_slow a (64 * L) be sh = Some (map2 (OR) res pes, sh')"
      using run bad by (auto simp: Let_def exempt_wide_def)
    then show ?thesis using 3 l(2,3,5,6) o val(2) by (simp add: wide_result_def)
  qed
qed


section \<open>The fast case\<close>

definition fast_ok :: "addr \<Rightarrow> shadow \<Rightarrow> u64 list \<Rightarrow> bool" where
  "fast_ok a sh res \<longleftrightarrow> (\<forall>k < length res. \<exists>v2 x. holds v2 sh (a + 8 * of_nat k) 8 \<and> fill v2 = Some x \<and> v2 \<noteq> VA_BITS2_PARTDEFINED \<and>
     (\<forall>i < 8. byte_of (res ! k) i = x))"

lemma fast_ok_snoc:
  assumes "fast_ok a sh res" "holds v2 sh (a + 8 * of_nat (length res)) 8" "fill v2 = Some x" "v2 \<noteq> VA_BITS2_PARTDEFINED"
    "\<forall>i < 8. byte_of r i = x"
  shows "fast_ok a sh (res @ [r])"
  using assms by (auto simp: fast_ok_def nth_append less_Suc_eq)

lemma fast_longs_spec:
  assumes "\<forall>k < length res + n. a + 8 * of_nat k \<le> MAX_PRIMARY_ADDRESS \<and> unat (a + 8 * of_nat k) mod 8 = 0" "fast_ok a sh res"
  shows "\<exists>r. fast_longs a (length res) n res sh = Some r \<and> (\<forall>s. r = Some s \<longrightarrow> length s = length res + n \<and> fast_ok a sh s)"
  using assms
proof (induction n arbitrary: res)
  case 0
  then show ?case by simp
next
  case (Suc n)
  let ?a = "a + 8 * of_nat (length res)"
  have a: "?a \<le> MAX_PRIMARY_ADDRESS" "unat ?a mod 8 = 0" using Suc.prems(1) by simp_all
  have "fast_ok a sh (res @ [V_BITS64_DEFINED])" if "get16 (contents (sm_of sh ?a)) (SM_OFF_16 ?a) = VA_BITS16_DEFINED"
    by (rule fast_ok_snoc[OF Suc.prems(2) holds16[OF a(2) uniform_consts(1) that]]) (auto simp: fill_def bytes_consts)
  moreover have "fast_ok a sh (res @ [V_BITS64_UNDEFINED])" if "get16 (contents (sm_of sh ?a)) (SM_OFF_16 ?a) = VA_BITS16_UNDEFINED"
    by (rule fast_ok_snoc[OF Suc.prems(2) holds16[OF a(2) uniform_consts(2) that]]) (auto simp: fill_def bytes_consts)
  ultimately show ?case
    using Suc.IH[of "res @ [V_BITS64_DEFINED]"] Suc.IH[of "res @ [V_BITS64_UNDEFINED]"] Suc.prems(1) reading_low[OF a(1), of sh]
    by (auto simp: Let_def)
qed

lemma wide_addrs:
  assumes "\<not> UNALIGNED_OR_HIGH a (of_nat (64 * L))" "L = 2 \<or> L = 4" "k < L"
  shows "a + 8 * of_nat k \<le> MAX_PRIMARY_ADDRESS \<and> unat (a + 8 * of_nat k) mod 8 = 0"
proof -
  have a: "a \<le> MAX_PRIMARY_ADDRESS" "unat a mod (8 * L) = 0"
    using assms(1,2) UNALIGNED_OR_HIGH_iff(5,6)[of a] by auto
  have f: "lo a + 8 * L \<le> 65536" using assms(2) by (intro aligned_fits[OF a(2)]) auto
  have k: "8 * k < 8 * L" using assms(3) by simp
  have e: "a + 8 * of_nat k = a + of_nat (8 * k)" by simp
  have "8 * k < 2 ^ 64" using k assms(2) by auto
  then have "unat (a + of_nat (8 * k) - a) < 8 * L"
    using k unat_off[of "8 * k"] by (simp del: of_nat_mult)
  moreover have "0 < 8 * L" using k by (cases L) simp_all
  ultimately have "hi (a + of_nat (8 * k)) = hi a" by (simp only: block_off[OF f])
  then have "a + of_nat (8 * k) \<le> MAX_PRIMARY_ADDRESS" using hi_low a(1) by blast
  moreover have "unat (a + of_nat (8 * k)) = unat a + 8 * k" using block_nowrap[OF f] k by (intro add_nowrap) linarith
  moreover have "unat a mod 8 = 0" using a(2) mod_mod_cancel[of 8 "8 * L" "unat a"] by simp
  ultimately show ?thesis unfolding e by (simp add: mod_add_eq)
qed

lemma LOADV_128_or_256_spec:
  assumes "shadow_ok sh" "L = 2 \<or> L = 4"
  shows "\<exists>r. mc_LOADV_128_or_256 a (64 * L) be sh = Some r \<and> wide_result a L be sh r"
proof (cases "UNALIGNED_OR_HIGH a (of_nat (64 * L))")
  case True
  then show ?thesis using wide_slow_spec[OF assms] by (simp add: mc_LOADV_128_or_256_def)
next
  case False
  have L: "64 * L div 8 div 8 = L" by simp
  from fast_longs_spec[of "[]" L a sh] wide_addrs[OF False assms(2)] obtain r where
    r: "fast_longs a 0 L [] sh = Some r" "\<forall>s. r = Some s \<longrightarrow> length s = L \<and> fast_ok a sh s" by (auto simp: fast_ok_def)
  show ?thesis
  proof (cases r)
    case None
    then show ?thesis using wide_slow_spec[OF assms] r(1) False by (simp add: mc_LOADV_128_or_256_def)
  next
    case (Some s)
    then have s: "length s = L" "fast_ok a sh s" using r(2) by auto
    have v: "\<exists>x. (\<forall>i < 8. vb sh (a + 8 * of_nat k + of_nat i) = Some x) \<and> (\<forall>i < 8. byte_of (s ! k) i = x)" if "k < L" for k
      using s that holds_vb[OF assms(1)] unfolding fast_ok_def by (metis order_refl)
    have "vb sh (a + 8 * of_nat k + of_nat i) \<noteq> None" if "k < L" "i < 8" for k i using v[OF that(1)] that(2) by auto
    then have "mapped (vb sh) a (8 * L)" unfolding mapped_longs(1) by (simp add: mapped_def)
    moreover have "byte_of (s ! k) i = loaded_byte y (vb sh (a + 8 * of_nat k + of_nat (place 8 be i)))" if "k < L" "i < 8" for k i y
      using v[OF that(1)] that(2) place_inv(1)[OF that(2), of be] by (auto simp: loaded_byte_def)
    ultimately have "wide_result a L be sh (s, sh)" using assms(1) s(1) by (simp add: wide_result_def Let_def)
    then show ?thesis using r(1) Some False by (simp add: mc_LOADV_128_or_256_def)
  qed
qed

end
