(* ===== verification/Shadow_Stack.thy ===== *)
theory Shadow_Stack
  imports Shadow_Range
begin

text \<open>
  Changes of the stack pointer: the specialised routines that make the bytes of a stack frame undefined or inaccessible, and the
  helpers that make the redzone below the stack pointer undefined. Origin tracking is off.
\<close>

section \<open>Aligned words\<close>

definition make_aligned_word32_undefined :: "addr \<Rightarrow> shadow \<Rightarrow> shadow option" where
  "make_aligned_word32_undefined a sh =
     (if a > MAX_PRIMARY_ADDRESS then make_mem_undefined a 4 sh
      else do {
        (p, f, sh) \<leftarrow> get_secmap_for_writing_low a sh;
        Some (assign p (Issued (f(SM_OFF a := VA_BITS8_UNDEFINED))) sh)
      })"

definition make_aligned_word32_noaccess :: "addr \<Rightarrow> shadow \<Rightarrow> shadow option" where
  "make_aligned_word32_noaccess a sh =
     (if a > MAX_PRIMARY_ADDRESS then make_mem_noaccess a 4 sh
      else do {
        (p, f, sh) \<leftarrow> get_secmap_for_writing_low a sh;
        Some (assign p (Issued (f(SM_OFF a := VA_BITS8_NOACCESS))) sh)
      })"

definition make_aligned_word64_undefined :: "addr \<Rightarrow> shadow \<Rightarrow> shadow option" where
  "make_aligned_word64_undefined a sh =
     (if a > MAX_PRIMARY_ADDRESS then make_mem_undefined a 8 sh
      else do {
        (p, f, sh) \<leftarrow> get_secmap_for_writing_low a sh;
        Some (assign p (Issued (set16 (SM_OFF_16 a) VA_BITS16_UNDEFINED f)) sh)
      })"

definition make_aligned_word64_noaccess :: "addr \<Rightarrow> shadow \<Rightarrow> shadow option" where
  "make_aligned_word64_noaccess a sh =
     (if a > MAX_PRIMARY_ADDRESS then make_mem_noaccess a 8 sh
      else do {
        (p, f, sh) \<leftarrow> get_secmap_for_writing_low a sh;
        Some (assign p (Issued (set16 (SM_OFF_16 a) VA_BITS16_NOACCESS f)) sh)
      })"

text \<open>A sequence of calls for the words at the given offsets from an address.\<close>

datatype word_size = W32 | W64

fun word_undefined :: "addr \<Rightarrow> word_size \<times> u64 \<Rightarrow> shadow \<Rightarrow> shadow option" where
  "word_undefined a (W32, k) sh = make_aligned_word32_undefined (a + k) sh"
| "word_undefined a (W64, k) sh = make_aligned_word64_undefined (a + k) sh"

fun word_noaccess :: "addr \<Rightarrow> word_size \<times> u64 \<Rightarrow> shadow \<Rightarrow> shadow option" where
  "word_noaccess a (W32, k) sh = make_aligned_word32_noaccess (a + k) sh"
| "word_noaccess a (W64, k) sh = make_aligned_word64_noaccess (a + k) sh"


section \<open>Adjustments of the stack pointer\<close>

definition VG_STACK_REDZONE_SZB :: u64 where "VG_STACK_REDZONE_SZB = 128"

definition mc_new_mem_stack_4 :: "addr \<Rightarrow> shadow \<Rightarrow> shadow option" where
  "mc_new_mem_stack_4 new_SP sh = (let sp = - VG_STACK_REDZONE_SZB + new_SP in
      if VG_IS_4_ALIGNED sp then foldO (word_undefined sp)
          [(W32, 0)] sh
      else make_mem_undefined sp 4 sh)"

definition mc_die_mem_stack_4 :: "addr \<Rightarrow> shadow \<Rightarrow> shadow option" where
  "mc_die_mem_stack_4 new_SP sh = (let sp = - VG_STACK_REDZONE_SZB + new_SP in
      if VG_IS_4_ALIGNED sp then foldO (word_noaccess sp)
          [(W32, - 4)] sh
      else make_mem_noaccess (sp - 4) 4 sh)"

definition mc_new_mem_stack_8 :: "addr \<Rightarrow> shadow \<Rightarrow> shadow option" where
  "mc_new_mem_stack_8 new_SP sh = (let sp = - VG_STACK_REDZONE_SZB + new_SP in
      if VG_IS_8_ALIGNED sp then foldO (word_undefined sp)
          [(W64, 0)] sh
      else if VG_IS_4_ALIGNED sp then foldO (word_undefined sp)
          [(W32, 0), (W32, 4)] sh
      else make_mem_undefined sp 8 sh)"

definition mc_die_mem_stack_8 :: "addr \<Rightarrow> shadow \<Rightarrow> shadow option" where
  "mc_die_mem_stack_8 new_SP sh = (let sp = - VG_STACK_REDZONE_SZB + new_SP in
      if VG_IS_8_ALIGNED sp then foldO (word_noaccess sp)
          [(W64, - 8)] sh
      else if VG_IS_4_ALIGNED sp then foldO (word_noaccess sp)
          [(W32, - 8), (W32, - 4)] sh
      else make_mem_noaccess (sp - 8) 8 sh)"

definition mc_new_mem_stack_12 :: "addr \<Rightarrow> shadow \<Rightarrow> shadow option" where
  "mc_new_mem_stack_12 new_SP sh = (let sp = - VG_STACK_REDZONE_SZB + new_SP in
      if VG_IS_8_ALIGNED sp then foldO (word_undefined sp)
          [(W64, 0), (W32, 8)] sh
      else if VG_IS_4_ALIGNED sp then foldO (word_undefined sp)
          [(W32, 0), (W64, 4)] sh
      else make_mem_undefined sp 12 sh)"

definition mc_die_mem_stack_12 :: "addr \<Rightarrow> shadow \<Rightarrow> shadow option" where
  "mc_die_mem_stack_12 new_SP sh = (let sp = - VG_STACK_REDZONE_SZB + new_SP in
      if VG_IS_8_ALIGNED (sp - 12) then foldO (word_noaccess sp)
          [(W64, - 12), (W32, - 4)] sh
      else if VG_IS_4_ALIGNED sp then foldO (word_noaccess sp)
          [(W32, - 12), (W64, - 8)] sh
      else make_mem_noaccess (sp - 12) 12 sh)"

definition mc_new_mem_stack_16 :: "addr \<Rightarrow> shadow \<Rightarrow> shadow option" where
  "mc_new_mem_stack_16 new_SP sh = (let sp = - VG_STACK_REDZONE_SZB + new_SP in
      if VG_IS_8_ALIGNED sp then foldO (word_undefined sp)
          [(W64, 0), (W64, 8)] sh
      else if VG_IS_4_ALIGNED sp then foldO (word_undefined sp)
          [(W32, 0), (W64, 4), (W32, 12)] sh
      else make_mem_undefined sp 16 sh)"

definition mc_die_mem_stack_16 :: "addr \<Rightarrow> shadow \<Rightarrow> shadow option" where
  "mc_die_mem_stack_16 new_SP sh = (let sp = - VG_STACK_REDZONE_SZB + new_SP in
      if VG_IS_8_ALIGNED sp then foldO (word_noaccess sp)
          [(W64, - 16), (W64, - 8)] sh
      else if VG_IS_4_ALIGNED sp then foldO (word_noaccess sp)
          [(W32, - 16), (W64, - 12), (W32, - 4)] sh
      else make_mem_noaccess (sp - 16) 16 sh)"

definition mc_new_mem_stack_32 :: "addr \<Rightarrow> shadow \<Rightarrow> shadow option" where
  "mc_new_mem_stack_32 new_SP sh = (let sp = - VG_STACK_REDZONE_SZB + new_SP in
      if VG_IS_8_ALIGNED sp then foldO (word_undefined sp)
          [(W64, 0), (W64, 8), (W64, 16), (W64, 24)] sh
      else if VG_IS_4_ALIGNED sp then foldO (word_undefined sp)
          [(W32, 0), (W64, 4), (W64, 12), (W64, 20), (W32, 28)] sh
      else make_mem_undefined sp 32 sh)"

definition mc_die_mem_stack_32 :: "addr \<Rightarrow> shadow \<Rightarrow> shadow option" where
  "mc_die_mem_stack_32 new_SP sh = (let sp = - VG_STACK_REDZONE_SZB + new_SP in
      if VG_IS_8_ALIGNED sp then foldO (word_noaccess sp)
          [(W64, - 32), (W64, - 24), (W64, - 16), (W64, - 8)] sh
      else if VG_IS_4_ALIGNED sp then foldO (word_noaccess sp)
          [(W32, - 32), (W64, - 28), (W64, - 20), (W64, - 12), (W32, - 4)] sh
      else make_mem_noaccess (sp - 32) 32 sh)"

definition mc_new_mem_stack_112 :: "addr \<Rightarrow> shadow \<Rightarrow> shadow option" where
  "mc_new_mem_stack_112 new_SP sh = (let sp = - VG_STACK_REDZONE_SZB + new_SP in
      if VG_IS_8_ALIGNED sp then foldO (word_undefined sp)
          [(W64, 0), (W64, 8), (W64, 16), (W64, 24), (W64, 32), (W64, 40), (W64, 48), (W64, 56), (W64, 64), (W64, 72), (W64,
          80), (W64, 88), (W64, 96), (W64, 104)] sh
      else make_mem_undefined sp 112 sh)"

definition mc_die_mem_stack_112 :: "addr \<Rightarrow> shadow \<Rightarrow> shadow option" where
  "mc_die_mem_stack_112 new_SP sh = (let sp = - VG_STACK_REDZONE_SZB + new_SP in
      if VG_IS_8_ALIGNED sp then foldO (word_noaccess sp)
          [(W64, - 112), (W64, - 104), (W64, - 96), (W64, - 88), (W64, - 80), (W64, - 72), (W64, - 64), (W64, - 56), (W64, -
          48), (W64, - 40), (W64, - 32), (W64, - 24), (W64, - 16), (W64, - 8)] sh
      else make_mem_noaccess (sp - 112) 112 sh)"

definition mc_new_mem_stack_128 :: "addr \<Rightarrow> shadow \<Rightarrow> shadow option" where
  "mc_new_mem_stack_128 new_SP sh = (let sp = - VG_STACK_REDZONE_SZB + new_SP in
      if VG_IS_8_ALIGNED sp then foldO (word_undefined sp)
          [(W64, 0), (W64, 8), (W64, 16), (W64, 24), (W64, 32), (W64, 40), (W64, 48), (W64, 56), (W64, 64), (W64, 72), (W64,
          80), (W64, 88), (W64, 96), (W64, 104), (W64, 112), (W64, 120)] sh
      else make_mem_undefined sp 128 sh)"

definition mc_die_mem_stack_128 :: "addr \<Rightarrow> shadow \<Rightarrow> shadow option" where
  "mc_die_mem_stack_128 new_SP sh = (let sp = - VG_STACK_REDZONE_SZB + new_SP in
      if VG_IS_8_ALIGNED sp then foldO (word_noaccess sp)
          [(W64, - 128), (W64, - 120), (W64, - 112), (W64, - 104), (W64, - 96), (W64, - 88), (W64, - 80), (W64, - 72), (W64, -
          64), (W64, - 56), (W64, - 48), (W64, - 40), (W64, - 32), (W64, - 24), (W64, - 16), (W64, - 8)] sh
      else make_mem_noaccess (sp - 128) 128 sh)"

definition mc_new_mem_stack_144 :: "addr \<Rightarrow> shadow \<Rightarrow> shadow option" where
  "mc_new_mem_stack_144 new_SP sh = (let sp = - VG_STACK_REDZONE_SZB + new_SP in
      if VG_IS_8_ALIGNED sp then foldO (word_undefined sp)
          [(W64, 0), (W64, 8), (W64, 16), (W64, 24), (W64, 32), (W64, 40), (W64, 48), (W64, 56), (W64, 64), (W64, 72), (W64,
          80), (W64, 88), (W64, 96), (W64, 104), (W64, 112), (W64, 120), (W64, 128), (W64, 136)] sh
      else make_mem_undefined sp 144 sh)"

definition mc_die_mem_stack_144 :: "addr \<Rightarrow> shadow \<Rightarrow> shadow option" where
  "mc_die_mem_stack_144 new_SP sh = (let sp = - VG_STACK_REDZONE_SZB + new_SP in
      if VG_IS_8_ALIGNED sp then foldO (word_noaccess sp)
          [(W64, - 144), (W64, - 136), (W64, - 128), (W64, - 120), (W64, - 112), (W64, - 104), (W64, - 96), (W64, - 88), (W64, -
          80), (W64, - 72), (W64, - 64), (W64, - 56), (W64, - 48), (W64, - 40), (W64, - 32), (W64, - 24), (W64, - 16), (W64, -
          8)] sh
      else make_mem_noaccess (sp - 144) 144 sh)"

definition mc_new_mem_stack_160 :: "addr \<Rightarrow> shadow \<Rightarrow> shadow option" where
  "mc_new_mem_stack_160 new_SP sh = (let sp = - VG_STACK_REDZONE_SZB + new_SP in
      if VG_IS_8_ALIGNED sp then foldO (word_undefined sp)
          [(W64, 0), (W64, 8), (W64, 16), (W64, 24), (W64, 32), (W64, 40), (W64, 48), (W64, 56), (W64, 64), (W64, 72), (W64,
          80), (W64, 88), (W64, 96), (W64, 104), (W64, 112), (W64, 120), (W64, 128), (W64, 136), (W64, 144), (W64, 152)] sh
      else make_mem_undefined sp 160 sh)"

definition mc_die_mem_stack_160 :: "addr \<Rightarrow> shadow \<Rightarrow> shadow option" where
  "mc_die_mem_stack_160 new_SP sh = (let sp = - VG_STACK_REDZONE_SZB + new_SP in
      if VG_IS_8_ALIGNED sp then foldO (word_noaccess sp)
          [(W64, - 160), (W64, - 152), (W64, - 144), (W64, - 136), (W64, - 128), (W64, - 120), (W64, - 112), (W64, - 104), (W64,
          - 96), (W64, - 88), (W64, - 80), (W64, - 72), (W64, - 64), (W64, - 56), (W64, - 48), (W64, - 40), (W64, - 32), (W64, -
          24), (W64, - 16), (W64, - 8)] sh
      else make_mem_noaccess (sp - 160) 160 sh)"

definition mc_new_mem_stack :: "addr \<Rightarrow> u64 \<Rightarrow> shadow \<Rightarrow> shadow option" where
  "mc_new_mem_stack a len sh = make_mem_undefined (- VG_STACK_REDZONE_SZB + a) len sh"

definition mc_die_mem_stack :: "addr \<Rightarrow> u64 \<Rightarrow> shadow \<Rightarrow> shadow option" where
  "mc_die_mem_stack a len sh = make_mem_noaccess (- VG_STACK_REDZONE_SZB + a) len sh"


section \<open>The redzone\<close>

text \<open>Successive 16-bit entries from the one of an address on.\<close>

definition fill16 :: "u64 \<Rightarrow> nat \<Rightarrow> vabits \<Rightarrow> vabits" where
  "fill16 v_off16 n f = fold (\<lambda>i. set16 (v_off16 + of_nat i) VA_BITS16_UNDEFINED) [0..<n] f"

text \<open>The direct case for a range in one map of the primary map; \<^term>\<open>Some None\<close> where it does not apply.\<close>

definition uninit_direct :: "addr \<Rightarrow> u64 \<Rightarrow> (addr \<Rightarrow> vabits \<Rightarrow> vabits) \<Rightarrow> shadow \<Rightarrow> shadow option option" where
  "uninit_direct base len write sh = (let a_lo = base; a_hi = base + len - 1 in
     if a_hi \<le> MAX_PRIMARY_ADDRESS \<and> get_primary_map_low_offset a_lo = get_primary_map_low_offset a_hi
     then do {
       (p, f, sh) \<leftarrow> get_secmap_for_writing_low a_lo sh;
       Some (Some (assign p (Issued (write a_lo f)) sh))
     }
     else Some None)"

definition helperc_MAKE_STACK_UNINIT_no_o :: "addr \<Rightarrow> u64 \<Rightarrow> shadow \<Rightarrow> shadow option" where
  "helperc_MAKE_STACK_UNINIT_no_o base len sh = do {
     r \<leftarrow> (if len = 128 \<and> VG_IS_8_ALIGNED base
           then if base < base + 128 - 1 then uninit_direct base 128 (\<lambda>a. fill16 (SM_OFF_16 a) 16) sh else None
           else Some None);
     case r of Some sh \<Rightarrow> Some sh
     | None \<Rightarrow> do {
         r \<leftarrow> (if len = 288 \<and> VG_IS_8_ALIGNED base
               then if base < base + 288 - 1 then uninit_direct base 288 (\<lambda>a. fill16 (SM_OFF_16 a) 36) sh else None
               else Some None);
         case r of Some sh \<Rightarrow> Some sh | None \<Rightarrow> make_mem_undefined base len sh
       }
   }"

definition VA_BITS32_UNDEFINED :: u32 where "VA_BITS32_UNDEFINED = 0x55555555"

text \<open>A 32-bit write into the array of bytes, on a little-endian machine.\<close>

definition set32 :: "u64 \<Rightarrow> u32 \<Rightarrow> vabits \<Rightarrow> vabits" where
  "set32 i v f = f(i := ucast v, i + 1 := ucast (drop_bit 8 v), i + 2 := ucast (drop_bit 16 v), i + 3 := ucast (drop_bit 24 v))"

definition fill32 :: "u64 \<Rightarrow> nat \<Rightarrow> vabits \<Rightarrow> vabits" where
  "fill32 v_off n f = fold (\<lambda>i. set32 (v_off + of_nat (4 * i)) VA_BITS32_UNDEFINED) [0..<n] f"

definition fill_8_mod_16 :: "addr \<Rightarrow> vabits \<Rightarrow> vabits" where
  "fill_8_mod_16 a f =
     set16 (SM_OFF_16 a + 15) VA_BITS16_UNDEFINED
       (fill32 (2 * (SM_OFF_16 a + 1)) 7 (set16 (SM_OFF_16 a) VA_BITS16_UNDEFINED f))"

definition helperc_MAKE_STACK_UNINIT_128_no_o :: "addr \<Rightarrow> shadow \<Rightarrow> shadow option" where
  "helperc_MAKE_STACK_UNINIT_128_no_o base sh = do {
     r \<leftarrow> (if VG_IS_16_ALIGNED base then uninit_direct base 128 (\<lambda>a. fill32 (SM_OFF a) 8) sh else Some None);
     case r of Some sh \<Rightarrow> Some sh
     | None \<Rightarrow> do {
         r \<leftarrow> (if VG_IS_16_ALIGNED (base + 8) then uninit_direct base 128 fill_8_mod_16 sh else Some None);
         case r of Some sh \<Rightarrow> Some sh | None \<Rightarrow> make_mem_undefined base 128 sh
       }
   }"

end
