(* ===== verification/Shadow_Stack_Props.thy ===== *)
theory Shadow_Stack_Props
  imports Shadow_Stack Shadow_Fast
begin

text \<open>
  Every routine for a change of the stack pointer makes exactly its bytes undefined, or inaccessible, however the range is
  aligned: the words of each branch tile the range.
\<close>

section \<open>Ranges by offset\<close>

definition set_off :: "addr \<Rightarrow> nat \<Rightarrow> 'v \<Rightarrow> (addr \<Rightarrow> 'v) \<Rightarrow> addr \<Rightarrow> 'v" where
  "set_off a n v m = (\<lambda>b. if unat (b - a) < n then v else m b)"

lemma set_off_0 [simp]: "set_off a 0 v m = m"
  by (simp add: set_off_def)

lemma set_off_range: "unat a + n \<le> 2 ^ 64 \<Longrightarrow> n < 2 ^ 64 \<Longrightarrow> set_range a n v m = set_off a n v m"
  by (simp add: set_range_def set_off_def in_range_off)

lemma set_off_piece:
  assumes "k + c \<le> 2 ^ 64" "c < 2 ^ 64" "k < 2 ^ 64"
  shows "set_off (a + of_nat k) c v (set_off a k v m) = set_off a (k + c) v m"
proof
  fix b
  have "b - (a + of_nat k) = b - a - of_nat k" by simp
  then have "unat (b - (a + of_nat k)) < c \<longleftrightarrow> k \<le> unat (b - a) \<and> unat (b - a) < k + c" by (simp only: sub_off[OF assms])
  then show "set_off (a + of_nat k) c v (set_off a k v m) b = set_off a (k + c) v m b" by (auto simp: set_off_def)
qed

text \<open>An operation that sets a range to one state.\<close>

definition sets :: "addr \<Rightarrow> nat \<Rightarrow> u8 option \<Rightarrow> shadow \<Rightarrow> shadow option \<Rightarrow> bool" where
  "sets a n v sh x \<longleftrightarrow> (\<exists>sh'. x = Some sh' \<and> shadow_ok sh' \<and> other sh' = other sh \<and> vb sh' = set_off a n v (vb sh))"

lemma make_mem_sets:
  assumes "shadow_ok sh" "unat a + unat len \<le> 2 ^ 64"
  shows "sets a (unat len) (Some V_BITS8_UNDEFINED) sh (make_mem_undefined a len sh)"
    "sets a (unat len) None sh (make_mem_noaccess a len sh)"
    "sets a (unat len) (Some V_BITS8_DEFINED) sh (make_mem_defined a len sh)"
proof -
  have l: "unat len < 2 ^ 64" using unat_bound[of len] by simp
  note sp = set_address_range_perms_spec[OF assms(1) _ assms(2)]
  show "sets a (unat len) (Some V_BITS8_UNDEFINED) sh (make_mem_undefined a len sh)"
    using sp[of VA_BITS16_UNDEFINED SM_DIST_UNDEFINED VA_BITS2_UNDEFINED]
    by (simp add: sets_def make_mem_undefined_def uniform_def fill_def set_off_range[OF assms(2) l])
  show "sets a (unat len) None sh (make_mem_noaccess a len sh)"
    using sp[of VA_BITS16_NOACCESS SM_DIST_NOACCESS VA_BITS2_NOACCESS]
    by (simp add: sets_def make_mem_noaccess_def uniform_def fill_def set_off_range[OF assms(2) l])
  show "sets a (unat len) (Some V_BITS8_DEFINED) sh (make_mem_defined a len sh)"
    using sp[of VA_BITS16_DEFINED SM_DIST_DEFINED VA_BITS2_DEFINED]
    by (simp add: sets_def make_mem_defined_def uniform_def fill_def set_off_range[OF assms(2) l])
qed


section \<open>Aligned words\<close>

lemma uniform8_noaccess: "uniform8 VA_BITS8_NOACCESS VA_BITS2_NOACCESS"
  using extract_uniform(3)[of VA_BITS16_NOACCESS SM_DIST_NOACCESS VA_BITS2_NOACCESS] by (simp add: uniform8_def uniform_def dist_vabits8_def)

lemma write_low_sets:
  assumes "shadow_ok sh" "a \<le> MAX_PRIMARY_ADDRESS" "\<And>f. covers v2 f a n (g f)" "uniform v16 dsm v2" "lo a + n \<le> 65536" "n < 65536"
  shows "sets a n (fill v2) sh (do { (p, f, sh) \<leftarrow> get_secmap_for_writing_low a sh; Some (assign p (Issued (g f)) sh) })"
proof -
  from writing_spec[OF shadow_okD(1)[OF assms(1)], of a] assms(2) obtain p sh1 where
    p: "get_secmap_for_writing_low a sh = Some (p, contents (sm_of sh a), sh1)" and
    w: "\<And>f. aux_ok (assign p (Issued f) sh1) \<and> rest (assign p (Issued f) sh1) = rest sh \<and>
      sm_of (assign p (Issued f) sh1) = (\<lambda>b. if hi b = hi a then Issued f else sm_of sh b)"
    by (auto simp: get_secmap_for_writing_def)
  let ?f = "g (contents (sm_of sh a))"
  have "va (assign p (Issued ?f) sh1) = set_range a n v2 (va sh)"
    using w[of ?f] by (intro write_covers[OF assms(3) assms(5)]) blast
  from fill_vb[OF assms(1) _ _ assms(4) this] w[of ?f] p show ?thesis
    using set_off_range[OF block_nowrap[OF assms(5)], of "fill v2" "vb sh"] assms(6) by (simp add: sets_def)
qed

lemma word32_sets:
  assumes "shadow_ok sh" "unat a mod 4 = 0"
  shows "sets a 4 (Some V_BITS8_UNDEFINED) sh (make_aligned_word32_undefined a sh)" "sets a 4 None sh (make_aligned_word32_noaccess a sh)"
proof -
  have f: "lo a + 4 \<le> 65536" using aligned_fits[OF assms(2)] by simp
  note high = make_mem_sets[OF assms(1), of a 4, simplified] and low = write_low_sets[OF assms(1), of a]
  show "sets a 4 (Some V_BITS8_UNDEFINED) sh (make_aligned_word32_undefined a sh)"
    using high(1) block_nowrap[OF f] low[OF _ set8_covers[OF assms(2) uniform8_consts(2)], of VA_BITS16_UNDEFINED SM_DIST_UNDEFINED] f
    by (simp add: make_aligned_word32_undefined_def uniform_def fill_def)
  show "sets a 4 None sh (make_aligned_word32_noaccess a sh)"
    using high(2) block_nowrap[OF f] low[OF _ set8_covers[OF assms(2) uniform8_noaccess], of VA_BITS16_NOACCESS SM_DIST_NOACCESS] f
    by (simp add: make_aligned_word32_noaccess_def uniform_def fill_def)
qed

lemma word64_sets:
  assumes "shadow_ok sh" "unat a mod 8 = 0"
  shows "sets a 8 (Some V_BITS8_UNDEFINED) sh (make_aligned_word64_undefined a sh)" "sets a 8 None sh (make_aligned_word64_noaccess a sh)"
proof -
  have f: "lo a + 8 \<le> 65536" using aligned_fits[OF assms(2)] by simp
  have al: "VG_IS_8_ALIGNED a" using assms(2) unat_and(4)[of a] by (metis unat_eq_0)
  have u: "uniform VA_BITS16_UNDEFINED SM_DIST_UNDEFINED VA_BITS2_UNDEFINED" "uniform VA_BITS16_NOACCESS SM_DIST_NOACCESS VA_BITS2_NOACCESS"
    by (simp_all add: uniform_def)
  note high = make_mem_sets[OF assms(1), of a 8, simplified] and low = write_low_sets[OF assms(1), of a]
  show "sets a 8 (Some V_BITS8_UNDEFINED) sh (make_aligned_word64_undefined a sh)"
    using high(1) block_nowrap[OF f] low[OF _ set16_covers[OF al u(1)] u(1)] f by (simp add: make_aligned_word64_undefined_def fill_def)
  show "sets a 8 None sh (make_aligned_word64_noaccess a sh)"
    using high(2) block_nowrap[OF f] low[OF _ set16_covers[OF al u(2)] u(2)] f by (simp add: make_aligned_word64_noaccess_def fill_def)
qed


section \<open>Tilings\<close>

fun word_bytes :: "word_size \<Rightarrow> nat" where "word_bytes W32 = 4" | "word_bytes W64 = 8"

text \<open>
  The words tile the bytes from offset \<open>k\<close> to offset \<open>n\<close> of a range whose first address is \<open>r\<close> modulo 8, and each is aligned;
  \<open>d\<close> is the offset of the range from the address the words are given relative to.
\<close>

fun tiles :: "u64 \<Rightarrow> nat \<Rightarrow> nat \<Rightarrow> (word_size \<times> u64) list \<Rightarrow> nat \<Rightarrow> bool" where
  "tiles d r k [] n \<longleftrightarrow> k = n"
| "tiles d r k ((w, off) # ws) n \<longleftrightarrow> off = d + of_nat k \<and> (r + k) mod word_bytes w = 0 \<and> tiles d r (k + word_bytes w) ws n"

lemma tiles_le: "tiles d r k ws n \<Longrightarrow> k \<le> n"
  by (induction d r k ws n rule: tiles.induct) auto

lemma unat_add_mod:
  assumes "(m :: nat) dvd 2 ^ 64"
  shows "unat ((a :: addr) + of_nat k) mod m = (unat a + k) mod m"
proof -
  have "unat (a + of_nat k) = (unat a + unat (of_nat k :: addr)) mod 2 ^ 64" by (simp add: unat_word_ariths)
  also have "\<dots> = (unat a + k) mod 2 ^ 64" by (simp add: unat_of_nat take_bit_eq_mod mod_add_right_eq)
  finally show ?thesis using assms by (simp add: mod_mod_cancel)
qed

lemma words_set:
  assumes "\<And>w k sh. shadow_ok sh \<Longrightarrow> unat (a + k) mod word_bytes w = 0 \<Longrightarrow> sets (a + k) (word_bytes w) v sh (f (w, k) sh)"
    and "shadow_ok sh" "unat (a + d) mod 8 = r" "tiles d r k ws n" "n < 2 ^ 64" "vb sh = set_off (a + d) k v m"
  shows "\<exists>sh'. foldO f ws sh = Some sh' \<and> shadow_ok sh' \<and> other sh' = other sh \<and> vb sh' = set_off (a + d) n v m"
  using assms(2-)
proof (induction d r k ws n arbitrary: sh rule: tiles.induct)
  case (1 d r k n)
  then show ?case by (simp add: loop_simps)
next
  case (2 d r k w off ws n)
  have t: "off = d + of_nat k" "(r + k) mod word_bytes w = 0" "tiles d r (k + word_bytes w) ws n" using 2(4) by auto
  have wb: "word_bytes w dvd 8" "word_bytes w dvd 2 ^ 64" "word_bytes w \<le> 8" by (cases w; simp)+
  have off: "a + off = a + d + of_nat k" by (simp add: t(1))
  have "unat (a + off) mod word_bytes w = (unat (a + d) + k) mod word_bytes w" unfolding off by (rule unat_add_mod[OF wb(2)])
  also have "\<dots> = (unat (a + d) mod 8 + k) mod word_bytes w" using wb(1) by (metis mod_add_left_eq mod_mod_cancel)
  finally have "unat (a + off) mod word_bytes w = 0" using 2(3) t(2) by simp
  from assms(1)[OF 2(2) this] obtain sh1 where
    sh1: "f (w, off) sh = Some sh1" "shadow_ok sh1" "other sh1 = other sh" "vb sh1 = set_off (a + off) (word_bytes w) v (vb sh)"
    by (auto simp: sets_def)
  have "vb sh1 = set_off (a + d) (k + word_bytes w) v m"
    unfolding sh1(4) 2(6) off using tiles_le[OF t(3)] 2(5) wb(3) by (intro set_off_piece) auto
  from 2(1)[OF sh1(2) 2(3) t(3) 2(5) this] sh1(1,3) show ?case by (auto simp: loop_simps)
qed

lemma undefined_words:
  assumes "shadow_ok sh" "unat (a + d) mod 8 = r" "tiles d r 0 ws n" "n < 2 ^ 64"
  shows "sets (a + d) n (Some V_BITS8_UNDEFINED) sh (foldO (word_undefined a) ws sh)"
  unfolding sets_def
proof (rule words_set[OF _ assms])
  fix w k and sh :: shadow
  assume "shadow_ok sh" "unat (a + k) mod word_bytes w = 0"
  then show "sets (a + k) (word_bytes w) (Some V_BITS8_UNDEFINED) sh (word_undefined a (w, k) sh)"
    using word32_sets(1) word64_sets(1) by (cases w) auto
qed simp

lemma noaccess_words:
  assumes "shadow_ok sh" "unat (a + d) mod 8 = r" "tiles d r 0 ws n" "n < 2 ^ 64"
  shows "sets (a + d) n None sh (foldO (word_noaccess a) ws sh)"
  unfolding sets_def
proof (rule words_set[OF _ assms])
  fix w k and sh :: shadow
  assume "shadow_ok sh" "unat (a + k) mod word_bytes w = 0"
  then show "sets (a + k) (word_bytes w) None sh (word_noaccess a (w, k) sh)"
    using word32_sets(2) word64_sets(2) by (cases w) auto
qed simp


section \<open>The routines\<close>

lemma mod8_cases: "VG_IS_8_ALIGNED a \<longleftrightarrow> unat a mod 8 = 0" "VG_IS_4_ALIGNED a \<longleftrightarrow> unat a mod 8 = 0 \<or> unat a mod 8 = 4"
proof -
  show "VG_IS_8_ALIGNED a \<longleftrightarrow> unat a mod 8 = 0" using unat_and(4)[of a] by (metis unat_0 unat_eq_0)
  have "unat a mod 8 < 8" "unat a mod 8 mod 4 = unat a mod 4" by (simp_all add: mod_mod_cancel)
  moreover have "x mod 4 = 0 \<longleftrightarrow> x = 0 \<or> x = 4" if "x < 8" for x :: nat using that unfolding less_8_cases by auto
  ultimately show "VG_IS_4_ALIGNED a \<longleftrightarrow> unat a mod 8 = 0 \<or> unat a mod 8 = 4" by (metis aligned4)
qed

lemma new_aligned:
  assumes "shadow_ok sh" "unat sp + unat len \<le> 2 ^ 64" "unat len = n"
  shows "tiles 0 0 0 ws8 n \<Longrightarrow> sets sp n (Some V_BITS8_UNDEFINED) sh
      (if VG_IS_8_ALIGNED sp then foldO (word_undefined sp) ws8 sh else make_mem_undefined sp len sh)"
    "tiles 0 0 0 ws8 n \<Longrightarrow> tiles 0 4 0 ws4 n \<Longrightarrow> sets sp n (Some V_BITS8_UNDEFINED) sh
      (if VG_IS_8_ALIGNED sp then foldO (word_undefined sp) ws8 sh
       else if VG_IS_4_ALIGNED sp then foldO (word_undefined sp) ws4 sh else make_mem_undefined sp len sh)"
  using make_mem_sets(1)[OF assms(1,2)] undefined_words[OF assms(1), of sp 0 0 ws8 n] undefined_words[OF assms(1), of sp 0 4 ws4 n]
    assms(3) unat_bound[of len] by (auto simp: mod8_cases)

lemma sub_mod8:
  assumes "n mod 8 = 0"
  shows "unat ((sp :: addr) - of_nat n) mod 8 = unat sp mod 8"
proof -
  have "unat (sp - of_nat n + of_nat n) mod 8 = (unat (sp - of_nat n) + n) mod 8" by (rule unat_add_mod) simp
  also have "\<dots> = (unat (sp - of_nat n) mod 8 + n mod 8) mod 8" by (rule mod_add_eq[symmetric])
  finally show ?thesis using assms by simp
qed

lemma die_aligned:
  assumes "shadow_ok sh" "n \<le> unat sp" "n = unat len" "n mod 8 = 0"
  shows "tiles (- len) 0 0 ws8 n \<Longrightarrow> sets (sp - len) n None sh
      (if VG_IS_8_ALIGNED sp then foldO (word_noaccess sp) ws8 sh else make_mem_noaccess (sp - len) len sh)"
    "tiles (- len) 0 0 ws8 n \<Longrightarrow> tiles (- len) 4 0 ws4 n \<Longrightarrow> sets (sp - len) n None sh
      (if VG_IS_8_ALIGNED sp then foldO (word_noaccess sp) ws8 sh
       else if VG_IS_4_ALIGNED sp then foldO (word_noaccess sp) ws4 sh else make_mem_noaccess (sp - len) len sh)"
proof -
  have "unat (sp - len) = unat sp - n" using assms(2,3) by (simp add: unat_sub word_le_nat_alt)
  then have w: "unat (sp - len) + unat len \<le> 2 ^ 64" using assms(2,3) unat_bound[of sp] by simp
  have m: "unat (sp - len) mod 8 = unat sp mod 8" using sub_mod8[OF assms(4), of sp] by (simp add: assms(3))
  have n: "n < 2 ^ 64" using assms(3) unat_bound[of len] by simp
  show "tiles (- len) 0 0 ws8 n \<Longrightarrow> sets (sp - len) n None sh
      (if VG_IS_8_ALIGNED sp then foldO (word_noaccess sp) ws8 sh else make_mem_noaccess (sp - len) len sh)"
    "tiles (- len) 0 0 ws8 n \<Longrightarrow> tiles (- len) 4 0 ws4 n \<Longrightarrow> sets (sp - len) n None sh
      (if VG_IS_8_ALIGNED sp then foldO (word_noaccess sp) ws8 sh
       else if VG_IS_4_ALIGNED sp then foldO (word_noaccess sp) ws4 sh else make_mem_noaccess (sp - len) len sh)"
    using make_mem_sets(2)[OF assms(1) w] noaccess_words[OF assms(1), of sp "- len" 0 ws8 n]
      noaccess_words[OF assms(1), of sp "- len" 4 ws4 n] m n assms(3) by (auto simp: mod8_cases)
qed

lemma new_mem_stack_small:
  assumes "shadow_ok sh" "unat (new_SP - 128) + 32 \<le> 2 ^ 64"
  shows "sets (new_SP - 128) 4 (Some V_BITS8_UNDEFINED) sh (mc_new_mem_stack_4 new_SP sh)"
    "sets (new_SP - 128) 8 (Some V_BITS8_UNDEFINED) sh (mc_new_mem_stack_8 new_SP sh)"
    "sets (new_SP - 128) 12 (Some V_BITS8_UNDEFINED) sh (mc_new_mem_stack_12 new_SP sh)"
    "sets (new_SP - 128) 16 (Some V_BITS8_UNDEFINED) sh (mc_new_mem_stack_16 new_SP sh)"
    "sets (new_SP - 128) 32 (Some V_BITS8_UNDEFINED) sh (mc_new_mem_stack_32 new_SP sh)"
proof -
  have sp: "- VG_STACK_REDZONE_SZB + new_SP = new_SP - 128" by (simp add: VG_STACK_REDZONE_SZB_def)
  define a where "a = new_SP - 128"
  note w = assms(2)[folded a_def]
  note al = new_aligned(2)[OF assms(1)]
  show "sets (new_SP - 128) 4 (Some V_BITS8_UNDEFINED) sh (mc_new_mem_stack_4 new_SP sh)"
    unfolding mc_new_mem_stack_4_def sp Let_def a_def[symmetric]
    using make_mem_sets(1)[OF assms(1), of a 4] w undefined_words[OF assms(1), of a 0 0 "[(W32, 0)]" 4]
      undefined_words[OF assms(1), of a 0 4 "[(W32, 0)]" 4] by (auto simp: mod8_cases)
  show "sets (new_SP - 128) 8 (Some V_BITS8_UNDEFINED) sh (mc_new_mem_stack_8 new_SP sh)"
    unfolding mc_new_mem_stack_8_def sp Let_def a_def[symmetric] by (rule al) (use w in simp_all)
  show "sets (new_SP - 128) 12 (Some V_BITS8_UNDEFINED) sh (mc_new_mem_stack_12 new_SP sh)"
    unfolding mc_new_mem_stack_12_def sp Let_def a_def[symmetric] by (rule al) (use w in simp_all)
  show "sets (new_SP - 128) 16 (Some V_BITS8_UNDEFINED) sh (mc_new_mem_stack_16 new_SP sh)"
    unfolding mc_new_mem_stack_16_def sp Let_def a_def[symmetric] by (rule al) (use w in simp_all)
  show "sets (new_SP - 128) 32 (Some V_BITS8_UNDEFINED) sh (mc_new_mem_stack_32 new_SP sh)"
    unfolding mc_new_mem_stack_32_def sp Let_def a_def[symmetric] by (rule al) (use w in simp_all)
qed

lemma new_mem_stack_large:
  assumes "shadow_ok sh" "unat (new_SP - 128) + 160 \<le> 2 ^ 64"
  shows "sets (new_SP - 128) 112 (Some V_BITS8_UNDEFINED) sh (mc_new_mem_stack_112 new_SP sh)"
    "sets (new_SP - 128) 128 (Some V_BITS8_UNDEFINED) sh (mc_new_mem_stack_128 new_SP sh)"
    "sets (new_SP - 128) 144 (Some V_BITS8_UNDEFINED) sh (mc_new_mem_stack_144 new_SP sh)"
    "sets (new_SP - 128) 160 (Some V_BITS8_UNDEFINED) sh (mc_new_mem_stack_160 new_SP sh)"
proof -
  have sp: "- VG_STACK_REDZONE_SZB + new_SP = new_SP - 128" by (simp add: VG_STACK_REDZONE_SZB_def)
  define a where "a = new_SP - 128"
  note w = assms(2)[folded a_def]
  show "sets (new_SP - 128) 112 (Some V_BITS8_UNDEFINED) sh (mc_new_mem_stack_112 new_SP sh)"
    unfolding mc_new_mem_stack_112_def sp Let_def a_def[symmetric] by (rule new_aligned(1)[OF assms(1)]) (use w in simp_all)
  show "sets (new_SP - 128) 128 (Some V_BITS8_UNDEFINED) sh (mc_new_mem_stack_128 new_SP sh)"
    unfolding mc_new_mem_stack_128_def sp Let_def a_def[symmetric] by (rule new_aligned(1)[OF assms(1)]) (use w in simp_all)
  show "sets (new_SP - 128) 144 (Some V_BITS8_UNDEFINED) sh (mc_new_mem_stack_144 new_SP sh)"
    unfolding mc_new_mem_stack_144_def sp Let_def a_def[symmetric] by (rule new_aligned(1)[OF assms(1)]) (use w in simp_all)
  show "sets (new_SP - 128) 160 (Some V_BITS8_UNDEFINED) sh (mc_new_mem_stack_160 new_SP sh)"
    unfolding mc_new_mem_stack_160_def sp Let_def a_def[symmetric] by (rule new_aligned(1)[OF assms(1)]) (use w in simp_all)
qed

lemma die_mem_stack_8_mod_8:
  assumes "shadow_ok sh" "160 \<le> unat (new_SP - 128)"
  shows "sets (new_SP - 128 - 8) 8 None sh (mc_die_mem_stack_8 new_SP sh)"
    "sets (new_SP - 128 - 16) 16 None sh (mc_die_mem_stack_16 new_SP sh)"
    "sets (new_SP - 128 - 32) 32 None sh (mc_die_mem_stack_32 new_SP sh)"
    "sets (new_SP - 128 - 112) 112 None sh (mc_die_mem_stack_112 new_SP sh)"
    "sets (new_SP - 128 - 128) 128 None sh (mc_die_mem_stack_128 new_SP sh)"
    "sets (new_SP - 128 - 144) 144 None sh (mc_die_mem_stack_144 new_SP sh)"
    "sets (new_SP - 128 - 160) 160 None sh (mc_die_mem_stack_160 new_SP sh)"
proof -
  have sp: "- VG_STACK_REDZONE_SZB + new_SP = new_SP - 128" by (simp add: VG_STACK_REDZONE_SZB_def)
  define a where "a = new_SP - 128"
  note w = assms(2)[folded a_def]
  show "sets (new_SP - 128 - 8) 8 None sh (mc_die_mem_stack_8 new_SP sh)"
    unfolding mc_die_mem_stack_8_def sp Let_def a_def[symmetric] by (rule die_aligned(2)[OF assms(1)]) (use w in simp_all)
  show "sets (new_SP - 128 - 16) 16 None sh (mc_die_mem_stack_16 new_SP sh)"
    unfolding mc_die_mem_stack_16_def sp Let_def a_def[symmetric] by (rule die_aligned(2)[OF assms(1)]) (use w in simp_all)
  show "sets (new_SP - 128 - 32) 32 None sh (mc_die_mem_stack_32 new_SP sh)"
    unfolding mc_die_mem_stack_32_def sp Let_def a_def[symmetric] by (rule die_aligned(2)[OF assms(1)]) (use w in simp_all)
  show "sets (new_SP - 128 - 112) 112 None sh (mc_die_mem_stack_112 new_SP sh)"
    unfolding mc_die_mem_stack_112_def sp Let_def a_def[symmetric] by (rule die_aligned(1)[OF assms(1)]) (use w in simp_all)
  show "sets (new_SP - 128 - 128) 128 None sh (mc_die_mem_stack_128 new_SP sh)"
    unfolding mc_die_mem_stack_128_def sp Let_def a_def[symmetric] by (rule die_aligned(1)[OF assms(1)]) (use w in simp_all)
  show "sets (new_SP - 128 - 144) 144 None sh (mc_die_mem_stack_144 new_SP sh)"
    unfolding mc_die_mem_stack_144_def sp Let_def a_def[symmetric] by (rule die_aligned(1)[OF assms(1)]) (use w in simp_all)
  show "sets (new_SP - 128 - 160) 160 None sh (mc_die_mem_stack_160 new_SP sh)"
    unfolding mc_die_mem_stack_160_def sp Let_def a_def[symmetric] by (rule die_aligned(1)[OF assms(1)]) (use w in simp_all)
qed

lemma mod4_shift:
  fixes x :: nat
  shows "(x + 4) mod 4 = x mod 4" "(x + 12) mod 4 = x mod 4"
  by presburger+

lemma die_mem_stack_4_12:
  assumes "shadow_ok sh" "160 \<le> unat (new_SP - 128)"
  shows "sets (new_SP - 128 - 4) 4 None sh (mc_die_mem_stack_4 new_SP sh)" "sets (new_SP - 128 - 12) 12 None sh (mc_die_mem_stack_12 new_SP sh)"
proof -
  have sp: "- VG_STACK_REDZONE_SZB + new_SP = new_SP - 128" by (simp add: VG_STACK_REDZONE_SZB_def)
  define a where "a = new_SP - 128"
  note w = assms(2)[folded a_def]
  have u: "unat (a - 4) = unat a - 4" "unat (a - 12) = unat a - 12" using w by (simp_all add: unat_sub word_le_nat_alt)
  have m4: "unat (a + of_nat 0) mod 4 = unat a mod 4" "unat (a - 12 + of_nat 12) mod 4 = (unat (a - 12) + 12) mod 4"
    "unat (a - 4 + of_nat 4) mod 4 = (unat (a - 4) + 4) mod 4" by (simp, rule unat_add_mod, simp, rule unat_add_mod, simp)
  have r: "VG_IS_4_ALIGNED a \<Longrightarrow> unat (a - 4) mod 8 = 0 \<or> unat (a - 4) mod 8 = 4"
    "VG_IS_4_ALIGNED a \<Longrightarrow> unat (a - 12) mod 8 = 0 \<or> unat (a - 12) mod 8 = 4"
    using m4 mod4_shift[of "unat (a - 4)"] mod4_shift[of "unat (a - 12)"] by (simp_all add: aligned4 mod8_cases(2)[symmetric])
  have b: "unat a < 2 ^ 64" using unat_bound[of a] by simp
  show "sets (new_SP - 128 - 4) 4 None sh (mc_die_mem_stack_4 new_SP sh)"
    unfolding mc_die_mem_stack_4_def sp Let_def a_def[symmetric]
    using make_mem_sets(2)[OF assms(1), of "a - 4" 4] u w b r(1) noaccess_words[OF assms(1), of a "- 4" 0 "[(W32, - 4)]" 4]
      noaccess_words[OF assms(1), of a "- 4" 4 "[(W32, - 4)]" 4] by auto
  show "sets (new_SP - 128 - 12) 12 None sh (mc_die_mem_stack_12 new_SP sh)"
    unfolding mc_die_mem_stack_12_def sp Let_def a_def[symmetric]
    using make_mem_sets(2)[OF assms(1), of "a - 12" 12] u w b r(2) noaccess_words[OF assms(1), of a "- 12" 0 "[(W64, - 12), (W32, - 4)]" 12]
      noaccess_words[OF assms(1), of a "- 12" 4 "[(W32, - 12), (W64, - 8)]" 12] by (auto simp: mod8_cases(1))
qed


section \<open>The redzone\<close>

lemma off16_add:
  assumes "unat a mod 8 = 0" "lo a + 8 * i < 65536"
  shows "SM_OFF_16 (a + of_nat (8 * i)) = SM_OFF_16 a + of_nat i" "lo (a + of_nat (8 * i)) = lo a + 8 * i"
proof -
  show l: "lo (a + of_nat (8 * i)) = lo a + 8 * i" by (rule lo_add[OF assms(2)])
  have "i < 8192" using assms(2) by linarith
  then have "unat (of_nat i :: u64) = i" by (simp add: unat_off)
  moreover have "lo a div 8 + i < 2 ^ 64" using \<open>i < 8192\<close> by (simp add: div_less_iff_less_mult less_trans[OF mod_less_divisor])
  ultimately have "unat (SM_OFF_16 a + of_nat i) = lo a div 8 + i" by (simp add: unat_word_ariths unat_SM_OFF_16)
  moreover have "unat (SM_OFF_16 (a + of_nat (8 * i))) = lo a div 8 + i" unfolding unat_SM_OFF_16 l by simp
  ultimately show "SM_OFF_16 (a + of_nat (8 * i)) = SM_OFF_16 a + of_nat i" by (simp add: word_unat_eq_iff)
qed

lemma fill16_covers:
  assumes "unat a mod 8 = 0" "lo a + 8 * n \<le> 65536"
  shows "covers VA_BITS2_UNDEFINED f a (8 * n) (fill16 (SM_OFF_16 a) n f)"
  using assms(2)
proof (induction n)
  case 0
  then show ?case by (simp add: fill16_def covers_0)
next
  case (Suc n)
  let ?b = "a + of_nat (8 * n)"
  have l: "lo a + 8 * n < 65536" using Suc.prems by simp
  note o = off16_add[OF assms(1) l]
  have "unat ?b mod 8 = (unat a + 8 * n) mod 8" by (rule unat_add_mod) simp
  then have al: "VG_IS_8_ALIGNED ?b" using assms(1) by (simp only: mod8_cases(1)) simp
  have u: "uniform VA_BITS16_UNDEFINED SM_DIST_UNDEFINED VA_BITS2_UNDEFINED" by (simp add: uniform_def)
  from covers_trans[OF Suc.IH set16_covers[OF al u]] Suc.prems o(2) show ?case
    unfolding o(1) by (simp add: fill16_def add.commute)
qed


lemma fill16_fill16: "fill16 (i + of_nat k) m (fill16 i k f) = fill16 i (k + m) f"
  by (induction m) (simp_all add: fill16_def add.assoc)

lemma set32_16: "set32 (2 * i) VA_BITS32_UNDEFINED f = fill16 i 2 f"
proof -
  have c: "ucast VA_BITS32_UNDEFINED = (0x55 :: u8)" "ucast (drop_bit 8 VA_BITS32_UNDEFINED) = (0x55 :: u8)"
    "ucast (drop_bit 16 VA_BITS32_UNDEFINED) = (0x55 :: u8)" "ucast (drop_bit 24 VA_BITS32_UNDEFINED) = (0x55 :: u8)"
    "ucast VA_BITS16_UNDEFINED = (0x55 :: u8)" "ucast (drop_bit 8 VA_BITS16_UNDEFINED) = (0x55 :: u8)" by code_simp+
  have "[0..<2] = [0, 1 :: nat]" by (simp add: upt_rec)
  then show ?thesis by (simp add: set32_def fill16_def set16_def c distrib_left add.assoc)
qed

lemma fill32_16: "fill32 (2 * i) n f = fill16 i (2 * n) f"
proof (induction n)
  case 0
  show ?case by (simp add: fill32_def fill16_def)
next
  case (Suc n)
  have e: "2 * i + of_nat (4 * n) = 2 * (i + of_nat (2 * n))" by (simp add: distrib_left)
  have "fill32 (2 * i) (Suc n) f = set32 (2 * i + of_nat (4 * n)) VA_BITS32_UNDEFINED (fill32 (2 * i) n f)" by (simp add: fill32_def)
  also have "\<dots> = fill16 i (2 * n + 2) f" by (simp only: e set32_16 Suc fill16_fill16)
  finally show ?case by simp
qed

lemma fill_8_mod_16_16: "fill_8_mod_16 a f = fill16 (SM_OFF_16 a) 16 f"
proof -
  have one: "set16 i VA_BITS16_UNDEFINED g = fill16 i 1 g" for i g by (simp add: fill16_def)
  note j = fill16_fill16[of "SM_OFF_16 a" 1 14 f, simplified] fill16_fill16[of "SM_OFF_16 a" 15 1 f, simplified]
  show ?thesis unfolding fill_8_mod_16_def fill32_16 one using j by simp
qed

lemma SM_OFF_16_twice:
  assumes "unat a mod 8 = 0"
  shows "SM_OFF a = 2 * SM_OFF_16 a"
proof -
  have d: "x div 4 = 2 * (x div 8)" if "x mod 8 = 0" for x :: nat using that by presburger
  have m: "lo a mod 8 = 0" using assms by (simp add: mod_mod_cancel)
  have "unat (SM_OFF_16 a) < 8192" by (simp add: unat_SM_OFF_16 div_less_iff_less_mult)
  then have "unat (2 * SM_OFF_16 a) = 2 * unat (SM_OFF_16 a)" by (simp add: unat_word_ariths)
  then have "unat (SM_OFF a) = unat (2 * SM_OFF_16 a)" unfolding unat_SM_OFF using d[OF m] unat_SM_OFF_16 by simp
  then show ?thesis by (simp add: word_unat_eq_iff)
qed

text \<open>The direct case needs the range to lie in one map: the two ends have the same page number.\<close>

lemma same_quotient:
  fixes x k d :: nat
  assumes "x div d = (x + k) div d" "0 < d"
  shows "x mod d + k < d"
proof -
  have "x + k = (x + k) div d * d + (x + k) mod d" "x = x div d * d + x mod d" by simp_all
  then have "x mod d + k = (x + k) mod d" using assms(1) by (metis add.assoc add_left_cancel)
  then show ?thesis using assms(2) by simp
qed

lemma last_byte:
  assumes "0 < n" "unat a + n \<le> 2 ^ 64"
  shows "unat ((a :: addr) + of_nat n - 1) = unat a + (n - 1)"
proof -
  obtain k where k: "n = Suc k" using assms(1) by (cases n) simp_all
  have "unat (a + of_nat k) = unat a + k" by (rule add_nowrap) (use assms(2) k in simp_all)
  then show ?thesis by (simp add: k)
qed

lemma same_page_fits:
  assumes "0 < n" "unat a + n \<le> 2 ^ 64" "hi a = hi (a + of_nat n - 1)"
  shows "lo a + n \<le> 65536"
proof -
  have "unat a div 65536 = (unat a + (n - 1)) div 65536" using assms(3) by (simp only: hi_eq_iff last_byte[OF assms(1,2)])
  from same_quotient[OF this] have "lo a + (n - 1) < 65536" by simp
  then show ?thesis using assms(1) by linarith
qed

lemma uninit_direct_spec:
  assumes "shadow_ok sh" "0 < unat len" "unat len < 65536" "unat a + unat len \<le> 2 ^ 64"
    "\<And>f. lo a + unat len \<le> 65536 \<Longrightarrow> covers VA_BITS2_UNDEFINED f a (unat len) (write a f)"
  shows "uninit_direct a len write sh = Some None \<or>
    (\<exists>sh'. uninit_direct a len write sh = Some (Some sh') \<and> sets a (unat len) (Some V_BITS8_UNDEFINED) sh (Some sh'))"
proof (cases "a + len - 1 \<le> MAX_PRIMARY_ADDRESS \<and> get_primary_map_low_offset a = get_primary_map_low_offset (a + len - 1)")
  case True
  then have "hi a = hi (a + of_nat (unat len) - 1)" by (simp add: get_primary_map_low_offset_def)
  from same_page_fits[OF assms(2,4) this] have f: "lo a + unat len \<le> 65536" .
  have "unat a \<le> unat (a + len - 1)" using last_byte[OF assms(2,4)] by simp
  then have m: "a \<le> MAX_PRIMARY_ADDRESS" using True by (meson order_trans word_le_nat_alt)
  have u: "uniform VA_BITS16_UNDEFINED SM_DIST_UNDEFINED VA_BITS2_UNDEFINED" by (simp add: uniform_def)
  from write_low_sets[OF assms(1) m assms(5)[OF f] u f assms(3)] True show ?thesis
    by (auto simp: uninit_direct_def Let_def sets_def fill_def split: Option.bind_splits)
qed (auto simp: uninit_direct_def)

lemma fill16_write:
  assumes "unat a mod 8 = 0" "lo a + n \<le> 65536" "n = 8 * k"
  shows "covers VA_BITS2_UNDEFINED f a n (fill16 (SM_OFF_16 a) k f)"
  using fill16_covers[OF assms(1)] assms(2,3) by simp

theorem MAKE_STACK_UNINIT_no_o_spec:
  assumes "shadow_ok sh" "unat base + unat len \<le> 2 ^ 64"
  shows "sets base (unat len) (Some V_BITS8_UNDEFINED) sh (helperc_MAKE_STACK_UNINIT_no_o base len sh)"
proof -
  have w: "base < base + of_nat n - 1" if "unat base + n \<le> 2 ^ 64" "1 < n" for n
    using last_byte[OF _ that(1)] that(2) by (simp add: word_less_nat_alt)
  note slow = make_mem_sets(1)[OF assms]
  have d: "uninit_direct base len (\<lambda>a. fill16 (SM_OFF_16 a) k) sh = Some None \<or>
    (\<exists>sh'. uninit_direct base len (\<lambda>a. fill16 (SM_OFF_16 a) k) sh = Some (Some sh') \<and> sets base (unat len) (Some V_BITS8_UNDEFINED) sh (Some sh'))"
    if "VG_IS_8_ALIGNED base" "unat len = 8 * k" "0 < k" "k < 8192" for k
    using that by (intro uninit_direct_spec[OF assms(1) _ _ assms(2)] fill16_write) (simp_all add: mod8_cases)
  show ?thesis using slow d[of 16] d[of 36] w[of 128] w[of 288] assms(2)
    by (auto simp: helperc_MAKE_STACK_UNINIT_no_o_def)
qed

theorem MAKE_STACK_UNINIT_128_no_o_spec:
  assumes "shadow_ok sh" "unat base + 128 \<le> 2 ^ 64"
  shows "sets base 128 (Some V_BITS8_UNDEFINED) sh (helperc_MAKE_STACK_UNINIT_128_no_o base sh)"
proof -
  note slow = make_mem_sets(1)[OF assms(1), of base 128, simplified, OF assms(2)[simplified]]
  note d = uninit_direct_spec[OF assms(1), of 128 base, simplified, OF assms(2)[simplified]]
  have m: "unat base mod 8 = 0" if "VG_IS_16_ALIGNED base \<or> VG_IS_16_ALIGNED (base + 8)"
  proof -
    have d: "x mod 8 = 0" if "x mod 16 = 0 \<or> (x + 8) mod 16 = 0" for x :: nat using that by presburger
    have e: "unat (base + of_nat 8) mod 16 = (unat base + 8) mod 16" by (rule unat_add_mod) simp
    show ?thesis using that d unat_and(5)[of base] unat_and(5)[of "base + 8"] e by (metis of_nat_numeral unat_0)
  qed
  have f: "covers VA_BITS2_UNDEFINED f base 128 (fill32 (SM_OFF base) 8 f)" "covers VA_BITS2_UNDEFINED f base 128 (fill_8_mod_16 base f)"
    if "VG_IS_16_ALIGNED base \<or> VG_IS_16_ALIGNED (base + 8)" "lo base + 128 \<le> 65536" for f
    using fill16_write[OF m[OF that(1)] that(2), of 16 f] unfolding SM_OFF_16_twice[OF m[OF that(1)]] fill32_16 fill_8_mod_16_16 by simp_all
  show ?thesis using slow d[of "\<lambda>a. fill32 (SM_OFF a) 8"] d[of "fill_8_mod_16"] f by (auto simp: helperc_MAKE_STACK_UNINIT_128_no_o_def)
qed

end
