(* ===== verification/Shadow_System.thy ===== *)
theory Shadow_System
  imports Shadow_Copy Shadow_Checks Shadow_Stores Shadow_Wide Shadow_Stack_Props
begin

text \<open>
  The shadow memory as a whole: the requests that the rest of Memcheck makes of it, run one after the other from the initial
  state, against an abstract machine whose state is a map from addresses to V bits and a list of reported errors.
\<close>

section \<open>Requests\<close>

datatype shadow_request =
  Make_Noaccess addr u64 | Make_Undefined addr u64 | Make_Defined addr u64
| Defined_If_Addressable addr u64 | Defined_If_Noaccess addr u64
| Copy_State addr addr u64
| Load64 addr bool | Load32 addr bool | Load16 addr bool | Load8 addr | Load_Wide addr nat bool
| Store64 addr u64 bool | Store32 addr u64 bool | Store16 addr u64 bool | Store8 addr u64
| Check_Noaccess addr u64 | Check_Addressable addr u64 | Check_Defined nat addr u64
| New_Stack nat addr | Die_Stack nat addr | New_Stack_Any addr u64 | Die_Stack_Any addr u64
| Uninit addr u64 | Uninit_128 addr

definition new_mem_stack_n :: "nat \<Rightarrow> addr \<Rightarrow> shadow \<Rightarrow> shadow option" where
  "new_mem_stack_n n sp sh =
     (if n = 4 then mc_new_mem_stack_4 sp sh else if n = 8 then mc_new_mem_stack_8 sp sh
      else if n = 12 then mc_new_mem_stack_12 sp sh else if n = 16 then mc_new_mem_stack_16 sp sh
      else if n = 32 then mc_new_mem_stack_32 sp sh else if n = 112 then mc_new_mem_stack_112 sp sh
      else if n = 128 then mc_new_mem_stack_128 sp sh else if n = 144 then mc_new_mem_stack_144 sp sh
      else if n = 160 then mc_new_mem_stack_160 sp sh else None)"

definition die_mem_stack_n :: "nat \<Rightarrow> addr \<Rightarrow> shadow \<Rightarrow> shadow option" where
  "die_mem_stack_n n sp sh =
     (if n = 4 then mc_die_mem_stack_4 sp sh else if n = 8 then mc_die_mem_stack_8 sp sh
      else if n = 12 then mc_die_mem_stack_12 sp sh else if n = 16 then mc_die_mem_stack_16 sp sh
      else if n = 32 then mc_die_mem_stack_32 sp sh else if n = 112 then mc_die_mem_stack_112 sp sh
      else if n = 128 then mc_die_mem_stack_128 sp sh else if n = 144 then mc_die_mem_stack_144 sp sh
      else if n = 160 then mc_die_mem_stack_160 sp sh else None)"

definition stack_sizes :: "nat list" where "stack_sizes = [4, 8, 12, 16, 32, 112, 128, 144, 160]"

text \<open>What the caller gets back besides the new state is left out here.\<close>

fun run_request :: "shadow_request \<Rightarrow> shadow \<Rightarrow> shadow option" where
  "run_request (Make_Noaccess a len) sh = make_mem_noaccess a len sh"
| "run_request (Make_Undefined a len) sh = make_mem_undefined a len sh"
| "run_request (Make_Defined a len) sh = make_mem_defined a len sh"
| "run_request (Defined_If_Addressable a len) sh = make_mem_defined_if_addressable a len sh"
| "run_request (Defined_If_Noaccess a len) sh = make_mem_defined_if_noaccess a len sh"
| "run_request (Copy_State src dst len) sh = copy_address_range_state src dst len sh"
| "run_request (Load64 a be) sh = map_option snd (mc_LOADV64 a be sh)"
| "run_request (Load32 a be) sh = map_option snd (mc_LOADV32 a be sh)"
| "run_request (Load16 a be) sh = map_option snd (mc_LOADV16 a be sh)"
| "run_request (Load8 a) sh = map_option snd (helperc_LOADV8 a sh)"
| "run_request (Load_Wide a L be) sh = map_option snd (mc_LOADV_128_or_256 a (64 * L) be sh)"
| "run_request (Store64 a w be) sh = mc_STOREV64 a w be sh"
| "run_request (Store32 a w be) sh = mc_STOREV32 a w be sh"
| "run_request (Store16 a w be) sh = mc_STOREV16 a w be sh"
| "run_request (Store8 a w) sh = helperc_STOREV8 a w sh"
| "run_request (Check_Noaccess a len) sh = map_option snd (check_mem_is_noaccess a len sh)"
| "run_request (Check_Addressable a len) sh = map_option snd (is_mem_addressable a len sh)"
| "run_request (Check_Defined level a len) sh = map_option (\<lambda>(r, bad, sh). sh) (is_mem_defined level a len sh)"
| "run_request (New_Stack n sp) sh = new_mem_stack_n n sp sh"
| "run_request (Die_Stack n sp) sh = die_mem_stack_n n sp sh"
| "run_request (New_Stack_Any a len) sh = mc_new_mem_stack a len sh"
| "run_request (Die_Stack_Any a len) sh = mc_die_mem_stack a len sh"
| "run_request (Uninit a len) sh = helperc_MAKE_STACK_UNINIT_no_o a len sh"
| "run_request (Uninit_128 a) sh = helperc_MAKE_STACK_UNINIT_128_no_o a sh"

text \<open>Requests inside the address space: no range wraps around.\<close>

fun request_fits :: "shadow_request \<Rightarrow> bool" where
  "request_fits (Make_Noaccess a len) = (unat a + unat len \<le> 2 ^ 64)"
| "request_fits (Make_Undefined a len) = (unat a + unat len \<le> 2 ^ 64)"
| "request_fits (Make_Defined a len) = (unat a + unat len \<le> 2 ^ 64)"
| "request_fits (Copy_State src dst len) = (unat src + unat len < 2 ^ 64 \<and> unat dst + unat len < 2 ^ 64)"
| "request_fits (Load_Wide a L be) = (L = 2 \<or> L = 4)"
| "request_fits (Check_Defined level a len) = (2 \<le> level)"
| "request_fits (New_Stack n sp) = (n \<in> set stack_sizes \<and> unat (sp - 128) + 160 \<le> 2 ^ 64)"
| "request_fits (Die_Stack n sp) = (n \<in> set stack_sizes \<and> 160 \<le> unat (sp - 128))"
| "request_fits (New_Stack_Any a len) = (unat (a - 128) + unat len \<le> 2 ^ 64)"
| "request_fits (Die_Stack_Any a len) = (unat (a - 128) + unat len \<le> 2 ^ 64)"
| "request_fits (Uninit a len) = (unat a + unat len \<le> 2 ^ 64)"
| "request_fits (Uninit_128 a) = (unat a + 128 \<le> 2 ^ 64)"
| "request_fits _ = True"


section \<open>The abstract machine\<close>

text \<open>Whether partial loads are exempt, the V bits of the accessible bytes, and the reported errors.\<close>

type_synonym vmachine = "bool \<times> (addr \<Rightarrow> u8 option) \<times> address_error list"

definition abs_shadow :: "shadow \<Rightarrow> vmachine" where
  "abs_shadow sh = (clo_partial_loads_ok sh, vb sh, errors sh)"

definition spec_set :: "addr \<Rightarrow> nat \<Rightarrow> u8 option \<Rightarrow> vmachine \<Rightarrow> vmachine" where
  "spec_set a n v = (\<lambda>(p, m, es). (p, \<lambda>b. if unat (b - a) < n then v else m b, es))"

definition spec_load :: "addr \<Rightarrow> nat \<Rightarrow> (bool \<Rightarrow> addr \<Rightarrow> nat \<Rightarrow> (addr \<Rightarrow> u8 option) \<Rightarrow> bool) \<Rightarrow> vmachine \<Rightarrow> vmachine" where
  "spec_load a n exemption = (\<lambda>(p, m, es). (p, m, es @ (if mapped m a n \<or> exemption p a n m then []
     else [\<lparr>err_addr = a, err_szB = of_nat n, err_isWrite = False\<rparr>])))"

definition spec_store :: "nat \<Rightarrow> addr \<Rightarrow> nat \<Rightarrow> bool \<Rightarrow> u64 \<Rightarrow> vmachine \<Rightarrow> vmachine" where
  "spec_store k a n be w = (\<lambda>(p, m, es).
     (p, \<lambda>b. if unat (b - a) < n \<and> m b \<noteq> None then Some (byte_of w (place n be (unat (b - a)))) else m b,
      es @ (if mapped m a n then [] else replicate k \<lparr>err_addr = a, err_szB = of_nat n, err_isWrite = True\<rparr>)))"

fun spec_request :: "shadow_request \<Rightarrow> vmachine \<Rightarrow> vmachine" where
  "spec_request (Make_Noaccess a len) = spec_set a (unat len) None"
| "spec_request (Make_Undefined a len) = spec_set a (unat len) (Some V_BITS8_UNDEFINED)"
| "spec_request (Make_Defined a len) = spec_set a (unat len) (Some V_BITS8_DEFINED)"
| "spec_request (Defined_If_Addressable a len) =
     (\<lambda>(p, m, es). (p, \<lambda>b. if unat (b - a) < unat len \<and> m b \<noteq> None then Some V_BITS8_DEFINED else m b, es))"
| "spec_request (Defined_If_Noaccess a len) =
     (\<lambda>(p, m, es). (p, \<lambda>b. if unat (b - a) < unat len \<and> m b = None then Some V_BITS8_DEFINED else m b, es))"
| "spec_request (Copy_State src dst len) =
     (\<lambda>(p, m, es). (p, \<lambda>b. if unat (b - dst) < unat len then m (src + (b - dst)) else m b, es))"
| "spec_request (Load64 a be) = spec_load a 8 exempt"
| "spec_request (Load32 a be) = spec_load a 4 exempt"
| "spec_request (Load16 a be) = spec_load a 2 exempt"
| "spec_request (Load8 a) = spec_load a 1 exempt"
| "spec_request (Load_Wide a L be) = spec_load a (8 * L) exempt_wide"
| "spec_request (Store64 a w be) = spec_store 1 a 8 be w"
| "spec_request (Store32 a w be) = spec_store 1 a 4 be w"
| "spec_request (Store16 a w be) = spec_store (if w = 0 \<and> \<not> UNALIGNED_OR_HIGH a 16 then 2 else 1) a 2 be w"
| "spec_request (Store8 a w) = spec_store 1 a 1 False w"
| "spec_request (New_Stack n sp) = spec_set (sp - 128) n (Some V_BITS8_UNDEFINED)"
| "spec_request (Die_Stack n sp) = spec_set (sp - 128 - of_nat n) n None"
| "spec_request (New_Stack_Any a len) = spec_set (a - 128) (unat len) (Some V_BITS8_UNDEFINED)"
| "spec_request (Die_Stack_Any a len) = spec_set (a - 128) (unat len) None"
| "spec_request (Uninit a len) = spec_set a (unat len) (Some V_BITS8_UNDEFINED)"
| "spec_request (Uninit_128 a) = spec_set a 128 (Some V_BITS8_UNDEFINED)"
| "spec_request _ = id"


section \<open>The requests one by one\<close>

definition implements :: "shadow \<Rightarrow> (vmachine \<Rightarrow> vmachine) \<Rightarrow> shadow option \<Rightarrow> bool" where
  "implements sh f x \<longleftrightarrow> (\<exists>sh'. x = Some sh' \<and> shadow_ok sh' \<and> abs_shadow sh' = f (abs_shadow sh))"

lemma sets_implements: "sets a n v sh x \<Longrightarrow> implements sh (spec_set a n v) x"
  by (auto simp: sets_def implements_def abs_shadow_def spec_set_def set_off_def dest: other_eqD)

lemma loads_implements:
  assumes "shadow_loads a n be sh x"
  shows "implements sh (spec_load a n exempt) (map_option snd x)"
  using assms by (auto simp: shadow_loads_def implements_def abs_shadow_def spec_load_def load_result_def Let_def)

lemma wide_implements:
  assumes "wide_result a L be sh r"
  shows "implements sh (spec_load a (8 * L) exempt_wide) (map_option snd (Some r))"
  using assms by (auto simp: implements_def abs_shadow_def spec_load_def wide_result_def Let_def)

lemma stores_implements: "stores k a n be w sh x \<Longrightarrow> implements sh (spec_store k a n be w) x"
  by (auto simp: stores_def implements_def abs_shadow_def spec_store_def store_result_def stored_at fun_eq_iff)

lemma same_implements: "x = Some sh' \<Longrightarrow> same_mem sh sh' \<Longrightarrow> implements sh id x"
  by (auto simp: implements_def abs_shadow_def same_mem_def dest: other_eqD)

lemma memory_implements:
  assumes "\<exists>sh'. x = Some sh' \<and> shadow_ok sh' \<and> other sh' = other sh \<and> vb sh' = f (vb sh)"
  shows "implements sh (\<lambda>(p, m, es). (p, f m, es)) x"
  using assms by (auto simp: implements_def abs_shadow_def dest: other_eqD)


lemmas access_implement = loads_implements[OF LOADV64_spec] loads_implements[OF LOADV32_spec] loads_implements[OF LOADV16_spec]
  loads_implements[OF LOADV8_spec] stores_implements[OF STOREV64_spec] stores_implements[OF STOREV32_spec]
  stores_implements[OF STOREV8_spec]

lemma new_stack_sets:
  assumes "shadow_ok sh" "n \<in> set stack_sizes" "unat (sp - 128) + 160 \<le> 2 ^ 64"
  shows "sets (sp - 128) n (Some V_BITS8_UNDEFINED) sh (new_mem_stack_n n sp sh)"
proof -
  have "unat (sp - 128) + 32 \<le> 2 ^ 64" using assms(3) by simp
  from new_mem_stack_small[OF assms(1) this] new_mem_stack_large[OF assms(1,3)] assms(2) show ?thesis
    by (auto simp: new_mem_stack_n_def stack_sizes_def)
qed

lemma die_stack_sets:
  assumes "shadow_ok sh" "n \<in> set stack_sizes" "160 \<le> unat (sp - 128)"
  shows "sets (sp - 128 - of_nat n) n None sh (die_mem_stack_n n sp sh)"
  using die_mem_stack_8_mod_8[OF assms(1,3)] die_mem_stack_4_12[OF assms(1,3)] assms(2)
  by (auto simp: die_mem_stack_n_def stack_sizes_def)

lemma copy_implements:
  assumes "shadow_ok sh" "unat src + unat len < 2 ^ 64" "unat dst + unat len < 2 ^ 64"
  shows "implements sh (spec_request (Copy_State src dst len)) (copy_address_range_state src dst len sh)"
proof -
  have m: "moved src dst {..<n} m = (\<lambda>b. if unat (b - dst) < n then m (src + (b - dst)) else m b)" for n and m :: "addr \<Rightarrow> u8 option"
    by (auto simp: moved_def source_def)
  show ?thesis unfolding spec_request.simps m[symmetric] by (rule memory_implements, rule copy_address_range_moved[OF assms])
qed

lemma conditional_implement:
  assumes "shadow_ok sh"
  shows "implements sh (spec_request (Defined_If_Addressable a len)) (make_mem_defined_if_addressable a len sh)"
    "implements sh (spec_request (Defined_If_Noaccess a len)) (make_mem_defined_if_noaccess a len sh)"
  unfolding spec_request.simps
  by (rule memory_implements, rule if_addressable_spec[OF assms], rule memory_implements, rule if_noaccess_spec[OF assms])

lemma checks_implement:
  assumes "shadow_ok sh"
  shows "implements sh id (map_option snd (check_mem_is_noaccess a len sh))"
    "implements sh id (map_option snd (is_mem_addressable a len sh))"
    "2 \<le> level \<Longrightarrow> implements sh id (map_option (\<lambda>(r, bad, sh). sh) (is_mem_defined level a len sh))"
proof -
  from noaccess_spec[OF assms, of a len] show "implements sh id (map_option snd (check_mem_is_noaccess a len sh))"
    by (auto intro: same_implements)
  from addressable_spec[OF assms, of a len] show "implements sh id (map_option snd (is_mem_addressable a len sh))"
    by (auto intro: same_implements)
  assume "2 \<le> level"
  from is_mem_defined_spec[OF assms this, of a len] show "implements sh id (map_option (\<lambda>(r, bad, sh). sh) (is_mem_defined level a len sh))"
    by (auto intro!: same_implements split: option.split)
qed

lemma request_implements:
  assumes "shadow_ok sh" "request_fits r"
  shows "implements sh (spec_request r) (run_request r sh)"
proof (cases r)
  case (Load_Wide a L be)
  then obtain x where "mc_LOADV_128_or_256 a (64 * L) be sh = Some x" "wide_result a L be sh x"
    using LOADV_128_or_256_spec[OF assms(1), of L a be] assms(2) by auto
  then show ?thesis using Load_Wide wide_implements by simp
next
  case (Store16 a w be)
  have e: "(V_BITS16_DEFINED = w) = (w = 0)" by (auto simp: V_BITS16_DEFINED_def)
  from stores_implements[OF STOREV16_spec[OF assms(1), of w a be], unfolded e] show ?thesis
    by (simp only: Store16 run_request.simps spec_request.simps)
next
  case (Copy_State src dst len)
  then show ?thesis using copy_implements[OF assms(1)] assms(2) by (simp del: spec_request.simps)
qed (use assms in \<open>simp_all add: sets_implements make_mem_sets new_stack_sets die_stack_sets checks_implement
    MAKE_STACK_UNINIT_no_o_spec MAKE_STACK_UNINIT_128_no_o_spec mc_new_mem_stack_def mc_die_mem_stack_def VG_STACK_REDZONE_SZB_def
    conditional_implement[simplified]
    access_implement del: One_nat_def\<close>)

interpretation shadow_memory: simulation shadow_ok abs_shadow run_request spec_request request_fits
proof
  fix sh r
  assume "shadow_ok sh" "request_fits r"
  from request_implements[OF this] show "\<exists>sh'. run_request r sh = Some sh' \<and> shadow_ok sh' \<and> abs_shadow sh' = spec_request r (abs_shadow sh)"
    by (simp add: implements_def)
qed


section \<open>The initial state\<close>

lemma init_sm_of: "sm_of (init_shadow_memory policy p) a = Distinguished SM_DIST_NOACCESS"
  by (simp add: sm_of_def init_shadow_memory_def)

lemma init_va: "va (init_shadow_memory policy p) a = VA_BITS2_NOACCESS"
  by (simp add: va_def init_sm_of va_of_def dist_vabits8_def extract_vabits2_from_vabits8_def VA_BITS8_NOACCESS_def VA_BITS2_NOACCESS_def)

lemma init_aux: "aux_ok (init_shadow_memory policy p)"
  by (simp add: aux_ok_def init_shadow_memory_def L1_ok_def L2_ok_def N_AUXMAP_L1_def)

lemma init_ok: "shadow_ok (init_shadow_memory policy p)"
  using init_aux init_va by (simp add: shadow_ok_def table_ok_def init_shadow_memory_def)

lemma init_abs: "abs_shadow (init_shadow_memory policy p) = (p, \<lambda>_. None, [])"
  using init_va by (simp add: abs_shadow_def vb_def fun_eq_iff) (simp add: init_shadow_memory_def)

end
