(* ===== verification/Shadow_Theorems.thy ===== *)
theory Shadow_Theorems
  imports Shadow_System
begin

text \<open>The properties of the shadow memory, with a concrete state at which they apply.\<close>

section \<open>A concrete state\<close>

text \<open>Every byte that the primary map covers is accessible and undefined.\<close>

definition sample_shadow :: shadow where
  "sample_shadow = (init_shadow_memory (\<lambda>survivors limit. limit) False)\<lparr>primary_map := \<lambda>_. Distinguished SM_DIST_UNDEFINED\<rparr>"

lemma sample_va: "va sample_shadow a = (if a \<le> MAX_PRIMARY_ADDRESS then VA_BITS2_UNDEFINED else VA_BITS2_NOACCESS)"
proof -
  have "extract_vabits2_from_vabits8 a VA_BITS8_UNDEFINED = VA_BITS2_UNDEFINED"
    using extract_uniform(3)[of VA_BITS16_UNDEFINED SM_DIST_UNDEFINED VA_BITS2_UNDEFINED] by (simp add: uniform_def dist_vabits8_def)
  then show ?thesis
    by (simp add: va_def va_of_def sm_of_def sample_shadow_def init_shadow_memory_def dist_vabits8_def
        extract_vabits2_from_vabits8_def VA_BITS8_NOACCESS_def VA_BITS2_NOACCESS_def)
qed

lemma sample_ok: "shadow_ok sample_shadow"
proof -
  have "aux_ok sample_shadow"
    by (simp add: aux_ok_def sample_shadow_def init_shadow_memory_def L1_ok_def L2_ok_def N_AUXMAP_L1_def)
  then show ?thesis by (simp add: shadow_ok_def sample_va) (simp add: table_ok_def sample_shadow_def init_shadow_memory_def)
qed

lemma sample_vb: "vb sample_shadow a = (if a \<le> MAX_PRIMARY_ADDRESS then Some V_BITS8_UNDEFINED else None)"
  by (simp add: vb_def sample_va)

lemma sample_low: "unat a < 65536 \<Longrightarrow> vb sample_shadow a = Some V_BITS8_UNDEFINED"
  by (simp add: sample_vb word_le_nat_alt MAX_PRIMARY_ADDRESS_def N_PRIMARY_MAP_def)

lemma sample_mapped: "mapped (vb sample_shadow) 4096 8"
proof -
  have "unat (4096 + of_nat i :: addr) = 4096 + i" if "i < 8" for i using that by (simp add: add_nowrap)
  then show ?thesis by (simp add: mapped_def sample_low)
qed


section \<open>The whole system\<close>

text \<open>
  C13. Any sequence of requests inside the address space, from the state that \<^verbatim>\<open>init_shadow_memory\<close> sets up, runs without a failed
  assertion, keeps the invariant of the maps, the front cache and the table of V bits, and acts on the V bits of every byte and on the
  reported errors exactly as the abstract machine, which knows no maps, caches, tables, alignment or fast cases.
\<close>

theorem shadow_memory_refines:
  assumes "list_all request_fits rs"
  shows "\<exists>sh. foldO run_request rs (init_shadow_memory policy partial_ok) = Some sh \<and> shadow_ok sh \<and>
    abs_shadow sh = fold spec_request rs (partial_ok, \<lambda>_. None, [])"
  using shadow_memory.runs[OF init_ok assms, of policy partial_ok] by (simp only: init_abs)

theorem shadow_memory_refines_witness:
  "\<exists>sh. foldO run_request [Make_Undefined 4096 16, Store64 4096 0 False, Copy_State 4096 8195 8, Load32 8196 False]
      (init_shadow_memory (\<lambda>s l. l) False) = Some sh \<and> shadow_ok sh \<and>
    abs_shadow sh = fold spec_request [Make_Undefined 4096 16, Store64 4096 0 False, Copy_State 4096 8195 8, Load32 8196 False]
      (False, \<lambda>_. None, [])"
  by (rule shadow_memory_refines) simp

text \<open>
  C19. A collection of the table of V bits succeeds, drops exactly the nodes without a partially defined byte, and changes the V bits of no
  byte.
\<close>

theorem gc_keeps_vbits:
  assumes "shadow_ok sh"
  shows "\<exists>sh'. gcSecVBitTable sh = Some sh' \<and> shadow_ok sh' \<and> vb sh' = vb sh \<and> errors sh' = errors sh \<and>
    set (secVBitTable sh') = {n \<in> set (secVBitTable sh). in_use (va sh) (fst n)}"
proof -
  from gc_spec[OF shadow_okD[OF assms]] obtain sh' where
    g: "gcSecVBitTable sh = Some sh'" "aux_ok sh'" "table_ok (secVBitTable sh')" "va sh' = va sh" "other sh' = other sh"
    "\<And>a. va sh a = VA_BITS2_PARTDEFINED \<Longrightarrow> sec_lookup (secVBitTable sh') a = sec_lookup (secVBitTable sh) a"
    "set (secVBitTable sh') = {n \<in> set (secVBitTable sh). in_use (va sh) (fst n)}" by auto
  have "vb sh' a = vb sh a" for a using g(4,6) va_or[of sh a] by (auto simp: vb_def)
  moreover have "shadow_ok sh'" using assms g(2-4,6) by (auto simp: shadow_ok_def)
  ultimately show ?thesis using g(1,5,7) other_eqD[OF g(5)] by (auto simp: fun_eq_iff)
qed

theorem gc_keeps_vbits_witness:
  "\<exists>sh sh'. helperc_STOREV8 4096 0x0f sample_shadow = Some sh \<and> gcSecVBitTable sh = Some sh' \<and> vb sh' 4096 = Some 0x0f"
proof -
  from STOREV8_spec[OF sample_ok, of 4096 "0x0f"] obtain sh where
    s: "helperc_STOREV8 4096 0x0f sample_shadow = Some sh" "shadow_ok sh" "vb sh = stored 4096 1 False 0 1 0x0f (vb sample_shadow)"
    by (auto simp: stores_def store_result_def)
  have "vb sh 4096 = Some 0x0f" by (simp add: s(3) stored_at sample_low byte_of_def place_def)
  with s(1) gc_keeps_vbits[OF s(2)] show ?thesis by auto
qed

section \<open>Ranges\<close>

text \<open>
  \<^verbatim>\<open>make_mem_noaccess\<close>, \<^verbatim>\<open>make_mem_undefined\<close> and \<^verbatim>\<open>make_mem_defined\<close> give exactly the bytes of the range their new state, at every
  alignment and length up to the end of the address space.
\<close>

theorem make_mem_exact:
  assumes "shadow_ok sh" "unat a + unat len \<le> 2 ^ 64"
  shows "sets a (unat len) None sh (make_mem_noaccess a len sh) \<and>
    sets a (unat len) (Some V_BITS8_UNDEFINED) sh (make_mem_undefined a len sh) \<and>
    sets a (unat len) (Some V_BITS8_DEFINED) sh (make_mem_defined a len sh)"
  using make_mem_sets[OF assms] by blast

theorem make_mem_exact_witness:
  "sets 65530 200000 None sample_shadow (make_mem_noaccess 65530 200000 sample_shadow) \<and>
    sets 65530 200000 (Some V_BITS8_UNDEFINED) sample_shadow (make_mem_undefined 65530 200000 sample_shadow) \<and>
    sets 65530 200000 (Some V_BITS8_DEFINED) sample_shadow (make_mem_defined 65530 200000 sample_shadow)"
  using make_mem_exact[OF sample_ok, of 65530 200000] by simp

text \<open>
  C16. \<^verbatim>\<open>copy_address_range_state\<close> gives every byte of the destination the old state of the corresponding byte of the source,
  also when the ranges overlap, and changes no other byte.
\<close>

theorem copy_state_moves:
  assumes "shadow_ok sh" "unat src + unat len < 2 ^ 64" "unat dst + unat len < 2 ^ 64"
  shows "\<exists>sh'. copy_address_range_state src dst len sh = Some sh' \<and> shadow_ok sh' \<and> errors sh' = errors sh \<and>
    vb sh' = (\<lambda>b. if in_range dst (unat len) b then vb sh (src + (b - dst)) else vb sh b)"
  using copy_address_range_moved[OF assms] unfolding moved_range[OF assms(3)] by (auto dest: other_eqD)

theorem copy_state_moves_witness:
  "\<exists>sh'. copy_address_range_state 4096 4099 100 sample_shadow = Some sh' \<and> shadow_ok sh' \<and> errors sh' = errors sample_shadow \<and>
    vb sh' = (\<lambda>b. if in_range 4099 100 b then vb sample_shadow (4096 + (b - 4099)) else vb sample_shadow b)"
  using copy_state_moves[OF sample_ok, of 4096 100 4099] by simp

text \<open>
  The checks of a range return the first byte that fails them, or none when there is none, and \<^verbatim>\<open>is_mem_defined\<close> tells an
  inaccessible from an undefined byte; the state of no byte changes.
\<close>

theorem range_checks_find_first:
  assumes "shadow_ok sh" "2 \<le> level"
  shows "(\<exists>r sh'. check_mem_is_noaccess a len sh = Some (map_option (\<lambda>i. a + of_nat i) r, sh') \<and> same_mem sh sh' \<and>
      first_bad (\<lambda>i. vb sh (a + of_nat i) \<noteq> None) (unat len) r) \<and>
    (\<exists>r sh'. is_mem_addressable a len sh = Some (map_option (\<lambda>i. a + of_nat i) r, sh') \<and> same_mem sh sh' \<and>
      first_bad (\<lambda>i. vb sh (a + of_nat i) = None) (unat len) r) \<and>
    (\<exists>r sh'. is_mem_defined level a len sh = Some (case r of None \<Rightarrow> (MC_Ok, 0, sh')
        | Some i \<Rightarrow> (if vb sh (a + of_nat i) = None then MC_AddrErr else MC_ValueErr, a + of_nat i, sh')) \<and> same_mem sh sh' \<and>
      first_bad (\<lambda>i. vb sh (a + of_nat i) \<noteq> Some V_BITS8_DEFINED) (unat len) r)"
  using noaccess_spec[OF assms(1), of a len] addressable_spec[OF assms(1), of a len] is_mem_defined_spec[OF assms, of a len] by blast

theorem range_checks_find_first_witness:
  "\<exists>r sh'. is_mem_defined 2 4096 8 sample_shadow = Some (case r of None \<Rightarrow> (MC_Ok, 0, sh')
        | Some i \<Rightarrow> (if vb sample_shadow (4096 + of_nat i) = None then MC_AddrErr else MC_ValueErr, 4096 + of_nat i, sh')) \<and>
      same_mem sample_shadow sh' \<and> first_bad (\<lambda>i. vb sample_shadow (4096 + of_nat i) \<noteq> Some V_BITS8_DEFINED) 8 r"
  using range_checks_find_first[OF sample_ok, of 2 4096 8] by simp


section \<open>Loads and stores\<close>

text \<open>
  C14. The load handlers of 8, 4, 2 and 1 bytes return the V bits of the bytes they load, whichever of the fast, semi-fast and slow cases is
  taken and in either byte order; they change no byte and report an address error exactly when a byte is inaccessible and the exemption
  for partial loads does not apply, in which case the missing bytes count as undefined.
\<close>

theorem load_handlers_correct:
  assumes "shadow_ok sh"
  shows "shadow_loads a 8 be sh (mc_LOADV64 a be sh) \<and> shadow_loads a 4 be sh (mc_LOADV32 a be sh) \<and>
    shadow_loads a 2 be sh (mc_LOADV16 a be sh) \<and> shadow_loads a 1 False sh (helperc_LOADV8 a sh)"
  using LOADV64_spec[OF assms] LOADV32_spec[OF assms] LOADV16_spec[OF assms] LOADV8_spec[OF assms] by blast

theorem load_handlers_correct_witness:
  "shadow_loads 4096 8 True sample_shadow (mc_LOADV64 4096 True sample_shadow) \<and>
    shadow_loads 4096 4 True sample_shadow (mc_LOADV32 4096 True sample_shadow) \<and>
    shadow_loads 4096 2 True sample_shadow (mc_LOADV16 4096 True sample_shadow) \<and>
    shadow_loads 4096 1 False sample_shadow (helperc_LOADV8 4096 sample_shadow)"
  by (rule load_handlers_correct[OF sample_ok])

text \<open>The same for loads of 128 and 256 bits, double word by double word.\<close>

theorem wide_loads_correct:
  assumes "shadow_ok sh" "L = 2 \<or> L = 4"
  shows "\<exists>r. mc_LOADV_128_or_256 a (64 * L) be sh = Some r \<and> wide_result a L be sh r"
  by (rule LOADV_128_or_256_spec[OF assms])

theorem wide_loads_correct_witness:
  "\<exists>r. mc_LOADV_128_or_256 4096 (64 * 4) False sample_shadow = Some r \<and> wide_result 4096 4 False sample_shadow r"
  by (rule wide_loads_correct[OF sample_ok]) simp

text \<open>
  C15. The store handlers of 8, 4 and 1 bytes give every accessible byte they store to its V bits and leave all other bytes alone,
  and report one address error exactly when a byte is inaccessible.
\<close>

theorem store_handlers_correct:
  assumes "shadow_ok sh"
  shows "stores 1 a 8 be w sh (mc_STOREV64 a w be sh) \<and> stores 1 a 4 be w sh (mc_STOREV32 a w be sh) \<and>
    stores 1 a 1 False w sh (helperc_STOREV8 a w sh)"
  using STOREV64_spec[OF assms] STOREV32_spec[OF assms] STOREV8_spec[OF assms] by blast

theorem store_handlers_correct_witness:
  "stores 1 4096 8 False 255 sample_shadow (mc_STOREV64 4096 255 False sample_shadow) \<and>
    stores 1 4096 4 False 255 sample_shadow (mc_STOREV32 4096 255 False sample_shadow) \<and>
    stores 1 4096 1 False 255 sample_shadow (helperc_STOREV8 4096 255 sample_shadow)"
  by (rule store_handlers_correct[OF sample_ok])

text \<open>Reading back what was stored.\<close>

lemma load_after_store:
  assumes "mapped (vb sh) a n" "n \<le> 8" "store_result k a n be w sh sh1" "load_result a n be sh1 r" "i < n"
  shows "byte_of (fst r) i = byte_of w i" "errors (snd r) = errors sh"
proof -
  let ?b = "a + of_nat (place n be i)"
  have m: "vb sh1 = stored a n be 0 n w (vb sh)" "errors sh1 = errors sh" using assms(1,3) by (auto simp: store_result_def)
  have m1: "mapped (vb sh1) a n" unfolding m(1) mapped_stored by (rule assms(1))
  have o: "unat (?b - a) = place n be i" using place_inv(1)[OF assms(5), of be] assms(2) by (simp add: unat_off)
  have "vb sh1 ?b = Some (byte_of w i)"
    using place_inv[OF assms(5), of be] mapped_off[OF assms(1), of ?b] unfolding m(1) stored_at o by simp
  then show "byte_of (fst r) i = byte_of w i" "errors (snd r) = errors sh"
    using assms(4,5) m1 m(2) by (simp_all add: load_result_def Let_def loaded_byte_def)
qed

text \<open>
  C17. What is stored to accessible bytes is read back: a load of 8 bytes after a store of 8 bytes returns the same V bits, whatever their value,
  alignment and byte order, without an error; a load of 4 bytes after a store of 4 bytes returns them in its lower half.
\<close>

theorem store_load_roundtrip:
  assumes "shadow_ok sh" "mapped (vb sh) a 8"
  shows "(\<exists>sh1 sh2. mc_STOREV64 a w be sh = Some sh1 \<and> mc_LOADV64 a be sh1 = Some (w, sh2) \<and> errors sh2 = errors sh) \<and>
    (\<exists>sh1 v sh2. mc_STOREV32 a w be sh = Some sh1 \<and> mc_LOADV32 a be sh1 = Some (v, sh2) \<and> errors sh2 = errors sh \<and>
      (\<forall>i < 4. byte_of v i = byte_of w i))"
proof (intro conjI)
  from STOREV64_spec[OF assms(1), of a be w] obtain sh1 where
    s: "mc_STOREV64 a w be sh = Some sh1" "store_result 1 a 8 be w sh sh1" by (auto simp: stores_def)
  have "shadow_ok sh1" using s(2) by (simp add: store_result_def)
  from LOADV64_spec[OF this, of a be] obtain v sh2 where
    l: "mc_LOADV64 a be sh1 = Some (v, sh2)" "load_result a 8 be sh1 (v, sh2)" by (auto simp: shadow_loads_def)
  note r = load_after_store[OF assms(2) _ s(2) l(2)]
  have "v = w" by (rule bytes_eq) (use r(1) in simp)
  with s(1) l(1) r(2)[of 0] show "\<exists>sh1 sh2. mc_STOREV64 a w be sh = Some sh1 \<and> mc_LOADV64 a be sh1 = Some (w, sh2) \<and> errors sh2 = errors sh"
    by auto
next
  have m4: "mapped (vb sh) a 4" using assms(2) by (simp add: mapped_def)
  from STOREV32_spec[OF assms(1), of a be w] obtain sh1 where
    s: "mc_STOREV32 a w be sh = Some sh1" "store_result 1 a 4 be w sh sh1" by (auto simp: stores_def)
  have "shadow_ok sh1" using s(2) by (simp add: store_result_def)
  from LOADV32_spec[OF this, of a be] obtain v sh2 where
    l: "mc_LOADV32 a be sh1 = Some (v, sh2)" "load_result a 4 be sh1 (v, sh2)" by (auto simp: shadow_loads_def)
  note r = load_after_store[OF m4 _ s(2) l(2)]
  with s(1) l(1) r(2)[of 0] show "\<exists>sh1 v sh2. mc_STOREV32 a w be sh = Some sh1 \<and> mc_LOADV32 a be sh1 = Some (v, sh2) \<and> errors sh2 = errors sh \<and>
      (\<forall>i < 4. byte_of v i = byte_of w i)"
    by auto
qed

theorem store_load_roundtrip_witness:
  "(\<exists>sh1 sh2. mc_STOREV64 4096 0x0123 True sample_shadow = Some sh1 \<and> mc_LOADV64 4096 True sh1 = Some (0x0123, sh2) \<and>
      errors sh2 = errors sample_shadow) \<and>
    (\<exists>sh1 v sh2. mc_STOREV32 4096 0x0123 True sample_shadow = Some sh1 \<and> mc_LOADV32 4096 True sh1 = Some (v, sh2) \<and>
      errors sh2 = errors sample_shadow \<and> (\<forall>i < 4. byte_of v i = byte_of 0x0123 i))"
  by (rule store_load_roundtrip[OF sample_ok sample_mapped])

text \<open>
  C40. For a two-byte store of defined V bits to an aligned address in the primary map with an inaccessible byte, the handler reports the
  address error twice; the slow case that it stands for reports it once. The bytes are the same after both.
\<close>

theorem storev16_reports_twice:
  assumes "shadow_ok sh" "\<not> UNALIGNED_OR_HIGH a 16" "\<not> mapped (vb sh) a 2"
  shows "\<exists>sh1 sh2. mc_STOREV16 a V_BITS16_DEFINED be sh = Some sh1 \<and> mc_STOREVn_slow a 16 V_BITS16_DEFINED be sh = Some sh2 \<and>
    vb sh1 = vb sh2 \<and> (let e = \<lparr>err_addr = a, err_szB = 2, err_isWrite = True\<rparr> in
      errors sh1 = errors sh @ [e, e] \<and> errors sh2 = errors sh @ [e])"
  using STOREV16_spec[OF assms(1), of V_BITS16_DEFINED a be] stores_slow(2)[OF assms(1), of a be V_BITS16_DEFINED] assms(2,3)
  by (auto simp: stores_def store_result_def Let_def numeral_2_eq_2)

theorem storev16_reports_twice_witness:
  "\<exists>sh1 sh2. mc_STOREV16 4096 V_BITS16_DEFINED False (init_shadow_memory (\<lambda>s l. l) False) = Some sh1 \<and>
    mc_STOREVn_slow 4096 16 V_BITS16_DEFINED False (init_shadow_memory (\<lambda>s l. l) False) = Some sh2 \<and>
    vb sh1 = vb sh2 \<and> (let e = \<lparr>err_addr = 4096, err_szB = 2, err_isWrite = True\<rparr> in
      errors sh1 = errors (init_shadow_memory (\<lambda>s l. l) False) @ [e, e] \<and>
      errors sh2 = errors (init_shadow_memory (\<lambda>s l. l) False) @ [e])"
proof (rule storev16_reports_twice[OF init_ok])
  show "\<not> UNALIGNED_OR_HIGH 4096 16" by code_simp
  have "vb (init_shadow_memory (\<lambda>s l. l) False) 4096 = None" using init_va by (simp add: vb_def)
  then show "\<not> mapped (vb (init_shadow_memory (\<lambda>s l. l) False)) 4096 2" by (auto simp: mapped_def intro!: exI[of _ 0])
qed


section \<open>The stack\<close>

text \<open>
  C18. Every routine for a moving stack pointer makes exactly the bytes between the old and the new end of the stack, shifted by the red zone,
  undefined or inaccessible, at every alignment; so do the routines for the red zone itself.
\<close>

theorem stack_routines_exact:
  assumes "shadow_ok sh" "n \<in> set stack_sizes" "160 \<le> unat (sp - 128)" "unat (sp - 128) + 160 \<le> 2 ^ 64"
    "unat base + unat len \<le> 2 ^ 64" "unat base + 128 \<le> 2 ^ 64"
  shows "sets (sp - 128) n (Some V_BITS8_UNDEFINED) sh (new_mem_stack_n n sp sh) \<and>
    sets (sp - 128 - of_nat n) n None sh (die_mem_stack_n n sp sh) \<and>
    sets base (unat len) (Some V_BITS8_UNDEFINED) sh (helperc_MAKE_STACK_UNINIT_no_o base len sh) \<and>
    sets base 128 (Some V_BITS8_UNDEFINED) sh (helperc_MAKE_STACK_UNINIT_128_no_o base sh)"
  using new_stack_sets[OF assms(1,2,4)] die_stack_sets[OF assms(1-3)] MAKE_STACK_UNINIT_no_o_spec[OF assms(1,5)]
    MAKE_STACK_UNINIT_128_no_o_spec[OF assms(1,6)] by blast

theorem stack_routines_exact_witness:
  "sets (4100 - 128) 12 (Some V_BITS8_UNDEFINED) sample_shadow (new_mem_stack_n 12 4100 sample_shadow) \<and>
    sets (4100 - 128 - of_nat 12) 12 None sample_shadow (die_mem_stack_n 12 4100 sample_shadow) \<and>
    sets 65528 (unat (288 :: u64)) (Some V_BITS8_UNDEFINED) sample_shadow (helperc_MAKE_STACK_UNINIT_no_o 65528 288 sample_shadow) \<and>
    sets 65528 128 (Some V_BITS8_UNDEFINED) sample_shadow (helperc_MAKE_STACK_UNINIT_128_no_o 65528 sample_shadow)"
  by (rule stack_routines_exact[OF sample_ok]) (simp_all add: stack_sizes_def)

end
