(* ===== verification/Leak_Scan.thy ===== *)
theory Leak_Scan
  imports Leak_Props Shadow_Theorems
begin

text \<open>
  The leak checker on top of the shadow memory: what \<^verbatim>\<open>lc_scan_memory\<close> skips by whole secondary maps and pages cannot hold a
  pointer, so a scan looks at exactly the aligned words of its range whose bytes are all defined.
\<close>

section \<open>Skipping\<close>

text \<open>The contract of the three questions a scan asks: answers that agree inside a page or a secondary map.\<close>

definition skip_ok :: "lc_env \<Rightarrow> bool" where
  "skip_ok env \<longleftrightarrow>
     (\<forall>p. is_valid_aligned_word env p \<longrightarrow> is_within_valid_secondary env p) \<and>
     (\<forall>p q. unat p div 65536 = unat q div 65536 \<longrightarrow> is_within_valid_secondary env p = is_within_valid_secondary env q) \<and>
     (\<forall>p q. unat p div 4096 = unat q div 4096 \<longrightarrow> am_is_valid_for_client env p 8 = am_is_valid_for_client env q 8)"

definition looked_at :: "lc_env \<Rightarrow> nat \<Rightarrow> bool" where
  "looked_at env x \<longleftrightarrow> 8 dvd x \<and> is_valid_aligned_word env (of_nat x) \<and> am_is_valid_for_client env (of_nat x) 8"

definition words_in :: "lc_env \<Rightarrow> nat \<Rightarrow> nat \<Rightarrow> addr list" where
  "words_in env s t = map of_nat (filter (looked_at env) [s..<t])"

lemma filter_upt: "b \<le> n \<Longrightarrow> filter Q [a..<b] = filter (\<lambda>x. Q x \<and> a \<le> x \<and> x < b) [0..<n]"
proof (induction n)
  case (Suc n)
  show ?case
  proof (cases "b \<le> n")
    case False
    then have b: "b = Suc n" using Suc.prems by simp
    have "filter (\<lambda>x. Q x \<and> a \<le> x \<and> x < Suc n) [0..<Suc n] = filter (\<lambda>x. Q x \<and> a \<le> x) [0..<Suc n]" by (rule filter_cong) auto
    also have "\<dots> = filter Q (filter (\<lambda>x. a \<le> x) [0..<Suc n])" by (simp only: filter_filter conj_commute)
    also have "filter (\<lambda>x. a \<le> x) [0..<Suc n] = [a..<Suc n]" by (induction n) auto
    finally show ?thesis by (simp only: b)
  qed (use Suc in auto)
qed simp

lemma words_in_cong:
  assumes "\<And>x. looked_at env x \<Longrightarrow> (a \<le> x \<and> x < b) = (c \<le> x \<and> x < d)"
  shows "words_in env a b = words_in env c d"
proof -
  have "filter (looked_at env) [a..<b] = filter (looked_at env) [c..<d]"
    unfolding filter_upt[of b "max b d" _ a, OF max.cobounded1] filter_upt[of d "max b d" _ c, OF max.cobounded2]
    using assms by (intro filter_cong) auto
  then show ?thesis by (simp add: words_in_def)
qed

lemma words_in_split:
  assumes "s \<le> m" "\<forall>x. s \<le> x \<and> x < m \<and> x < t \<longrightarrow> \<not> looked_at env x"
  shows "words_in env s t = words_in env m t"
  by (rule words_in_cong) (use assms in \<open>metis le_trans not_le_imp_less\<close>)

lemma words_in_step:
  assumes "8 dvd s" "s < t"
  shows "words_in env s t = (if looked_at env s then [of_nat s] else []) @ words_in env (s + 8) t"
proof -
  have "\<not> looked_at env x" if "Suc s \<le> x" "x < s + 8" for x
  proof
    assume "looked_at env x"
    then have "8 dvd x - s" using assms(1) by (simp add: looked_at_def dvd_diff_nat)
    then show False using that by (auto dest: dvd_imp_le)
  qed
  then have "words_in env (Suc s) t = words_in env (s + 8) t" by (intro words_in_split) auto
  moreover have "[s..<t] = s # [Suc s..<t]" using assms(2) by (rule upt_conv_Cons)
  ultimately show ?thesis by (simp add: words_in_def)
qed

lemma of_nat_addr: "x < 2 ^ 64 \<Longrightarrow> unat (of_nat x :: addr) = x"
  by (rule unat_off)

lemma skip_okD:
  assumes "skip_ok env"
  shows "is_valid_aligned_word env p \<Longrightarrow> is_within_valid_secondary env p"
    "unat p div 65536 = unat q div 65536 \<Longrightarrow> is_within_valid_secondary env p = is_within_valid_secondary env q"
    "unat p div 4096 = unat q div 4096 \<Longrightarrow> am_is_valid_for_client env p 8 = am_is_valid_for_client env q 8"
  using assms unfolding skip_ok_def by blast+

lemma skip_secondary:
  assumes "skip_ok env" "\<not> is_within_valid_secondary env p" "x div 65536 = unat p div 65536" "x < 2 ^ 64"
  shows "\<not> looked_at env x"
proof -
  have "unat (of_nat x :: addr) div 65536 = unat p div 65536" using assms(3) by (simp only: of_nat_addr[OF assms(4)])
  from skip_okD(2)[OF assms(1) this] assms(2) show ?thesis using skip_okD(1)[OF assms(1)] unfolding looked_at_def by blast
qed

lemma skip_page:
  assumes "skip_ok env" "\<not> am_is_valid_for_client env p 8" "x div 4096 = unat p div 4096" "x < 2 ^ 64"
  shows "\<not> looked_at env x"
proof -
  have "unat (of_nat x :: addr) div 4096 = unat p div 4096" using assms(3) by (simp only: of_nat_addr[OF assms(4)])
  from skip_okD(3)[OF assms(1) this] assms(2) show ?thesis unfolding looked_at_def by blast
qed

lemma next_word_page:
  fixes y :: nat
  assumes "8 dvd y"
  shows "(y + 8) mod 4096 = 0 \<or> (y + 8) div 4096 = y div 4096"
proof -
  obtain k where k: "y = 8 * k" using assms by blast
  have "(8 * k + 8) mod 4096 = 8 * ((k + 1) mod 512)" "(8 * k + 8) div 4096 = (k + 1) div 512" "8 * k div 4096 = k div 512"
    using mod_mult_mult1[of 8 "k + 1" 512] div_mult_mult1[of 8 "k + 1" 512] div_mult_mult1[of 8 k 512] by (simp_all add: add.commute)
  moreover have "(k + 1) mod 512 = 0 \<or> (k + 1) div 512 = k div 512" by (simp add: div_Suc mod_Suc)
  ultimately show ?thesis unfolding k by auto
qed

text \<open>The loop, from an address whose page is valid or checked next.\<close>

lemma same_block:
  fixes x y d :: nat
  assumes "y \<le> x" "x < (y div d + 1) * d" "0 < d"
  shows "x div d = y div d"
proof (rule antisym)
  show "y div d \<le> x div d" using assms(1) by (rule div_le_mono)
  have "x div d < y div d + 1" using assms(2,3) by (simp only: div_less_iff_less_mult)
  then show "x div d \<le> y div d" by simp
qed

lemma skip_to_secondary:
  assumes "skip_ok env" "ptr mod SM_SIZE = 0" "\<not> is_within_valid_secondary env ptr" "unat ptr < unat end" "8 dvd unat ptr"
    "unat end + 65536 < 2 ^ 64"
  defines "q \<equiv> VG_ROUNDUP (ptr + 1) SM_SIZE"
  shows "unat ptr + 8 \<le> unat q \<and> 8 dvd unat q \<and> unat q mod 4096 = 0 \<and>
    words_in env (unat ptr) (unat end) = words_in env (unat q) (unat end)"
proof -
  have m: "unat ptr mod 65536 = 0" using arg_cong[OF assms(2), of unat] by (simp add: unat_mod SM_SIZE_def)
  have q: "unat q = (unat ptr div 65536 + 1) * 65536"
    using unat_ROUNDUP[of SM_SIZE 16 "ptr + 1"] assms(4,6) by (simp add: q_def SM_SIZE_def unat_word_ariths div_add_self2)
  have "unat ptr = unat ptr div 65536 * 65536" using m by (metis add.right_neutral div_mult_mod_eq)
  with q have d: "unat q = unat ptr + 65536" by (metis add_mult_distrib mult_1)
  have "\<not> looked_at env x" if "unat ptr \<le> x" "x < unat q" "x < unat end" for x
    by (rule skip_secondary[OF assms(1,3) same_block]) (use that q assms(6) in simp_all)
  then have "words_in env (unat ptr) (unat end) = words_in env (unat q) (unat end)" by (intro words_in_split) (auto simp: d)
  moreover have "8 dvd unat q" "unat q mod 4096 = 0" unfolding q by (simp_all add: mod_mult_self2_is_0 mod_mult_right_eq[symmetric] dvd_mult)
  ultimately show ?thesis using d by simp
qed

lemma skip_to_page:
  assumes "skip_ok env" "ptr mod VKI_PAGE_SIZE = 0" "\<not> am_is_valid_for_client env ptr 8" "unat ptr < unat end" "8 dvd unat ptr"
    "unat end + 65536 < 2 ^ 64"
  defines "q \<equiv> ptr + VKI_PAGE_SIZE"
  shows "unat ptr + 8 \<le> unat q \<and> 8 dvd unat q \<and> unat q mod 4096 = 0 \<and>
    words_in env (unat ptr) (unat end) = words_in env (unat q) (unat end)"
proof -
  have m: "unat ptr mod 4096 = 0" using arg_cong[OF assms(2), of unat] by (simp add: unat_mod VKI_PAGE_SIZE_def)
  have d: "unat q = unat ptr + 4096" using assms(4,6) by (simp add: q_def VKI_PAGE_SIZE_def unat_word_ariths)
  have "unat ptr = unat ptr div 4096 * 4096" using m by (metis add.right_neutral div_mult_mod_eq)
  with d have q: "unat q = (unat ptr div 4096 + 1) * 4096" by (metis add_mult_distrib mult_1)
  have "\<not> looked_at env x" if "unat ptr \<le> x" "x < unat q" "x < unat end" for x
    by (rule skip_page[OF assms(1,3) same_block]) (use that q assms(6) in simp_all)
  then have "words_in env (unat ptr) (unat end) = words_in env (unat q) (unat end)" by (intro words_in_split) (auto simp: d)
  then show ?thesis using d m assms(5) by simp
qed

lemma step_word:
  assumes "skip_ok env" "\<not> (ptr mod VKI_PAGE_SIZE = 0 \<and> \<not> am_is_valid_for_client env ptr 8)"
    "unat ptr mod 4096 = 0 \<or> am_is_valid_for_client env ptr 8" "unat ptr < unat end" "8 dvd unat ptr" "unat end + 65536 < 2 ^ 64"
  shows "unat ptr + 8 \<le> unat (ptr + 8) \<and> 8 dvd unat (ptr + 8) \<and> (unat (ptr + 8) mod 4096 = 0 \<or> am_is_valid_for_client env (ptr + 8) 8) \<and>
    words_in env (unat ptr) (unat end) = (if is_valid_aligned_word env ptr then [ptr] else []) @ words_in env (unat (ptr + 8)) (unat end)"
proof -
  have p: "(ptr mod VKI_PAGE_SIZE = 0) = (unat ptr mod 4096 = 0)" by (simp add: word_unat_eq_iff unat_mod VKI_PAGE_SIZE_def)
  have v: "am_is_valid_for_client env ptr 8" using assms(2,3) unfolding p by blast
  have d: "unat (ptr + 8) = unat ptr + 8" using assms(4,6) by (simp add: unat_word_ariths)
  have n: "unat (ptr + 8) mod 4096 = 0 \<or> am_is_valid_for_client env (ptr + 8) 8"
    using next_word_page[OF assms(5)] skip_okD(3)[OF assms(1), of "ptr + 8" ptr] v unfolding d by blast
  have l: "looked_at env (unat ptr) = is_valid_aligned_word env ptr" using v assms(5) by (simp add: looked_at_def)
  show ?thesis using words_in_step[OF assms(5,4), of env] n assms(5) unfolding d l by simp
qed

lemma scan_words_filter:
  assumes "skip_ok env" "8 dvd unat ptr" "unat end + 65536 < 2 ^ 64" "unat end \<le> unat ptr + 8 * (fuel - 1)" "0 < fuel"
    and "unat ptr mod 4096 = 0 \<or> am_is_valid_for_client env ptr 8"
  shows "scan_words fuel env end ptr = words_in env (unat ptr) (unat end)"
  using assms(2-6)
proof (induction fuel arbitrary: ptr)
  case (Suc fuel)
  show ?case
  proof (cases "ptr < end")
    case True
    then have lt: "unat ptr < unat end" by (simp add: word_less_nat_alt)
    have adv: "scan_words fuel env end q = words_in env (unat q) (unat end)"
      if "unat ptr + 8 \<le> unat q" "8 dvd unat q" "unat q mod 4096 = 0 \<or> am_is_valid_for_client env q 8" for q
    proof (rule Suc.IH[OF that(2) Suc.prems(2) _ _ that(3)])
      have "fuel \<noteq> 0" using Suc.prems(3) lt by (cases fuel) auto
      then show "0 < fuel" "unat end \<le> unat q + 8 * (fuel - 1)" using Suc.prems(3) that(1) by auto
    qed
    consider (A) "ptr mod SM_SIZE = 0" "\<not> is_within_valid_secondary env ptr"
      | (B) "\<not> (ptr mod SM_SIZE = 0 \<and> \<not> is_within_valid_secondary env ptr)" "ptr mod VKI_PAGE_SIZE = 0" "\<not> am_is_valid_for_client env ptr 8"
      | (C) "\<not> (ptr mod SM_SIZE = 0 \<and> \<not> is_within_valid_secondary env ptr)"
        "\<not> (ptr mod VKI_PAGE_SIZE = 0 \<and> \<not> am_is_valid_for_client env ptr 8)" by blast
    then show ?thesis
    proof cases
      case A
      from skip_to_secondary[OF assms(1) A lt Suc.prems(1,2)] adv show ?thesis using True A by simp
    next
      case B
      from skip_to_page[OF assms(1) B(2,3) lt Suc.prems(1,2)] adv show ?thesis using True B by auto
    next
      case C
      from step_word[OF assms(1) C(2) Suc.prems(5) lt Suc.prems(1,2)] adv[of "ptr + 8"] show ?thesis using True C by auto
    qed
  next
    case False
    then have "unat end \<le> unat ptr" by (simp add: word_less_nat_alt)
    with False show ?thesis by (simp add: words_in_def)
  qed
qed simp


text \<open>A whole range: the aligned words that lie inside it.\<close>

lemma scan_start_words:
  assumes "skip_ok env" "unat p + 2 * 65536 \<le> 2 ^ 64 + 8" "8 dvd unat p" "t < 2 ^ 64"
  shows "words_in env (unat (scan_start env p)) t = words_in env (unat p) t \<and>
    (unat (scan_start env p) mod 4096 = 0 \<or> am_is_valid_for_client env (scan_start env p) 8)"
proof -
  have p1: "unat (p + 1) = unat p + 1" using assms(2) by (simp add: unat_word_ariths)
  have up: "unat (VG_ROUNDUP (p + 1) a) = (unat p div unat a + 1) * unat a" if "(a, k) \<in> {(4096, 12 :: nat), (65536, 16)}" for a k
  proof -
    have "unat (VG_ROUNDUP (p + 1) a) = (unat p + unat a) div unat a * unat a"
      using unat_ROUNDUP[of a k "p + 1"] that assms(2) p1 by auto
    moreover have "0 < unat a" using that by auto
    ultimately show ?thesis by (simp add: div_add_self2)
  qed
  note up4 = up[of 4096 12, simplified] and up64 = up[of 65536 16, simplified]
  have le: "y \<le> (y div d + 1) * d" if "0 < d" for y d :: nat
    using dividend_less_div_times[OF that, of y] by (simp add: add.commute)
  consider (A) "\<not> is_within_valid_secondary env p" | (B) "is_within_valid_secondary env p" "\<not> am_is_valid_for_client env p 8"
    | (C) "is_within_valid_secondary env p" "am_is_valid_for_client env p 8" by blast
  then show ?thesis
  proof cases
    case A
    then have e: "unat (scan_start env p) = (unat p div 65536 + 1) * 65536" by (simp add: scan_start_def SM_SIZE_def up64)
    have "words_in env (unat p) t = words_in env (unat (scan_start env p)) t"
      by (rule words_in_split) (use e le[of 65536] skip_secondary[OF assms(1) A same_block] assms(4) in auto)
    then show ?thesis unfolding e by (simp add: mod_mult_right_eq[symmetric])
  next
    case B
    then have e: "unat (scan_start env p) = (unat p div 4096 + 1) * 4096" by (simp add: scan_start_def VKI_PAGE_SIZE_def up4)
    have "words_in env (unat p) t = words_in env (unat (scan_start env p)) t"
      by (rule words_in_split) (use e le[of 4096] skip_page[OF assms(1) B(2) same_block] assms(4) in auto)
    then show ?thesis unfolding e by simp
  qed (simp add: scan_start_def)
qed

lemma multiples_between:
  fixes x s l :: nat
  assumes "8 dvd x"
  shows "((s + 7) div 8 * 8 \<le> x \<and> x < (s + l) div 8 * 8) = (s \<le> x \<and> x < s + l - 7)"
proof -
  obtain k where k: "x = 8 * k" using assms by blast
  have "(s + 7) div 8 * 8 \<le> 8 * k \<longleftrightarrow> (s + 7) div 8 < k + 1" by auto
  also have "\<dots> \<longleftrightarrow> s \<le> 8 * k" by (simp only: div_less_iff_less_mult zero_less_numeral) auto
  finally have a: "(s + 7) div 8 * 8 \<le> 8 * k \<longleftrightarrow> s \<le> 8 * k" .
  have "8 * k < (s + l) div 8 * 8 \<longleftrightarrow> k + 1 \<le> (s + l) div 8" by auto
  also have "\<dots> \<longleftrightarrow> 8 * k < s + l - 7" by (simp only: less_eq_div_iff_mult_less_eq zero_less_numeral) auto
  finally show ?thesis using a unfolding k by blast
qed

lemma block_words_filter:
  assumes "skip_ok env" "range_ok start len"
  shows "block_words env start len = words_in env (unat start) (unat start + unat len - 7)"
proof -
  let ?p = "VG_ROUNDUP start 8" and ?q = "VG_ROUNDDN (start + len) 8"
  have p: "unat ?p = (unat start + 7) div 8 * 8" using unat_ROUNDUP[of 8 3 start] assms(2) by (simp add: range_ok_def)
  have "unat (start + len) = unat start + unat len" using assms(2) by (simp add: range_ok_def unat_word_ariths)
  then have e: "unat ?q = (unat start + unat len) div 8 * 8" by (simp add: unat_ROUNDDN8)
  have d: "8 dvd unat ?p" using p by simp
  have b: "unat ?p + 2 * 65536 \<le> 2 ^ 64 + 8"
    using p assms(2) div_times_less_eq_dividend[of "unat start + 7" 8] by (simp add: range_ok_def)
  have h: "unat ?q + 65536 < 2 ^ 64" "unat ?q < 2 ^ 64"
    using e assms(2) div_times_less_eq_dividend[of "unat start + unat len" 8] by (simp_all add: range_ok_def)
  note s = scan_start_ok[OF d b, of env] and w = scan_start_words[OF assms(1) b d h(2)]
  have f: "unat ?q \<le> unat (scan_start env ?p) + 8 * (unat len div 8 + 2 - 1)"
    using round_range[of "unat start" "unat len"] s p e by (simp add: word_le_nat_alt)
  have "block_words env start len = words_in env (unat (scan_start env ?p)) (unat ?q)"
    unfolding block_words_def using s w f h by (intro scan_words_filter[OF assms(1)]) simp_all
  also have "\<dots> = words_in env (unat ?p) (unat ?q)" using w by simp
  also have "\<dots> = words_in env (unat start) (unat start + unat len - 7)"
    unfolding p e by (rule words_in_cong) (use multiples_between in \<open>auto simp: looked_at_def\<close>)
  finally show ?thesis .
qed



section \<open>The answers of the shadow memory\<close>

lemma entry_inj:
  assumes "unat a mod 4 = 0" "\<forall>i < 4. extract_vabits2_from_vabits8 (a + of_nat i) w = extract_vabits2_from_vabits8 (a + of_nat i) v"
  shows "w = v"
proof (rule bit_eqI)
  fix n
  show "bit w n = bit v n"
  proof (cases "n < 8")
    case True
    let ?i = "n div 2"
    have i: "?i < 4" using True by simp
    have "unat (a + of_nat ?i) mod 4 = (unat a + ?i) mod 4" by (rule unat_add_mod) simp
    also have "\<dots> = ?i" using assms(1) i by (simp add: mod_add_eq[symmetric])
    finally have "2 * (unat (a + of_nat ?i) mod 4) + n mod 2 = n" by simp
    then have "bit (extract_vabits2_from_vabits8 (a + of_nat ?i) x) (n mod 2) = bit x n" for x by (simp add: bit_extract)
    then show ?thesis using assms(2) i by metis
  next
    case False
    then show ?thesis using bit_imp_le_length[of w n] bit_imp_le_length[of v n] by auto
  qed
qed

lemma cell_defined:
  assumes "shadow_ok sh" "VG_IS_4_ALIGNED a"
  shows "cell sh a = VA_BITS8_DEFINED \<longleftrightarrow> (\<forall>i < 4. vb sh (a + of_nat i) = Some V_BITS8_DEFINED)"
proof -
  have al: "unat a mod 4 = 0" using assms(2) by (simp add: aligned4)
  have c: "extract_vabits2_from_vabits8 b VA_BITS8_DEFINED = VA_BITS2_DEFINED" for b
    using uniform8_consts(1) by (simp add: uniform8_def)
  have e: "va sh (a + of_nat i) = extract_vabits2_from_vabits8 (a + of_nat i) (cell sh a)" if "i < 4" for i
    by (rule va_cell[OF assms(2)]) (use that in \<open>simp add: unat_off\<close>)
  have "cell sh a = VA_BITS8_DEFINED \<longleftrightarrow> (\<forall>i < 4. va sh (a + of_nat i) = VA_BITS2_DEFINED)"
    using entry_inj[OF al, of "cell sh a" VA_BITS8_DEFINED] e c by auto
  then show ?thesis by (simp only: va_defined_iff[OF assms(1)])
qed

lemma valid_word_spec:
  assumes "shadow_ok sh" "VG_IS_8_ALIGNED a"
  shows "\<exists>sh'. is_valid_aligned_word_sh ignored a sh =
    Some ((\<forall>i < 8. vb sh (a + of_nat i) = Some V_BITS8_DEFINED) \<and> \<not> ignored a, sh') \<and> same_mem sh sh'"
proof -
  have a8: "unat a mod 8 = 0" using assms(2) mod8_cases(1) by blast
  have e: "unat (a + of_nat 4) mod 8 = (unat a + 4) mod 8" by (rule unat_add_mod) simp
  have al: "VG_IS_4_ALIGNED a" "VG_IS_4_ALIGNED (a + 4)"
    unfolding mod8_cases(2) using a8 e by (simp_all add: mod_add_eq[symmetric])
  from get8_spec[OF shadow_okD(1)[OF assms(1)], of a] obtain sh1 where
    1: "get_vabits8_for_aligned_word32 a sh = Some (cell sh a, sh1)" "unseen sh sh1" by blast
  have m1: "same_mem sh sh1" by (rule unseen_same[OF assms(1) 1(2)])
  then have ok1: "shadow_ok sh1" "vb sh1 = vb sh" by (simp_all add: same_mem_def)
  from get8_spec[OF shadow_okD(1)[OF ok1(1)], of "a + 4"] obtain sh2 where
    2: "get_vabits8_for_aligned_word32 (a + 4) sh1 = Some (cell sh1 (a + 4), sh2)" "unseen sh1 sh2" by blast
  have m2: "same_mem sh sh2" by (rule same_mem_trans[OF m1 unseen_same[OF ok1(1) 2(2)]])
  have "(\<forall>i < 8. P i) \<longleftrightarrow> (\<forall>i < 4. P i) \<and> (\<forall>i < 4. P (4 + i))" for P :: "nat \<Rightarrow> bool"
    by (simp add: All_less_Suc2 numeral_eq_Suc)
  then have s: "(\<forall>i < 8. vb sh (a + of_nat i) = Some V_BITS8_DEFINED) \<longleftrightarrow>
      cell sh a = VA_BITS8_DEFINED \<and> cell sh1 (a + 4) = VA_BITS8_DEFINED"
    unfolding cell_defined[OF assms(1) al(1)] cell_defined[OF ok1(1) al(2)] ok1(2) by (simp add: add.assoc)
  show ?thesis unfolding s is_valid_aligned_word_sh_def using assms(2) 1(1) 2(1) m1 m2 by simp
qed

lemma secondary_spec:
  assumes "shadow_ok sh"
  shows "\<exists>sh'. is_within_valid_secondary_sh a sh = Some (sm_of sh a \<noteq> Distinguished SM_DIST_NOACCESS, sh') \<and> same_mem sh sh'"
proof (cases "a \<le> MAX_PRIMARY_ADDRESS")
  case True
  then show ?thesis using same_mem_refl[OF assms]
    by (simp add: is_within_valid_secondary_sh_def maybe_get_secmap_for_def reading_low)
next
  case False
  then have h: "a > MAX_PRIMARY_ADDRESS" by simp
  from maybe_find_spec[OF shadow_okD(1)[OF assms] h] obtain sh1 where
    f: "maybe_find_in_auxmap a sh = Some (if base_64k a \<in> fst ` set (auxmap_L2 sh) then Some (base_64k a) else None, sh1)"
    "unseen sh sh1" "auxmap_L2 sh1 = auxmap_L2 sh" by blast
  have "sm_of sh a = (case map_of (auxmap_L2 sh) (base_64k a) of Some sm \<Rightarrow> sm | None \<Rightarrow> Distinguished SM_DIST_NOACCESS)"
    using False by (simp add: sm_of_def)
  moreover have "base_64k a \<in> fst ` set (auxmap_L2 sh) \<longleftrightarrow> map_of (auxmap_L2 sh) (base_64k a) \<noteq> None"
    by (metis map_of_eq_None_iff)
  ultimately show ?thesis using False f unseen_same[OF assms f(2)]
    by (auto simp: is_within_valid_secondary_sh_def maybe_get_secmap_for_def split: option.splits)
qed



section \<open>The scan of a range\<close>

text \<open>
  The leak checker asks the shadow memory about pages and words. The answers depend on the V bits and the maps only, so
  that it does not matter that a question may rearrange the front cache.
\<close>

definition shadow_env :: "(addr \<Rightarrow> bool) \<Rightarrow> shadow \<Rightarrow> lc_env \<Rightarrow> lc_env" where
  "shadow_env ignored sh env = env\<lparr>
     is_within_valid_secondary := \<lambda>a. map_option fst (is_within_valid_secondary_sh a sh) = Some True,
     is_valid_aligned_word := \<lambda>a. map_option fst (is_valid_aligned_word_sh ignored a sh) = Some True\<rparr>"

text \<open>The address space manager keeps segments of whole pages.\<close>

definition page_granular :: "lc_env \<Rightarrow> bool" where
  "page_granular env \<longleftrightarrow>
     (\<forall>p q. unat p div 4096 = unat q div 4096 \<longrightarrow> am_is_valid_for_client env p 8 = am_is_valid_for_client env q 8)"

definition defined_word :: "shadow \<Rightarrow> addr \<Rightarrow> bool" where
  "defined_word sh a \<longleftrightarrow> (\<forall>i < 8. vb sh (a + of_nat i) = Some V_BITS8_DEFINED)"

lemma shadow_env_word:
  assumes "shadow_ok sh"
  shows "is_valid_aligned_word (shadow_env ignored sh env) a \<longleftrightarrow> VG_IS_8_ALIGNED a \<and> defined_word sh a \<and> \<not> ignored a"
proof (cases "VG_IS_8_ALIGNED a")
  case True
  from valid_word_spec[OF assms True, of ignored] True show ?thesis by (auto simp: shadow_env_def defined_word_def)
qed (simp add: shadow_env_def is_valid_aligned_word_sh_def)

lemma shadow_env_secondary:
  assumes "shadow_ok sh"
  shows "is_within_valid_secondary (shadow_env ignored sh env) a \<longleftrightarrow> sm_of sh a \<noteq> Distinguished SM_DIST_NOACCESS"
  using secondary_spec[OF assms, of a] by (auto simp: shadow_env_def)

lemma noaccess_map:
  assumes "sm_of sh a = Distinguished SM_DIST_NOACCESS"
  shows "vb sh a = None"
  using assms by (simp add: vb_def va_def va_of_def dist_vabits8_def extract_vabits2_from_vabits8_def VA_BITS8_NOACCESS_def VA_BITS2_NOACCESS_def)

lemma shadow_env_skip:
  assumes "shadow_ok sh" "page_granular env"
  shows "skip_ok (shadow_env ignored sh env)"
proof -
  have "sm_of sh p \<noteq> Distinguished SM_DIST_NOACCESS" if "defined_word sh p" for p
  proof -
    have "vb sh p = Some V_BITS8_DEFINED" using that[unfolded defined_word_def, rule_format, of 0] by simp
    then show ?thesis using noaccess_map[of sh p] by auto
  qed
  moreover have "am_is_valid_for_client (shadow_env ignored sh env) = am_is_valid_for_client env" by (simp add: shadow_env_def)
  moreover have "sm_of sh p = sm_of sh q" if "unat p div 65536 = unat q div 65536" for p q
    by (rule sm_of_same) (simp only: hi_eq_iff that)
  ultimately show ?thesis
    using assms(2) unfolding skip_ok_def shadow_env_word[OF assms(1)] shadow_env_secondary[OF assms(1)] page_granular_def by metis
qed

end
