(* ===== verification/Oset.thy ===== *)
theory Oset
  imports Prelude
begin

text \<open>
  The ordered sets of Valgrind, \<^verbatim>\<open>coregrind/m_oset.c\<close>: AVL trees with balance factors, insertion, lookup and removal by key, and an
  iterator with an explicit stack. The maps of the shadow memory are such sets.

  A node of a tree is referred to by its parent only, so a tree is a value; \<^const>\<open>None\<close> is a failed assertion or the use of a null
  pointer. The comparison of a key with an element is an argument, as is the key of an element; \<open>fast_cmp\<close> is the comparison that
  a set without its own one uses. The memory of the nodes and their magic number are not modelled; \<open>OSetGen_Destroy\<close> gives the
  elements of the nodes in the order in which it frees them.
\<close>

section \<open>Trees\<close>

datatype 'e avl = Null | AvlNode "'e avl" 'e int "'e avl"

fun elems :: "'e avl \<Rightarrow> 'e list" where
  "elems Null = []"
| "elems (AvlNode l e b r) = elems l @ e # elems r"

fun avl_height :: "'e avl \<Rightarrow> nat" where
  "avl_height Null = 0"
| "avl_height (AvlNode l e b r) = Suc (max (avl_height l) (avl_height r))"

text \<open>Reading and writing fields through pointers.\<close>

fun balance_of :: "'e avl \<Rightarrow> int option" where
  "balance_of Null = None"
| "balance_of (AvlNode l e b r) = Some b"

fun set_balance :: "int \<Rightarrow> 'e avl \<Rightarrow> 'e avl option" where
  "set_balance c Null = None"
| "set_balance c (AvlNode l e b r) = Some (AvlNode l e c r)"

fun set_left_balance :: "int \<Rightarrow> 'e avl \<Rightarrow> 'e avl option" where
  "set_left_balance c Null = None"
| "set_left_balance c (AvlNode l e b r) = map_option (\<lambda>l. AvlNode l e b r) (set_balance c l)"

fun set_right_balance :: "int \<Rightarrow> 'e avl \<Rightarrow> 'e avl option" where
  "set_right_balance c Null = None"
| "set_right_balance c (AvlNode l e b r) = map_option (\<lambda>r. AvlNode l e b r) (set_balance c r)"

fun root_elem :: "'e avl \<Rightarrow> 'e option" where
  "root_elem Null = None"
| "root_elem (AvlNode l e b r) = Some e"

fun avl_swl :: "'e avl \<Rightarrow> 'e avl option" where
  "avl_swl (AvlNode l e b (AvlNode rl re rb rr)) = Some (AvlNode (AvlNode l e b rl) re rb rr)"
| "avl_swl _ = None"

fun avl_swr :: "'e avl \<Rightarrow> 'e avl option" where
  "avl_swr (AvlNode (AvlNode ll le lb lr) e b r) = Some (AvlNode ll le lb (AvlNode lr e b r))"
| "avl_swr _ = None"

definition avl_nasty :: "'e avl \<Rightarrow> 'e avl option" where
  "avl_nasty t = do {
     b \<leftarrow> balance_of t;
     t \<leftarrow> (if b = -1 then do { t \<leftarrow> set_left_balance 0 t; set_right_balance 1 t }
           else if b = 1 then do { t \<leftarrow> set_left_balance (-1) t; set_right_balance 0 t }
           else if b = 0 then do { t \<leftarrow> set_left_balance 0 t; set_right_balance 0 t }
           else Some t);
     set_balance 0 t
   }"


section \<open>Comparison\<close>

definition fast_cmp :: "('e \<Rightarrow> u64) \<Rightarrow> u64 \<Rightarrow> 'e \<Rightarrow> int" where
  "fast_cmp first_word k e = (let w1 = k; w2 = first_word e in if w1 > w2 then 1 else if w1 < w2 then -1 else 0)"


section \<open>Insertion\<close>

text \<open>
  The rebalancing after the left (right) subtree has grown, with the balance already changed. Where the subtree has grown, the
  code leaves the child pointer of the root as it is: the root of the subtree has to be the same node as before.
\<close>

definition grown_left :: "'e avl \<Rightarrow> (bool \<times> 'e avl) option" where
  "grown_left t = (case t of Null \<Rightarrow> None | AvlNode l e b r \<Rightarrow> do {
     lb \<leftarrow> balance_of l;
     t \<leftarrow> (if lb < 0
           then do { t \<leftarrow> avl_swr t; t \<leftarrow> set_balance 0 t; set_right_balance 0 t }
           else do { l \<leftarrow> avl_swl l; t \<leftarrow> avl_swr (AvlNode l e b r); avl_nasty t });
     Some (False, t)
   })"

definition grown_right :: "'e avl \<Rightarrow> (bool \<times> 'e avl) option" where
  "grown_right t = (case t of Null \<Rightarrow> None | AvlNode l e b r \<Rightarrow> do {
     rb \<leftarrow> balance_of r;
     t \<leftarrow> (if rb > 0
           then do { t \<leftarrow> avl_swl t; t \<leftarrow> set_balance 0 t; set_left_balance 0 t }
           else do { r \<leftarrow> avl_swr r; t \<leftarrow> avl_swl (AvlNode l e b r); avl_nasty t });
     Some (False, t)
   })"

fun avl_insert :: "('k \<Rightarrow> 'e \<Rightarrow> int) \<Rightarrow> ('e \<Rightarrow> 'k) \<Rightarrow> 'e \<Rightarrow> 'e avl \<Rightarrow> (bool \<times> 'e avl) option" where
  "avl_insert cmp key n Null = None"
| "avl_insert cmp key n (AvlNode l e b r) =
     (let cmpres = cmp (key n) e
      in if cmpres < 0
         then (if l \<noteq> Null
               then do {
                 (grown, l') \<leftarrow> avl_insert cmp key n l;
                 if grown
                 then (if root_elem l' \<noteq> root_elem l then None
                       else if b = 1 then Some (False, AvlNode l' e (b - 1) r)
                       else if b = 0 then Some (True, AvlNode l' e (b - 1) r)
                       else grown_left (AvlNode l' e (b - 1) r))
                 else Some (False, AvlNode l' e b r)
               }
               else Some (b = 0, AvlNode (AvlNode Null n 0 Null) e (b - 1) r))
         else if cmpres > 0
         then (if r \<noteq> Null
               then do {
                 (grown, r') \<leftarrow> avl_insert cmp key n r;
                 if grown
                 then (if root_elem r' \<noteq> root_elem r then None
                       else if b = -1 then Some (False, AvlNode l e (b + 1) r')
                       else if b = 0 then Some (True, AvlNode l e (b + 1) r')
                       else grown_right (AvlNode l e (b + 1) r'))
                 else Some (False, AvlNode l e b r')
               }
               else Some (b = 0, AvlNode l e (b + 1) (AvlNode Null n 0 Null)))
         else None)"


section \<open>Lookup\<close>

fun avl_lookup :: "('k \<Rightarrow> 'e \<Rightarrow> int) \<Rightarrow> 'k \<Rightarrow> 'e avl \<Rightarrow> 'e option" where
  "avl_lookup cmp k Null = None"
| "avl_lookup cmp k (AvlNode l e b r) =
     (let cmpres = cmp k e
      in if cmpres < 0 then avl_lookup cmp k l else if cmpres > 0 then avl_lookup cmp k r else Some e)"


section \<open>Removal\<close>

text \<open>The rebalancing after the left (right) subtree has shrunk, with the balance already changed.\<close>

definition shrunk_left :: "'e avl \<Rightarrow> (bool \<times> 'e avl) option" where
  "shrunk_left t = (case t of Null \<Rightarrow> None | AvlNode l e b r \<Rightarrow> do {
     rb \<leftarrow> balance_of r;
     if rb = 0 then do { t \<leftarrow> avl_swl t; t \<leftarrow> set_balance (-1) t; t \<leftarrow> set_left_balance 1 t; Some (False, t) }
     else if rb = 1 then do { t \<leftarrow> avl_swl t; t \<leftarrow> set_balance 0 t; t \<leftarrow> set_left_balance 0 t; Some (True, t) }
     else do { r \<leftarrow> avl_swr r; t \<leftarrow> avl_swl (AvlNode l e b r); t \<leftarrow> avl_nasty t; Some (True, t) }
   })"

definition shrunk_right :: "'e avl \<Rightarrow> (bool \<times> 'e avl) option" where
  "shrunk_right t = (case t of Null \<Rightarrow> None | AvlNode l e b r \<Rightarrow> do {
     lb \<leftarrow> balance_of l;
     if lb = 0 then do { t \<leftarrow> avl_swr t; t \<leftarrow> set_balance 1 t; t \<leftarrow> set_right_balance (-1) t; Some (False, t) }
     else if lb = -1 then do { t \<leftarrow> avl_swr t; t \<leftarrow> set_balance 0 t; t \<leftarrow> set_right_balance 0 t; Some (True, t) }
     else do { l \<leftarrow> avl_swl l; t \<leftarrow> avl_swr (AvlNode l e b r); t \<leftarrow> avl_nasty t; Some (True, t) }
   })"

fun rightmost :: "'e avl \<Rightarrow> 'e option" where
  "rightmost Null = None"
| "rightmost (AvlNode l e b r) = (if r = Null then Some e else rightmost r)"

fun leftmost :: "'e avl \<Rightarrow> 'e option" where
  "leftmost Null = None"
| "leftmost (AvlNode l e b r) = (if l = Null then Some e else leftmost l)"

text \<open>
  \<open>avl_remove\<close> and \<open>avl_removeroot\<close> call each other, the latter with the same tree: each call takes one unit of fuel. A node to remove is
  identified by its element.
\<close>

fun avl_remove :: "nat \<Rightarrow> ('k \<Rightarrow> 'e \<Rightarrow> int) \<Rightarrow> ('e \<Rightarrow> 'k) \<Rightarrow> 'e \<Rightarrow> 'e avl \<Rightarrow> (bool \<times> 'e avl) option"
  and avl_removeroot :: "nat \<Rightarrow> ('k \<Rightarrow> 'e \<Rightarrow> int) \<Rightarrow> ('e \<Rightarrow> 'k) \<Rightarrow> 'e avl \<Rightarrow> (bool \<times> 'e avl) option" where
  "avl_remove 0 cmp key n t = None"
| "avl_remove (Suc fuel) cmp key n Null = None"
| "avl_remove (Suc fuel) cmp key n (AvlNode l e b r) =
     (let cmpres = cmp (key n) e
      in if cmpres < 0
         then (if l = Null then None
               else do {
                 (ch, l') \<leftarrow> avl_remove fuel cmp key n l;
                 if ch
                 then (if b = -1 then Some (True, AvlNode l' e (b + 1) r)
                       else if b = 0 then Some (False, AvlNode l' e (b + 1) r)
                       else shrunk_left (AvlNode l' e (b + 1) r))
                 else Some (False, AvlNode l' e b r)
               })
         else if cmpres > 0
         then (if r = Null then None
               else do {
                 (ch, r') \<leftarrow> avl_remove fuel cmp key n r;
                 if ch
                 then (if b = 1 then Some (True, AvlNode l e (b - 1) r')
                       else if b = 0 then Some (False, AvlNode l e (b - 1) r')
                       else shrunk_right (AvlNode l e (b - 1) r'))
                 else Some (False, AvlNode l e b r')
               })
         else if e = n then avl_removeroot fuel cmp key (AvlNode l e b r) else None)"
| "avl_removeroot 0 cmp key t = None"
| "avl_removeroot (Suc fuel) cmp key Null = None"
| "avl_removeroot (Suc fuel) cmp key (AvlNode l e b r) =
     (if l = Null then (if r = Null then Some (True, Null) else Some (True, r))
      else if r = Null then Some (True, l)
      else do {
        n \<leftarrow> (if b < 0 then rightmost l else leftmost r);
        (ch, t) \<leftarrow> avl_remove fuel cmp key n (AvlNode l e b r);
        case t of Null \<Rightarrow> None
        | AvlNode l' e' b' r' \<Rightarrow> Some (if b' = 0 then ch else False, AvlNode l' n b' r')
      })"


section \<open>Sets\<close>

text \<open>The iterator stack, its top first: a node and how often it has been looked at.\<close>

definition STACK_MAX :: nat where "STACK_MAX = 32"

record 'e oset =
  os_root :: "'e avl"
  os_nElems :: u32
  os_stack :: "('e avl \<times> nat) list"

definition stackPush :: "'e avl \<Rightarrow> nat \<Rightarrow> ('e avl \<times> nat) list \<Rightarrow> ('e avl \<times> nat) list option" where
  "stackPush n i st = (if length st < STACK_MAX \<and> 1 \<le> i \<and> i \<le> 3 then Some ((n, i) # st) else None)"

definition OSetGen_Create :: "'e oset" where
  "OSetGen_Create = \<lparr>os_root = Null, os_nElems = 0, os_stack = []\<rparr>"

definition OSetGen_EmptyClone :: "'e oset \<Rightarrow> 'e oset" where
  "OSetGen_EmptyClone os = \<lparr>os_root = Null, os_nElems = 0, os_stack = []\<rparr>"

definition OSetWord_Create :: "u64 oset" where
  "OSetWord_Create = OSetGen_Create"

definition OSetGen_Insert :: "('k \<Rightarrow> 'e \<Rightarrow> int) \<Rightarrow> ('e \<Rightarrow> 'k) \<Rightarrow> 'e \<Rightarrow> 'e oset \<Rightarrow> 'e oset option" where
  "OSetGen_Insert cmp key n t = do {
     root \<leftarrow> (if os_root t = Null then Some (AvlNode Null n 0 Null)
              else map_option snd (avl_insert cmp key n (os_root t)));
     Some (t\<lparr>os_root := root, os_nElems := os_nElems t + 1, os_stack := []\<rparr>)
   }"

definition OSetWord_Insert :: "u64 \<Rightarrow> u64 oset \<Rightarrow> u64 oset option" where
  "OSetWord_Insert val t = OSetGen_Insert (fast_cmp (\<lambda>w. w)) (\<lambda>w. w) val t"

definition OSetGen_Lookup :: "('k \<Rightarrow> 'e \<Rightarrow> int) \<Rightarrow> 'k \<Rightarrow> 'e oset \<Rightarrow> 'e option" where
  "OSetGen_Lookup cmp k t = avl_lookup cmp k (os_root t)"

text \<open>The comparison function is replaced for one lookup and put back.\<close>

definition OSetGen_LookupWithCmp :: "'e oset \<Rightarrow> 'q \<Rightarrow> ('q \<Rightarrow> 'e \<Rightarrow> int) \<Rightarrow> 'e option" where
  "OSetGen_LookupWithCmp t k cmp = OSetGen_Lookup cmp k t"

definition OSetGen_Contains :: "('k \<Rightarrow> 'e \<Rightarrow> int) \<Rightarrow> 'k \<Rightarrow> 'e oset \<Rightarrow> bool" where
  "OSetGen_Contains cmp k t \<longleftrightarrow> OSetGen_Lookup cmp k t \<noteq> None"

definition OSetWord_Contains :: "u64 oset \<Rightarrow> u64 \<Rightarrow> bool" where
  "OSetWord_Contains t val \<longleftrightarrow> OSetGen_Lookup (fast_cmp (\<lambda>w. w)) val t \<noteq> None"

definition OSetGen_Remove :: "('k \<Rightarrow> 'e \<Rightarrow> int) \<Rightarrow> ('e \<Rightarrow> 'k) \<Rightarrow> 'k \<Rightarrow> 'e oset \<Rightarrow> ('e option \<times> 'e oset) option" where
  "OSetGen_Remove cmp key k t =
     (case avl_lookup cmp k (os_root t) of
        None \<Rightarrow> Some (None, t)
      | Some n \<Rightarrow> do {
          (ch, root) \<leftarrow> avl_remove (3 * avl_height (os_root t) + 3) cmp key n (os_root t);
          Some (Some n, t\<lparr>os_root := root, os_nElems := os_nElems t - 1, os_stack := []\<rparr>)
        })"

definition OSetWord_Remove :: "u64 \<Rightarrow> u64 oset \<Rightarrow> (bool \<times> u64 oset) option" where
  "OSetWord_Remove val t = do {
     (n, t) \<leftarrow> OSetGen_Remove (fast_cmp (\<lambda>w. w)) (\<lambda>w. w) val t;
     Some (n \<noteq> None, t)
   }"

definition OSetGen_Size :: "'e oset \<Rightarrow> u32" where
  "OSetGen_Size t = os_nElems t"

definition OSetWord_Size :: "u64 oset \<Rightarrow> 64 word" where
  "OSetWord_Size t = ucast (OSetGen_Size t)"


section \<open>The iterator\<close>

definition OSetGen_ResetIter :: "'e oset \<Rightarrow> 'e oset option" where
  "OSetGen_ResetIter t =
     (if os_root t = Null then Some (t\<lparr>os_stack := []\<rparr>)
      else do { st \<leftarrow> stackPush (os_root t) 1 []; Some (t\<lparr>os_stack := st\<rparr>) })"

definition OSetWord_ResetIter :: "u64 oset \<Rightarrow> u64 oset option" where
  "OSetWord_ResetIter t = OSetGen_ResetIter t"

text \<open>The jumps to \<^verbatim>\<open>case_1\<close>: a node and its left spine are pushed.\<close>

fun descend :: "'e avl \<Rightarrow> ('e avl \<times> nat) list \<Rightarrow> ('e avl \<times> nat) list option" where
  "descend Null st = None"
| "descend (AvlNode l e b r) st = do {
     st \<leftarrow> stackPush (AvlNode l e b r) 2 st;
     if l \<noteq> Null then descend l st else Some st
   }"

text \<open>What is left to do for the iterator; it decreases with every round of its loop.\<close>

fun tree_work :: "'e avl \<Rightarrow> nat" where
  "tree_work Null = 0"
| "tree_work (AvlNode l e b r) = tree_work l + tree_work r + 3"

fun entry_work :: "'e avl \<times> nat \<Rightarrow> nat" where
  "entry_work (Null, i) = 1"
| "entry_work (AvlNode l e b r, i) = (if i = 1 then tree_work (AvlNode l e b r) + 1 else tree_work r + (if i = 2 then 2 else 1))"

definition stack_work :: "('e avl \<times> nat) list \<Rightarrow> nat" where
  "stack_work st = sum_list (map entry_work st)"

lemma descend_work: "descend t st = Some st' \<Longrightarrow> stack_work st' \<le> stack_work st + tree_work t"
  by (induction t st arbitrary: st' rule: descend.induct)
    (fastforce simp: stackPush_def stack_work_def split: if_splits Option.bind_splits)+

function next_loop :: "('e avl \<times> nat) list \<Rightarrow> ('e option \<times> ('e avl \<times> nat) list) option" where
  "next_loop [] = Some (None, [])"
| "next_loop ((n, i) # st) =
     (case n of Null \<Rightarrow> None
      | AvlNode l e b r \<Rightarrow>
          if i = 1 then (case descend n st of None \<Rightarrow> None | Some st \<Rightarrow> next_loop st)
          else if i = 2 then do { st \<leftarrow> stackPush n 3 st; Some (Some e, st) }
          else if i = 3
          then (if r \<noteq> Null then (case descend r st of None \<Rightarrow> None | Some st \<Rightarrow> next_loop st) else next_loop st)
          else None)"
  by pat_completeness auto
termination
  by (relation "measure stack_work") (auto dest!: descend_work simp: stack_work_def simp del: descend.simps)

declare next_loop.simps(2) [simp del]

definition OSetGen_Next :: "'e oset \<Rightarrow> ('e option \<times> 'e oset) option" where
  "OSetGen_Next t = do { (e, st) \<leftarrow> next_loop (os_stack t); Some (e, t\<lparr>os_stack := st\<rparr>) }"

definition OSetWord_Next :: "u64 oset \<Rightarrow> (u64 option \<times> u64 oset) option" where
  "OSetWord_Next t = OSetGen_Next t"

fun reset_at :: "('k \<Rightarrow> 'e \<Rightarrow> int) \<Rightarrow> 'k \<Rightarrow> 'e avl \<Rightarrow> ('e avl \<times> nat) list \<Rightarrow> ('e avl \<times> nat) list option" where
  "reset_at cmp k Null st = Some st"
| "reset_at cmp k (AvlNode l e b r) st =
     (let cmpres = cmp k e
      in if cmpres = 0 then stackPush (AvlNode l e b r) 2 st
         else if cmpres < 0 then do { st \<leftarrow> stackPush (AvlNode l e b r) 2 st; reset_at cmp k l st }
         else reset_at cmp k r st)"

definition OSetGen_ResetIterAt :: "('k \<Rightarrow> 'e \<Rightarrow> int) \<Rightarrow> 'k \<Rightarrow> 'e oset \<Rightarrow> 'e oset option" where
  "OSetGen_ResetIterAt cmp k t = do { st \<leftarrow> reset_at cmp k (os_root t) []; Some (t\<lparr>os_stack := st\<rparr>) }"


section \<open>Destruction\<close>

text \<open>The post-order traversal: a node is freed when it is popped for the third time. What is left to do decreases with every round.\<close>

fun free_work :: "'e avl \<times> nat \<Rightarrow> nat" where
  "free_work (Null, i) = 0"
| "free_work (AvlNode l e b r, i) = (if i = 1 then tree_work (AvlNode l e b r) else if i = 2 then tree_work r + 2 else 1)"

definition push_child :: "'e avl \<Rightarrow> ('e avl \<times> nat) list \<Rightarrow> ('e avl \<times> nat) list option" where
  "push_child n st = (if n \<noteq> Null then stackPush n 1 st else Some st)"

lemma stackPush_work: "stackPush n i st = Some st' \<Longrightarrow> sum_list (map free_work st') = free_work (n, i) + sum_list (map free_work st)"
  by (auto simp: stackPush_def split: if_splits)

lemma push_child_work: "push_child n st = Some st' \<Longrightarrow> sum_list (map free_work st') = tree_work n + sum_list (map free_work st)"
  by (cases n) (auto simp: push_child_def dest: stackPush_work split: if_splits)

function destroy_loop :: "('e avl \<times> nat) list \<Rightarrow> 'e list \<Rightarrow> 'e list option" where
  "destroy_loop [] freed = Some freed"
| "destroy_loop ((n, i) # st) freed =
     (case n of Null \<Rightarrow> None
      | AvlNode l e b r \<Rightarrow>
          if i = 1 then (case stackPush n 2 st \<bind> push_child l of None \<Rightarrow> None | Some st \<Rightarrow> destroy_loop st freed)
          else if i = 2 then (case stackPush n 3 st \<bind> push_child r of None \<Rightarrow> None | Some st \<Rightarrow> destroy_loop st freed)
          else if i = 3 then destroy_loop st (freed @ [e])
          else None)"
  by pat_completeness auto
termination
  by (relation "measure (\<lambda>(st, freed). sum_list (map free_work st))") (auto simp: bind_eq_Some_conv dest!: stackPush_work push_child_work)

declare destroy_loop.simps(2) [simp del]

text \<open>A set whose nodes are freed one by one: it has no pool of its own, or the pool has other users.\<close>

definition OSetGen_Destroy :: "'e oset \<Rightarrow> 'e list option" where
  "OSetGen_Destroy t = do {
     st \<leftarrow> push_child (os_root t) [];
     freed \<leftarrow> destroy_loop st [];
     if (of_nat (length freed) :: u64) = ucast (os_nElems t) then Some freed else None
   }"

definition OSetWord_Destroy :: "u64 oset \<Rightarrow> u64 list option" where
  "OSetWord_Destroy t = OSetGen_Destroy t"

end
