(* ===== verification/Oset_Props.thy ===== *)
theory Oset_Props
  imports Oset
begin

text \<open>
  The ordered sets are correct for every comparison that is a linear order on keys, the locale \<open>key_order\<close>: the trees stay balanced and
  sorted, no assertion fails, and the operations act on the sorted list of elements. The iterator lists the elements in order
  as long as its stack is large enough.
\<close>

section \<open>Balance\<close>

fun avl_ok :: "'e avl \<Rightarrow> bool" where
  "avl_ok Null \<longleftrightarrow> True"
| "avl_ok (AvlNode l e b r) \<longleftrightarrow> avl_ok l \<and> avl_ok r \<and> b = int (avl_height r) - int (avl_height l) \<and> -1 \<le> b \<and> b \<le> 1"

lemma height_0 [simp]: "avl_height t = 0 \<longleftrightarrow> t = Null"
  by (cases t) auto

lemma elems_Nil [simp]: "elems t = [] \<longleftrightarrow> t = Null"
  by (cases t) auto

lemma high_node: "0 < avl_height t \<Longrightarrow> \<exists>l e b r. t = AvlNode l e b r"
  by (cases t) auto

lemma grown_left_ok:
  assumes "avl_ok l" "avl_ok r" "avl_height l = avl_height r + 2" "balance_of l \<noteq> Some 0"
  shows "\<exists>t. grown_left (AvlNode l e b r) = Some (False, t) \<and> avl_ok t \<and> avl_height t = avl_height l \<and> elems t = elems l @ e # elems r"
proof -
  from high_node[of l] assms(3) obtain ll le lb lr where l: "l = AvlNode ll le lb lr" by auto
  show ?thesis
  proof (cases "lb < 0")
    case True
    with assms show ?thesis by (auto simp: l grown_left_def max_def split: if_splits)
  next
    case False
    then have "lb = 1" using assms(1,4) by (auto simp: l)
    then have "avl_height lr = Suc (avl_height ll)" using assms(1) by (auto simp: l)
    then obtain a x c d where r: "lr = AvlNode a x c d" using high_node[of lr] by auto
    from False assms show ?thesis unfolding l r by (auto simp: grown_left_def avl_nasty_def max_def split: if_splits)
  qed
qed

lemma grown_right_ok:
  assumes "avl_ok l" "avl_ok r" "avl_height r = avl_height l + 2" "balance_of r \<noteq> Some 0"
  shows "\<exists>t. grown_right (AvlNode l e b r) = Some (False, t) \<and> avl_ok t \<and> avl_height t = avl_height r \<and> elems t = elems l @ e # elems r"
proof -
  from high_node[of r] assms(3) obtain rl re rb rr where r: "r = AvlNode rl re rb rr" by auto
  show ?thesis
  proof (cases "rb > 0")
    case True
    with assms show ?thesis by (auto simp: r grown_right_def max_def split: if_splits)
  next
    case False
    then have "rb = -1" using assms(2,4) by (auto simp: r)
    then have "avl_height rl = Suc (avl_height rr)" using assms(2) by (auto simp: r)
    then obtain a x c d where l: "rl = AvlNode a x c d" using high_node[of rl] by auto
    from False assms show ?thesis unfolding l r by (auto simp: grown_right_def avl_nasty_def max_def split: if_splits)
  qed
qed

lemma shrunk_left_ok:
  assumes "avl_ok l" "avl_ok r" "avl_height r = avl_height l + 2"
  shows "\<exists>ch t. shrunk_left (AvlNode l e b r) = Some (ch, t) \<and> avl_ok t \<and> elems t = elems l @ e # elems r \<and>
    avl_height t + (if ch then 1 else 0) = avl_height r + 1"
proof -
  from high_node[of r] assms(3) obtain rl re rb rr where r: "r = AvlNode rl re rb rr" by auto
  show ?thesis
  proof (cases "rb = -1")
    case False
    with assms show ?thesis by (auto simp: r shrunk_left_def max_def split: if_splits)
  next
    case True
    then have "avl_height rl = Suc (avl_height rr)" using assms(2) by (auto simp: r)
    then obtain a x c d where l: "rl = AvlNode a x c d" using high_node[of rl] by auto
    from True assms show ?thesis unfolding l r by (auto simp: shrunk_left_def avl_nasty_def max_def split: if_splits)
  qed
qed

lemma shrunk_right_ok:
  assumes "avl_ok l" "avl_ok r" "avl_height l = avl_height r + 2"
  shows "\<exists>ch t. shrunk_right (AvlNode l e b r) = Some (ch, t) \<and> avl_ok t \<and> elems t = elems l @ e # elems r \<and>
    avl_height t + (if ch then 1 else 0) = avl_height l + 1"
proof -
  from high_node[of l] assms(3) obtain ll le lb lr where l: "l = AvlNode ll le lb lr" by auto
  show ?thesis
  proof (cases "lb = 1")
    case False
    with assms show ?thesis by (auto simp: l shrunk_right_def max_def split: if_splits)
  next
    case True
    then have "avl_height lr = Suc (avl_height ll)" using assms(1) by (auto simp: l)
    then obtain a x c d where r: "lr = AvlNode a x c d" using high_node[of lr] by auto
    from True assms show ?thesis unfolding l r by (auto simp: shrunk_right_def avl_nasty_def max_def split: if_splits)
  qed
qed


section \<open>Extreme elements\<close>

lemma rightmost_last: "t \<noteq> Null \<Longrightarrow> rightmost t = Some (last (elems t))"
  by (induction t) auto

lemma leftmost_hd: "t \<noteq> Null \<Longrightarrow> leftmost t = Some (hd (elems t))"
  by (induction t) (auto simp: hd_append)

lemma remove1_last: "distinct xs \<Longrightarrow> xs \<noteq> [] \<Longrightarrow> remove1 (last xs) xs @ [last xs] = xs"
  by (metis append_butlast_last_id distinct_butlast not_distinct_conv_prefix remove1_append remove1.simps append_Nil2 butlast_snoc distinct_append disjoint_iff list.set_intros(1))

lemma remove1_hd: "xs \<noteq> [] \<Longrightarrow> hd xs # remove1 (hd xs) xs = xs"
  by (cases xs) auto


section \<open>Keys\<close>

text \<open>The comparison of a key with an element agrees with a linear order on the ranks of keys.\<close>

locale key_order =
  fixes cmp :: "'k \<Rightarrow> 'e \<Rightarrow> int" and key :: "'e \<Rightarrow> 'k" and rank :: "'k \<Rightarrow> 'o::linorder"
  assumes cmp_less: "cmp k e < 0 \<longleftrightarrow> rank k < rank (key e)" and cmp_greater: "cmp k e > 0 \<longleftrightarrow> rank k > rank (key e)"
begin

definition rk :: "'e \<Rightarrow> 'o" where "rk e = rank (key e)"

definition ordered :: "'e avl \<Rightarrow> bool" where "ordered t \<longleftrightarrow> sorted_wrt (<) (map rk (elems t))"

lemma cmp_rk: "cmp (key n) e < 0 \<longleftrightarrow> rk n < rk e" "cmp (key n) e > 0 \<longleftrightarrow> rk n > rk e"
  by (simp_all add: cmp_less cmp_greater rk_def)

lemma ordered_node:
  "ordered (AvlNode l e b r) \<longleftrightarrow> ordered l \<and> ordered r \<and> (\<forall>x \<in> set (elems l). rk x < rk e) \<and> (\<forall>x \<in> set (elems r). rk e < rk x)"
  by (auto simp: ordered_def sorted_wrt_append dest: less_trans)

lemma ordered_Null [simp]: "ordered Null"
  by (simp add: ordered_def)

lemma ordered_distinct: "ordered t \<Longrightarrow> distinct (elems t)"
  by (simp add: ordered_def strict_sorted_iff distinct_map)

lemma insort_left: "rk x < rk y \<Longrightarrow> insort_key rk x (xs @ y # ys) = insort_key rk x xs @ y # ys"
  by (induction xs) auto

lemma insort_right: "\<forall>z \<in> set xs. rk z < rk x \<Longrightarrow> insort_key rk x (xs @ ys) = xs @ insort_key rk x ys"
  by (induction xs) auto

lemma lookup_ok:
  assumes "ordered t"
  shows "avl_lookup cmp k t = Some e \<longleftrightarrow> e \<in> set (elems t) \<and> rk e = rank k"
  using assms
proof (induction t)
  case (AvlNode l x b r)
  then have o: "ordered l" "ordered r" "\<forall>y \<in> set (elems l). rk y < rk x" "\<forall>y \<in> set (elems r). rk x < rk y" by (auto simp: ordered_node)
  note ih = AvlNode.IH(1)[OF o(1)] AvlNode.IH(2)[OF o(2)]
  consider "rank k < rk x" | "rank k > rk x" | "rank k = rk x" using linorder_less_linear by blast
  then show ?case
  proof cases
    case 1
    then have "avl_lookup cmp k (AvlNode l x b r) = avl_lookup cmp k l" by (simp add: cmp_less rk_def)
    then show ?thesis using ih(1) 1 o(4) by (auto dest: less_trans)
  next
    case 2
    then have "avl_lookup cmp k (AvlNode l x b r) = avl_lookup cmp k r"
      using cmp_less[of k x] cmp_greater[of k x] by (auto simp: rk_def)
    then show ?thesis using ih(2) 2 o(3) by (auto dest: less_trans)
  next
    case 3
    then have "avl_lookup cmp k (AvlNode l x b r) = Some x"
      using cmp_less[of k x] cmp_greater[of k x] by (simp add: rk_def)
    then show ?thesis using 3 o(3,4) by auto
  qed
qed simp


section \<open>Insertion\<close>

definition fresh :: "'e \<Rightarrow> 'e avl \<Rightarrow> bool" where "fresh n t \<longleftrightarrow> (\<forall>x \<in> set (elems t). rk x \<noteq> rk n)"

text \<open>The result of an insertion: balanced, sorted, and with the same node at the root where the tree has grown.\<close>

definition inserted :: "'e \<Rightarrow> 'e avl \<Rightarrow> (bool \<times> 'e avl) option \<Rightarrow> bool" where
  "inserted n t x \<longleftrightarrow> (\<exists>g t'. x = Some (g, t') \<and> avl_ok t' \<and> avl_height t' = avl_height t + (if g then 1 else 0) \<and>
     elems t' = insort_key rk n (elems t) \<and> (g \<longrightarrow> root_elem t' = root_elem t \<and> balance_of t' \<noteq> Some 0))"

lemma insert_left:
  assumes "avl_ok (AvlNode l e b r)" "rk n < rk e" "l \<noteq> Null \<Longrightarrow> inserted n l (avl_insert cmp key n l)"
  shows "inserted n (AvlNode l e b r) (avl_insert cmp key n (AvlNode l e b r))"
proof (cases "l = Null")
  case True
  then have "avl_height r = (if r = Null then 0 else 1)" using assms(1) by (auto simp: le_Suc_eq)
  then show ?thesis using True assms(1,2) by (auto simp: inserted_def cmp_rk max_def)
next
  case False
  have ok: "avl_ok r" "b = int (avl_height r) - int (avl_height l)" "-1 \<le> b" "b \<le> 1" using assms(1) by auto
  note el = insort_left[OF assms(2), of "elems l" "elems r"] and c = assms(2)[folded cmp_rk]
  from assms(3)[OF False] obtain g l' where
    i: "avl_insert cmp key n l = Some (g, l')" "avl_ok l'" "avl_height l' = avl_height l + (if g then 1 else 0)"
    "elems l' = insort_key rk n (elems l)" "g \<longrightarrow> root_elem l' = root_elem l \<and> balance_of l' \<noteq> Some 0" unfolding inserted_def by blast
  show ?thesis
  proof (cases "g \<and> b = -1")
    case True
    then have "avl_height l' = avl_height r + 2" using i(3) ok(2) by auto
    from grown_left_ok[OF i(2) ok(1) this, of e "b - 1"] i(5) True obtain t where
      "grown_left (AvlNode l' e (b - 1) r) = Some (False, t)" "avl_ok t" "avl_height t = avl_height l'" "elems t = elems l' @ e # elems r"
      by blast
    then show ?thesis using c i True False ok(2) el by (auto simp: inserted_def)
  qed (use c i False ok el in \<open>cases g; auto simp: inserted_def max_def\<close>)
qed

lemma insert_right:
  assumes "avl_ok (AvlNode l e b r)" "rk e < rk n" "\<forall>x \<in> set (elems l). rk x < rk e" "r \<noteq> Null \<Longrightarrow> inserted n r (avl_insert cmp key n r)"
  shows "inserted n (AvlNode l e b r) (avl_insert cmp key n (AvlNode l e b r))"
proof -
  have ok: "avl_ok l" "b = int (avl_height r) - int (avl_height l)" "-1 \<le> b" "b \<le> 1" using assms(1) by auto
  have "\<forall>z \<in> set (elems l @ [e]). rk z < rk n" using assms(2,3) by (auto dest: less_trans)
  from insort_right[OF this, of "elems r"] have el: "insort_key rk n (elems l @ e # elems r) = elems l @ e # insort_key rk n (elems r)" by simp
  have c: "\<not> cmp (key n) e < 0" "cmp (key n) e > 0" using assms(2) by (simp_all add: cmp_rk)
  show ?thesis
  proof (cases "r = Null")
    case True
    then have "avl_height l = (if l = Null then 0 else 1)" using assms(1) by (auto simp: le_Suc_eq)
    then show ?thesis using True assms(1) c el by (auto simp: inserted_def max_def)
  next
    case False
    from assms(4)[OF False] obtain g r' where
      i: "avl_insert cmp key n r = Some (g, r')" "avl_ok r'" "avl_height r' = avl_height r + (if g then 1 else 0)"
      "elems r' = insort_key rk n (elems r)" "g \<longrightarrow> root_elem r' = root_elem r \<and> balance_of r' \<noteq> Some 0" unfolding inserted_def by blast
    show ?thesis
    proof (cases "g \<and> b = 1")
      case True
      then have "avl_height r' = avl_height l + 2" using i(3) ok(2) by auto
      from grown_right_ok[OF ok(1) i(2) this, of e "b + 1"] i(5) True obtain t where
        "grown_right (AvlNode l e (b + 1) r') = Some (False, t)" "avl_ok t" "avl_height t = avl_height r'" "elems t = elems l @ e # elems r'"
        by blast
      then show ?thesis using c i True False ok(2) el by (auto simp: inserted_def)
    qed (use c i False ok el in \<open>cases g; auto simp: inserted_def max_def\<close>)
  qed
qed

lemma insert_ok:
  assumes "avl_ok t" "ordered t" "fresh n t" "t \<noteq> Null"
  shows "inserted n t (avl_insert cmp key n t)"
  using assms
proof (induction t)
  case (AvlNode l e b r)
  have o: "ordered l" "ordered r" "\<forall>y \<in> set (elems l). rk y < rk e" and ok: "avl_ok l" "avl_ok r"
    and f: "fresh n l" "fresh n r" "rk n \<noteq> rk e" using AvlNode.prems by (auto simp: ordered_node fresh_def)
  show ?case
  proof (cases "rk n < rk e")
    case True
    show ?thesis by (rule insert_left[OF AvlNode.prems(1) True AvlNode.IH(1)[OF ok(1) o(1) f(1)]])
  next
    case False
    then have gt: "rk e < rk n" using f(3) by simp
    show ?thesis by (rule insert_right[OF AvlNode.prems(1) gt o(3) AvlNode.IH(2)[OF ok(2) o(2) f(2)]])
  qed
qed simp

text \<open>An element with the key of another one fails the assertion.\<close>

lemma insert_duplicate:
  assumes "ordered t" "\<not> fresh n t"
  shows "avl_insert cmp key n t = None"
  using assms
proof (induction t)
  case (AvlNode l e b r)
  have o: "ordered l" "ordered r" "\<forall>y \<in> set (elems l). rk y < rk e" "\<forall>y \<in> set (elems r). rk e < rk y"
    using AvlNode.prems by (auto simp: ordered_node)
  consider "rk n < rk e" | "rk n > rk e" | "rk n = rk e" using linorder_less_linear by blast
  then show ?case
  proof cases
    case 1
    then have "\<not> fresh n l" using AvlNode.prems(2) o(4) by (auto simp: fresh_def dest: less_trans)
    moreover from this have "l \<noteq> Null" by (auto simp: fresh_def)
    ultimately show ?thesis using AvlNode.IH(1)[OF o(1)] 1 by (simp add: cmp_rk)
  next
    case 2
    then have "\<not> fresh n r" using AvlNode.prems(2) o(3) by (auto simp: fresh_def dest: less_trans)
    moreover from this have "r \<noteq> Null" by (auto simp: fresh_def)
    ultimately show ?thesis using AvlNode.IH(2)[OF o(2)] 2 by (auto simp: cmp_rk)
  qed (simp add: cmp_rk)
qed (simp add: fresh_def)


section \<open>Removal\<close>

definition removed :: "'e \<Rightarrow> 'e avl \<Rightarrow> (bool \<times> 'e avl) option \<Rightarrow> bool" where
  "removed n t x \<longleftrightarrow> (\<exists>ch t'. x = Some (ch, t') \<and> avl_ok t' \<and> avl_height t' + (if ch then 1 else 0) = avl_height t \<and>
     elems t' = remove1 n (elems t))"

lemma remove_left:
  assumes "avl_ok (AvlNode l e b r)" "rk n < rk e" "n \<in> set (elems l)" "removed n l (avl_remove f cmp key n l)"
  shows "removed n (AvlNode l e b r) (avl_remove (Suc f) cmp key n (AvlNode l e b r))"
proof -
  have ok: "avl_ok r" "b = int (avl_height r) - int (avl_height l)" "-1 \<le> b" "b \<le> 1" using assms(1) by auto
  have el: "remove1 n (elems l @ e # elems r) = remove1 n (elems l) @ e # elems r" using assms(3) by (simp add: remove1_append)
  have l: "l \<noteq> Null" using assms(3) by auto
  from assms(4) obtain ch l' where i: "avl_remove f cmp key n l = Some (ch, l')" "avl_ok l'"
    "avl_height l' + (if ch then 1 else 0) = avl_height l" "elems l' = remove1 n (elems l)" unfolding removed_def by blast
  show ?thesis
  proof (cases "ch \<and> b = 1")
    case True
    then have "avl_height r = avl_height l' + 2" using i(3) ok(2) by auto
    from shrunk_left_ok[OF i(2) ok(1) this, of e "b + 1"] obtain c t where
      "shrunk_left (AvlNode l' e (b + 1) r) = Some (c, t)" "avl_ok t" "elems t = elems l' @ e # elems r"
      "avl_height t + (if c then 1 else 0) = avl_height r + 1" by blast
    then show ?thesis using assms(2) i True l ok(2) el by (auto simp: removed_def cmp_rk)
  qed (use assms(2) i l ok el in \<open>cases ch; auto simp: removed_def cmp_rk max_def\<close>)
qed

lemma remove_right:
  assumes "avl_ok (AvlNode l e b r)" "rk n > rk e" "n \<in> set (elems r)" "n \<notin> set (elems l)" "removed n r (avl_remove f cmp key n r)"
  shows "removed n (AvlNode l e b r) (avl_remove (Suc f) cmp key n (AvlNode l e b r))"
proof -
  have ok: "avl_ok l" "b = int (avl_height r) - int (avl_height l)" "-1 \<le> b" "b \<le> 1" using assms(1) by auto
  have el: "remove1 n (elems l @ e # elems r) = elems l @ e # remove1 n (elems r)" using assms(2,4) by (auto simp: remove1_append)
  have r: "r \<noteq> Null" using assms(3) by auto
  have c: "\<not> cmp (key n) e < 0" "cmp (key n) e > 0" using assms(2) by (simp_all add: cmp_rk)
  from assms(5) obtain ch r' where i: "avl_remove f cmp key n r = Some (ch, r')" "avl_ok r'"
    "avl_height r' + (if ch then 1 else 0) = avl_height r" "elems r' = remove1 n (elems r)" unfolding removed_def by blast
  show ?thesis
  proof (cases "ch \<and> b = -1")
    case True
    then have "avl_height l = avl_height r' + 2" using i(3) ok(2) by auto
    from shrunk_right_ok[OF ok(1) i(2) this, of e "b - 1"] obtain d t where
      "shrunk_right (AvlNode l e (b - 1) r') = Some (d, t)" "avl_ok t" "elems t = elems l @ e # elems r'"
      "avl_height t + (if d then 1 else 0) = avl_height l + 1" by blast
    then show ?thesis using c i True r ok(2) el by (auto simp: removed_def)
  qed (use c i r ok el in \<open>cases ch; auto simp: removed_def max_def\<close>)
qed

text \<open>
  Removing the root: the neighbour of the root in the higher subtree is removed first, which never rotates the root, and then takes its place.
\<close>

lemma removeroot_ok:
  assumes "avl_ok (AvlNode l e b r)" "ordered (AvlNode l e b r)"
    "\<And>n. n \<in> set (elems l) \<Longrightarrow> removed n l (avl_remove f cmp key n l)" "\<And>n. n \<in> set (elems r) \<Longrightarrow> removed n r (avl_remove f cmp key n r)"
  shows "removed e (AvlNode l e b r) (avl_removeroot (Suc (Suc f)) cmp key (AvlNode l e b r))"
proof -
  have ok: "b = int (avl_height r) - int (avl_height l)" "-1 \<le> b" "b \<le> 1" "avl_ok l" "avl_ok r" using assms(1) by auto
  have o: "\<forall>x \<in> set (elems l). rk x < rk e" "\<forall>x \<in> set (elems r). rk e < rk x" "distinct (elems l)" "e \<notin> set (elems l)"
    using assms(2) ordered_distinct[OF assms(2)] by (auto simp: ordered_node)
  have el: "remove1 e (elems l @ e # elems r) = elems l @ elems r" using o(4) by (simp add: remove1_append)
  consider (A) "l = Null \<or> r = Null" | (B) "l \<noteq> Null" "r \<noteq> Null" "b < 0" | (C) "l \<noteq> Null" "r \<noteq> Null" "\<not> b < 0" by blast
  then show ?thesis
  proof cases
    case A
    then show ?thesis using ok(4,5) el by (cases "l = Null"; cases "r = Null") (simp_all add: removed_def, blast+)
  next
    case B
    let ?n = "last (elems l)"
    have n: "?n \<in> set (elems l)" using B(1) by simp
    then have c: "cmp (key ?n) e < 0" using o(1) by (simp add: cmp_rk)
    from assms(3)[OF n] obtain ch l' where i: "avl_remove f cmp key ?n l = Some (ch, l')" "avl_ok l'"
      "avl_height l' + (if ch then 1 else 0) = avl_height l" "elems l' = remove1 ?n (elems l)" unfolding removed_def by blast
    have e: "elems l' @ ?n # elems r = elems l @ elems r" using remove1_last[OF o(3)] B(1) i(4) by (metis append.assoc append_Cons append_Nil elems_Nil)
    have "b = -1" using B(3) ok(2) by simp
    then show ?thesis using B i(1-3) c ok e el by (cases ch) (auto simp: removed_def rightmost_last max_def)
  next
    case C
    let ?n = "hd (elems r)"
    have n: "?n \<in> set (elems r)" using C(2) by simp
    then have c: "\<not> cmp (key ?n) e < 0" "cmp (key ?n) e > 0" using o(2) by (auto simp: cmp_rk dest: less_asym)
    from assms(4)[OF n] obtain ch r' where i: "avl_remove f cmp key ?n r = Some (ch, r')" "avl_ok r'"
      "avl_height r' + (if ch then 1 else 0) = avl_height r" "elems r' = remove1 ?n (elems r)" unfolding removed_def by blast
    have e: "elems l @ ?n # elems r' = elems l @ elems r" using remove1_hd[of "elems r"] C(2) i(4) by simp
    have "b = 0 \<or> b = 1" using C(3) ok(3) by linarith
    then show ?thesis using C i(1-3) c ok e el by (cases ch) (auto simp: removed_def leftmost_hd max_def)
  qed
qed

lemma remove_ok:
  assumes "avl_ok t" "ordered t" "n \<in> set (elems t)" "3 * avl_height t \<le> f"
  shows "removed n t (avl_remove f cmp key n t)"
  using assms
proof (induction t arbitrary: n f)
  case (AvlNode l e b r)
  have o: "ordered l" "ordered r" "\<forall>y \<in> set (elems l). rk y < rk e" "\<forall>y \<in> set (elems r). rk e < rk y" and ok: "avl_ok l" "avl_ok r"
    using AvlNode.prems by (auto simp: ordered_node)
  obtain g where g: "f = Suc (Suc (Suc g))" "3 * avl_height l \<le> g" "3 * avl_height r \<le> g"
    using AvlNode.prems(4) by (cases f; cases "f - 1"; cases "f - 2") auto
  note ih = AvlNode.IH(1)[OF ok(1) o(1)] AvlNode.IH(2)[OF ok(2) o(2)]
  consider "n \<in> set (elems l)" | "n = e" | "n \<in> set (elems r)" using AvlNode.prems(3) by auto
  then show ?case
  proof cases
    case 1
    then show ?thesis unfolding g(1) using ih(1) g(2) o(3) by (intro remove_left[OF AvlNode.prems(1)]) auto
  next
    case 2
    have "removed e (AvlNode l e b r) (avl_removeroot (Suc (Suc g)) cmp key (AvlNode l e b r))"
      by (rule removeroot_ok[OF AvlNode.prems(1,2)]) (use ih g(2,3) in auto)
    moreover have "\<not> cmp (key e) e < 0" "\<not> cmp (key e) e > 0" by (simp_all add: cmp_rk)
    ultimately show ?thesis unfolding g(1) 2 by (simp del: avl_removeroot.simps)
  next
    case 3
    have "n \<notin> set (elems l)" using 3 o(3,4) by (auto dest: less_asym)
    then show ?thesis unfolding g(1) using 3 ih(2) g(3) o(4) by (intro remove_right[OF AvlNode.prems(1)]) auto
  qed
qed simp

end


section \<open>The iterator\<close>

text \<open>The depth of the stack that a traversal needs: a node stays on the stack while its left subtree is visited.\<close>

fun stack_need :: "'e avl \<Rightarrow> nat" where
  "stack_need Null = 0"
| "stack_need (AvlNode l e b r) = max (Suc (stack_need l)) (stack_need r)"

text \<open>The elements still to come.\<close>

fun pending :: "('e avl \<times> nat) list \<Rightarrow> 'e list" where
  "pending [] = []"
| "pending ((Null, i) # st) = pending st"
| "pending ((AvlNode l e b r, i) # st) =
     (if i = 1 then elems (AvlNode l e b r) else if i = 2 then e # elems r else elems r) @ pending st"

fun stack_ready :: "('e avl \<times> nat) list \<Rightarrow> bool" where
  "stack_ready [] \<longleftrightarrow> True"
| "stack_ready ((Null, i) # st) \<longleftrightarrow> False"
| "stack_ready ((AvlNode l e b r, i) # st) \<longleftrightarrow> (i = 1 \<or> i = 2 \<or> i = 3) \<and> length st < STACK_MAX \<and>
     (if i = 1 then stack_need (AvlNode l e b r) else stack_need r) + length st \<le> STACK_MAX \<and> stack_ready st"

lemma descend_ready:
  assumes "t \<noteq> Null" "stack_need t + length st \<le> STACK_MAX" "stack_ready st"
  shows "\<exists>st'. descend t st = Some st' \<and> stack_ready st' \<and> pending st' = elems t @ pending st \<and> (\<exists>n st1. st' = (n, 2) # st1)"
  using assms
proof (induction t arbitrary: st)
  case (AvlNode l e b r)
  let ?st = "(AvlNode l e b r, 2) # st"
  have p: "stackPush (AvlNode l e b r) 2 st = Some ?st" "stack_ready ?st" using AvlNode.prems by (auto simp: stackPush_def)
  show ?case
  proof (cases "l = Null")
    case False
    have "stack_need l + length ?st \<le> STACK_MAX" using AvlNode.prems(2) by (simp add: max_def split: if_splits)
    from AvlNode.IH(1)[OF False this p(2)] obtain st' where
      "descend l ?st = Some st'" "stack_ready st'" "pending st' = elems l @ pending ?st" "\<exists>n st1. st' = (n, 2) # st1" by auto
    then show ?thesis using p False by simp
  qed (use p in simp)
qed simp

lemma next_at_2:
  assumes "stack_ready ((n, 2) # st)"
  shows "\<exists>e st'. next_loop ((n, 2) # st) = Some (Some e, st') \<and> stack_ready st' \<and> pending ((n, 2) # st) = e # pending st'"
  using assms by (cases n) (auto simp: next_loop.simps(2) stackPush_def)

lemma next_after_descend:
  assumes "t \<noteq> Null" "stack_need t + length st \<le> STACK_MAX" "stack_ready st"
  shows "\<exists>st1 e st'. descend t st = Some st1 \<and> next_loop st1 = Some (Some e, st') \<and> stack_ready st' \<and> elems t @ pending st = e # pending st'"
proof -
  from descend_ready[OF assms] obtain n st1 where
    d: "descend t st = Some ((n, 2) # st1)" "stack_ready ((n, 2) # st1)" "pending ((n, 2) # st1) = elems t @ pending st" by auto
  from next_at_2[OF d(2)] d show ?thesis by metis
qed

lemma next_loop_ready:
  assumes "stack_ready st"
  shows "case pending st of [] \<Rightarrow> next_loop st = Some (None, [])
    | e # es \<Rightarrow> \<exists>st'. next_loop st = Some (Some e, st') \<and> stack_ready st' \<and> pending st' = es"
  using assms
proof (induction st rule: stack_ready.induct)
  case (3 l e b r i st)
  let ?n = "AvlNode l e b r"
  from 3(2) consider "i = 1" | "i = 2" | "i = 3" "r \<noteq> Null" | "i = 3" "r = Null" by auto
  then show ?case
  proof cases
    case 1
    then have "stack_need ?n + length st \<le> STACK_MAX" "stack_ready st" using 3(2) by simp_all
    from next_after_descend[OF _ this] obtain st1 x st' where
      "descend ?n st = Some st1" "next_loop st1 = Some (Some x, st')" "stack_ready st'" "elems ?n @ pending st = x # pending st'" by blast
    then show ?thesis using 1 by (simp add: next_loop.simps(2) del: descend.simps elems.simps)
  next
    case 2
    with next_at_2[of ?n st] 3(2) show ?thesis by (auto simp del: pending.simps stack_ready.simps)
  next
    case 3
    then have "stack_need r + length st \<le> STACK_MAX" "stack_ready st" using "3.prems" by simp_all
    from next_after_descend[OF 3(2) this] obtain st1 x st' where
      "descend r st = Some st1" "next_loop st1 = Some (Some x, st')" "stack_ready st'" "elems r @ pending st = x # pending st'" by blast
    then show ?thesis using 3 by (simp add: next_loop.simps(2))
  next
    case 4
    then have "next_loop ((?n, i) # st) = next_loop st" "pending ((?n, i) # st) = pending st" by (simp_all add: next_loop.simps(2))
    with "3.IH" "3.prems" show ?thesis by (simp only: stack_ready.simps)
  qed
qed simp_all


text \<open>The iterator called until it returns null; a set of \<open>n\<close> elements takes \<open>n + 1\<close> calls.\<close>

fun drain :: "nat \<Rightarrow> 'e oset \<Rightarrow> ('e list \<times> 'e oset) option" where
  "drain 0 t = None"
| "drain (Suc n) t = do {
     (e, t) \<leftarrow> OSetGen_Next t;
     case e of None \<Rightarrow> Some ([], t) | Some e \<Rightarrow> do { (es, t) \<leftarrow> drain n t; Some (e # es, t) }
   }"

lemma drain_ready:
  assumes "stack_ready (os_stack t)" "length (pending (os_stack t)) < n"
  shows "drain n t = Some (pending (os_stack t), t\<lparr>os_stack := []\<rparr>)"
  using assms
proof (induction n arbitrary: t)
  case (Suc n)
  show ?case
  proof (cases "pending (os_stack t)")
    case Nil
    then show ?thesis using next_loop_ready[OF Suc.prems(1)] by (simp add: OSetGen_Next_def)
  next
    case (Cons e es)
    then obtain st where s: "next_loop (os_stack t) = Some (Some e, st)" "stack_ready st" "pending st = es"
      using next_loop_ready[OF Suc.prems(1)] by auto
    from Suc.IH[of "t\<lparr>os_stack := st\<rparr>"] s(2,3) Suc.prems(2) Cons show ?thesis by (simp add: OSetGen_Next_def s(1))
  qed
qed simp

lemma reset_drain:
  assumes "stack_need (os_root t) \<le> STACK_MAX" "length (elems (os_root t)) < n"
  shows "\<exists>t'. OSetGen_ResetIter t = Some t' \<and> drain n t' = Some (elems (os_root t), t\<lparr>os_stack := []\<rparr>)"
proof (cases "os_root t")
  case Null
  then show ?thesis using assms(2) drain_ready[of "t\<lparr>os_stack := []\<rparr>" n] by (simp add: OSetGen_ResetIter_def)
next
  case (AvlNode l e b r)
  let ?t = "t\<lparr>os_stack := [(os_root t, 1)]\<rparr>"
  have "stack_ready (os_stack ?t)" "pending (os_stack ?t) = elems (os_root t)" using AvlNode assms(1) by (simp_all add: STACK_MAX_def)
  from drain_ready[OF this(1)] this(2) assms(2) AvlNode show ?thesis
    by (simp add: OSetGen_ResetIter_def stackPush_def STACK_MAX_def)
qed

text \<open>How many elements a tree of a given height has at least.\<close>

fun min_nodes :: "nat \<Rightarrow> nat" where
  "min_nodes 0 = 0"
| "min_nodes (Suc 0) = 1"
| "min_nodes (Suc (Suc h)) = Suc (min_nodes (Suc h) + min_nodes h)"

lemma min_nodes_mono: "min_nodes h \<le> min_nodes (Suc h)"
  by (cases h) auto

lemma min_nodes_mono_le: "h \<le> k \<Longrightarrow> min_nodes h \<le> min_nodes k"
  by (rule lift_Suc_mono_le[of min_nodes]) (rule min_nodes_mono)

text \<open>With two consecutive values as accumulators, for evaluation.\<close>

fun min_nodes_iter :: "nat \<Rightarrow> nat \<Rightarrow> nat \<Rightarrow> nat" where
  "min_nodes_iter 0 a b = a"
| "min_nodes_iter (Suc h) a b = min_nodes_iter h b (b + a + 1)"

lemma min_nodes_iter_eq: "min_nodes_iter h (min_nodes k) (min_nodes (Suc k)) = min_nodes (h + k)"
  by (induction h arbitrary: k) (simp_all, metis Suc_eq_plus1 add_Suc_right min_nodes.simps(3))

lemma min_nodes_iter_numeral: "min_nodes_iter (numeral h) a b = min_nodes_iter (pred_numeral h) b (b + a + 1)"
  by (simp add: numeral_eq_Suc)

lemma min_nodes_33: "min_nodes 33 = 9227464"
proof -
  have "min_nodes_iter 1 a b = b" for a b by simp
  then have "min_nodes_iter 33 0 1 = 9227464" by (simp add: min_nodes_iter_numeral del: One_nat_def)
  then show ?thesis using min_nodes_iter_eq[of 33 0] by simp
qed

lemma avl_size: "avl_ok t \<Longrightarrow> min_nodes (avl_height t) \<le> length (elems t)"
proof (induction t)
  case (AvlNode l e b r)
  let ?m = "max (avl_height l) (avl_height r)" and ?k = "min (avl_height l) (avl_height r)"
  have d: "?m \<le> Suc ?k" using AvlNode.prems by auto
  have "min_nodes ?m + min_nodes ?k \<le> length (elems l) + length (elems r)"
    using AvlNode by (auto simp: max_def min_def)
  moreover have "min_nodes (Suc ?m) \<le> Suc (min_nodes ?m + min_nodes ?k)"
  proof (cases ?m)
    case (Suc j)
    then have "j \<le> ?k" using d by simp
    then show ?thesis using Suc min_nodes_mono_le[of j ?k] by simp
  qed simp
  ultimately show ?case by simp
qed simp

lemma need_height: "stack_need t \<le> avl_height t"
  by (induction t) auto

lemma small_need:
  assumes "avl_ok t" "length (elems t) < 9227464"
  shows "stack_need t \<le> STACK_MAX"
proof (rule ccontr)
  assume "\<not> stack_need t \<le> STACK_MAX"
  then have "33 \<le> avl_height t" using need_height[of t] by (simp add: STACK_MAX_def)
  then have "min_nodes 33 \<le> length (elems t)" using min_nodes_mono_le avl_size[OF assms(1)] order_trans by blast
  then show False using assms(2) by (simp only: min_nodes_33)
qed

end
