(* ===== verification/Oset_Sets.thy ===== *)
theory Oset_Sets
  imports Oset_Props
begin

text \<open>
  The ordered sets as finite maps: every operation of a set keyed by its first word acts on the map from keys to elements, and the iterator
  lists that map in the order of its keys.
\<close>

section \<open>Well-formed sets\<close>

text \<open>Fewer elements than any tree has that the stack of the iterator is too small for.\<close>

definition ITER_LIMIT :: nat where "ITER_LIMIT = 9227464"

context key_order
begin

definition set_ok :: "'e oset \<Rightarrow> bool" where
  "set_ok t \<longleftrightarrow> avl_ok (os_root t) \<and> ordered (os_root t) \<and> os_nElems t = of_nat (length (elems (os_root t)))"

definition entries :: "'e oset \<Rightarrow> 'o \<rightharpoonup> 'e" where
  "entries t = map_of (map (\<lambda>e. (rk e, e)) (elems (os_root t)))"

lemma distinct_keys: "set_ok t \<Longrightarrow> distinct (map fst (map (\<lambda>e. (rk e, e)) (elems (os_root t))))"
  by (simp add: set_ok_def ordered_def strict_sorted_iff comp_def)

lemma entries_Some: "set_ok t \<Longrightarrow> entries t k = Some e \<longleftrightarrow> e \<in> set (elems (os_root t)) \<and> rk e = k"
  using map_of_eq_Some_iff[OF distinct_keys, of t k e] by (auto simp: entries_def)

lemma entries_dom: "dom (entries t) = rk ` set (elems (os_root t))"
  by (simp add: entries_def dom_map_of_conv_image_fst image_image)

lemma card_entries: "set_ok t \<Longrightarrow> card (dom (entries t)) = length (elems (os_root t))"
  using distinct_keys[of t] distinct_card[of "map rk (elems (os_root t))"] by (simp add: entries_dom comp_def)

lemma fresh_entries: "fresh n (os_root t) \<longleftrightarrow> entries t (rk n) = None"
proof -
  have "entries t (rk n) = None \<longleftrightarrow> rk n \<notin> rk ` set (elems (os_root t))" unfolding entries_dom[symmetric] by (simp add: domIff)
  then show ?thesis unfolding fresh_def by (simp add: image_iff) metis
qed

lemma entries_unique:
  assumes "set_ok t'" "\<And>e. e \<in> set (elems (os_root t')) \<longleftrightarrow> m (rk e) = Some e" "\<And>k e. m k = Some e \<Longrightarrow> rk e = k"
  shows "entries t' = m"
proof
  fix k
  show "entries t' k = m k"
  proof (cases "m k")
    case None
    then have "entries t' k \<noteq> Some e" for e using entries_Some[OF assms(1), of k e] assms(2)[of e] by auto
    then show ?thesis using None by (cases "entries t' k") auto
  next
    case (Some e)
    then show ?thesis using entries_Some[OF assms(1), of k e] assms(2)[of e] assms(3) by auto
  qed
qed

lemma create_set: "set_ok OSetGen_Create" "entries OSetGen_Create = Map.empty"
  by (simp_all add: set_ok_def entries_def OSetGen_Create_def)

lemma lookup_set: "set_ok t \<Longrightarrow> OSetGen_Lookup cmp k t = entries t (rank k)"
proof -
  assume s: "set_ok t"
  have "avl_lookup cmp k (os_root t) = Some e \<longleftrightarrow> entries t (rank k) = Some e" for e
    using s lookup_ok[of "os_root t" k e] entries_Some[OF s, of "rank k" e] by (simp add: set_ok_def)
  then show ?thesis unfolding OSetGen_Lookup_def by (metis not_Some_eq)
qed

lemma ordered_insort: "ordered t \<Longrightarrow> fresh n t \<Longrightarrow> elems t' = insort_key rk n (elems t) \<Longrightarrow> ordered t'"
  by (simp add: ordered_def strict_sorted_iff sorted_insort_key distinct_map fresh_def distinct_insort set_insort_key inj_on_def) auto

lemma ordered_remove1: "ordered t \<Longrightarrow> elems t' = remove1 n (elems t) \<Longrightarrow> ordered t'"
  using ordered_distinct[of t] unfolding ordered_def strict_sorted_iff
  by (auto simp: distinct_map set_remove1_eq intro: sorted_map_remove1 inj_on_subset)

lemma insert_set:
  assumes "set_ok t" "entries t (rk n) = None"
  shows "\<exists>t'. OSetGen_Insert cmp key n t = Some t' \<and> set_ok t' \<and> entries t' = (entries t)(rk n \<mapsto> n)"
proof -
  have ok: "avl_ok (os_root t)" "ordered (os_root t)" "fresh n (os_root t)" using assms by (simp_all add: fresh_entries) (simp_all add: set_ok_def)
  obtain root where r: "(if os_root t = Null then Some (AvlNode Null n 0 Null) else map_option snd (avl_insert cmp key n (os_root t))) = Some root"
    "avl_ok root" "elems root = insort_key rk n (elems (os_root t))"
  proof (cases "os_root t = Null")
    case False
    from insert_ok[OF ok False] show ?thesis using that False unfolding inserted_def by auto
  qed (use that in auto)
  let ?t = "t\<lparr>os_root := root, os_nElems := os_nElems t + 1, os_stack := []\<rparr>"
  have s: "set_ok ?t" using assms(1) r(2,3) ordered_insort[OF ok(2,3) r(3)] by (simp add: set_ok_def)
  moreover have "entries ?t = (entries t)(rk n \<mapsto> n)"
    by (rule entries_unique[OF s]) (use ok(3) entries_Some[OF assms(1)] r(3) in \<open>auto simp: set_insort_key fresh_def split: if_splits\<close>)
  ultimately show ?thesis using r(1) by (simp add: OSetGen_Insert_def)
qed

lemma insert_set_duplicate:
  assumes "set_ok t" "entries t (rk n) \<noteq> None"
  shows "OSetGen_Insert cmp key n t = None"
proof -
  have "\<not> fresh n (os_root t)" "ordered (os_root t)" using assms by (simp_all add: fresh_entries) (simp_all add: set_ok_def)
  moreover from this have "os_root t \<noteq> Null" by (auto simp: fresh_def)
  ultimately show ?thesis using insert_duplicate by (simp add: OSetGen_Insert_def)
qed

lemma remove_set:
  assumes "set_ok t"
  shows "\<exists>t'. OSetGen_Remove cmp key k t = Some (entries t (rank k), t') \<and> set_ok t' \<and> entries t' = (entries t)(rank k := None)"
proof (cases "entries t (rank k)")
  case None
  then show ?thesis using assms lookup_set[OF assms, of k] by (auto simp: OSetGen_Remove_def OSetGen_Lookup_def fun_upd_idem)
next
  case (Some n)
  have ok: "avl_ok (os_root t)" "ordered (os_root t)" using assms by (simp_all add: set_ok_def)
  have n: "n \<in> set (elems (os_root t))" "rk n = rank k" using Some entries_Some[OF assms] by auto
  from remove_ok[OF ok n(1), of "3 * avl_height (os_root t) + 3"] obtain ch root where
    r: "avl_remove (3 * avl_height (os_root t) + 3) cmp key n (os_root t) = Some (ch, root)" "avl_ok root" "elems root = remove1 n (elems (os_root t))"
    unfolding removed_def by auto
  have d: "distinct (elems (os_root t))" by (rule ordered_distinct[OF ok(2)])
  have o: "ordered root" by (rule ordered_remove1[OF ok(2) r(3)])
  have len: "length (elems root) = length (elems (os_root t)) - 1" "0 < length (elems (os_root t))" using n(1) r(3) by (auto simp: length_remove1)
  have u: "e = n" if "e \<in> set (elems (os_root t))" "rk e = rank k" for e using entries_Some[OF assms, of "rank k"] that n by (metis option.inject)
  let ?t = "t\<lparr>os_root := root, os_nElems := os_nElems t - 1, os_stack := []\<rparr>"
  have s: "set_ok ?t" using assms r(2) o len by (simp add: set_ok_def of_nat_diff Suc_le_eq)
  moreover have "entries ?t = (entries t)(rank k := None)"
  proof (rule entries_unique[OF s])
    fix e
    have "e \<in> set (elems root) \<longleftrightarrow> e \<in> set (elems (os_root t)) \<and> rk e \<noteq> rank k" using r(3) d n(2) u[of e] by (auto simp: set_remove1_eq)
    then show "e \<in> set (elems (os_root ?t)) \<longleftrightarrow> ((entries t)(rank k := None)) (rk e) = Some e" by (simp add: entries_Some[OF assms])
  qed (simp add: entries_Some[OF assms] split: if_splits)
  ultimately show ?thesis using r(1) Some lookup_set[OF assms, of k] by (simp add: OSetGen_Remove_def OSetGen_Lookup_def)
qed

lemma elems_entries: "set_ok t \<Longrightarrow> elems (os_root t) = map (the \<circ> entries t) (sorted_list_of_set (dom (entries t)))"
proof -
  assume s: "set_ok t"
  have "sorted_list_of_set (dom (entries t)) = map rk (elems (os_root t))"
    using s by (simp add: entries_dom set_ok_def ordered_def strict_sorted_iff flip: set_map)
      (metis distinct_map set_map sorted_list_of_set.idem_if_sorted_distinct)
  moreover have "the (entries t (rk e)) = e" if "e \<in> set (elems (os_root t))" for e using entries_Some[OF s, of "rk e" e] that by simp
  ultimately show ?thesis by (simp add: map_idI)
qed

lemma size_set: "set_ok t \<Longrightarrow> OSetGen_Size t = of_nat (card (dom (entries t)))"
  by (simp add: OSetGen_Size_def card_entries) (simp add: set_ok_def)

lemma set_need: "set_ok t \<Longrightarrow> card (dom (entries t)) < ITER_LIMIT \<Longrightarrow> stack_need (os_root t) \<le> STACK_MAX"
  by (rule small_need) (simp_all add: card_entries ITER_LIMIT_def, simp add: set_ok_def)


section \<open>Starting at a key\<close>

lemma filter_left: "rank k \<le> rk e \<Longrightarrow> \<forall>x \<in> set (elems r). rk e < rk x \<Longrightarrow> filter (\<lambda>x. rank k \<le> rk x) (elems r) = elems r"
  by (auto intro!: filter_True dest: less_imp_le intro: order_trans)

lemma filter_right: "rk e \<le> rank k \<Longrightarrow> \<forall>x \<in> set (elems l). rk x < rk e \<Longrightarrow> filter (\<lambda>x. rank k \<le> rk x) (elems l) = []"
  by (auto intro!: filter_False simp: not_le intro: less_le_trans)

lemma reset_at_ready:
  assumes "ordered t" "stack_need t + length st \<le> STACK_MAX" "stack_ready st"
  shows "\<exists>st'. reset_at cmp k t st = Some st' \<and> stack_ready st' \<and> pending st' = filter (\<lambda>x. rank k \<le> rk x) (elems t) @ pending st"
  using assms
proof (induction t arbitrary: st)
  case (AvlNode l e b r)
  let ?st = "(AvlNode l e b r, 2) # st"
  have o: "ordered l" "ordered r" "\<forall>y \<in> set (elems l). rk y < rk e" "\<forall>y \<in> set (elems r). rk e < rk y"
    using AvlNode.prems(1) by (auto simp: ordered_node)
  have p: "stackPush (AvlNode l e b r) 2 st = Some ?st" "stack_ready ?st" using AvlNode.prems by (auto simp: stackPush_def)
  have need: "stack_need l + length ?st \<le> STACK_MAX" "stack_need r + length st \<le> STACK_MAX" using AvlNode.prems(2) by simp_all
  consider "rank k < rk e" | "rank k > rk e" | "rank k = rk e" using linorder_less_linear by blast
  then show ?case
  proof cases
    case 1
    then have "cmp k e < 0" by (simp add: cmp_less rk_def)
    with AvlNode.IH(1)[OF o(1) need(1) p(2)] 1 p(1) filter_left[of k e r] o(4) show ?thesis by auto
  next
    case 2
    then have "cmp k e > 0" by (simp add: cmp_greater rk_def)
    with AvlNode.IH(2)[OF o(2) need(2) AvlNode.prems(3)] 2 filter_right[of e k l] o(3) show ?thesis by auto
  next
    case 3
    then have "cmp k e = 0" using cmp_less[of k e] cmp_greater[of k e] by (simp add: rk_def)
    with p 3 filter_left[of k e r] filter_right[of e k l] o(3,4) show ?thesis by auto
  qed
qed simp

lemma reset_at_drain:
  assumes "set_ok t" "stack_need (os_root t) \<le> STACK_MAX" "length (elems (os_root t)) < n"
  shows "\<exists>t'. OSetGen_ResetIterAt cmp k t = Some t' \<and> drain n t' = Some (filter (\<lambda>x. rank k \<le> rk x) (elems (os_root t)), t\<lparr>os_stack := []\<rparr>)"
proof -
  from reset_at_ready[of "os_root t" "[]" k] assms(1,2) obtain st where
    st: "reset_at cmp k (os_root t) [] = Some st" "stack_ready st" "pending st = filter (\<lambda>x. rank k \<le> rk x) (elems (os_root t))"
    by (auto simp: set_ok_def)
  have "length (pending st) < n" unfolding st(3) using assms(3) le_less_trans[OF length_filter_le] by blast
  then show ?thesis using st(1-3) drain_ready[of "t\<lparr>os_stack := st\<rparr>" n] by (simp add: OSetGen_ResetIterAt_def)
qed

end


section \<open>Sets keyed by their first word\<close>

interpretation fast: key_order "fast_cmp first_word" first_word "\<lambda>k. k" for first_word
  by unfold_locales (auto simp: fast_cmp_def Let_def)

definition fast_set :: "('e \<Rightarrow> u64) \<Rightarrow> 'e oset \<Rightarrow> bool" where
  "fast_set first_word t \<longleftrightarrow> avl_ok (os_root t) \<and> sorted_wrt (<) (map first_word (elems (os_root t))) \<and>
     os_nElems t = of_nat (length (elems (os_root t)))"

definition fast_map :: "('e \<Rightarrow> u64) \<Rightarrow> 'e oset \<Rightarrow> u64 \<rightharpoonup> 'e" where
  "fast_map first_word t = map_of (map (\<lambda>e. (first_word e, e)) (elems (os_root t)))"

lemma fast_rk: "fast.rk first_word = first_word"
  by (simp add: fun_eq_iff fast.rk_def)

lemma fast_set_ok: "fast.set_ok first_word = fast_set first_word"
  by (simp add: fun_eq_iff fast.set_ok_def fast_set_def fast.ordered_def fast_rk)

lemma fast_entries: "fast.entries first_word = fast_map first_word"
  by (simp add: fun_eq_iff fast.entries_def fast_map_def fast.rk_def)

lemmas fast_simps = fast_set_ok fast_entries fast_rk

lemmas fast_create = fast.create_set[unfolded fast_simps]
lemmas fast_lookup = fast.lookup_set[unfolded fast_simps]
lemmas fast_insert = fast.insert_set[unfolded fast_simps]
lemmas fast_duplicate = fast.insert_set_duplicate[unfolded fast_simps]
lemmas fast_remove = fast.remove_set[unfolded fast_simps]
lemmas fast_size = fast.size_set[unfolded fast_simps]
lemmas fast_elems = fast.elems_entries[unfolded fast_simps]
lemmas fast_need = fast.set_need[unfolded fast_simps]
lemmas fast_card = fast.card_entries[unfolded fast_simps]
lemmas fast_reset_at = fast.reset_at_drain[unfolded fast_simps]


section \<open>Requests\<close>

text \<open>What a client does with a set: the two iterations are the loops that call \<^verbatim>\<open>VG_(OSetGen_Next)\<close> until it returns null.\<close>

datatype 'e oset_request = Set_Insert 'e | Set_Lookup u64 | Set_Contains u64 | Set_Remove u64 | Set_Size | Set_List | Set_List_From u64

datatype 'e oset_answer = Found "'e option" | Holds bool | Count u32 | Listed "'e list"

fun run_oset :: "('e \<Rightarrow> u64) \<Rightarrow> 'e oset_request \<Rightarrow> 'e oset \<times> 'e oset_answer list \<Rightarrow> ('e oset \<times> 'e oset_answer list) option" where
  "run_oset first_word (Set_Insert e) (t, out) = map_option (\<lambda>t. (t, out)) (OSetGen_Insert (fast_cmp first_word) first_word e t)"
| "run_oset first_word (Set_Lookup k) (t, out) = Some (t, out @ [Found (OSetGen_Lookup (fast_cmp first_word) k t)])"
| "run_oset first_word (Set_Contains k) (t, out) = Some (t, out @ [Holds (OSetGen_Contains (fast_cmp first_word) k t)])"
| "run_oset first_word (Set_Remove k) (t, out) =
     map_option (\<lambda>(e, t). (t, out @ [Found e])) (OSetGen_Remove (fast_cmp first_word) first_word k t)"
| "run_oset first_word Set_Size (t, out) = Some (t, out @ [Count (OSetGen_Size t)])"
| "run_oset first_word Set_List (t, out) = do {
     t \<leftarrow> OSetGen_ResetIter t;
     (es, t) \<leftarrow> drain (unat (OSetGen_Size t) + 1) t;
     Some (t, out @ [Listed es])
   }"
| "run_oset first_word (Set_List_From k) (t, out) = do {
     t \<leftarrow> OSetGen_ResetIterAt (fast_cmp first_word) k t;
     (es, t) \<leftarrow> drain (unat (OSetGen_Size t) + 1) t;
     Some (t, out @ [Listed es])
   }"

text \<open>The contract, on finite maps: keys are inserted once, and large sets are not iterated over.\<close>

definition listing :: "(u64 \<rightharpoonup> 'e) \<Rightarrow> u64 set \<Rightarrow> 'e list" where
  "listing m ks = map (the \<circ> m) (sorted_list_of_set ks)"

fun spec_oset :: "('e \<Rightarrow> u64) \<Rightarrow> 'e oset_request \<Rightarrow> (u64 \<rightharpoonup> 'e) \<times> 'e oset_answer list \<Rightarrow> ((u64 \<rightharpoonup> 'e) \<times> 'e oset_answer list) option" where
  "spec_oset first_word (Set_Insert e) (m, out) = (if m (first_word e) = None then Some (m(first_word e \<mapsto> e), out) else None)"
| "spec_oset first_word (Set_Lookup k) (m, out) = Some (m, out @ [Found (m k)])"
| "spec_oset first_word (Set_Contains k) (m, out) = Some (m, out @ [Holds (k \<in> dom m)])"
| "spec_oset first_word (Set_Remove k) (m, out) = Some (m(k := None), out @ [Found (m k)])"
| "spec_oset first_word Set_Size (m, out) = Some (m, out @ [Count (of_nat (card (dom m)))])"
| "spec_oset first_word Set_List (m, out) = (if card (dom m) < ITER_LIMIT then Some (m, out @ [Listed (listing m (dom m))]) else None)"
| "spec_oset first_word (Set_List_From k) (m, out) =
     (if card (dom m) < ITER_LIMIT then Some (m, out @ [Listed (listing m {i \<in> dom m. k \<le> i})]) else None)"

lemma fast_sizes:
  assumes "fast_set fw t" "card (dom (fast_map fw t)) < ITER_LIMIT"
  shows "length (elems (os_root t)) < unat (OSetGen_Size t) + 1"
proof -
  have "unat (of_nat (length (elems (os_root t))) :: u32) = length (elems (os_root t))"
    using assms by (simp add: fast_card ITER_LIMIT_def unsigned_of_nat take_bit_nat_eq_self)
  then show ?thesis using assms(1) by (simp add: fast_set_def OSetGen_Size_def)
qed

lemma reset_set:
  "fast_set fw (t\<lparr>os_stack := st\<rparr>) = fast_set fw t" "fast_map fw (t\<lparr>os_stack := st\<rparr>) = fast_map fw t" "OSetGen_Size (t\<lparr>os_stack := st\<rparr>) = OSetGen_Size t"
  by (simp_all add: fast_set_def fast_map_def OSetGen_Size_def)

lemma reset_size:
  "OSetGen_ResetIter t = Some t' \<Longrightarrow> OSetGen_Size t' = OSetGen_Size t" "OSetGen_ResetIterAt cmp k t = Some t' \<Longrightarrow> OSetGen_Size t' = OSetGen_Size t"
  by (auto simp: OSetGen_ResetIter_def OSetGen_ResetIterAt_def OSetGen_Size_def split: if_splits Option.bind_splits)

lemma filter_sorted_list_of_set: "finite A \<Longrightarrow> filter P (sorted_list_of_set A) = sorted_list_of_set {x \<in> A. P x}"
  by (rule sorted_distinct_set_unique) (auto simp: sorted_wrt_filter)

lemma fast_listing_from:
  assumes "fast_set fw t"
  shows "filter (\<lambda>e. k \<le> fw e) (elems (os_root t)) = listing (fast_map fw t) {i \<in> dom (fast_map fw t). k \<le> i}"
proof -
  let ?m = "fast_map fw t" and ?ks = "sorted_list_of_set (dom (fast_map fw t))"
  have f: "finite (dom ?m)" by (simp add: fast_map_def finite_dom_map_of)
  have "fw (the (?m i)) = i" if i: "i \<in> dom ?m" for i
  proof -
    from i obtain e where "?m i = Some e" by blast
    then show ?thesis using fast.entries_Some[of fw t i e, unfolded fast_simps] assms by simp
  qed
  then have "filter ((\<lambda>e. k \<le> fw e) \<circ> (the \<circ> ?m)) ?ks = filter (\<lambda>i. k \<le> i) ?ks" by (intro filter_cong) (simp_all add: f)
  then have "filter (\<lambda>e. k \<le> fw e) (map (the \<circ> ?m) ?ks) = map (the \<circ> ?m) (filter (\<lambda>i. k \<le> i) ?ks)" by (simp only: filter_map)
  then show ?thesis by (simp add: fast_elems[OF assms] listing_def filter_sorted_list_of_set[OF f])
qed

interpretation ordered_set: data_refinement "\<lambda>(t, out). fast_set fw t" "\<lambda>(t, out). (fast_map fw t, out)" "run_oset fw" "spec_oset fw" for fw
proof
  fix s r a
  assume i: "case s of (t, out) \<Rightarrow> fast_set fw t" and a: "spec_oset fw r (case s of (t, out) \<Rightarrow> (fast_map fw t, out)) = Some a"
  obtain t out where s: "s = (t, out)" by force
  note t = i[unfolded s prod.case]
  have l: "\<exists>t'. OSetGen_ResetIter t = Some t' \<and> drain (unat (OSetGen_Size t') + 1) t' = Some (elems (os_root t), t\<lparr>os_stack := []\<rparr>)"
    if "card (dom (fast_map fw t)) < ITER_LIMIT"
    using reset_drain[OF fast_need[OF t that] fast_sizes[OF t that]] reset_size(1)[of t] by metis
  have f: "\<exists>t'. OSetGen_ResetIterAt (fast_cmp fw) k t = Some t' \<and>
      drain (unat (OSetGen_Size t') + 1) t' = Some (filter (\<lambda>e. k \<le> fw e) (elems (os_root t)), t\<lparr>os_stack := []\<rparr>)"
    if "card (dom (fast_map fw t)) < ITER_LIMIT" for k
    using fast_reset_at[OF t fast_need[OF t that] fast_sizes[OF t that], of k] reset_size(2)[of "fast_cmp fw" k t] by metis
  show "\<exists>s'. run_oset fw r s = Some s' \<and> (case s' of (t, out) \<Rightarrow> fast_set fw t) \<and> (case s' of (t, out) \<Rightarrow> (fast_map fw t, out)) = a"
  proof (cases r)
    case (Set_Insert e)
    then have "fast_map fw t (fw e) = None" "a = ((fast_map fw t)(fw e \<mapsto> e), out)" using a by (auto simp: s split: if_splits)
    then show ?thesis using fast_insert[OF t, of e] Set_Insert by (auto simp: s)
  next
    case (Set_Remove k)
    then show ?thesis using a fast_remove[OF t, of k] by (auto simp: s)
  next
    case Set_List
    then have "card (dom (fast_map fw t)) < ITER_LIMIT" "a = (fast_map fw t, out @ [Listed (elems (os_root t))])"
      using a by (auto simp: s listing_def fast_elems[OF t] split: if_splits)
    then show ?thesis using l t Set_List by (auto simp: s reset_set simp del: drain.simps)
  next
    case (Set_List_From k)
    then have "card (dom (fast_map fw t)) < ITER_LIMIT" "a = (fast_map fw t, out @ [Listed (filter (\<lambda>e. k \<le> fw e) (elems (os_root t)))])"
      using a by (auto simp: s fast_listing_from[OF t] split: if_splits)
    then show ?thesis using f[of k] t Set_List_From by (auto simp: s reset_set simp del: drain.simps)
  qed (use a t fast_lookup[OF t] fast_size[OF t] in \<open>auto simp: s OSetGen_Contains_def\<close>)
qed


section \<open>Destruction\<close>

fun postorder :: "'e avl \<Rightarrow> 'e list" where
  "postorder Null = []"
| "postorder (AvlNode l e b r) = postorder l @ postorder r @ [e]"

lemma postorder_elems: "set (postorder t) = set (elems t)" "length (postorder t) = length (elems t)"
  by (induction t) auto

lemma destroy_tree:
  assumes "t \<noteq> Null" "avl_height t + length st \<le> STACK_MAX"
  shows "destroy_loop ((t, 1) # st) freed = destroy_loop st (freed @ postorder t)"
  using assms
proof (induction t arbitrary: st freed)
  case (AvlNode l e b r)
  let ?n = "AvlNode l e b r"
  have p: "stackPush ?n i st = Some ((?n, i) # st)" if "i = 2 \<or> i = 3" for i using AvlNode.prems that by (auto simp: stackPush_def)
  have c: "(case push_child c ((?n, i) # st) of None \<Rightarrow> None | Some st \<Rightarrow> destroy_loop st fr) = destroy_loop ((?n, i) # st) (fr @ postorder c)"
    if "c = l \<or> c = r" for c i fr
  proof (cases "c = Null")
    case False
    have "avl_height c + length ((?n, i) # st) \<le> STACK_MAX" using that AvlNode.prems(2) by auto
    moreover from False this have "push_child c ((?n, i) # st) = Some ((c, 1) # (?n, i) # st)"
      using height_0[of c] by (auto simp: push_child_def stackPush_def simp del: height_0)
    ultimately show ?thesis using that AvlNode.IH False by auto
  qed (simp add: push_child_def)
  have "destroy_loop ((?n, 1) # st) freed = destroy_loop ((?n, 2) # st) (freed @ postorder l)" using c[where c = l and i = 2] p[of 2] by (simp add: destroy_loop.simps(2))
  also have "\<dots> = destroy_loop ((?n, 3) # st) (freed @ postorder l @ postorder r)" using c[where c = r and i = 3] p[of 3] by (simp add: destroy_loop.simps(2))
  also have "\<dots> = destroy_loop st (freed @ postorder ?n)" by (simp add: destroy_loop.simps(2))
  finally show ?case .
qed simp

lemma small_height:
  assumes "avl_ok t" "length (elems t) < ITER_LIMIT"
  shows "avl_height t \<le> STACK_MAX"
proof (rule ccontr)
  assume "\<not> avl_height t \<le> STACK_MAX"
  then have "min_nodes 33 \<le> min_nodes (avl_height t)" by (intro min_nodes_mono_le) (simp add: STACK_MAX_def)
  then show False using assms avl_size[OF assms(1)] by (simp add: min_nodes_33 ITER_LIMIT_def)
qed

lemma destroy_set:
  assumes "fast_set fw t" "card (dom (fast_map fw t)) < ITER_LIMIT"
  shows "OSetGen_Destroy t = Some (postorder (os_root t))"
proof -
  have h: "avl_height (os_root t) \<le> STACK_MAX" using assms by (intro small_height) (simp_all add: fast_card, simp add: fast_set_def)
  have "push_child (os_root t) [] \<bind> (\<lambda>st. destroy_loop st []) = Some (postorder (os_root t))"
    using destroy_tree[of "os_root t" "[]" "[]"] h by (cases "os_root t = Null") (simp_all add: push_child_def stackPush_def STACK_MAX_def)
  moreover have "(of_nat (length (elems (os_root t))) :: u64) = ucast (os_nElems t)"
    using assms by (simp add: fast_card ITER_LIMIT_def fast_set_def unsigned_of_nat take_bit_nat_eq_self)
  ultimately show ?thesis by (cases "push_child (os_root t) []") (simp_all add: OSetGen_Destroy_def postorder_elems)
qed

end
