(* ===== verification/Oset_Theorems.thy ===== *)
theory Oset_Theorems
  imports Oset_Sets
begin

text \<open>
  What the ordered sets of Valgrind promise: a history of requests acts as on a finite map, a duplicate is refused, and how large a
  set may be for the iterator.
\<close>

section \<open>Histories\<close>



text \<open>
  Inserting an element whose key the set already has fails the assertion of \<^verbatim>\<open>avl_insert\<close>, after every history.
\<close>

theorem oset_refuses_duplicates:
  assumes "foldO (spec_oset first_word) rs (Map.empty, []) = Some (m, out)" "m (first_word e) = Some e'"
  shows "foldO (run_oset first_word) (rs @ [Set_Insert e]) (OSetGen_Create, []) = None"
  using ordered_set.runs[of first_word "(OSetGen_Create, [])" rs "(m, out)"] assms fast_duplicate[of first_word _ e]
  by (auto simp: fast_create foldO_append)

theorem oset_refuses_duplicates_witness:
  "foldO (run_oset fst) ([Set_Insert (7, 1 :: nat), Set_Insert (3, 2)] @ [Set_Insert (7, 5)]) (OSetGen_Create, []) = None"
  by (rule oset_refuses_duplicates[where m = "[7 \<mapsto> (7, 1), 3 \<mapsto> (3, 2)]" and out = "[]" and e' = "(7, 1)"]) simp_all





section \<open>Tables\<close>

text \<open>
  The second-level map of the shadow memory and its table of V bits are sets of pairs keyed by an address, which the model of the shadow
  memory has as association lists: a set that represents such a list answers lookups as the list does, an insertion represents the list with
  the new pair in front, and an iteration lists the same pairs.
\<close>

definition represents :: "(u64 \<times> 'v) oset \<Rightarrow> (u64 \<times> 'v) list \<Rightarrow> bool" where
  "represents t tbl \<longleftrightarrow> fast_set fst t \<and> distinct (map fst tbl) \<and> set (elems (os_root t)) = set tbl"

lemma represents_map: "represents t tbl \<Longrightarrow> fast_map fst t k = map_option (Pair k) (map_of tbl k)"
proof -
  assume r: "represents t tbl"
  have e: "fast_map fst t k = Some e \<longleftrightarrow> map_of tbl k = Some (snd e) \<and> fst e = k" for e
    using fast.entries_Some[of fst t k e, unfolded fast_simps] map_of_eq_Some_iff[of tbl k "snd e"] r by (cases e) (auto simp: represents_def)
  show ?thesis using e[of "(k, the (map_of tbl k))"] e[of "the (fast_map fst t k)"]
    by (cases "map_of tbl k"; cases "fast_map fst t k") simp_all
qed

lemma table_lookup: "represents t tbl \<Longrightarrow> map_option snd (OSetGen_Lookup (fast_cmp fst) k t) = map_of tbl k"
  using fast_lookup[of fst t k] represents_map[of t tbl k] by (simp add: represents_def option.map_comp comp_def option.map_ident)

lemma table_insert:
  assumes "represents t tbl" "map_of tbl k = None"
  shows "\<exists>t'. OSetGen_Insert (fast_cmp fst) fst (k, v) t = Some t' \<and> represents t' ((k, v) # tbl)"
proof -
  have t: "fast_set fst t" and n: "fast_map fst t (fst (k, v)) = None" using assms represents_map[OF assms(1), of k] by (simp_all add: represents_def)
  from fast_insert[OF t n] obtain t' where
    t': "OSetGen_Insert (fast_cmp fst) fst (k, v) t = Some t'" "fast_set fst t'" "fast_map fst t' = (fast_map fst t)(k \<mapsto> (k, v))" by auto
  have e: "x \<in> set (elems (os_root s)) \<longleftrightarrow> fast_map fst s (fst x) = Some x" if "fast_set fst s" for s x
    using fast.entries_Some[of fst s "fst x" x, unfolded fast_simps] that by simp
  have "set (elems (os_root t')) = insert (k, v) (set (elems (os_root t)))"
    using n by (auto simp: e[OF t] e[OF t'(2)] t'(3) split: if_splits)
  then show ?thesis using t' assms by (auto simp: represents_def map_of_eq_None_iff)
qed


section \<open>Reachable sets\<close>

text \<open>
  An element can be taken off a balanced tree, at the end of a longest path, so that inserting it again needs no rotation and gives the same
  tree: every well-formed tree is the result of insertions.
\<close>

fun pluck :: "'e avl \<Rightarrow> ('e \<times> bool \<times> 'e avl) option" where
  "pluck Null = None"
| "pluck (AvlNode l e b r) =
     (if l = Null \<and> r = Null then Some (e, True, Null)
      else if b \<le> 0 then map_option (\<lambda>(x, s, l). (x, s \<and> b = -1, AvlNode l e (if s then b + 1 else b) r)) (pluck l)
      else map_option (\<lambda>(x, s, r). (x, s, AvlNode l e (if s then b - 1 else b) r)) (pluck r))"

context key_order
begin

definition plucked :: "'e avl \<Rightarrow> ('e \<times> bool \<times> 'e avl) option \<Rightarrow> bool" where
  "plucked t p \<longleftrightarrow> (\<exists>x s t'. p = Some (x, s, t') \<and> avl_ok t' \<and> avl_height t = avl_height t' + (if s then 1 else 0) \<and> x \<in> set (elems t) \<and>
     elems t' = remove1 x (elems t) \<and> (if t' = Null then t = AvlNode Null x 0 Null \<and> s else avl_insert cmp key x t' = Some (s, t) \<and> root_elem t' = root_elem t))"

lemma pluck_ok:
  assumes "avl_ok t" "ordered t" "t \<noteq> Null"
  shows "plucked t (pluck t)"
  using assms
proof (induction t)
  case (AvlNode l e b r)
  have o: "ordered l" "ordered r" "\<forall>y \<in> set (elems l). rk y < rk e" "\<forall>y \<in> set (elems r). rk e < rk y" and
    ok: "avl_ok l" "avl_ok r" "b = int (avl_height r) - int (avl_height l)" "-1 \<le> b" "b \<le> 1"
    using AvlNode.prems by (auto simp: ordered_node)
  consider "l = Null" "r = Null" | "l \<noteq> Null" "b \<le> 0" | "r \<noteq> Null" "b > 0"
    using ok(3) height_0[of l] height_0[of r] by linarith
  then show ?case
  proof cases
    case 1
    then show ?thesis using ok(3) by (auto simp: plucked_def)
  next
    case 2
    from AvlNode.IH(1)[OF ok(1) o(1) 2(1)] obtain x s l' where
      i: "pluck l = Some (x, s, l')" "avl_ok l'" "avl_height l = avl_height l' + (if s then 1 else 0)" "x \<in> set (elems l)" "elems l' = remove1 x (elems l)"
      "if l' = Null then l = AvlNode Null x 0 Null \<and> s else avl_insert cmp key x l' = Some (s, l) \<and> root_elem l' = root_elem l"
      unfolding plucked_def by blast
    have "cmp (key x) e < 0" using i(4) o(3) by (simp add: cmp_rk)
    then show ?thesis using 2 i ok by (cases s; cases "l' = Null") (auto simp: plucked_def remove1_append le_Suc_eq)
  next
    case 3
    from AvlNode.IH(2)[OF ok(2) o(2) 3(1)] obtain x s r' where
      i: "pluck r = Some (x, s, r')" "avl_ok r'" "avl_height r = avl_height r' + (if s then 1 else 0)" "x \<in> set (elems r)" "elems r' = remove1 x (elems r)"
      "if r' = Null then r = AvlNode Null x 0 Null \<and> s else avl_insert cmp key x r' = Some (s, r) \<and> root_elem r' = root_elem r"
      unfolding plucked_def by blast
    have "cmp (key x) e > 0" "x \<notin> set (elems l)" "x \<noteq> e" using i(4) o(3,4) by (auto simp: cmp_rk dest: less_asym)
    then show ?thesis using 3 i ok by (cases s; cases "r' = Null") (auto simp: plucked_def remove1_append)
  qed
qed simp

lemma insertions_reach:
  assumes "avl_ok t" "ordered t"
  shows "\<exists>es. length es = length (elems t) \<and> set es = set (elems t) \<and>
    foldO (OSetGen_Insert cmp key) es OSetGen_Create = Some \<lparr>os_root = t, os_nElems = of_nat (length es), os_stack = []\<rparr>"
  using assms
proof (induction "length (elems t)" arbitrary: t)
  case 0
  then show ?case by (simp add: OSetGen_Create_def)
next
  case (Suc n)
  then have "t \<noteq> Null" by auto
  from pluck_ok[OF Suc.prems this] obtain x s t' where p: "avl_ok t'" "x \<in> set (elems t)" "elems t' = remove1 x (elems t)"
    "if t' = Null then t = AvlNode Null x 0 Null \<and> s else avl_insert cmp key x t' = Some (s, t) \<and> root_elem t' = root_elem t"
    unfolding plucked_def by blast
  have "n = length (elems t')" using p(2,3) Suc.hyps(2) by (simp add: length_remove1)
  from Suc.hyps(1)[OF this p(1) ordered_remove1[OF Suc.prems(2) p(3)]] obtain es where
    es: "length es = length (elems t')" "set es = set (elems t')"
    "foldO (OSetGen_Insert cmp key) es OSetGen_Create = Some \<lparr>os_root = t', os_nElems = of_nat (length es), os_stack = []\<rparr>" by blast
  have "OSetGen_Insert cmp key x \<lparr>os_root = t', os_nElems = of_nat (length es), os_stack = []\<rparr> =
      Some \<lparr>os_root = t, os_nElems = of_nat (length (es @ [x])), os_stack = []\<rparr>"
    using p(4) by (auto simp: OSetGen_Insert_def split: if_splits)
  then have "foldO (OSetGen_Insert cmp key) (es @ [x]) OSetGen_Create = Some \<lparr>os_root = t, os_nElems = of_nat (length (es @ [x])), os_stack = []\<rparr>"
    by (simp add: foldO_append es(3))
  moreover have "length (es @ [x]) = length (elems t)" "set (es @ [x]) = set (elems t)"
    using es(1,2) p(2,3) ordered_distinct[OF Suc.prems(2)] Suc.hyps(2) by (auto simp: length_remove1 set_remove1_eq)
  ultimately show ?case by blast
qed

end

lemma insert_keeps:
  assumes "fast_set fw t" "OSetGen_Insert (fast_cmp fw) fw e t = Some t'"
  shows "fast_set fw t' \<and> os_stack t' = []"
proof
  have "fast_map fw t (fw e) = None" using fast_duplicate[OF assms(1), of e] assms(2) by (cases "fast_map fw t (fw e)") auto
  from fast_insert[OF assms(1) this] assms(2) show "fast_set fw t'" by auto
  show "os_stack t' = []" using assms(2) by (auto simp: OSetGen_Insert_def split: Option.bind_splits)
qed

lemma insertions_keep:
  "foldO (OSetGen_Insert (fast_cmp fw) fw) es t = Some t' \<Longrightarrow> fast_set fw t \<Longrightarrow> os_stack t = [] \<Longrightarrow> fast_set fw t' \<and> os_stack t' = []"
  by (induction es arbitrary: t) (auto split: option.splits dest: insert_keeps)

text \<open>
  C33. The invariant is exact: a set without an iteration in progress is balanced, sorted by its keys and counts its elements if and only if
  insertions into the empty set produce it.
\<close>

theorem oset_invariant_exact:
  "fast_set first_word t \<and> os_stack t = [] \<longleftrightarrow> (\<exists>es. foldO (OSetGen_Insert (fast_cmp first_word) first_word) es OSetGen_Create = Some t)"
proof
  assume t: "fast_set first_word t \<and> os_stack t = []"
  then have "avl_ok (os_root t)" "fast.ordered first_word (os_root t)" "os_nElems t = of_nat (length (elems (os_root t)))"
    by (simp_all add: fast_set_def fast.ordered_def fast_rk)
  from fast.insertions_reach[OF this(1,2)] this(3) t
  show "\<exists>es. foldO (OSetGen_Insert (fast_cmp first_word) first_word) es OSetGen_Create = Some t" by (metis oset.surjective old.unit.exhaust)
next
  assume "\<exists>es. foldO (OSetGen_Insert (fast_cmp first_word) first_word) es OSetGen_Create = Some t"
  then show "fast_set first_word t \<and> os_stack t = []" using insertions_keep fast_create(1) by (fastforce simp: OSetGen_Create_def)
qed


section \<open>The stack of the iterator\<close>

text \<open>The AVL trees with the fewest nodes for their height, leaning to the left.\<close>

fun thin_tree :: "nat \<Rightarrow> nat \<Rightarrow> u64 avl" where
  "thin_tree 0 k = Null"
| "thin_tree (Suc 0) k = AvlNode Null (of_nat k) 0 Null"
| "thin_tree (Suc (Suc h)) k =
     AvlNode (thin_tree (Suc h) k) (of_nat (k + min_nodes (Suc h))) (-1) (thin_tree h (k + min_nodes (Suc h) + 1))"

lemma thin_height: "avl_height (thin_tree h k) = h"
  by (induction h k rule: thin_tree.induct) auto

lemma thin_ok: "avl_ok (thin_tree h k)"
  by (induction h k rule: thin_tree.induct) (auto simp: thin_height)

lemma thin_elems: "elems (thin_tree h k) = map of_nat [k..<k + min_nodes h]"
proof (induction h k rule: thin_tree.induct)
  case (3 h k)
  let ?a = "min_nodes (Suc h)" and ?b = "min_nodes h"
  have "[k..<k + min_nodes (Suc (Suc h))] = [k..<k + ?a] @ (k + ?a) # [k + ?a + 1..<k + ?a + 1 + ?b]"
    using upt_add_eq_append[of k "k + ?a" "Suc ?b"] by (simp add: upt_conv_Cons add.assoc)
  then show ?case using 3 by (simp del: min_nodes.simps)
qed simp_all

lemma thin_sorted: "min_nodes h \<le> 2 ^ 64 \<Longrightarrow> sorted_wrt (<) (elems (thin_tree h 0))"
  by (auto simp: thin_elems sorted_wrt_map word_less_nat_alt unsigned_of_nat take_bit_nat_eq_self intro!: sorted_wrt_mono_rel[OF _ sorted_wrt_upt])

lemma thin_descend: "0 < h \<Longrightarrow> STACK_MAX < length st + h \<Longrightarrow> descend (thin_tree h k) st = None"
proof (induction h k arbitrary: st rule: thin_tree.induct)
  case (3 h k)
  have "thin_tree (Suc h) k \<noteq> Null" using thin_height[of "Suc h" k] by auto
  then show ?case using 3(1) 3(4) by (auto simp: stackPush_def split: Option.bind_splits)
qed (auto simp: stackPush_def)

declare thin_tree.simps [simp del]

definition thin_set :: "u64 oset" where
  "thin_set = \<lparr>os_root = thin_tree 33 0, os_nElems = 9227464, os_stack = []\<rparr>"

lemma thin_set_length: "length (elems (os_root thin_set)) = ITER_LIMIT"
  by (simp add: thin_set_def thin_elems min_nodes_33 ITER_LIMIT_def)

lemma thin_set_ok: "fast_set (\<lambda>w. w) thin_set"
  using thin_set_length by (simp add: fast_set_def thin_set_def thin_ok ITER_LIMIT_def thin_sorted min_nodes_33)

lemma run_insertions: "foldO (run_oset fw) (map Set_Insert es) (t, out) = map_option (\<lambda>t. (t, out)) (foldO (OSetGen_Insert (fast_cmp fw) fw) es t)"
  by (induction es arbitrary: t) (auto split: option.splits)

lemma thin_overflow: "\<exists>t'. OSetGen_ResetIter thin_set = Some t' \<and> OSetGen_Next t' = None"
proof -
  have "thin_tree 33 0 \<noteq> Null" using thin_height[of 33 0] by auto
  then obtain l e b r where t: "thin_tree 33 0 = AvlNode l e b r" by (cases "thin_tree 33 0") auto
  have "descend (AvlNode l e b r) [] = None" unfolding t[symmetric] by (rule thin_descend) (simp_all add: STACK_MAX_def)
  then show ?thesis unfolding thin_set_def t
    by (simp add: OSetGen_ResetIter_def OSetGen_Next_def stackPush_def STACK_MAX_def next_loop.simps(2) del: descend.simps)
qed

text \<open>
  C35. The bound on iterated sets is exact, and far below the \<open>2\<^sup>3\<^sup>2\<close> of the comment: there are 9227464 distinct keys whose insertion in some
  order succeeds, and after which the first step of an iteration overflows the stack of 32 nodes and fails an assertion.
\<close>

theorem oset_iterator_overflows:
  "\<exists>ks. length ks = ITER_LIMIT \<and> distinct ks \<and>
     foldO (run_oset (\<lambda>w. w)) (map Set_Insert ks) (OSetGen_Create, []) \<noteq> None \<and>
     foldO (run_oset (\<lambda>w. w)) (map Set_Insert ks @ [Set_List]) (OSetGen_Create, []) = None"
proof -
  have "fast.ordered (\<lambda>w. w) (thin_tree 33 0)" using thin_set_ok by (simp add: fast.ordered_def fast_set_def thin_set_def fast_rk)
  from fast.insertions_reach[OF thin_ok this] obtain ks where
    ks: "length ks = length (elems (thin_tree 33 0))" "set ks = set (elems (thin_tree 33 0))"
    "foldO (OSetGen_Insert (fast_cmp (\<lambda>w. w)) (\<lambda>w. w)) ks OSetGen_Create = Some \<lparr>os_root = thin_tree 33 0, os_nElems = of_nat (length ks), os_stack = []\<rparr>"
    by blast
  have len: "length ks = ITER_LIMIT" using ks(1) thin_set_length by (simp add: thin_set_def)
  have "distinct (elems (thin_tree 33 0))" using thin_set_ok by (simp add: fast_set_def thin_set_def strict_sorted_iff)
  then have "distinct ks" using ks(1,2) by (metis card_distinct distinct_card)
  moreover have run: "foldO (run_oset (\<lambda>w. w)) (map Set_Insert ks) (OSetGen_Create, []) = Some (thin_set, [])"
    by (simp add: run_insertions ks(3) thin_set_def len) (simp add: ITER_LIMIT_def)
  moreover have "run_oset (\<lambda>w. w) Set_List (thin_set, []) = None" using thin_overflow by auto
  ultimately show ?thesis using len by (intro exI[of _ ks]) (simp add: foldO_append del: run_oset.simps)
qed

end
