(* ===== verification/Hashtab.thy ===== *)
theory Hashtab
  imports Prelude
begin

text \<open>
  The hash tables of Valgrind, \<^verbatim>\<open>coregrind/m_hashtable.c\<close>: an expanding array of chains with an iterator that allows the removal of the
  current node. Memcheck keeps its heap blocks in such tables.

  The chains are lists of nodes and the key of a node is an argument; \<^verbatim>\<open>n_chains\<close> is the length of the array. The iterator's node is given by its
  position in the chain before \<^verbatim>\<open>iterChain\<close>. \<^const>\<open>None\<close> is a failed assertion; allocation does not fail.
\<close>

section \<open>Tables\<close>

definition hash_primes :: "nat list" where
  "hash_primes = [769, 1543, 3079, 6151, 12289, 24593, 49157, 98317, 196613, 393241, 786433, 1572869,
     3145739, 6291469, 12582917, 25165843, 50331653, 100663319, 201326611, 402653189]"

record 'n hashtable =
  ht_chains :: "'n list list"
  ht_n_elements :: u32
  ht_iterNode :: "nat option"
  ht_iterChain :: nat
  ht_iterOK :: bool

definition n_chains :: "'n hashtable \<Rightarrow> nat" where
  "n_chains t = length (ht_chains t)"

definition CHAIN_NO :: "u64 \<Rightarrow> 'n hashtable \<Rightarrow> nat" where
  "CHAIN_NO k t = unat k mod n_chains t"

definition HT_construct :: "'n hashtable" where
  "HT_construct = \<lparr>ht_chains = replicate (hash_primes ! 0) [], ht_n_elements = 0, ht_iterNode = None, ht_iterChain = 0, ht_iterOK = True\<rparr>"

definition HT_count_nodes :: "'n hashtable \<Rightarrow> u32" where
  "HT_count_nodes t = ht_n_elements t"


section \<open>Insertion\<close>

definition prepend_node :: "('n \<Rightarrow> u64) \<Rightarrow> 'n \<Rightarrow> 'n list list \<Rightarrow> 'n list list" where
  "prepend_node key x cs = (let c = unat (key x) mod length cs in cs[c := x # cs ! c])"

definition ht_resize :: "('n \<Rightarrow> u64) \<Rightarrow> 'n hashtable \<Rightarrow> 'n hashtable option" where
  "ht_resize key t =
     (let old_chains = n_chains t
      in if old_chains = last hash_primes then Some t
         else if \<not> (hd hash_primes \<le> old_chains \<and> old_chains < last hash_primes) then None
         else (let new_chains = (case find (\<lambda>p. p > old_chains + 1) hash_primes of Some p \<Rightarrow> p | None \<Rightarrow> old_chains + 1)
               in if new_chains > old_chains \<and> new_chains > hd hash_primes \<and> new_chains \<le> last hash_primes
                  then Some (t\<lparr>ht_chains := fold (prepend_node key) (concat (ht_chains t)) (replicate new_chains [])\<rparr>)
                  else None))"

definition HT_add_node :: "('n \<Rightarrow> u64) \<Rightarrow> 'n \<Rightarrow> 'n hashtable \<Rightarrow> 'n hashtable option" where
  "HT_add_node key x t = do {
     let t = t\<lparr>ht_chains := prepend_node key x (ht_chains t), ht_n_elements := ht_n_elements t + 1\<rparr>;
     t \<leftarrow> (if unat (ht_n_elements t) > n_chains t then ht_resize key t else Some t);
     Some (t\<lparr>ht_iterOK := False\<rparr>)
   }"


section \<open>Lookup and removal\<close>

definition HT_lookup :: "('n \<Rightarrow> u64) \<Rightarrow> 'n hashtable \<Rightarrow> u64 \<Rightarrow> 'n option" where
  "HT_lookup key t k = find (\<lambda>nd. k = key nd) (ht_chains t ! CHAIN_NO k t)"

definition HT_gen_lookup :: "('n \<Rightarrow> u64) \<Rightarrow> 'n hashtable \<Rightarrow> 'n \<Rightarrow> ('n \<Rightarrow> 'n \<Rightarrow> int) \<Rightarrow> 'n option" where
  "HT_gen_lookup key t x cmp = find (\<lambda>nd. key x = key nd \<and> cmp x nd = 0) (ht_chains t ! CHAIN_NO (key x) t)"

fun remove_first :: "('n \<Rightarrow> bool) \<Rightarrow> 'n list \<Rightarrow> 'n list" where
  "remove_first P [] = []"
| "remove_first P (x # xs) = (if P x then xs else x # remove_first P xs)"

definition remove_from_chain :: "nat \<Rightarrow> ('n \<Rightarrow> bool) \<Rightarrow> 'n hashtable \<Rightarrow> 'n option \<times> 'n hashtable" where
  "remove_from_chain c P t =
     (let t = t\<lparr>ht_iterOK := False\<rparr>
      in case find P (ht_chains t ! c) of
           None \<Rightarrow> (None, t)
         | Some nd \<Rightarrow> (Some nd, t\<lparr>ht_chains := (ht_chains t)[c := remove_first P (ht_chains t ! c)], ht_n_elements := ht_n_elements t - 1\<rparr>))"

definition HT_remove :: "('n \<Rightarrow> u64) \<Rightarrow> 'n hashtable \<Rightarrow> u64 \<Rightarrow> 'n option \<times> 'n hashtable" where
  "HT_remove key t k = remove_from_chain (CHAIN_NO k t) (\<lambda>nd. k = key nd) t"

definition HT_gen_remove :: "('n \<Rightarrow> u64) \<Rightarrow> 'n hashtable \<Rightarrow> 'n \<Rightarrow> ('n \<Rightarrow> 'n \<Rightarrow> int) \<Rightarrow> 'n option \<times> 'n hashtable" where
  "HT_gen_remove key t x cmp = remove_from_chain (CHAIN_NO (key x) t) (\<lambda>nd. key x = key nd \<and> cmp x nd = 0) t"


section \<open>All nodes\<close>

definition HT_to_array :: "'n hashtable \<Rightarrow> 'n list option" where
  "HT_to_array t =
     (if ht_n_elements t = 0 then Some []
      else let arr = concat (ht_chains t) in if length arr = unat (ht_n_elements t) then Some arr else None)"

definition HT_ResetIter :: "'n hashtable \<Rightarrow> 'n hashtable" where
  "HT_ResetIter t = t\<lparr>ht_iterNode := None, ht_iterChain := 0, ht_iterOK := True\<rparr>"

definition HT_Next :: "'n hashtable \<Rightarrow> ('n option \<times> 'n hashtable) option" where
  "HT_Next t =
     (if \<not> ht_iterOK t then None
      else case ht_iterNode t of
          Some j \<Rightarrow>
            if Suc j < length (ht_chains t ! (ht_iterChain t - 1))
            then Some (Some (ht_chains t ! (ht_iterChain t - 1) ! Suc j), t\<lparr>ht_iterNode := Some (Suc j)\<rparr>)
            else (case find (\<lambda>i. ht_chains t ! i \<noteq> []) [ht_iterChain t..<n_chains t] of
                Some i \<Rightarrow> Some (Some (hd (ht_chains t ! i)), t\<lparr>ht_iterNode := Some 0, ht_iterChain := Suc i\<rparr>)
              | None \<Rightarrow> Some (None, t))
        | None \<Rightarrow>
            (case find (\<lambda>i. ht_chains t ! i \<noteq> []) [ht_iterChain t..<n_chains t] of
                Some i \<Rightarrow> Some (Some (hd (ht_chains t ! i)), t\<lparr>ht_iterNode := Some 0, ht_iterChain := Suc i\<rparr>)
              | None \<Rightarrow> Some (None, t)))"

definition HT_remove_at_Iter :: "'n hashtable \<Rightarrow> 'n hashtable option" where
  "HT_remove_at_Iter t =
     (if \<not> ht_iterOK t then None
      else case ht_iterNode t of
          None \<Rightarrow> None
        | Some j \<Rightarrow>
            let curChain = ht_iterChain t - 1; ch = ht_chains t ! curChain; n = ht_n_elements t - 1
            in if j = 0
               then Some (t\<lparr>ht_chains := (ht_chains t)[curChain := tl ch], ht_iterNode := None, ht_iterChain := curChain, ht_n_elements := n\<rparr>)
               else Some (t\<lparr>ht_chains := (ht_chains t)[curChain := take j ch @ drop (Suc j) ch], ht_iterNode := Some (j - 1), ht_n_elements := n\<rparr>))"

text \<open>The nodes in the order in which they are freed.\<close>

definition HT_destruct :: "'n hashtable \<Rightarrow> 'n list" where
  "HT_destruct t = concat (ht_chains t)"

end
