(* ===== verification/Heap.thy ===== *)
theory Heap
  imports Leak Shadow_Range Hashtab
begin

text \<open>
  Memcheck's heap, \<^verbatim>\<open>memcheck/mc_malloc_wrappers.c\<close>: what the client's \<^verbatim>\<open>malloc\<close>, \<^verbatim>\<open>free\<close>, \<^verbatim>\<open>realloc\<close> and \<^verbatim>\<open>new\<close> do, the tables of live blocks, the queues of freed
  blocks that are held back from reuse, and memory pools.

  State: the shadow memory, the bytes of the client, the tables, the queues, the statistics, the reported errors, and the blocks given back to
  \<^verbatim>\<open>VG_(cli_free)\<close>. What a call gets from elsewhere is its environment: the block that \<^verbatim>\<open>VG_(cli_malloc)\<close> returns (0 for a failure), the address of the
  new chunk and the execution context. Sizes of the queues are integers without bound. Profiling of allocations and messages are left out, and so is
  \<^verbatim>\<open>check_mempool_sane\<close>, which only prints.
\<close>

section \<open>Data\<close>

datatype KeepStacktraces = KS_none | KS_alloc | KS_free | KS_alloc_then_free | KS_alloc_and_free

record heap_chunk =
  hc_addr :: addr
  hc_data :: addr
  hc_szB :: u64
  hc_allockind :: MC_AllocKind
  hc_alignB :: u64
  hc_where :: "u64 list"

record heap_pool =
  hm_pool :: addr
  hm_rzB :: u64
  hm_is_zeroed :: bool
  hm_auto_free :: bool
  hm_metapool :: bool
  hm_chunks :: "heap_chunk hashtable"

datatype heap_error =
  Err_Free addr | Err_FreeMismatch heap_chunk | Err_FishyValue string string u64 | Err_ReallocSizeZero addr | Err_IllegalMempool addr

record heap_opts =
  clo_freelist_vol :: int
  clo_freelist_big_blocks :: int
  clo_keep_stacktraces :: KeepStacktraces
  clo_malloc_fill :: int
  clo_free_fill :: int
  clo_show_mismatched_frees :: bool
  clo_show_realloc_size_zero :: bool
  clo_realloc_zero_bytes_frees :: bool
  clo_alignment :: u64
  Malloc_Redzone_SzB :: u64
  null_ExeContext :: u64

record heap =
  hp_shadow :: shadow
  hp_mem :: "addr \<Rightarrow> u8"
  hp_malloc_list :: "heap_chunk hashtable"
  hp_mempool_list :: "heap_pool hashtable"
  freed_big :: "heap_chunk list"
  freed_small :: "heap_chunk list"
  free_queue_volume :: int
  free_queue_length :: int
  cmalloc_n_mallocs :: u64
  cmalloc_n_frees :: u64
  cmalloc_bs_mallocd :: u64
  hp_errors :: "heap_error list"
  cli_freed :: "addr list"

record call_env =
  ce_block :: addr
  ce_chunk :: addr
  ce_context :: u64

definition with_shadow :: "(shadow \<Rightarrow> shadow option) \<Rightarrow> heap \<Rightarrow> heap option" where
  "with_shadow f h = map_option (\<lambda>sh. h\<lparr>hp_shadow := sh\<rparr>) (f (hp_shadow h))"

definition report :: "heap_error \<Rightarrow> heap \<Rightarrow> heap" where
  "report e h = h\<lparr>hp_errors := hp_errors h @ [e]\<rparr>"

text \<open>\<^verbatim>\<open>VG_(memset)\<close> and \<^verbatim>\<open>VG_(memcpy)\<close> on the bytes of the client.\<close>

definition mem_fill :: "addr \<Rightarrow> nat \<Rightarrow> u8 \<Rightarrow> (addr \<Rightarrow> u8) \<Rightarrow> addr \<Rightarrow> u8" where
  "mem_fill p n v m = (\<lambda>a. if unat (a - p) < n then v else m a)"

definition mem_copy :: "addr \<Rightarrow> addr \<Rightarrow> nat \<Rightarrow> (addr \<Rightarrow> u8) \<Rightarrow> addr \<Rightarrow> u8" where
  "mem_copy dst src n m = (\<lambda>a. if unat (a - dst) < n then m (src + (a - dst)) else m a)"

definition fill_with :: "int \<Rightarrow> addr \<Rightarrow> u64 \<Rightarrow> heap \<Rightarrow> heap option" where
  "fill_with v p n h =
     (if v = -1 then Some h
      else if 0 \<le> v \<and> v \<le> 255 then Some (h\<lparr>hp_mem := mem_fill p (unat n) (of_int v) (hp_mem h)\<rparr>)
      else None)"


section \<open>The queues of freed blocks\<close>

definition add_to_freed_queue :: "heap_opts \<Rightarrow> heap_chunk \<Rightarrow> heap \<Rightarrow> heap" where
  "add_to_freed_queue opts mc h =
     (let put = (\<lambda>l. if l \<noteq> [] \<and> uint (hc_szB mc) \<ge> clo_freelist_vol opts then mc # l else l @ [mc]);
          h = (if uint (hc_szB mc) \<ge> clo_freelist_big_blocks opts
               then h\<lparr>freed_big := put (freed_big h)\<rparr> else h\<lparr>freed_small := put (freed_small h)\<rparr>)
      in h\<lparr>free_queue_volume := free_queue_volume h + uint (hc_szB mc), free_queue_length := free_queue_length h + 1\<rparr>)"

fun release_loop :: "int \<Rightarrow> heap_chunk list \<Rightarrow> int \<times> int \<times> addr list \<Rightarrow> (heap_chunk list \<times> int \<times> int \<times> addr list) option" where
  "release_loop vol [] (volume, n, freed) = Some ([], volume, n, freed)"
| "release_loop vol (mc1 # l) (volume, n, freed) =
     (if volume > vol
      then (let volume = volume - uint (hc_szB mc1)
            in if volume \<ge> 0
               then release_loop vol l (volume, n - 1, if hc_allockind mc1 \<noteq> MC_AllocCustom then freed @ [hc_data mc1] else freed)
               else None)
      else Some (mc1 # l, volume, n, freed))"

definition release_oldest_block :: "heap_opts \<Rightarrow> heap \<Rightarrow> heap option" where
  "release_oldest_block opts h =
     (let vol = clo_freelist_vol opts
      in if \<not> (free_queue_volume h > vol \<and> (freed_big h \<noteq> [] \<or> freed_small h \<noteq> [])) then None
         else do {
           (big, s) \<leftarrow> release_loop vol (freed_big h) (free_queue_volume h, free_queue_length h, cli_freed h);
           (small, volume, n, freed) \<leftarrow> release_loop vol (freed_small h) s;
           Some (h\<lparr>freed_big := big, freed_small := small, free_queue_volume := volume, free_queue_length := n, cli_freed := freed\<rparr>)
         })"

definition addr_is_in_block :: "addr \<Rightarrow> addr \<Rightarrow> u64 \<Rightarrow> u64 \<Rightarrow> bool" where
  "addr_is_in_block a start sz rz \<longleftrightarrow> start - rz \<le> a \<and> a < start + sz + rz"

definition get_freed_block_bracketting :: "heap_opts \<Rightarrow> addr \<Rightarrow> heap \<Rightarrow> heap_chunk option" where
  "get_freed_block_bracketting opts a h =
     find (\<lambda>mc. addr_is_in_block a (hc_data mc) (hc_szB mc) (Malloc_Redzone_SzB opts)) (freed_big h @ freed_small h)"


section \<open>Where blocks were allocated and freed\<close>

fun n_where_pointers :: "KeepStacktraces \<Rightarrow> nat" where
  "n_where_pointers KS_none = 0"
| "n_where_pointers KS_alloc = 1"
| "n_where_pointers KS_free = 1"
| "n_where_pointers KS_alloc_then_free = 1"
| "n_where_pointers KS_alloc_and_free = 2"

definition set_allocated_at :: "heap_opts \<Rightarrow> u64 \<Rightarrow> heap_chunk \<Rightarrow> heap_chunk" where
  "set_allocated_at opts ctx mc =
     (if clo_keep_stacktraces opts \<in> {KS_alloc, KS_alloc_then_free, KS_alloc_and_free} then mc\<lparr>hc_where := (hc_where mc)[0 := ctx]\<rparr> else mc)"

definition set_freed_at :: "heap_opts \<Rightarrow> u64 \<Rightarrow> heap_chunk \<Rightarrow> heap_chunk" where
  "set_freed_at opts ctx mc =
     (case clo_keep_stacktraces opts of
        KS_none \<Rightarrow> mc
      | KS_alloc \<Rightarrow> mc
      | KS_free \<Rightarrow> mc\<lparr>hc_where := (hc_where mc)[0 := ctx]\<rparr>
      | KS_alloc_then_free \<Rightarrow> mc\<lparr>hc_where := (hc_where mc)[0 := ctx]\<rparr>
      | KS_alloc_and_free \<Rightarrow> mc\<lparr>hc_where := (hc_where mc)[1 := ctx]\<rparr>)"

definition in_block_list :: "heap_chunk hashtable \<Rightarrow> heap_chunk \<Rightarrow> bool option" where
  "in_block_list block_list mc =
     (case HT_lookup hc_data block_list (hc_data mc) of
        Some found_mc \<Rightarrow>
          if hc_szB found_mc \<noteq> hc_szB mc \<or> hc_allockind found_mc \<noteq> hc_allockind mc then Some False
          else if found_mc = mc then Some True else None
      | None \<Rightarrow> Some False)"

fun in_some_pool :: "heap_pool list \<Rightarrow> heap_chunk \<Rightarrow> bool option" where
  "in_some_pool [] mc = Some False"
| "in_some_pool (mp # mps) mc = do { b \<leftarrow> in_block_list (hm_chunks mp) mc; if b then Some True else in_some_pool mps mc }"

definition live_block :: "heap \<Rightarrow> heap_chunk \<Rightarrow> bool option" where
  "live_block h mc = do {
     b \<leftarrow> (if hc_allockind mc = MC_AllocCustom then in_some_pool (concat (ht_chains (hp_mempool_list h))) mc else Some False);
     if b then Some True else in_block_list (hp_malloc_list h) mc
   }"

definition where_slot :: "heap_chunk \<Rightarrow> nat \<Rightarrow> u64 option" where
  "where_slot mc i = (if i < length (hc_where mc) then Some (hc_where mc ! i) else None)"

definition allocated_at :: "heap_opts \<Rightarrow> heap \<Rightarrow> heap_chunk \<Rightarrow> u64 option" where
  "allocated_at opts h mc =
     (case clo_keep_stacktraces opts of
        KS_none \<Rightarrow> Some (null_ExeContext opts)
      | KS_alloc \<Rightarrow> where_slot mc 0
      | KS_free \<Rightarrow> Some (null_ExeContext opts)
      | KS_alloc_then_free \<Rightarrow> do { live \<leftarrow> live_block h mc; if live then where_slot mc 0 else Some (null_ExeContext opts) }
      | KS_alloc_and_free \<Rightarrow> where_slot mc 0)"

definition freed_at :: "heap_opts \<Rightarrow> heap \<Rightarrow> heap_chunk \<Rightarrow> u64 option" where
  "freed_at opts h mc =
     (let or_null = (\<lambda>w. if w \<noteq> 0 then w else null_ExeContext opts)
      in case clo_keep_stacktraces opts of
        KS_none \<Rightarrow> Some (null_ExeContext opts)
      | KS_alloc \<Rightarrow> Some (null_ExeContext opts)
      | KS_free \<Rightarrow> map_option or_null (where_slot mc 0)
      | KS_alloc_then_free \<Rightarrow> do { live \<leftarrow> live_block h mc; if live then Some (null_ExeContext opts) else where_slot mc 0 }
      | KS_alloc_and_free \<Rightarrow> map_option or_null (where_slot mc 1))"


section \<open>Allocation\<close>

text \<open>The size of a chunk has 62 bits; the structure without its contexts has 32 bytes.\<close>

definition create_MC_Chunk :: "heap_opts \<Rightarrow> call_env \<Rightarrow> addr \<Rightarrow> u64 \<Rightarrow> u64 \<Rightarrow> MC_AllocKind \<Rightarrow> heap \<Rightarrow> (heap_chunk \<times> heap) option" where
  "create_MC_Chunk opts env p szB alignB kind h = do {
     let mc = \<lparr>hc_addr = ce_chunk env, hc_data = p, hc_szB = take_bit 62 szB, hc_allockind = kind, hc_alignB = alignB,
               hc_where = replicate (n_where_pointers (clo_keep_stacktraces opts)) 0\<rparr>;
     let mc = set_allocated_at opts (ce_context env) mc;
     h \<leftarrow> (if free_queue_volume h > clo_freelist_vol opts then release_oldest_block opts h else Some h);
     (bad, sh) \<leftarrow> check_mem_is_noaccess (hc_addr mc) 32 (hp_shadow h);
     if bad = None then Some (mc, h\<lparr>hp_shadow := sh\<rparr>) else None
   }"

definition count_alloc :: "u64 \<Rightarrow> heap \<Rightarrow> heap" where
  "count_alloc szB h = h\<lparr>cmalloc_n_mallocs := cmalloc_n_mallocs h + 1, cmalloc_bs_mallocd := cmalloc_bs_mallocd h + szB\<rparr>"

text \<open>The table that the new chunk is added to is given by how it is added.\<close>

definition new_block ::
  "heap_opts \<Rightarrow> call_env \<Rightarrow> addr \<Rightarrow> u64 \<Rightarrow> u64 \<Rightarrow> u64 \<Rightarrow> bool \<Rightarrow> MC_AllocKind \<Rightarrow> (heap_chunk \<Rightarrow> heap \<Rightarrow> heap option) \<Rightarrow> heap \<Rightarrow> (addr \<times> heap) option" where
  "new_block opts env p szB alignB orig_alignB is_zeroed kind add h =
     (if (p \<noteq> 0) \<noteq> (kind = MC_AllocCustom) then None
      else let q = (if p \<noteq> 0 then p else ce_block env)
           in if q = 0 then Some (0, h)
              else do {
                h \<leftarrow> (if p \<noteq> 0 then Some h
                      else if is_zeroed then Some (h\<lparr>hp_mem := mem_fill q (unat szB) 0 (hp_mem h)\<rparr>)
                      else fill_with (clo_malloc_fill opts) q szB h);
                (mc, h) \<leftarrow> create_MC_Chunk opts env q szB orig_alignB kind (count_alloc szB h);
                h \<leftarrow> add mc h;
                h \<leftarrow> (if is_zeroed then with_shadow (make_mem_defined q szB) h
                      else do { _ \<leftarrow> allocated_at opts h mc; with_shadow (make_mem_undefined q szB) h });
                Some (q, h)
              })"

definition add_malloc :: "heap_chunk \<Rightarrow> heap \<Rightarrow> heap option" where
  "add_malloc mc h = map_option (\<lambda>t. h\<lparr>hp_malloc_list := t\<rparr>) (HT_add_node hc_data mc (hp_malloc_list h))"

definition record_fishy_value_error :: "string \<Rightarrow> string \<Rightarrow> u64 \<Rightarrow> heap \<Rightarrow> bool \<times> heap" where
  "record_fishy_value_error fn arg v h = (if sint v \<ge> 0 then (False, h) else (True, report (Err_FishyValue fn arg v) h))"

definition checked_new :: "heap_opts \<Rightarrow> call_env \<Rightarrow> string \<Rightarrow> u64 \<Rightarrow> u64 \<Rightarrow> u64 \<Rightarrow> MC_AllocKind \<Rightarrow> heap \<Rightarrow> (addr \<times> heap) option" where
  "checked_new opts env fn n alignB orig_alignB kind h =
     (case record_fishy_value_error fn ''size'' n h of
        (True, h) \<Rightarrow> Some (0, h)
      | (False, h) \<Rightarrow> new_block opts env 0 n alignB orig_alignB False kind add_malloc h)"

definition MC_malloc :: "heap_opts \<Rightarrow> call_env \<Rightarrow> u64 \<Rightarrow> heap \<Rightarrow> (addr \<times> heap) option" where
  "MC_malloc opts env n h = checked_new opts env ''malloc'' n (clo_alignment opts) 0 MC_AllocMalloc h"

definition MC_builtin_new :: "heap_opts \<Rightarrow> call_env \<Rightarrow> u64 \<Rightarrow> heap \<Rightarrow> (addr \<times> heap) option" where
  "MC_builtin_new opts env n h = checked_new opts env ''__builtin_new'' n (clo_alignment opts) 0 MC_AllocNew h"

definition MC_builtin_new_aligned :: "heap_opts \<Rightarrow> call_env \<Rightarrow> u64 \<Rightarrow> u64 \<Rightarrow> u64 \<Rightarrow> heap \<Rightarrow> (addr \<times> heap) option" where
  "MC_builtin_new_aligned opts env n alignB orig_alignB h = checked_new opts env ''__builtin_new_aligned'' n alignB orig_alignB MC_AllocNew h"

definition MC_builtin_vec_new :: "heap_opts \<Rightarrow> call_env \<Rightarrow> u64 \<Rightarrow> heap \<Rightarrow> (addr \<times> heap) option" where
  "MC_builtin_vec_new opts env n h = checked_new opts env ''__builtin_vec_new'' n (clo_alignment opts) 0 MC_AllocNewVec h"

definition MC_builtin_vec_new_aligned :: "heap_opts \<Rightarrow> call_env \<Rightarrow> u64 \<Rightarrow> u64 \<Rightarrow> u64 \<Rightarrow> heap \<Rightarrow> (addr \<times> heap) option" where
  "MC_builtin_vec_new_aligned opts env n alignB orig_alignB h =
     checked_new opts env ''__builtin_vec_new_aligned'' n alignB orig_alignB MC_AllocNewVec h"

definition MC_memalign :: "heap_opts \<Rightarrow> call_env \<Rightarrow> u64 \<Rightarrow> u64 \<Rightarrow> u64 \<Rightarrow> heap \<Rightarrow> (addr \<times> heap) option" where
  "MC_memalign opts env alignB orig_alignB n h = checked_new opts env ''memalign'' n alignB orig_alignB MC_AllocMalloc h"

definition MC_calloc :: "heap_opts \<Rightarrow> call_env \<Rightarrow> u64 \<Rightarrow> u64 \<Rightarrow> heap \<Rightarrow> (addr \<times> heap) option" where
  "MC_calloc opts env nmemb size1 h =
     (case record_fishy_value_error ''calloc'' ''nmemb'' nmemb h of
        (True, h) \<Rightarrow> Some (0, h)
      | (False, h) \<Rightarrow>
          (case record_fishy_value_error ''calloc'' ''size'' size1 h of
             (True, h) \<Rightarrow> Some (0, h)
           | (False, h) \<Rightarrow> new_block opts env 0 (nmemb * size1) (clo_alignment opts) 0 True MC_AllocMalloc add_malloc h))"


section \<open>Freeing\<close>

definition die_and_free_mem :: "heap_opts \<Rightarrow> call_env \<Rightarrow> heap_chunk \<Rightarrow> u64 \<Rightarrow> heap \<Rightarrow> heap option" where
  "die_and_free_mem opts env mc rzB h = do {
     h \<leftarrow> (if hc_allockind mc \<noteq> MC_AllocCustom then fill_with (clo_free_fill opts) (hc_data mc) (hc_szB mc) h else Some h);
     h \<leftarrow> with_shadow (make_mem_noaccess (hc_data mc - rzB) (hc_szB mc + 2 * rzB)) h;
     Some (add_to_freed_queue opts (set_freed_at opts (ce_context env) mc) h)
   }"

definition remove_malloc :: "addr \<Rightarrow> heap \<Rightarrow> heap_chunk option \<times> heap" where
  "remove_malloc p h = (case HT_remove hc_data (hp_malloc_list h) p of (mc, t) \<Rightarrow> (mc, h\<lparr>hp_malloc_list := t\<rparr>))"

definition record_freemismatch_error :: "heap_opts \<Rightarrow> heap_chunk \<Rightarrow> heap \<Rightarrow> heap option" where
  "record_freemismatch_error opts mc h =
     (if \<not> clo_show_mismatched_frees opts then Some h
      else do {
        h \<leftarrow> add_malloc mc h;
        _ \<leftarrow> allocated_at opts h mc;
        _ \<leftarrow> freed_at opts h mc;
        let h = report (Err_FreeMismatch mc) h;
        (case remove_malloc (hc_data mc) h of (mc', h) \<Rightarrow> if mc' = Some mc then Some h else None)
      })"

definition handle_free :: "heap_opts \<Rightarrow> call_env \<Rightarrow> addr \<Rightarrow> u64 \<Rightarrow> MC_AllocKind \<Rightarrow> heap \<Rightarrow> heap option" where
  "handle_free opts env p rzB kind h =
     (case remove_malloc p (h\<lparr>cmalloc_n_frees := cmalloc_n_frees h + 1\<rparr>) of
        (None, h) \<Rightarrow> Some (report (Err_Free p) h)
      | (Some mc, h) \<Rightarrow> do {
          h \<leftarrow> (if kind \<noteq> hc_allockind mc
                then (if p = hc_data mc then record_freemismatch_error opts mc h else None)
                else Some h);
          die_and_free_mem opts env mc rzB h
        })"

definition MC_free :: "heap_opts \<Rightarrow> call_env \<Rightarrow> addr \<Rightarrow> heap \<Rightarrow> heap option" where
  "MC_free opts env p h = handle_free opts env p (Malloc_Redzone_SzB opts) MC_AllocMalloc h"

definition MC_builtin_delete :: "heap_opts \<Rightarrow> call_env \<Rightarrow> addr \<Rightarrow> heap \<Rightarrow> heap option" where
  "MC_builtin_delete opts env p h = handle_free opts env p (Malloc_Redzone_SzB opts) MC_AllocNew h"

definition MC_builtin_vec_delete :: "heap_opts \<Rightarrow> call_env \<Rightarrow> addr \<Rightarrow> heap \<Rightarrow> heap option" where
  "MC_builtin_vec_delete opts env p h = handle_free opts env p (Malloc_Redzone_SzB opts) MC_AllocNewVec h"

definition malloc_usable_size :: "addr \<Rightarrow> heap \<Rightarrow> u64" where
  "malloc_usable_size p h = (case HT_lookup hc_data (hp_malloc_list h) p of Some mc \<Rightarrow> hc_szB mc | None \<Rightarrow> 0)"


section \<open>Reallocation\<close>

definition copy_payload :: "heap_opts \<Rightarrow> addr \<Rightarrow> addr \<Rightarrow> u64 \<Rightarrow> u64 \<Rightarrow> heap_chunk \<Rightarrow> heap \<Rightarrow> heap option" where
  "copy_payload opts p_old a_new old_szB new_szB new_mc h =
     (if old_szB \<ge> new_szB
      then do {
        h \<leftarrow> with_shadow (copy_address_range_state p_old a_new new_szB) h;
        Some (h\<lparr>hp_mem := mem_copy a_new p_old (unat new_szB) (hp_mem h)\<rparr>)
      }
      else do {
        h \<leftarrow> with_shadow (copy_address_range_state p_old a_new old_szB) h;
        let h = h\<lparr>hp_mem := mem_copy a_new p_old (unat old_szB) (hp_mem h)\<rparr>;
        _ \<leftarrow> allocated_at opts h new_mc;
        h \<leftarrow> with_shadow (make_mem_undefined (a_new + old_szB) (new_szB - old_szB)) h;
        fill_with (clo_malloc_fill opts) (a_new + old_szB) (new_szB - old_szB) h
      })"

definition realloc_move :: "heap_opts \<Rightarrow> call_env \<Rightarrow> addr \<Rightarrow> u64 \<Rightarrow> heap \<Rightarrow> (addr \<times> heap) option" where
  "realloc_move opts env p_old new_szB h =
     (let rz = Malloc_Redzone_SzB opts; h = count_alloc new_szB (h\<lparr>cmalloc_n_frees := cmalloc_n_frees h + 1\<rparr>)
      in case remove_malloc p_old h of
           (None, h) \<Rightarrow> Some (0, report (Err_Free p_old) h)
         | (Some old_mc, h) \<Rightarrow> do {
             h \<leftarrow> (if MC_AllocMalloc \<noteq> hc_allockind old_mc
                   then (if p_old = hc_data old_mc then record_freemismatch_error opts old_mc h else None)
                   else Some h);
             let old_szB = hc_szB old_mc;
             let a_new = ce_block env;
             if a_new = 0 then map_option (Pair 0) (add_malloc old_mc h)
             else do {
               (new_mc, h) \<leftarrow> create_MC_Chunk opts env a_new new_szB 0 MC_AllocMalloc h;
               h \<leftarrow> add_malloc new_mc h;
               h \<leftarrow> with_shadow (make_mem_noaccess (a_new - rz) rz) h;
               h \<leftarrow> copy_payload opts p_old a_new old_szB new_szB new_mc h;
               h \<leftarrow> with_shadow (make_mem_noaccess (a_new + new_szB) rz) h;
               h \<leftarrow> fill_with (clo_free_fill opts) p_old old_szB h;
               h \<leftarrow> die_and_free_mem opts env old_mc rz h;
               Some (a_new, h)
             }
           })"

definition MC_realloc :: "heap_opts \<Rightarrow> call_env \<Rightarrow> addr \<Rightarrow> u64 \<Rightarrow> heap \<Rightarrow> (addr \<times> heap) option" where
  "MC_realloc opts env p_old new_szB h =
     (case record_fishy_value_error ''realloc'' ''size'' new_szB h of
        (True, h) \<Rightarrow> Some (0, h)
      | (False, h) \<Rightarrow>
          if p_old = 0 then new_block opts env 0 new_szB (clo_alignment opts) 0 False MC_AllocMalloc add_malloc h
          else if new_szB = 0
          then (let h = (if clo_show_realloc_size_zero opts then report (Err_ReallocSizeZero p_old) h else h)
                in if clo_realloc_zero_bytes_frees opts
                   then map_option (Pair 0) (handle_free opts env p_old (Malloc_Redzone_SzB opts) MC_AllocMalloc h)
                   else realloc_move opts env p_old 1 h)
          else realloc_move opts env p_old new_szB h)"

text \<open>A node that is changed in place: it is the first one with its key.\<close>

fun replace_first :: "('n \<Rightarrow> bool) \<Rightarrow> 'n \<Rightarrow> 'n list \<Rightarrow> 'n list" where
  "replace_first P y [] = []"
| "replace_first P y (x # xs) = (if P x then y # xs else x # replace_first P y xs)"

definition ht_store :: "('n \<Rightarrow> u64) \<Rightarrow> 'n \<Rightarrow> 'n hashtable \<Rightarrow> 'n hashtable" where
  "ht_store key y t =
     (let c = CHAIN_NO (key y) t in t\<lparr>ht_chains := (ht_chains t)[c := replace_first (\<lambda>x. key y = key x) y (ht_chains t ! c)]\<rparr>)"

definition handle_resizeInPlace :: "addr \<Rightarrow> u64 \<Rightarrow> u64 \<Rightarrow> u64 \<Rightarrow> heap \<Rightarrow> heap option" where
  "handle_resizeInPlace p oldSizeB newSizeB rzB h =
     (case HT_lookup hc_data (hp_malloc_list h) p of
        None \<Rightarrow> Some (report (Err_Free p) h)
      | Some mc \<Rightarrow>
          if hc_szB mc \<noteq> oldSizeB \<or> newSizeB = 0 then Some (report (Err_Free p) h)
          else if oldSizeB = newSizeB then Some h
          else (let h = h\<lparr>hp_malloc_list := ht_store hc_data (mc\<lparr>hc_szB := take_bit 62 newSizeB\<rparr>) (hp_malloc_list h)\<rparr>
                in if newSizeB < oldSizeB then with_shadow (make_mem_noaccess (p + newSizeB) (oldSizeB - newSizeB + rzB)) h
                   else do {
                     h \<leftarrow> with_shadow (make_mem_undefined (p + oldSizeB) (newSizeB - oldSizeB)) h;
                     if rzB > 0 then with_shadow (make_mem_noaccess (p + newSizeB) rzB) h else Some h
                   }))"


section \<open>Memory pools\<close>

definition store_pool :: "heap_pool \<Rightarrow> heap \<Rightarrow> heap" where
  "store_pool mp h = h\<lparr>hp_mempool_list := ht_store hm_pool mp (hp_mempool_list h)\<rparr>"

definition lookup_pool :: "addr \<Rightarrow> heap \<Rightarrow> heap_pool option" where
  "lookup_pool pool h = HT_lookup hm_pool (hp_mempool_list h) pool"

definition add_pool_chunk :: "addr \<Rightarrow> heap_chunk \<Rightarrow> heap \<Rightarrow> heap option" where
  "add_pool_chunk pool mc h = do {
     mp \<leftarrow> lookup_pool pool h;
     t \<leftarrow> HT_add_node hc_data mc (hm_chunks mp);
     Some (store_pool (mp\<lparr>hm_chunks := t\<rparr>) h)
   }"

definition remove_pool_chunk :: "addr \<Rightarrow> addr \<Rightarrow> heap \<Rightarrow> (heap_chunk option \<times> heap) option" where
  "remove_pool_chunk pool a h = do {
     mp \<leftarrow> lookup_pool pool h;
     (case HT_remove hc_data (hm_chunks mp) a of (mc, t) \<Rightarrow> Some (mc, store_pool (mp\<lparr>hm_chunks := t\<rparr>) h))
   }"

fun free_mallocs_loop :: "nat \<Rightarrow> heap_opts \<Rightarrow> call_env \<Rightarrow> u64 \<Rightarrow> addr \<Rightarrow> addr \<Rightarrow> heap \<Rightarrow> heap option" where
  "free_mallocs_loop 0 opts env rzB StartAddr EndAddr h = None"
| "free_mallocs_loop (Suc fuel) opts env rzB StartAddr EndAddr h = do {
     (mc, t) \<leftarrow> HT_Next (hp_malloc_list h);
     let h = h\<lparr>hp_malloc_list := t\<rparr>;
     case mc of None \<Rightarrow> Some h
     | Some mc \<Rightarrow> do {
         h \<leftarrow> (if hc_data mc \<ge> StartAddr \<and> hc_data mc + hc_szB mc \<le> EndAddr
               then do {
                 t \<leftarrow> HT_remove_at_Iter (hp_malloc_list h);
                 die_and_free_mem opts env mc rzB (h\<lparr>hp_malloc_list := t\<rparr>)
               }
               else Some h);
         free_mallocs_loop fuel opts env rzB StartAddr EndAddr h
       }
   }"

definition free_mallocs_in_mempool_block :: "heap_opts \<Rightarrow> call_env \<Rightarrow> heap_pool \<Rightarrow> addr \<Rightarrow> addr \<Rightarrow> heap \<Rightarrow> heap option" where
  "free_mallocs_in_mempool_block opts env mp StartAddr EndAddr h =
     (if \<not> hm_auto_free mp then None
      else let h = h\<lparr>hp_malloc_list := HT_ResetIter (hp_malloc_list h)\<rparr>
           in free_mallocs_loop (length (concat (ht_chains (hp_malloc_list h))) + 1) opts env (hm_rzB mp) StartAddr EndAddr h)"

text \<open>\<open>mp_at\<close> is the address of the new structure, which has 40 bytes.\<close>

definition create_mempool :: "addr \<Rightarrow> addr \<Rightarrow> u64 \<Rightarrow> bool \<Rightarrow> bool \<Rightarrow> bool \<Rightarrow> heap \<Rightarrow> heap option" where
  "create_mempool mp_at pool rzB is_zeroed auto_free metapool h =
     (if (auto_free \<and> \<not> metapool) \<or> lookup_pool pool h \<noteq> None then None
      else do {
        let mp = \<lparr>hm_pool = pool, hm_rzB = rzB, hm_is_zeroed = is_zeroed, hm_auto_free = auto_free, hm_metapool = metapool,
                  hm_chunks = HT_construct\<rparr>;
        (bad, sh) \<leftarrow> check_mem_is_noaccess mp_at 40 (hp_shadow h);
        if bad = None then do {
          t \<leftarrow> HT_add_node hm_pool mp (hp_mempool_list h);
          Some (h\<lparr>hp_shadow := sh, hp_mempool_list := t\<rparr>)
        } else None
      })"

definition destroy_mempool :: "addr \<Rightarrow> heap \<Rightarrow> heap option" where
  "destroy_mempool pool h =
     (case HT_remove hm_pool (hp_mempool_list h) pool of
        (None, t) \<Rightarrow> Some (report (Err_IllegalMempool pool) (h\<lparr>hp_mempool_list := t\<rparr>))
      | (Some mp, t) \<Rightarrow>
          foldO (\<lambda>mc. with_shadow (make_mem_noaccess (hc_data mc - hm_rzB mp) (hc_szB mc + 2 * hm_rzB mp)))
            (concat (ht_chains (hm_chunks mp))) (h\<lparr>hp_mempool_list := t\<rparr>))"

definition mempool_alloc :: "heap_opts \<Rightarrow> call_env \<Rightarrow> addr \<Rightarrow> addr \<Rightarrow> u64 \<Rightarrow> heap \<Rightarrow> heap option" where
  "mempool_alloc opts env pool a szB h =
     (case lookup_pool pool h of
        None \<Rightarrow> Some (report (Err_IllegalMempool pool) h)
      | Some mp \<Rightarrow> do {
          (q, h) \<leftarrow> new_block opts env a szB 0 0 (hm_is_zeroed mp) MC_AllocCustom (add_pool_chunk pool) h;
          if hm_rzB mp > 0
          then do {
            h \<leftarrow> with_shadow (make_mem_noaccess (a - hm_rzB mp) (hm_rzB mp)) h;
            with_shadow (make_mem_noaccess (a + szB) (hm_rzB mp)) h
          }
          else Some h
        })"

definition mempool_free :: "heap_opts \<Rightarrow> call_env \<Rightarrow> addr \<Rightarrow> addr \<Rightarrow> heap \<Rightarrow> heap option" where
  "mempool_free opts env pool a h =
     (case lookup_pool pool h of
        None \<Rightarrow> Some (report (Err_IllegalMempool pool) h)
      | Some mp \<Rightarrow> do {
          (mc, h) \<leftarrow> remove_pool_chunk pool a h;
          case mc of None \<Rightarrow> Some (report (Err_Free a) h)
          | Some mc \<Rightarrow> do {
              h \<leftarrow> (if hm_auto_free mp then free_mallocs_in_mempool_block opts env mp (hc_data mc) (hc_data mc + hc_szB mc) h else Some h);
              die_and_free_mem opts env mc (hm_rzB mp) h
            }
        })"

definition EXTENT_CONTAINS :: "addr \<Rightarrow> u64 \<Rightarrow> addr \<Rightarrow> bool" where
  "EXTENT_CONTAINS a szB x \<longleftrightarrow> a \<le> x \<and> x < a + szB"

text \<open>One chunk of \<^verbatim>\<open>MC_(mempool_trim)\<close>; an early return is \<^const>\<open>Inl\<close>.\<close>

definition trim_chunk :: "heap_opts \<Rightarrow> call_env \<Rightarrow> addr \<Rightarrow> addr \<Rightarrow> u64 \<Rightarrow> u64 \<Rightarrow> heap_chunk \<Rightarrow> heap \<Rightarrow> (heap + heap) option" where
  "trim_chunk opts env pool a szB rzB mc h =
     (let inside = EXTENT_CONTAINS a szB;
          first = hc_data mc;
          final = (if hc_szB mc = 0 then hc_data mc else hc_data mc + hc_szB mc - 1)
      in if inside first \<and> inside final then Some (Inr h)
         else do {
           (found, h) \<leftarrow> remove_pool_chunk pool (hc_data mc) h;
           if found = None then Some (Inl (report (Err_Free (hc_data mc)) h))
           else if \<not> inside first \<and> \<not> inside final then map_option Inr (die_and_free_mem opts env mc rzB h)
           else do {
             let (min, first) = (if hc_data mc < a then (hc_data mc, a) else (a, hc_data mc));
             let (max, final) = (if hc_data mc + szB > a + szB then (hc_data mc + szB, a + szB) else (a + szB, hc_data mc + szB));
             if min \<le> first \<and> first < final \<and> final \<le> max
             then do {
               h \<leftarrow> (if min < first \<and> \<not> inside min then with_shadow (make_mem_noaccess min (first - min)) h else Some h);
               h \<leftarrow> (if final < max \<and> \<not> inside max then with_shadow (make_mem_noaccess final (max - final)) h else Some h);
               map_option Inr (add_pool_chunk pool (mc\<lparr>hc_data := first, hc_szB := ucast (ucast (final - first) :: u32)\<rparr>) h)
             }
             else None
           }
         })"

definition mempool_trim :: "heap_opts \<Rightarrow> call_env \<Rightarrow> addr \<Rightarrow> addr \<Rightarrow> u64 \<Rightarrow> heap \<Rightarrow> heap option" where
  "mempool_trim opts env pool a szB h =
     (case lookup_pool pool h of
        None \<Rightarrow> Some (report (Err_IllegalMempool pool) h)
      | Some mp \<Rightarrow> do {
          mcs \<leftarrow> HT_to_array (hm_chunks mp);
          r \<leftarrow> foldR (trim_chunk opts env pool a szB (hm_rzB mp)) mcs h;
          Some (case r of Inl h \<Rightarrow> h | Inr h \<Rightarrow> h)
        })"

definition move_mempool :: "addr \<Rightarrow> addr \<Rightarrow> heap \<Rightarrow> heap option" where
  "move_mempool poolA poolB h =
     (case HT_remove hm_pool (hp_mempool_list h) poolA of
        (None, t) \<Rightarrow> Some (report (Err_IllegalMempool poolA) (h\<lparr>hp_mempool_list := t\<rparr>))
      | (Some mp, t) \<Rightarrow> do {
          t \<leftarrow> HT_add_node hm_pool (mp\<lparr>hm_pool := poolB\<rparr>) t;
          Some (h\<lparr>hp_mempool_list := t\<rparr>)
        })"

definition mempool_change :: "addr \<Rightarrow> addr \<Rightarrow> addr \<Rightarrow> u64 \<Rightarrow> heap \<Rightarrow> heap option" where
  "mempool_change pool addrA addrB szB h =
     (case lookup_pool pool h of
        None \<Rightarrow> Some (report (Err_IllegalMempool pool) h)
      | Some mp \<Rightarrow> do {
          (mc, h) \<leftarrow> remove_pool_chunk pool addrA h;
          case mc of None \<Rightarrow> Some (report (Err_Free addrA) h)
          | Some mc \<Rightarrow> add_pool_chunk pool (mc\<lparr>hc_data := addrB, hc_szB := take_bit 62 szB\<rparr>) h
        })"

definition mempool_exists :: "addr \<Rightarrow> heap \<Rightarrow> bool" where
  "mempool_exists pool h \<longleftrightarrow> lookup_pool pool h \<noteq> None"


section \<open>Statistics\<close>

text \<open>The numbers of the heap summary: bytes and blocks in use, allocations, frees and bytes allocated.\<close>

definition print_malloc_stats :: "heap \<Rightarrow> u64 \<times> u64 \<times> u64 \<times> u64 \<times> u64" where
  "print_malloc_stats h =
     (let (nblocks, nbytes) = fold (\<lambda>mc (nblocks, nbytes). (nblocks + 1, nbytes + hc_szB mc)) (concat (ht_chains (hp_malloc_list h))) (0, 0)
      in (nbytes, nblocks, cmalloc_n_mallocs h, cmalloc_n_frees h, cmalloc_bs_mallocd h))"

definition get_cmalloc_n_frees :: "heap \<Rightarrow> u64" where
  "get_cmalloc_n_frees h = cmalloc_n_frees h"

end
