(* ===== verification/Hashtab_Props.thy ===== *)
theory Hashtab_Props
  imports Hashtab "HOL-Library.Multiset"
begin

text \<open>
  Hash tables as multisets of nodes: insertion, lookup and removal by key, growth, and the iterator, which visits every node once
  also when nodes are removed on the way.
\<close>

section \<open>The invariant\<close>

definition ht_nodes :: "'n hashtable \<Rightarrow> 'n list" where
  "ht_nodes t = concat (ht_chains t)"

definition placed :: "('n \<Rightarrow> u64) \<Rightarrow> 'n list list \<Rightarrow> bool" where
  "placed key cs \<longleftrightarrow> (\<forall>i < length cs. \<forall>x \<in> set (cs ! i). unat (key x) mod length cs = i)"

text \<open>Every node is in the chain of its key, the nodes are counted, and the chains are short on average while there are primes left.\<close>

definition ht_ok :: "('n \<Rightarrow> u64) \<Rightarrow> 'n hashtable \<Rightarrow> bool" where
  "ht_ok key t \<longleftrightarrow> n_chains t \<in> set hash_primes \<and> placed key (ht_chains t) \<and> ht_n_elements t = of_nat (length (ht_nodes t)) \<and>
     (length (ht_nodes t) \<le> n_chains t \<or> n_chains t = last hash_primes)"

lemma primes_range: "p \<in> set hash_primes \<Longrightarrow> 769 \<le> p \<and> p \<le> 402653189"
  by (auto simp: hash_primes_def)

lemma ends_of_primes: "hd hash_primes = 769" "last hash_primes = 402653189" "hash_primes ! 0 = 769"
  by (simp_all add: hash_primes_def)

lemma mset_concat_update:
  "i < length xss \<Longrightarrow> mset (concat (xss[i := ys])) + mset (xss ! i) = mset (concat xss) + mset ys"
  by (induction xss arbitrary: i) (auto simp: less_Suc_eq_0_disj)

lemma length_concat_update:
  "i < length xss \<Longrightarrow> length (concat (xss[i := ys])) + length (xss ! i) = length (concat xss) + length ys"
  using mset_concat_update[of i xss ys] by (metis size_mset size_union)

lemma placed_update:
  "placed key cs \<Longrightarrow> i < length cs \<Longrightarrow> \<forall>x \<in> set ys. unat (key x) mod length cs = i \<Longrightarrow> placed key (cs[i := ys])"
  by (auto simp: placed_def nth_list_update)


section \<open>Insertion\<close>

lemma prepend_length [simp]: "length (prepend_node key x cs) = length cs"
  by (simp add: prepend_node_def Let_def)

lemma prepend_placed: "placed key cs \<Longrightarrow> cs \<noteq> [] \<Longrightarrow> placed key (prepend_node key x cs)"
  unfolding prepend_node_def Let_def by (rule placed_update) (auto simp: placed_def)

lemma prepend_mset: "cs \<noteq> [] \<Longrightarrow> mset (concat (prepend_node key x cs)) = add_mset x (mset (concat cs))"
  using mset_concat_update[of "unat (key x) mod length cs" cs "x # cs ! (unat (key x) mod length cs)"]
  by (simp add: prepend_node_def Let_def)

lemma prepend_all:
  assumes "cs \<noteq> []" "placed key cs"
  shows "length (fold (prepend_node key) xs cs) = length cs \<and> placed key (fold (prepend_node key) xs cs) \<and>
    mset (concat (fold (prepend_node key) xs cs)) = mset xs + mset (concat cs)"
  using assms
proof (induction xs arbitrary: cs)
  case (Cons x xs)
  have "prepend_node key x cs \<noteq> []" using Cons.prems(1) prepend_length[of key x cs] by (metis length_0_conv)
  from Cons.IH[OF this prepend_placed[OF Cons.prems(2,1)]] show ?case by (simp add: prepend_mset[OF Cons.prems(1)])
qed simp

lemma next_prime:
  assumes "n \<in> set hash_primes" "n \<noteq> last hash_primes"
  shows "\<exists>p. find (\<lambda>p. p > n + 1) hash_primes = Some p \<and> p \<in> set hash_primes \<and> n + 1 < p"
  using assms by (auto simp: hash_primes_def)

lemma resize_ok:
  assumes "n_chains t \<in> set hash_primes" "placed key (ht_chains t)"
  shows "\<exists>t'. ht_resize key t = Some t' \<and> n_chains t' \<in> set hash_primes \<and> (n_chains t + 1 < n_chains t' \<or> n_chains t' = last hash_primes) \<and>
    placed key (ht_chains t') \<and> mset (ht_nodes t') = mset (ht_nodes t) \<and> ht_n_elements t' = ht_n_elements t"
proof (cases "n_chains t = last hash_primes")
  case True
  then show ?thesis using assms by (simp add: ht_resize_def)
next
  case False
  from next_prime[OF assms(1) this] obtain p where
    p: "find (\<lambda>p. p > n_chains t + 1) hash_primes = Some p" "p \<in> set hash_primes" "n_chains t + 1 < p" by blast
  let ?cs = "fold (prepend_node key) (concat (ht_chains t)) (replicate p [])"
  have "replicate p ([] :: 'a list) \<noteq> []" "placed key (replicate p [])" "concat (replicate p ([] :: 'a list)) = []"
    using p(3) by (auto simp: placed_def)
  from prepend_all[OF this(1,2), of "concat (ht_chains t)"] this(3)
  have cs: "length ?cs = p" "placed key ?cs" "mset (concat ?cs) = mset (concat (ht_chains t))" by simp_all
  have "769 \<le> n_chains t" "n_chains t < 402653189" "p \<le> 402653189"
    using primes_range[OF assms(1)] primes_range[OF p(2)] False by (simp_all add: ends_of_primes)
  then have "ht_resize key t = Some (t\<lparr>ht_chains := ?cs\<rparr>)" using False p by (simp add: ht_resize_def ends_of_primes Let_def)
  then show ?thesis using cs p by (simp add: n_chains_def ht_nodes_def)
qed

lemma add_node_ok:
  assumes "ht_ok key t"
  shows "\<exists>t'. HT_add_node key x t = Some t' \<and> ht_ok key t' \<and> mset (ht_nodes t') = add_mset x (mset (ht_nodes t)) \<and> \<not> ht_iterOK t'"
proof -
  let ?t = "t\<lparr>ht_chains := prepend_node key x (ht_chains t), ht_n_elements := ht_n_elements t + 1\<rparr>"
  have p: "n_chains t \<in> set hash_primes" "placed key (ht_chains t)" "ht_n_elements t = of_nat (length (ht_nodes t))" using assms by (simp_all add: ht_ok_def)
  have r: "769 \<le> n_chains t" "n_chains t \<le> 402653189" using primes_range[OF p(1)] by simp_all
  then have ne: "ht_chains t \<noteq> []" by (auto simp: n_chains_def)
  have m: "mset (ht_nodes ?t) = add_mset x (mset (ht_nodes t))" using prepend_mset[OF ne, of key x] by (simp add: ht_nodes_def)
  then have len: "length (ht_nodes ?t) = Suc (length (ht_nodes t))" by (metis size_mset size_add_mset)
  then have n: "n_chains ?t = n_chains t" "placed key (ht_chains ?t)" "mset (ht_nodes ?t) = add_mset x (mset (ht_nodes t))"
    "ht_n_elements ?t = of_nat (length (ht_nodes ?t))" using prepend_placed[OF p(2) ne] p(3) m by (simp_all add: n_chains_def)
  show ?thesis
  proof (cases "unat (ht_n_elements ?t) > n_chains ?t")
    case True
    from resize_ok[of ?t key] n(1,2) p(1) obtain t1 where t1: "ht_resize key ?t = Some t1" "n_chains t1 \<in> set hash_primes"
      "n_chains ?t + 1 < n_chains t1 \<or> n_chains t1 = last hash_primes" "placed key (ht_chains t1)" "mset (ht_nodes t1) = mset (ht_nodes ?t)"
      "ht_n_elements t1 = ht_n_elements ?t" by (auto simp: n_chains_def)
    have l1: "length (ht_nodes t1) = length (ht_nodes ?t)" using t1(5) by (metis size_mset)
    have "length (ht_nodes t1) \<le> n_chains t1 \<or> n_chains t1 = last hash_primes"
    proof (cases "n_chains t = last hash_primes")
      case True
      then show ?thesis using t1(2,3) n(1) primes_range[OF t1(2)] by (auto simp: ends_of_primes)
    next
      case False
      then have "length (ht_nodes t) \<le> n_chains t" using assms by (simp add: ht_ok_def)
      then show ?thesis using t1(3) n(1) l1 len by auto
    qed
    then show ?thesis using True t1 n(3,4) l1 by (simp add: HT_add_node_def ht_ok_def Let_def) (simp add: ht_nodes_def n_chains_def)
  next
    case False
    have "length (ht_nodes ?t) \<le> n_chains ?t \<or> n_chains ?t = last hash_primes"
    proof (rule ccontr)
      assume a: "\<not> ?thesis"
      then have "length (ht_nodes t) \<le> n_chains t" using assms n(1) by (simp add: ht_ok_def)
      then have "length (ht_nodes ?t) < 2 ^ 32" using r(2) len by simp
      then have "unat (ht_n_elements ?t) = length (ht_nodes ?t)" unfolding n(4) by (simp add: unsigned_of_nat take_bit_nat_eq_self)
      then show False using a False by simp
    qed
    then show ?thesis using False n p(1) by (simp add: HT_add_node_def ht_ok_def Let_def) (simp add: ht_nodes_def n_chains_def)
  qed
qed


section \<open>Lookup and removal\<close>

lemma placed_nodes: "x \<in> set (ht_nodes t) \<Longrightarrow> placed key (ht_chains t) \<Longrightarrow> x \<in> set (ht_chains t ! CHAIN_NO (key x) t)"
  by (auto simp: ht_nodes_def placed_def CHAIN_NO_def n_chains_def in_set_conv_nth) (metis nth_mem)

lemma chain_bound: "ht_ok key t \<Longrightarrow> CHAIN_NO k t < n_chains t"
  using primes_range[of "n_chains t"] by (simp add: ht_ok_def CHAIN_NO_def)

lemma chain_nodes: "c < n_chains t \<Longrightarrow> set (ht_chains t ! c) \<subseteq> set (ht_nodes t)"
  by (auto simp: ht_nodes_def n_chains_def intro: bexI[OF _ nth_mem])

lemma lookup_None: "ht_ok key t \<Longrightarrow> HT_lookup key t k = None \<longleftrightarrow> (\<forall>x \<in> set (ht_nodes t). key x \<noteq> k)"
  using chain_nodes[OF chain_bound, of key t k] placed_nodes[of _ t key] by (fastforce simp: HT_lookup_def find_None_iff ht_ok_def)

lemma lookup_Some: "ht_ok key t \<Longrightarrow> HT_lookup key t k = Some x \<Longrightarrow> x \<in> set (ht_nodes t) \<and> key x = k"
  using chain_nodes[OF chain_bound, of key t k] by (fastforce simp: HT_lookup_def find_Some_iff set_conv_nth)

lemma lookup_distinct:
  assumes "ht_ok key t" "distinct (map key (ht_nodes t))"
  shows "HT_lookup key t k = Some x \<longleftrightarrow> x \<in> set (ht_nodes t) \<and> key x = k"
proof
  assume "x \<in> set (ht_nodes t) \<and> key x = k"
  moreover from this obtain y where y: "HT_lookup key t k = Some y" using lookup_None[OF assms(1), of k] by (cases "HT_lookup key t k") auto
  ultimately show "HT_lookup key t k = Some x" using lookup_Some[OF assms(1) y] assms(2) by (auto simp: distinct_map dest: inj_onD)
qed (use lookup_Some[OF assms(1)] in auto)

lemma remove_first_mset: "find P xs = Some x \<Longrightarrow> add_mset x (mset (remove_first P xs)) = mset xs"
  by (induction xs) (auto split: if_splits)

lemma remove_first_set: "set (remove_first P xs) \<subseteq> set xs"
  by (induction xs) auto

lemma ht_ok_shrink:
  "ht_ok key t \<Longrightarrow> n_chains t' = n_chains t \<Longrightarrow> placed key (ht_chains t') \<Longrightarrow> ht_n_elements t' = ht_n_elements t - 1 \<Longrightarrow>
    length (ht_nodes t) = Suc (length (ht_nodes t')) \<Longrightarrow> ht_ok key t'"
  by (auto simp: ht_ok_def)

lemma remove_from_chain_ok:
  assumes "ht_ok key t" "c < n_chains t" "remove_from_chain c P t = (Some x, t')"
  shows "ht_ok key t' \<and> mset (ht_nodes t) = add_mset x (mset (ht_nodes t'))"
proof -
  let ?ch = "ht_chains t ! c"
  have f: "find P ?ch = Some x" "ht_chains t' = (ht_chains t)[c := remove_first P ?ch]" "ht_n_elements t' = ht_n_elements t - 1"
    using assms(3) by (auto simp: remove_from_chain_def Let_def split: option.splits)
  have c: "c < length (ht_chains t)" using assms(2) by (simp add: n_chains_def)
  have m: "mset (ht_nodes t) = add_mset x (mset (ht_nodes t'))"
    using mset_concat_update[OF c, of "remove_first P ?ch"] remove_first_mset[OF f(1)] f(2) by (simp add: ht_nodes_def) (metis add_right_imp_eq union_mset_add_mset_left union_mset_add_mset_right)
  then have l: "length (ht_nodes t) = Suc (length (ht_nodes t'))" by (metis size_mset size_add_mset)
  have "placed key (ht_chains t')" unfolding f(2)
    by (rule placed_update[OF _ c]) (use assms(1) c remove_first_set[of P ?ch] in \<open>auto simp: ht_ok_def placed_def\<close>)
  from ht_ok_shrink[OF assms(1) _ this f(3) l] f(2) m show ?thesis by (simp add: n_chains_def)
qed

lemma ht_remove_ok:
  assumes "ht_ok key t"
  shows "\<exists>t'. HT_remove key t k = (HT_lookup key t k, t') \<and> ht_ok key t' \<and>
    mset (ht_nodes t) = (case HT_lookup key t k of None \<Rightarrow> {#} | Some x \<Rightarrow> {#x#}) + mset (ht_nodes t')"
proof (cases "HT_lookup key t k")
  case None
  then show ?thesis using assms by (auto simp: HT_remove_def HT_lookup_def remove_from_chain_def ht_ok_def n_chains_def ht_nodes_def)
next
  case (Some x)
  then obtain t' where t': "HT_remove key t k = (Some x, t')" by (auto simp: HT_remove_def HT_lookup_def remove_from_chain_def Let_def)
  from remove_from_chain_ok[OF assms chain_bound[OF assms] t'[unfolded HT_remove_def]] t' Some show ?thesis by simp
qed


section \<open>The iterator\<close>

text \<open>The nodes that the iterator has passed, and those still to come.\<close>

definition iter_rest :: "'n hashtable \<Rightarrow> 'n list" where
  "iter_rest t = (case ht_iterNode t of
     None \<Rightarrow> concat (drop (ht_iterChain t) (ht_chains t))
   | Some j \<Rightarrow> drop (Suc j) (ht_chains t ! (ht_iterChain t - 1)) @ concat (drop (ht_iterChain t) (ht_chains t)))"

definition iter_past :: "'n hashtable \<Rightarrow> 'n list" where
  "iter_past t = (case ht_iterNode t of
     None \<Rightarrow> concat (take (ht_iterChain t) (ht_chains t))
   | Some j \<Rightarrow> concat (take (ht_iterChain t - 1) (ht_chains t)) @ take (Suc j) (ht_chains t ! (ht_iterChain t - 1)))"

definition iter_ok :: "'n hashtable \<Rightarrow> bool" where
  "iter_ok t \<longleftrightarrow> ht_iterOK t \<and> ht_iterChain t \<le> n_chains t \<and>
     (case ht_iterNode t of None \<Rightarrow> True | Some j \<Rightarrow> 0 < ht_iterChain t \<and> j < length (ht_chains t ! (ht_iterChain t - 1)))"

lemma iter_split: "iter_ok t \<Longrightarrow> ht_nodes t = iter_past t @ iter_rest t"
proof (cases "ht_iterNode t")
  case (Some j)
  assume i: "iter_ok t"
  let ?c = "ht_iterChain t - 1" and ?cs = "ht_chains t"
  have "?c < length ?cs" "Suc ?c = ht_iterChain t" using i Some by (auto simp: iter_ok_def n_chains_def)
  then have "?cs = take ?c ?cs @ ?cs ! ?c # drop (ht_iterChain t) ?cs" by (metis id_take_nth_drop)
  then have "concat ?cs = concat (take ?c ?cs) @ ?cs ! ?c @ concat (drop (ht_iterChain t) ?cs)" by (metis concat.simps(2) concat_append)
  then show ?thesis using Some by (simp add: ht_nodes_def iter_past_def iter_rest_def)
qed (simp add: ht_nodes_def iter_past_def iter_rest_def flip: concat_append)

lemma reset_iter: "iter_ok (HT_ResetIter t)" "iter_past (HT_ResetIter t) = []" "iter_rest (HT_ResetIter t) = ht_nodes t"
  "ht_nodes (HT_ResetIter t) = ht_nodes t" "ht_ok key (HT_ResetIter t) = ht_ok key t"
  by (simp_all add: HT_ResetIter_def iter_ok_def iter_past_def iter_rest_def ht_nodes_def ht_ok_def n_chains_def)

text \<open>The search for the next chain with a node.\<close>

lemma find_chain:
  assumes "i \<le> length cs"
  shows "case find (\<lambda>i. cs ! i \<noteq> []) [i..<length cs] of
      None \<Rightarrow> concat (drop i cs) = []
    | Some k \<Rightarrow> i \<le> k \<and> k < length cs \<and> cs ! k \<noteq> [] \<and> concat (drop i cs) = cs ! k @ concat (drop (Suc k) cs) \<and> concat (take k cs) = concat (take i cs)"
  using assms
proof (induction "length cs - i" arbitrary: i)
  case (Suc n)
  then have i: "i < length cs" by simp
  have d: "drop i cs = cs ! i # drop (Suc i) cs" by (rule Cons_nth_drop_Suc[symmetric, OF i])
  show ?case
  proof (cases "cs ! i = []")
    case True
    then have "concat (take (Suc i) cs) = concat (take i cs)" by (simp add: take_Suc_conv_app_nth[OF i])
    moreover have "n = length cs - Suc i" "Suc i \<le> length cs" using Suc.hyps(2) i by simp_all
    ultimately show ?thesis using Suc.hyps(1)[of "Suc i"] True by (auto simp: upt_conv_Cons[OF i] d split: option.splits)
  qed (simp add: upt_conv_Cons[OF i] d i)
qed simp

lemma next_chain:
  assumes "ht_iterChain t \<le> n_chains t" "ht_iterOK t"
  shows "case find (\<lambda>i. ht_chains t ! i \<noteq> []) [ht_iterChain t..<n_chains t] of
      None \<Rightarrow> concat (drop (ht_iterChain t) (ht_chains t)) = []
    | Some i \<Rightarrow> let t' = t\<lparr>ht_iterNode := Some 0, ht_iterChain := Suc i\<rparr> in
        iter_ok t' \<and> concat (drop (ht_iterChain t) (ht_chains t)) = hd (ht_chains t ! i) # iter_rest t' \<and>
        iter_past t' = concat (take (ht_iterChain t) (ht_chains t)) @ [hd (ht_chains t ! i)]"
  using find_chain[of "ht_iterChain t" "ht_chains t"] assms
  by (auto simp: n_chains_def iter_ok_def iter_rest_def iter_past_def drop_Suc take_Suc neq_Nil_conv split: option.splits)

lemma next_spec:
  assumes "iter_ok t"
  shows "case iter_rest t of
      [] \<Rightarrow> HT_Next t = Some (None, t)
    | x # xs \<Rightarrow> \<exists>t'. HT_Next t = Some (Some x, t') \<and> iter_ok t' \<and> iter_rest t' = xs \<and> iter_past t' = iter_past t @ [x] \<and>
        ht_iterNode t' \<noteq> None \<and> ht_chains t' = ht_chains t \<and> ht_n_elements t' = ht_n_elements t"
proof -
  have ok: "ht_iterOK t" "ht_iterChain t \<le> n_chains t" using assms by (simp_all add: iter_ok_def)
  note nc = next_chain[OF ok(2,1)]
  show ?thesis
  proof (cases "ht_iterNode t")
    case None
    then show ?thesis using nc ok(1) by (cases "find (\<lambda>i. ht_chains t ! i \<noteq> []) [ht_iterChain t..<n_chains t]")
        (auto simp: HT_Next_def iter_rest_def[of t] iter_past_def[of t] Let_def simp del: concat_eq_Nil_conv)
  next
    case (Some j)
    let ?ch = "ht_chains t ! (ht_iterChain t - 1)"
    show ?thesis
    proof (cases "Suc j < length ?ch")
      case True
      then have d: "drop (Suc j) ?ch = ?ch ! Suc j # drop (Suc (Suc j)) ?ch" "take (Suc (Suc j)) ?ch = take (Suc j) ?ch @ [?ch ! Suc j]"
        by (simp_all add: Cons_nth_drop_Suc take_Suc_conv_app_nth)
      then show ?thesis using True Some assms by (auto simp: HT_Next_def iter_rest_def iter_past_def iter_ok_def n_chains_def)
    next
      case False
      then have l: "Suc j = length ?ch" "0 < ht_iterChain t" "ht_iterChain t - 1 < length (ht_chains t)"
        using assms Some by (auto simp: iter_ok_def n_chains_def)
      then have p: "iter_past t = concat (take (ht_iterChain t) (ht_chains t))" "iter_rest t = concat (drop (ht_iterChain t) (ht_chains t))"
        using Some take_Suc_conv_app_nth[OF l(3)] by (simp_all add: iter_past_def iter_rest_def)
      show ?thesis unfolding p using nc ok(1) Some False by (cases "find (\<lambda>i. ht_chains t ! i \<noteq> []) [ht_iterChain t..<n_chains t]")
          (auto simp: HT_Next_def Let_def simp del: concat_eq_Nil_conv)
    qed
  qed
qed

lemma remove_at_iter_spec:
  assumes "iter_ok t" "ht_iterNode t \<noteq> None" "ht_ok key t"
  shows "\<exists>t'. HT_remove_at_Iter t = Some t' \<and> iter_ok t' \<and> iter_rest t' = iter_rest t \<and> iter_past t' = butlast (iter_past t) \<and> ht_ok key t'"
proof -
  let ?c = "ht_iterChain t - 1" and ?cs = "ht_chains t"
  let ?ch = "?cs ! ?c"
  from assms(1,2) obtain j where j: "ht_iterNode t = Some j" "j < length ?ch" "?c < length ?cs" "Suc ?c = ht_iterChain t" "ht_iterOK t"
    by (cases "ht_iterNode t") (auto simp: iter_ok_def n_chains_def)
  define ch where "ch = take j ?ch @ drop (Suc j) ?ch"
  have ch0: "j = 0 \<Longrightarrow> ch = tl ?ch" by (simp add: ch_def drop_Suc)
  have d: "drop ?c (?cs[?c := ch]) = ch # drop (Suc ?c) ?cs" "drop (Suc ?c) (?cs[?c := ch]) = drop (Suc ?c) ?cs"
    using j(3) Cons_nth_drop_Suc[of ?c "?cs[?c := ch]"] by simp_all
  have b: "butlast (iter_past t) = concat (take ?c ?cs) @ take j ?ch"
    using j(1,2) by (simp add: iter_past_def take_Suc_conv_app_nth butlast_append)
  let ?t = "t\<lparr>ht_chains := ?cs[?c := ch], ht_iterNode := (if j = 0 then None else Some (j - 1)),
    ht_iterChain := (if j = 0 then ?c else ht_iterChain t), ht_n_elements := ht_n_elements t - 1\<rparr>"
  have t': "HT_remove_at_Iter t = Some ?t" using j(1,5) ch0 by (cases t) (auto simp: HT_remove_at_Iter_def Let_def ch_def)
  have i: "iter_ok ?t" "iter_rest ?t = iter_rest t" "iter_past ?t = butlast (iter_past t)"
    using j d b assms(1) by (auto simp: iter_ok_def iter_rest_def iter_past_def n_chains_def ch_def min_def drop_Suc)
  have "ht_nodes t = iter_past t @ iter_rest t" "ht_nodes ?t = butlast (iter_past t) @ iter_rest t"
    using iter_split[OF assms(1)] iter_split[OF i(1)] i(2,3) by simp_all
  moreover have "iter_past t \<noteq> []" using j(1,2) by (auto simp: iter_past_def)
  ultimately have l: "length (ht_nodes t) = Suc (length (ht_nodes ?t))" by simp
  have "set ch \<subseteq> set ?ch" by (auto simp: ch_def dest: in_set_takeD in_set_dropD)
  then have "placed key (?cs[?c := ch])" using assms(3) j(3) by (intro placed_update) (auto simp: ht_ok_def placed_def)
  then have "ht_ok key ?t" by (intro ht_ok_shrink[OF assms(3) _ _ _ l]) (simp_all add: n_chains_def)
  then show ?thesis using t' i by blast
qed

text \<open>A loop over the table that removes the nodes with a property; a table of \<open>n\<close> nodes takes \<open>n + 1\<close> rounds.\<close>

fun ht_sweep :: "nat \<Rightarrow> ('n \<Rightarrow> bool) \<Rightarrow> 'n hashtable \<Rightarrow> ('n list \<times> 'n hashtable) option" where
  "ht_sweep 0 P t = None"
| "ht_sweep (Suc fuel) P t = do {
     (x, t) \<leftarrow> HT_Next t;
     case x of None \<Rightarrow> Some ([], t)
     | Some x \<Rightarrow> do {
         t \<leftarrow> (if P x then HT_remove_at_Iter t else Some t);
         (xs, t) \<leftarrow> ht_sweep fuel P t;
         Some (x # xs, t)
       }
   }"

lemma next_ok: "ht_ok key t \<Longrightarrow> ht_chains t' = ht_chains t \<Longrightarrow> ht_n_elements t' = ht_n_elements t \<Longrightarrow> ht_ok key t'"
  by (simp add: ht_ok_def n_chains_def ht_nodes_def)

lemma sweep_spec:
  assumes "iter_ok t" "ht_ok key t" "length (iter_rest t) < fuel"
  shows "\<exists>t'. ht_sweep fuel P t = Some (iter_rest t, t') \<and> ht_ok key t' \<and> ht_nodes t' = iter_past t @ filter (\<lambda>x. \<not> P x) (iter_rest t)"
  using assms
proof (induction fuel arbitrary: t)
  case (Suc fuel)
  show ?case
  proof (cases "iter_rest t")
    case Nil
    then show ?thesis using next_spec[OF Suc.prems(1)] Suc.prems(2) iter_split[OF Suc.prems(1)] by simp
  next
    case (Cons x xs)
    then obtain t1 where t1: "HT_Next t = Some (Some x, t1)" "iter_ok t1" "iter_rest t1 = xs" "iter_past t1 = iter_past t @ [x]" "ht_iterNode t1 \<noteq> None"
      "ht_chains t1 = ht_chains t" "ht_n_elements t1 = ht_n_elements t" using next_spec[OF Suc.prems(1)] by auto
    have o1: "ht_ok key t1" by (rule next_ok[OF Suc.prems(2) t1(6,7)])
    obtain t2 where t2: "(if P x then HT_remove_at_Iter t1 else Some t1) = Some t2" "iter_ok t2" "ht_ok key t2" "iter_rest t2 = xs"
      "iter_past t2 = iter_past t @ (if P x then [] else [x])"
      using remove_at_iter_spec[OF t1(2,5) o1] t1(2-4) o1 by (cases "P x") auto
    from Suc.IH[OF t2(2,3)] t2(4,5) Suc.prems(3) Cons obtain t3 where
      "ht_sweep fuel P t2 = Some (xs, t3)" "ht_ok key t3" "ht_nodes t3 = iter_past t @ (if P x then [] else [x]) @ filter (\<lambda>x. \<not> P x) xs" by auto
    then show ?thesis using t1(1) t2(1) Cons by (auto split: if_splits)
  qed
qed simp


section \<open>Tables of distinct keys\<close>

datatype 'n ht_request = Ht_Add 'n | Ht_Lookup u64 | Ht_Remove u64 | Ht_Count

datatype 'n ht_answer = Ht_Found "'n option" | Ht_Counted u32

fun run_ht :: "('n \<Rightarrow> u64) \<Rightarrow> 'n ht_request \<Rightarrow> 'n hashtable \<times> 'n ht_answer list \<Rightarrow> ('n hashtable \<times> 'n ht_answer list) option" where
  "run_ht key (Ht_Add x) (t, out) = map_option (\<lambda>t. (t, out)) (HT_add_node key x t)"
| "run_ht key (Ht_Lookup k) (t, out) = Some (t, out @ [Ht_Found (HT_lookup key t k)])"
| "run_ht key (Ht_Remove k) (t, out) = Some (case HT_remove key t k of (x, t) \<Rightarrow> (t, out @ [Ht_Found x]))"
| "run_ht key Ht_Count (t, out) = Some (t, out @ [Ht_Counted (HT_count_nodes t)])"

fun spec_ht :: "('n \<Rightarrow> u64) \<Rightarrow> 'n ht_request \<Rightarrow> (u64 \<rightharpoonup> 'n) \<times> 'n ht_answer list \<Rightarrow> ((u64 \<rightharpoonup> 'n) \<times> 'n ht_answer list) option" where
  "spec_ht key (Ht_Add x) (m, out) = (if m (key x) = None then Some (m(key x \<mapsto> x), out) else None)"
| "spec_ht key (Ht_Lookup k) (m, out) = Some (m, out @ [Ht_Found (m k)])"
| "spec_ht key (Ht_Remove k) (m, out) = Some (m(k := None), out @ [Ht_Found (m k)])"
| "spec_ht key Ht_Count (m, out) = Some (m, out @ [Ht_Counted (of_nat (card (dom m)))])"

definition ht_distinct :: "('n \<Rightarrow> u64) \<Rightarrow> 'n hashtable \<Rightarrow> bool" where
  "ht_distinct key t \<longleftrightarrow> ht_ok key t \<and> distinct (map key (ht_nodes t))"

definition ht_map :: "('n \<Rightarrow> u64) \<Rightarrow> 'n hashtable \<Rightarrow> u64 \<rightharpoonup> 'n" where
  "ht_map key t k = HT_lookup key t k"

lemma ht_map_Some: "ht_distinct key t \<Longrightarrow> ht_map key t k = Some x \<longleftrightarrow> x \<in> set (ht_nodes t) \<and> key x = k"
  by (simp add: ht_distinct_def ht_map_def lookup_distinct)

lemma distinct_keys_mset: "mset xs = mset ys \<Longrightarrow> distinct (map key xs) = distinct (map key ys)"
  by (metis mset_eq_imp_distinct_iff mset_map)

lemma map_eqI: "(\<And>k x. m k = Some x \<longleftrightarrow> m' k = Some x) \<Longrightarrow> m = m'"
  by (rule ext) (metis not_Some_eq)

lemma ht_add:
  assumes "ht_distinct key t" "ht_map key t (key x) = None"
  shows "\<exists>t'. HT_add_node key x t = Some t' \<and> ht_distinct key t' \<and> ht_map key t' = (ht_map key t)(key x \<mapsto> x) \<and>
    mset (ht_nodes t') = add_mset x (mset (ht_nodes t))"
proof -
  from add_node_ok[of key t x] assms(1) obtain t' where
    t': "HT_add_node key x t = Some t'" "ht_ok key t'" "mset (ht_nodes t') = mset (x # ht_nodes t)" by (auto simp: ht_distinct_def)
  have n: "\<forall>y \<in> set (ht_nodes t). key y \<noteq> key x" using assms by (auto simp: ht_distinct_def ht_map_def lookup_None)
  have s: "set (ht_nodes t') = insert x (set (ht_nodes t))" using mset_eq_setD[OF t'(3)] by simp
  have d: "ht_distinct key t'" using t'(2) distinct_keys_mset[OF t'(3), of key] assms(1) n by (auto simp: ht_distinct_def)
  have "ht_map key t' = (ht_map key t)(key x \<mapsto> x)"
    by (rule map_eqI) (use s n in \<open>auto simp: ht_map_Some[OF d] ht_map_Some[OF assms(1)]\<close>)
  then show ?thesis using t'(1,3) d by auto
qed

lemma ht_take:
  assumes "ht_distinct key t"
  shows "\<exists>t'. HT_remove key t k = (ht_map key t k, t') \<and> ht_distinct key t' \<and> ht_map key t' = (ht_map key t)(k := None) \<and>
    mset (ht_nodes t) = (case ht_map key t k of None \<Rightarrow> {#} | Some x \<Rightarrow> {#x#}) + mset (ht_nodes t')"
proof -
  from ht_remove_ok[of key t k] assms obtain t' where t': "HT_remove key t k = (ht_map key t k, t')" "ht_ok key t'"
    "mset (ht_nodes t) = (case ht_map key t k of None \<Rightarrow> {#} | Some x \<Rightarrow> {#x#}) + mset (ht_nodes t')" by (auto simp: ht_distinct_def ht_map_def)
  have s: "set (ht_nodes t') = {x \<in> set (ht_nodes t). key x \<noteq> k}" and dk: "distinct (map key (ht_nodes t'))"
  proof -
    have m: "mset (ht_nodes t) = mset ((case ht_map key t k of None \<Rightarrow> [] | Some x \<Rightarrow> [x]) @ ht_nodes t')" using t'(3) by (cases "ht_map key t k") auto
    have d: "distinct (map key ((case ht_map key t k of None \<Rightarrow> [] | Some x \<Rightarrow> [x]) @ ht_nodes t'))"
      using distinct_keys_mset[OF m, of key] assms by (simp add: ht_distinct_def)
    then show "distinct (map key (ht_nodes t'))" by simp
    show "set (ht_nodes t') = {x \<in> set (ht_nodes t). key x \<noteq> k}"
    proof (cases "ht_map key t k")
      case None
      then show ?thesis using mset_eq_setD[OF m] lookup_None[of key t k] assms by (auto simp: ht_distinct_def ht_map_def)
    next
      case (Some x)
      have "key y \<noteq> k" if "y \<in> set (ht_nodes t')" for y using d Some ht_map_Some[OF assms, of k x] that by (auto simp: image_iff)
      then show ?thesis using mset_eq_setD[OF m] Some ht_map_Some[OF assms, of k x] by auto
    qed
  qed
  have d: "ht_distinct key t'" using t'(2) dk by (simp add: ht_distinct_def)
  have "ht_map key t' = (ht_map key t)(k := None)"
    by (rule map_eqI) (use s in \<open>auto simp: ht_map_Some[OF d] ht_map_Some[OF assms]\<close>)
  then show ?thesis using t'(1,3) d by blast
qed

lemma ht_dom: "ht_distinct key t \<Longrightarrow> dom (ht_map key t) = key ` set (ht_nodes t)"
  by (auto simp: dom_def ht_map_Some)

lemma ht_count: "ht_distinct key t \<Longrightarrow> HT_count_nodes t = of_nat (card (dom (ht_map key t)))"
  using distinct_card[of "map key (ht_nodes t)"] by (simp add: ht_dom ht_distinct_def ht_ok_def HT_count_nodes_def)

lemma construct_distinct: "ht_distinct key HT_construct" "ht_map key HT_construct = Map.empty" "ht_nodes HT_construct = []"
proof -
  show n: "ht_nodes HT_construct = []" by (simp add: HT_construct_def ht_nodes_def)
  have "n_chains (HT_construct :: 'a hashtable) = 769" "placed key (ht_chains HT_construct)" "ht_n_elements (HT_construct :: 'a hashtable) = 0"
    by (simp_all add: HT_construct_def n_chains_def placed_def ends_of_primes)
  then show d: "ht_distinct key HT_construct" by (simp add: ht_distinct_def ht_ok_def n hash_primes_def)
  show "ht_map key HT_construct = Map.empty" by (rule map_eqI) (simp add: ht_map_Some[OF d] n)
qed

interpretation hash_table: data_refinement "\<lambda>(t, out). ht_distinct key t" "\<lambda>(t, out). (ht_map key t, out)" "run_ht key" "spec_ht key" for key
proof
  fix s r a
  assume i: "case s of (t, out) \<Rightarrow> ht_distinct key t" and a: "spec_ht key r (case s of (t, out) \<Rightarrow> (ht_map key t, out)) = Some a"
  obtain t out where s: "s = (t, out)" by force
  note t = i[unfolded s prod.case]
  show "\<exists>s'. run_ht key r s = Some s' \<and> (case s' of (t, out) \<Rightarrow> ht_distinct key t) \<and> (case s' of (t, out) \<Rightarrow> (ht_map key t, out)) = a"
  proof (cases r)
    case (Ht_Add x)
    then show ?thesis using a ht_add[OF t, of x] by (auto simp: s split: if_splits)
  next
    case (Ht_Remove k)
    then show ?thesis using a ht_take[OF t, of k] by (auto simp: s)
  qed (use a t ht_count[OF t] in \<open>auto simp: s ht_map_def\<close>)
qed

text \<open>
  C29. Any history of insertions of new keys, lookups and removals, from the empty table and through any number of enlargements of its array, runs
  without a failed assertion, gives the answers of a finite map, and keeps every node in the chain of its key.
\<close>

theorem hashtable_refines_map:
  assumes "foldO (spec_ht key) rs (Map.empty, []) = Some (m, out)"
  shows "\<exists>t. foldO (run_ht key) rs (HT_construct, []) = Some (t, out) \<and> ht_ok key t \<and> HT_lookup key t = m"
proof -
  from hash_table.runs[of key "(HT_construct, [])" rs "(m, out)"] assms obtain t where
    "foldO (run_ht key) rs (HT_construct, []) = Some (t, out)" "ht_distinct key t" "ht_map key t = m" by (auto simp: construct_distinct)
  then show ?thesis by (auto simp: ht_distinct_def ht_map_def[abs_def])
qed

theorem hashtable_refines_map_witness:
  "\<exists>t. foldO (run_ht fst) [Ht_Add (7, 1 :: nat), Ht_Add (776, 2), Ht_Lookup 776, Ht_Remove 7, Ht_Lookup 7, Ht_Count] (HT_construct, []) =
      Some (t, [Ht_Found (Some (776, 2)), Ht_Found (Some (7, 1)), Ht_Found None, Ht_Counted 1]) \<and>
    ht_ok fst t \<and> HT_lookup fst t = [776 \<mapsto> (776, 2)]"
  by (rule hashtable_refines_map) (simp add: fun_upd_twist)

text \<open>
  A loop over a table that removes some of the nodes it comes to (as \<^verbatim>\<open>free_mallocs_in_mempool_block\<close> does) visits every node exactly once, in the order
  of the array, and leaves exactly the others.
\<close>

theorem hashtable_sweep:
  assumes "ht_ok key t" "length (ht_nodes t) < fuel"
  shows "\<exists>t'. ht_sweep fuel P (HT_ResetIter t) = Some (ht_nodes t, t') \<and> ht_ok key t' \<and> ht_nodes t' = filter (\<lambda>x. \<not> P x) (ht_nodes t)"
  using sweep_spec[of "HT_ResetIter t" key fuel P] assms by (simp add: reset_iter)

end
