(* ===== verification/Heap_Props.thy ===== *)
theory Heap_Props
  imports Heap Hashtab_Props Shadow_System
begin

text \<open>
  The invariant of Memcheck's heap and that its operations keep it: the blocks that are live or held back do not overlap, the queues are counted, and
  in the arena of the heap exactly the bytes of live blocks are accessible.
\<close>

section \<open>Blocks\<close>

definition payload :: "heap_chunk \<Rightarrow> addr \<Rightarrow> bool" where
  "payload mc b \<longleftrightarrow> in_range (hc_data mc) (unat (hc_szB mc)) b"

text \<open>A block with its red zones.\<close>

definition extent :: "u64 \<Rightarrow> heap_chunk \<Rightarrow> addr \<Rightarrow> bool" where
  "extent rz mc b \<longleftrightarrow> unat (hc_data mc) \<le> unat b + unat rz \<and> unat b < unat (hc_data mc) + unat (hc_szB mc) + unat rz"

definition block_fits :: "u64 \<Rightarrow> heap_chunk \<Rightarrow> bool" where
  "block_fits rz mc \<longleftrightarrow> unat rz \<le> unat (hc_data mc) \<and> unat (hc_data mc) + unat (hc_szB mc) + unat rz < 2 ^ 64"

definition apart :: "u64 \<Rightarrow> heap_chunk \<Rightarrow> heap_chunk \<Rightarrow> bool" where
  "apart rz x y \<longleftrightarrow> (\<forall>b. \<not> (extent rz x b \<and> extent rz y b))"

text \<open>What the invariant says about a chunk does not depend on its contexts.\<close>

definition block_sig :: "heap_chunk \<Rightarrow> addr \<times> u64 \<times> MC_AllocKind \<times> nat" where
  "block_sig mc = (hc_data mc, hc_szB mc, hc_allockind mc, length (hc_where mc))"

definition block_ok :: "heap_opts \<Rightarrow> (addr \<Rightarrow> bool) \<Rightarrow> heap_chunk \<Rightarrow> bool" where
  "block_ok opts arena mc \<longleftrightarrow> block_fits (Malloc_Redzone_SzB opts) mc \<and> (\<forall>b. extent (Malloc_Redzone_SzB opts) mc b \<longrightarrow> arena b) \<and>
     hc_allockind mc \<noteq> MC_AllocCustom \<and> length (hc_where mc) = n_where_pointers (clo_keep_stacktraces opts)"

definition well_held :: "heap_opts \<Rightarrow> (addr \<Rightarrow> bool) \<Rightarrow> heap_chunk list \<Rightarrow> bool" where
  "well_held opts arena mcs \<longleftrightarrow> (\<forall>mc \<in> set mcs. block_ok opts arena mc) \<and> distinct (map hc_data mcs) \<and>
     (\<forall>x \<in> set mcs. \<forall>y \<in> set mcs. hc_data x \<noteq> hc_data y \<longrightarrow> apart (Malloc_Redzone_SzB opts) x y)"

lemma payload_extent: "payload mc b \<Longrightarrow> extent rz mc b"
  by (auto simp: payload_def extent_def in_range_def)

lemma sig_cong:
  assumes "block_sig x = block_sig y"
  shows "payload x = payload y" "extent rz x = extent rz y" "block_fits rz x = block_fits rz y" "block_ok opts arena x = block_ok opts arena y" "hc_data x = hc_data y"
proof -
  have e: "hc_data x = hc_data y" "hc_szB x = hc_szB y" "hc_allockind x = hc_allockind y" "length (hc_where x) = length (hc_where y)"
    using assms by (simp_all add: block_sig_def)
  show "payload x = payload y" "extent rz x = extent rz y" "block_fits rz x = block_fits rz y" "hc_data x = hc_data y"
    by (simp_all add: fun_eq_iff payload_def extent_def block_fits_def e)
  then show "block_ok opts arena x = block_ok opts arena y" by (simp add: block_ok_def block_fits_def extent_def e)
qed

lemma apart_cong: "block_sig x = block_sig x' \<Longrightarrow> block_sig y = block_sig y' \<Longrightarrow> apart rz x y = apart rz x' y'"
  using sig_cong(2)[of x x' rz] sig_cong(2)[of y y' rz] by (simp add: apart_def)

lemma sig_in:
  assumes "image_mset block_sig (mset ys) \<subseteq># image_mset block_sig (mset xs)" "y \<in> set ys"
  shows "\<exists>x \<in> set xs. block_sig x = block_sig y"
proof -
  have "block_sig y \<in># image_mset block_sig (mset ys)" using assms(2) by simp
  from mset_subset_eqD[OF assms(1) this] show ?thesis by auto
qed

lemma distinct_sub: "mset ys \<subseteq># mset xs \<Longrightarrow> distinct xs \<Longrightarrow> distinct ys"
  by (metis distinct_append mset_append mset_eq_imp_distinct_iff ex_mset subset_mset.le_iff_add)

lemma well_held_sub:
  assumes "well_held opts arena xs" "image_mset block_sig (mset ys) \<subseteq># image_mset block_sig (mset xs)"
  shows "well_held opts arena ys"
proof -
  note si = sig_in[OF assms(2)]
  have "image_mset fst (image_mset block_sig (mset ys)) \<subseteq># image_mset fst (image_mset block_sig (mset xs))" by (rule image_mset_subseteq_mono[OF assms(2)])
  then have "mset (map hc_data ys) \<subseteq># mset (map hc_data xs)" by (simp add: image_mset.compositionality comp_def block_sig_def)
  from distinct_sub[OF this] have d: "distinct (map hc_data ys)" using assms(1) by (simp add: well_held_def)
  have "block_ok opts arena y" if y: "y \<in> set ys" for y
  proof -
    from si[OF y] obtain x where x: "x \<in> set xs" "block_sig x = block_sig y" by blast
    show ?thesis using sig_cong(4)[OF x(2), of opts arena] x(1) assms(1) by (simp add: well_held_def)
  qed
  moreover have "apart (Malloc_Redzone_SzB opts) x y" if "x \<in> set ys" "y \<in> set ys" "hc_data x \<noteq> hc_data y" for x y
  proof -
    from si[OF that(1)] si[OF that(2)] obtain x' y' where e: "x' \<in> set xs" "block_sig x' = block_sig x" "y' \<in> set xs" "block_sig y' = block_sig y" by blast
    then have "hc_data x' \<noteq> hc_data y'" using that(3) by (simp add: sig_cong(5)[OF e(2)] sig_cong(5)[OF e(4)])
    then have "apart (Malloc_Redzone_SzB opts) x' y'" using assms(1) e(1,3) by (simp add: well_held_def)
    then show ?thesis using apart_cong[OF e(2,4)] by simp
  qed
  ultimately show ?thesis using d by (simp add: well_held_def)
qed

lemma well_held_perm: "mset ys = mset xs \<Longrightarrow> well_held opts arena xs \<Longrightarrow> well_held opts arena ys"
  by (erule well_held_sub) simp

lemma front_byte:
  assumes "block_fits rz mc" "0 < unat rz"
  shows "extent rz mc (hc_data mc - 1)"
proof -
  have "1 \<le> unat (hc_data mc)" using assms by (simp add: block_fits_def)
  then have "unat (hc_data mc - 1) = unat (hc_data mc) - 1" by (simp add: unat_sub word_le_nat_alt)
  then show ?thesis using assms by (auto simp: extent_def block_fits_def)
qed

lemma well_held_add:
  assumes "well_held opts arena xs" "block_ok opts arena mc" "\<forall>y \<in> set xs. apart (Malloc_Redzone_SzB opts) mc y" "0 < unat (Malloc_Redzone_SzB opts)"
  shows "well_held opts arena (mc # xs)"
proof -
  have ne: "hc_data y \<noteq> hc_data mc" if y: "y \<in> set xs" for y
  proof
    assume e: "hc_data y = hc_data mc"
    have f: "block_fits (Malloc_Redzone_SzB opts) mc" "block_fits (Malloc_Redzone_SzB opts) y"
      using assms(1,2) y by (auto simp: block_ok_def well_held_def)
    from front_byte[OF f(1) assms(4)] front_byte[OF f(2) assms(4)] e assms(3) y show False by (auto simp: apart_def)
  qed
  then have "hc_data mc \<notin> hc_data ` set xs" by (metis imageE)
  then have "distinct (map hc_data (mc # xs))" using assms(1) by (simp add: well_held_def)
  moreover have "apart rz y x = apart rz x y" for rz x y by (auto simp: apart_def)
  ultimately show ?thesis using assms by (auto simp: well_held_def)
qed


section \<open>Ranges of a block\<close>

lemma unat_extent:
  assumes "block_fits rz mc"
  shows "unat (hc_szB mc + 2 * rz) = unat (hc_szB mc) + 2 * unat rz" "unat (hc_data mc - rz) = unat (hc_data mc) - unat rz"
    "unat (hc_data mc - rz) + unat (hc_szB mc + 2 * rz) \<le> 2 ^ 64"
proof -
  have f: "unat rz \<le> unat (hc_data mc)" "unat (hc_data mc) + unat (hc_szB mc) + unat rz < 2 ^ 64" using assms by (simp_all add: block_fits_def)
  have "unat (rz + rz) = unat rz + unat rz" by (rule unat_add_lem[THEN iffD1]) (use f in simp)
  then have r: "unat (2 * rz) = 2 * unat rz" by (simp only: mult_2)
  have "unat (hc_szB mc + 2 * rz) = unat (hc_szB mc) + unat (2 * rz)" by (rule unat_add_lem[THEN iffD1]) (use f r in simp)
  then show a: "unat (hc_szB mc + 2 * rz) = unat (hc_szB mc) + 2 * unat rz" by (simp only: r)
  show b: "unat (hc_data mc - rz) = unat (hc_data mc) - unat rz" using f by (simp add: unat_sub word_le_nat_alt)
  show "unat (hc_data mc - rz) + unat (hc_szB mc + 2 * rz) \<le> 2 ^ 64" unfolding a b using f by simp
qed

lemma off_extent:
  assumes "block_fits rz mc"
  shows "unat (b - (hc_data mc - rz)) < unat (hc_szB mc + 2 * rz) \<longleftrightarrow> extent rz mc b"
proof -
  note u = unat_extent[OF assms]
  have f: "unat rz \<le> unat (hc_data mc)" "unat (hc_data mc) + unat (hc_szB mc) + unat rz < 2 ^ 64" using assms by (simp_all add: block_fits_def)
  have "unat (b - (hc_data mc - rz)) < unat (hc_szB mc + 2 * rz) \<longleftrightarrow> in_range (hc_data mc - rz) (unat (hc_szB mc + 2 * rz)) b"
    by (rule in_range_off[symmetric, OF u(3)]) (use unat_bound[of "hc_szB mc + 2 * rz"] in simp)
  then show ?thesis unfolding in_range_def u(1,2) extent_def using f by auto
qed

lemma payload_range:
  assumes "block_fits rz mc"
  shows "unat (hc_data mc) + unat (hc_szB mc) \<le> 2 ^ 64" "unat (b - hc_data mc) < unat (hc_szB mc) \<longleftrightarrow> payload mc b"
proof -
  show "unat (hc_data mc) + unat (hc_szB mc) \<le> 2 ^ 64" using assms by (simp add: block_fits_def)
  then show "unat (b - hc_data mc) < unat (hc_szB mc) \<longleftrightarrow> payload mc b"
    using in_range_off[of "hc_data mc" "unat (hc_szB mc)" b] unat_bound[of "hc_szB mc"] by (simp add: payload_def)
qed

lemma with_shadow_sets:
  assumes "sets a n v (hp_shadow h) (f (hp_shadow h))"
  shows "\<exists>sh. with_shadow f h = Some (h\<lparr>hp_shadow := sh\<rparr>) \<and> shadow_ok sh \<and> other sh = other (hp_shadow h) \<and>
    vb sh = (\<lambda>b. if unat (b - a) < n then v else vb (hp_shadow h) b)"
  using assms by (auto simp: with_shadow_def sets_def set_off_def)

lemma extent_noaccess:
  assumes "shadow_ok (hp_shadow h)" "block_fits rz mc"
  shows "\<exists>sh. with_shadow (make_mem_noaccess (hc_data mc - rz) (hc_szB mc + 2 * rz)) h = Some (h\<lparr>hp_shadow := sh\<rparr>) \<and> shadow_ok sh \<and>
    other sh = other (hp_shadow h) \<and> vb sh = (\<lambda>b. if extent rz mc b then None else vb (hp_shadow h) b)"
  using with_shadow_sets[where f = "make_mem_noaccess (hc_data mc - rz) (hc_szB mc + 2 * rz)", OF make_mem_sets(2)[OF assms(1) unat_extent(3)[OF assms(2)]]]
  by (simp only: off_extent[OF assms(2)])


section \<open>The queues\<close>

definition queued :: "heap \<Rightarrow> heap_chunk list" where
  "queued h = freed_big h @ freed_small h"

definition volume_of :: "heap_chunk list \<Rightarrow> int" where
  "volume_of mcs = (\<Sum>mc\<leftarrow>mcs. uint (hc_szB mc))"

definition queue_ok :: "heap \<Rightarrow> bool" where
  "queue_ok h \<longleftrightarrow> free_queue_volume h = volume_of (queued h) \<and> free_queue_length h = int (length (queued h))"

lemma volume_simps [simp]: "volume_of [] = 0" "volume_of (x # xs) = uint (hc_szB x) + volume_of xs" "volume_of (xs @ ys) = volume_of xs + volume_of ys"
  by (simp_all add: volume_of_def)

lemma volume_nonneg: "0 \<le> volume_of xs"
  by (induction xs) simp_all

text \<open>Blocks are released from the front of a list, as many as are needed and no more.\<close>

lemma release_loop_spec:
  assumes "volume = volume_of l + r" "0 \<le> r"
  shows "\<exists>k \<le> length l. release_loop vol l (volume, n, freed) =
      Some (drop k l, volume_of (drop k l) + r, n - int k, freed @ map hc_data (filter (\<lambda>mc. hc_allockind mc \<noteq> MC_AllocCustom) (take k l))) \<and>
    (volume_of (drop k l) + r \<le> vol \<or> k = length l) \<and> (\<forall>j < k. volume_of (drop j l) + r > vol)"
  using assms
proof (induction l arbitrary: volume n freed)
  case (Cons mc l)
  show ?case
  proof (cases "volume > vol")
    case True
    let ?fr = "if hc_allockind mc \<noteq> MC_AllocCustom then freed @ [hc_data mc] else freed"
    have v: "volume - uint (hc_szB mc) = volume_of l + r" "0 \<le> volume - uint (hc_szB mc)" using Cons.prems volume_nonneg[of l] by simp_all
    from Cons.IH[OF v(1) Cons.prems(2), of "n - 1" ?fr] obtain k where
      k: "k \<le> length l" "release_loop vol l (volume_of l + r, n - 1, ?fr) =
        Some (drop k l, volume_of (drop k l) + r, n - 1 - int k, ?fr @ map hc_data (filter (\<lambda>mc. hc_allockind mc \<noteq> MC_AllocCustom) (take k l)))"
      "volume_of (drop k l) + r \<le> vol \<or> k = length l" "\<forall>j < k. volume_of (drop j l) + r > vol" unfolding v(1) by blast
    have "\<forall>j < Suc k. volume_of (drop j (mc # l)) + r > vol" using k(4) True Cons.prems(1) by (auto simp: less_Suc_eq_0_disj)
    then show ?thesis using True v k(1-3) by (intro exI[of _ "Suc k"]) (simp add: algebra_simps)
  next
    case False
    then show ?thesis using Cons.prems by (intro exI[of _ 0]) auto
  qed
qed simp

lemma release_spec:
  assumes "queue_ok h" "free_queue_volume h > clo_freelist_vol opts" "0 \<le> clo_freelist_vol opts"
  shows "\<exists>i j. release_oldest_block opts h = Some (h\<lparr>freed_big := drop i (freed_big h), freed_small := drop j (freed_small h),
      free_queue_volume := volume_of (drop i (freed_big h) @ drop j (freed_small h)),
      free_queue_length := int (length (drop i (freed_big h) @ drop j (freed_small h))),
      cli_freed := cli_freed h @ map hc_data (filter (\<lambda>mc. hc_allockind mc \<noteq> MC_AllocCustom) (take i (freed_big h) @ take j (freed_small h)))\<rparr>) \<and>
    i \<le> length (freed_big h) \<and> j \<le> length (freed_small h) \<and>
    volume_of (drop i (freed_big h) @ drop j (freed_small h)) \<le> clo_freelist_vol opts \<and> (0 < j \<longrightarrow> i = length (freed_big h)) \<and>
    (\<forall>k < i. volume_of (drop k (freed_big h) @ freed_small h) > clo_freelist_vol opts) \<and>
    (\<forall>k < j. volume_of (drop k (freed_small h)) > clo_freelist_vol opts)"
proof -
  let ?b = "freed_big h" and ?s = "freed_small h" and ?vol = "clo_freelist_vol opts"
  have v: "free_queue_volume h = volume_of ?b + volume_of ?s" "free_queue_length h = int (length ?b) + int (length ?s)"
    using assms(1) by (simp_all add: queue_ok_def queued_def)
  have ne: "?b \<noteq> [] \<or> ?s \<noteq> []" using v(1) assms(2,3) by auto
  from release_loop_spec[OF v(1) volume_nonneg, of ?vol "free_queue_length h" "cli_freed h"] obtain i where
    i: "i \<le> length ?b" "release_loop ?vol ?b (free_queue_volume h, free_queue_length h, cli_freed h) = Some (drop i ?b, volume_of (drop i ?b) + volume_of ?s,
      free_queue_length h - int i, cli_freed h @ map hc_data (filter (\<lambda>mc. hc_allockind mc \<noteq> MC_AllocCustom) (take i ?b)))"
    "volume_of (drop i ?b) + volume_of ?s \<le> ?vol \<or> i = length ?b" "\<forall>j < i. volume_of (drop j ?b) + volume_of ?s > ?vol" by blast
  from release_loop_spec[of "volume_of (drop i ?b) + volume_of ?s" ?s "volume_of (drop i ?b)" ?vol "free_queue_length h - int i"
    "cli_freed h @ map hc_data (filter (\<lambda>mc. hc_allockind mc \<noteq> MC_AllocCustom) (take i ?b))"] obtain j where
    j: "j \<le> length ?s" "release_loop ?vol ?s (volume_of (drop i ?b) + volume_of ?s, free_queue_length h - int i,
        cli_freed h @ map hc_data (filter (\<lambda>mc. hc_allockind mc \<noteq> MC_AllocCustom) (take i ?b))) =
      Some (drop j ?s, volume_of (drop j ?s) + volume_of (drop i ?b), free_queue_length h - int i - int j,
        (cli_freed h @ map hc_data (filter (\<lambda>mc. hc_allockind mc \<noteq> MC_AllocCustom) (take i ?b))) @
        map hc_data (filter (\<lambda>mc. hc_allockind mc \<noteq> MC_AllocCustom) (take j ?s)))"
    "volume_of (drop j ?s) + volume_of (drop i ?b) \<le> ?vol \<or> j = length ?s" "\<forall>k < j. volume_of (drop k ?s) + volume_of (drop i ?b) > ?vol"
    using volume_nonneg[of "drop i ?b"] by (auto simp: add.commute)
  have full: "0 < j \<longrightarrow> i = length ?b" using i(3) j(4) by (auto simp: add.commute)
  have le: "volume_of (drop i ?b) + volume_of (drop j ?s) \<le> ?vol"
  proof (cases "j = length ?s")
    case True
    then show ?thesis using full i(3) assms(3) by (cases "j = 0") auto
  qed (use j(3) in auto)
  have "release_oldest_block opts h = Some (h\<lparr>freed_big := drop i ?b, freed_small := drop j ?s,
      free_queue_volume := volume_of (drop j ?s) + volume_of (drop i ?b), free_queue_length := free_queue_length h - int i - int j,
      cli_freed := (cli_freed h @ map hc_data (filter (\<lambda>mc. hc_allockind mc \<noteq> MC_AllocCustom) (take i ?b))) @
        map hc_data (filter (\<lambda>mc. hc_allockind mc \<noteq> MC_AllocCustom) (take j ?s))\<rparr>)"
    using assms(2) ne i(2) j(2) by (simp add: release_oldest_block_def Let_def)
  moreover have "volume_of (drop j ?s) + volume_of (drop i ?b) = volume_of (drop i ?b @ drop j ?s)"
    "free_queue_length h - int i - int j = int (length (drop i ?b @ drop j ?s))" using v(2) i(1) j(1) by (simp_all add: of_nat_diff)
  moreover have "\<forall>k < j. volume_of (drop k ?s) > ?vol"
  proof (intro allI impI)
    fix k assume "k < j"
    moreover from this have "volume_of (drop i ?b) = 0" using full by simp
    ultimately show "volume_of (drop k ?s) > ?vol" using j(4) by auto
  qed
  ultimately show ?thesis using i(1,4) j(1) full le by (intro exI[of _ i] exI[of _ j]) simp
qed



section \<open>The invariant\<close>

definition live :: "heap \<Rightarrow> heap_chunk list" where
  "live h = ht_nodes (hp_malloc_list h)"

definition access_ok :: "(addr \<Rightarrow> bool) \<Rightarrow> heap \<Rightarrow> bool" where
  "access_ok arena h \<longleftrightarrow> (\<forall>b. arena b \<longrightarrow> (vb (hp_shadow h) b \<noteq> None \<longleftrightarrow> (\<exists>mc \<in> set (live h). payload mc b)))"

definition hp_ok :: "heap_opts \<Rightarrow> (addr \<Rightarrow> bool) \<Rightarrow> heap \<Rightarrow> bool" where
  "hp_ok opts arena h \<longleftrightarrow> shadow_ok (hp_shadow h) \<and> ht_distinct hc_data (hp_malloc_list h) \<and> well_held opts arena (live h @ queued h) \<and>
     access_ok arena h \<and> queue_ok h"

definition opts_ok :: "heap_opts \<Rightarrow> bool" where
  "opts_ok opts \<longleftrightarrow> 0 \<le> clo_freelist_vol opts \<and> 0 < unat (Malloc_Redzone_SzB opts) \<and> -1 \<le> clo_malloc_fill opts \<and> clo_malloc_fill opts \<le> 255 \<and>
     -1 \<le> clo_free_fill opts \<and> clo_free_fill opts \<le> 255"

lemma hp_okD:
  assumes "hp_ok opts arena h"
  shows "shadow_ok (hp_shadow h)" "ht_distinct hc_data (hp_malloc_list h)" "well_held opts arena (live h @ queued h)" "access_ok arena h" "queue_ok h"
  using assms by (simp_all add: hp_ok_def)

text \<open>The fields that the invariant is about.\<close>

definition core :: "heap \<Rightarrow> shadow \<times> heap_chunk hashtable \<times> heap_chunk list \<times> heap_chunk list \<times> int \<times> int" where
  "core h = (hp_shadow h, hp_malloc_list h, freed_big h, freed_small h, free_queue_volume h, free_queue_length h)"

lemma coreD:
  assumes "core h = core h'"
  shows "hp_shadow h = hp_shadow h'" "hp_malloc_list h = hp_malloc_list h'" "live h = live h'" "queued h = queued h'" "queue_ok h = queue_ok h'"
    "free_queue_volume h = free_queue_volume h'" "freed_big h = freed_big h'" "freed_small h = freed_small h'"
  using assms by (simp_all add: core_def live_def queued_def queue_ok_def)

lemma core_ok: "core h = core h' \<Longrightarrow> hp_ok opts arena h = hp_ok opts arena h'"
proof -
  assume "core h = core h'"
  note c = coreD[OF this]
  show ?thesis unfolding hp_ok_def access_ok_def by (simp only: c)
qed

lemma core_updates [simp]:
  "core (h\<lparr>hp_mem := m\<rparr>) = core h" "core (report e h) = core h" "core (count_alloc n h) = core h" "core (h\<lparr>cmalloc_n_frees := k\<rparr>) = core h"
  "core (h\<lparr>hp_mempool_list := p\<rparr>) = core h"
  by (simp_all add: core_def report_def count_alloc_def)

lemma fill_with_core:
  assumes "-1 \<le> v" "v \<le> 255"
  shows "\<exists>m. fill_with v p n h = Some (h\<lparr>hp_mem := m\<rparr>) \<and> (\<forall>b. \<not> unat (b - p) < unat n \<longrightarrow> m b = hp_mem h b)"
proof (cases "v = -1")
  case True
  then show ?thesis by (intro exI[of _ "hp_mem h"]) (simp add: fill_with_def)
qed (use assms in \<open>auto simp: fill_with_def mem_fill_def\<close>)


section \<open>Tables\<close>

lemma live_key: "ht_distinct hc_data (hp_malloc_list h) \<Longrightarrow> ht_map hc_data (hp_malloc_list h) p = Some mc \<longleftrightarrow> mc \<in> set (live h) \<and> hc_data mc = p"
  by (simp add: live_def ht_map_Some)

lemma live_None: "ht_distinct hc_data (hp_malloc_list h) \<Longrightarrow> ht_map hc_data (hp_malloc_list h) p = None \<longleftrightarrow> (\<forall>mc \<in> set (live h). hc_data mc \<noteq> p)"
  by (simp add: live_def ht_map_def ht_distinct_def lookup_None)

lemma add_malloc_spec:
  assumes "ht_distinct hc_data (hp_malloc_list h)" "\<forall>x \<in> set (live h). hc_data x \<noteq> hc_data mc"
  shows "\<exists>t. add_malloc mc h = Some (h\<lparr>hp_malloc_list := t\<rparr>) \<and> ht_distinct hc_data t \<and> mset (ht_nodes t) = add_mset mc (mset (live h))"
  using ht_add[OF assms(1), of mc] live_None[OF assms(1)] assms(2) by (auto simp: add_malloc_def live_def)

lemma remove_malloc_spec:
  assumes "ht_distinct hc_data (hp_malloc_list h)"
  shows "\<exists>t. remove_malloc p h = (ht_map hc_data (hp_malloc_list h) p, h\<lparr>hp_malloc_list := t\<rparr>) \<and> ht_distinct hc_data t \<and>
    mset (live h) = (case ht_map hc_data (hp_malloc_list h) p of None \<Rightarrow> {#} | Some x \<Rightarrow> {#x#}) + mset (ht_nodes t)"
  using ht_take[OF assms, of p] by (auto simp: remove_malloc_def live_def)

lemma live_contexts:
  assumes "ht_distinct hc_data (hp_malloc_list h)" "mc \<in> set (live h)" "hc_allockind mc \<noteq> MC_AllocCustom"
    "length (hc_where mc) = n_where_pointers (clo_keep_stacktraces opts)"
  shows "allocated_at opts h mc \<noteq> None" "freed_at opts h mc \<noteq> None"
proof -
  have "HT_lookup hc_data (hp_malloc_list h) (hc_data mc) = Some mc" using live_key[OF assms(1), of "hc_data mc" mc] assms(2) by (simp add: ht_map_def)
  then have "live_block h mc = Some True" using assms(3) by (simp add: live_block_def in_block_list_def)
  then show "allocated_at opts h mc \<noteq> None" "freed_at opts h mc \<noteq> None"
    using assms(4) by (cases "clo_keep_stacktraces opts"; simp add: allocated_at_def freed_at_def where_slot_def Let_def)+
qed


section \<open>Freeing a block\<close>

lemma set_freed_sig: "block_sig (set_freed_at opts ctx mc) = block_sig mc"
  by (simp add: set_freed_at_def block_sig_def split: KeepStacktraces.splits)

lemma add_to_queue_frame:
  "hp_shadow (add_to_freed_queue opts mc h) = hp_shadow h" "hp_malloc_list (add_to_freed_queue opts mc h) = hp_malloc_list h"
  "hp_errors (add_to_freed_queue opts mc h) = hp_errors h" "cli_freed (add_to_freed_queue opts mc h) = cli_freed h" "hp_mem (add_to_freed_queue opts mc h) = hp_mem h"
  by (simp_all add: add_to_freed_queue_def Let_def)

lemma add_to_queue_mset: "mset (queued (add_to_freed_queue opts mc h)) = add_mset mc (mset (queued h))"
  by (simp add: add_to_freed_queue_def Let_def queued_def)

lemma add_to_queue_ok: "queue_ok h \<Longrightarrow> queue_ok (add_to_freed_queue opts mc h)"
  by (simp add: add_to_freed_queue_def Let_def queue_ok_def queued_def)

text \<open>What freeing the memory of a chunk does: to the shadow memory, to the queues, and to nothing else of the invariant.\<close>

definition dies :: "u64 \<Rightarrow> heap_chunk \<Rightarrow> heap \<Rightarrow> heap \<Rightarrow> bool" where
  "dies rz mc h h' \<longleftrightarrow> shadow_ok (hp_shadow h') \<and> other (hp_shadow h') = other (hp_shadow h) \<and>
     vb (hp_shadow h') = (\<lambda>b. if extent rz mc b then None else vb (hp_shadow h) b) \<and> hp_malloc_list h' = hp_malloc_list h \<and> queue_ok h' \<and>
     (\<exists>mc'. block_sig mc' = block_sig mc \<and> mset (queued h') = add_mset mc' (mset (queued h))) \<and> hp_errors h' = hp_errors h \<and> cli_freed h' = cli_freed h \<and>
     (\<forall>b. \<not> payload mc b \<longrightarrow> hp_mem h' b = hp_mem h b)"

lemma die_spec:
  assumes "opts_ok opts" "shadow_ok (hp_shadow h)" "queue_ok h" "block_fits rz mc"
  shows "\<exists>h'. die_and_free_mem opts env mc rz h = Some h' \<and> dies rz mc h h'"
proof -
  obtain h1 where h1: "(if hc_allockind mc \<noteq> MC_AllocCustom then fill_with (clo_free_fill opts) (hc_data mc) (hc_szB mc) h else Some h) = Some h1"
    "core h1 = core h" "hp_errors h1 = hp_errors h" "cli_freed h1 = cli_freed h" "\<forall>b. \<not> payload mc b \<longrightarrow> hp_mem h1 b = hp_mem h b"
  proof (cases "hc_allockind mc \<noteq> MC_AllocCustom")
    case True
    then show ?thesis using that fill_with_core[of "clo_free_fill opts" "hc_data mc" "hc_szB mc" h] assms(1)
      unfolding payload_range(2)[OF assms(4)] by (auto simp: opts_ok_def)
  qed (use that[of h] in simp)
  note c = coreD[OF h1(2)]
  from extent_noaccess[of h1 rz mc] assms(2,4) obtain sh where
    sh: "with_shadow (make_mem_noaccess (hc_data mc - rz) (hc_szB mc + 2 * rz)) h1 = Some (h1\<lparr>hp_shadow := sh\<rparr>)"
    "shadow_ok sh" "other sh = other (hp_shadow h)" "vb sh = (\<lambda>b. if extent rz mc b then None else vb (hp_shadow h) b)" unfolding c(1) by blast
  let ?h = "h1\<lparr>hp_shadow := sh\<rparr>" and ?mc = "set_freed_at opts (ce_context env) mc"
  have q: "queue_ok ?h" "queued ?h = queued h" using assms(3) c(4-6) by (simp_all add: queue_ok_def queued_def)
  have "die_and_free_mem opts env mc rz h = Some (add_to_freed_queue opts ?mc ?h)" using h1(1) sh(1) by (simp add: die_and_free_mem_def)
  moreover have "dies rz mc h (add_to_freed_queue opts ?mc ?h)"
    unfolding dies_def add_to_queue_frame add_to_queue_mset q(2)
    using add_to_queue_ok[OF q(1)] sh(2-4) set_freed_sig[of opts "ce_context env" mc] c(2) h1(3-5) by auto
  ultimately show ?thesis by blast
qed

text \<open>A live chunk that has been taken from the table and dies leaves a well-formed heap.\<close>

lemma dies_ok:
  assumes "hp_ok opts arena h" "mset (live h) = add_mset mc (mset (ht_nodes t))" "ht_distinct hc_data t" "hp_malloc_list h1 = t"
    "hp_shadow h1 = hp_shadow h" "queued h1 = queued h" "dies (Malloc_Redzone_SzB opts) mc h1 h'"
  shows "hp_ok opts arena h'"
proof -
  let ?rz = "Malloc_Redzone_SzB opts"
  note d = assms(7)[unfolded dies_def]
  have l: "live h' = ht_nodes t" using d assms(4) by (simp add: live_def)
  obtain mc' where mc': "block_sig mc' = block_sig mc" "mset (queued h') = add_mset mc' (mset (queued h))" using d assms(6) by auto
  have w: "well_held opts arena (live h @ queued h)" by (rule hp_okD(3)[OF assms(1)])
  have "image_mset block_sig (mset (live h' @ queued h')) = image_mset block_sig (mset (live h @ queued h))"
    using l mc' assms(2) by simp
  then have w': "well_held opts arena (live h' @ queued h')" using well_held_sub[OF w] by simp
  have sl: "set (live h) = insert mc (set (ht_nodes t))" using assms(2) by (metis set_mset_add_mset_insert set_mset_mset)
  have dk: "distinct (map hc_data (live h))" using w by (simp add: well_held_def)
  then have "distinct (map hc_data (mc # ht_nodes t))" using distinct_keys_mset[of "live h" "mc # ht_nodes t" hc_data] assms(2) by simp
  then have nd: "hc_data x \<noteq> hc_data mc" if "x \<in> set (ht_nodes t)" for x using that by (auto simp: image_iff)
  have ap: "\<not> extent ?rz mc b" if "x \<in> set (ht_nodes t)" "payload x b" for x b
  proof -
    have "apart ?rz x mc" using w nd[OF that(1)] that(1) sl by (simp add: well_held_def)
    then show ?thesis using payload_extent[OF that(2)] by (auto simp: apart_def)
  qed
  have "access_ok arena h'" unfolding access_ok_def l
  proof (intro allI impI)
    fix b assume b: "arena b"
    have "vb (hp_shadow h) b \<noteq> None \<longleftrightarrow> (\<exists>x \<in> set (live h). payload x b)" using hp_okD(4)[OF assms(1)] b by (simp add: access_ok_def)
    then show "vb (hp_shadow h') b \<noteq> None \<longleftrightarrow> (\<exists>x \<in> set (ht_nodes t). payload x b)"
      using d assms(5) ap sl payload_extent[of mc b ?rz] by auto
  qed
  then show ?thesis using d w' assms(3,4) by (simp add: hp_ok_def)
qed

end
