(* ===== verification/Heap_Ops.thy ===== *)
theory Heap_Ops
  imports Heap_Props
begin

text \<open>
  The operations of the heap keep its invariant: freeing, allocation and reallocation, each with what it does to the blocks, to the shadow memory and to the
  reports.
\<close>

section \<open>Freeing\<close>

lemma same_blocks_ok:
  assumes "hp_ok opts arena h" "hp_shadow h' = hp_shadow h" "queued h' = queued h" "queue_ok h'" "ht_distinct hc_data (hp_malloc_list h')"
    "mset (live h') = mset (live h)"
  shows "hp_ok opts arena h'"
proof -
  have "mset (live h' @ queued h') = mset (live h @ queued h)" using assms(3,6) by simp
  from well_held_perm[OF this hp_okD(3)[OF assms(1)]] mset_eq_setD[OF assms(6)] assms show ?thesis by (simp add: hp_ok_def access_ok_def)
qed

lemma queue_ok_fields:
  "queue_ok (h\<lparr>hp_malloc_list := t\<rparr>) = queue_ok h" "queue_ok (h\<lparr>hp_errors := e\<rparr>) = queue_ok h" "queue_ok (h\<lparr>cmalloc_n_frees := k\<rparr>) = queue_ok h"
  "queue_ok (h\<lparr>hp_shadow := sh\<rparr>) = queue_ok h" "queue_ok (h\<lparr>hp_mem := m\<rparr>) = queue_ok h" "queue_ok (report x h) = queue_ok h" "queue_ok (count_alloc n h) = queue_ok h"
  "queued (h\<lparr>hp_malloc_list := t\<rparr>) = queued h" "queued (h\<lparr>hp_errors := e\<rparr>) = queued h" "queued (h\<lparr>cmalloc_n_frees := k\<rparr>) = queued h"
  "queued (h\<lparr>hp_shadow := sh\<rparr>) = queued h" "queued (h\<lparr>hp_mem := m\<rparr>) = queued h" "queued (report x h) = queued h" "queued (count_alloc n h) = queued h"
  by (simp_all add: queue_ok_def queued_def report_def count_alloc_def)

lemma live_fields:
  "live (h\<lparr>hp_malloc_list := t\<rparr>) = ht_nodes t" "live (h\<lparr>hp_errors := e\<rparr>) = live h" "live (h\<lparr>cmalloc_n_frees := k\<rparr>) = live h"
  "live (h\<lparr>hp_shadow := sh\<rparr>) = live h" "live (h\<lparr>hp_mem := m\<rparr>) = live h" "live (report x h) = live h" "live (count_alloc n h) = live h"
  by (simp_all add: live_def report_def count_alloc_def)

text \<open>What freeing a block with the wrong function reports.\<close>

definition mismatch_errors :: "heap_opts \<Rightarrow> MC_AllocKind \<Rightarrow> heap_chunk \<Rightarrow> heap_error list" where
  "mismatch_errors opts kind mc = (if kind \<noteq> hc_allockind mc \<and> clo_show_mismatched_frees opts then [Err_FreeMismatch mc] else [])"

lemma mismatch_spec:
  assumes "ht_distinct hc_data (hp_malloc_list h)" "\<forall>x \<in> set (live h). hc_data x \<noteq> hc_data mc" "hc_allockind mc \<noteq> MC_AllocCustom"
    "length (hc_where mc) = n_where_pointers (clo_keep_stacktraces opts)"
  shows "\<exists>t. (if kind \<noteq> hc_allockind mc then record_freemismatch_error opts mc h else Some h) =
      Some (h\<lparr>hp_malloc_list := t, hp_errors := hp_errors h @ mismatch_errors opts kind mc\<rparr>) \<and>
    ht_distinct hc_data t \<and> mset (ht_nodes t) = mset (live h)"
proof (cases "kind \<noteq> hc_allockind mc \<and> clo_show_mismatched_frees opts")
  case False
  then show ?thesis using assms(1) by (intro exI[of _ "hp_malloc_list h"]) (auto simp: mismatch_errors_def record_freemismatch_error_def live_def)
next
  case True
  from add_malloc_spec[OF assms(1,2)] obtain t1 where
    t1: "add_malloc mc h = Some (h\<lparr>hp_malloc_list := t1\<rparr>)" "ht_distinct hc_data t1" "mset (ht_nodes t1) = add_mset mc (mset (live h))" by blast
  let ?h1 = "h\<lparr>hp_malloc_list := t1\<rparr>"
  have in1: "mc \<in> set (live ?h1)" using t1(3) by (metis live_fields(1) set_mset_add_mset_insert set_mset_mset insertI1)
  have d1: "ht_distinct hc_data (hp_malloc_list ?h1)" using t1(2) by simp
  obtain a f where c: "allocated_at opts ?h1 mc = Some a" "freed_at opts ?h1 mc = Some f" using live_contexts[OF d1 in1 assms(3,4)] by blast
  let ?h2 = "report (Err_FreeMismatch mc) ?h1"
  have d2: "ht_distinct hc_data (hp_malloc_list ?h2)" "live ?h2 = live ?h1" using t1(2) by (simp_all add: report_def live_fields)
  have k: "ht_map hc_data (hp_malloc_list ?h2) (hc_data mc) = Some mc" using live_key[OF d2(1)] d2(2) in1 by simp
  from remove_malloc_spec[OF d2(1), of "hc_data mc"] k obtain t2 where
    t2: "remove_malloc (hc_data mc) ?h2 = (Some mc, ?h2\<lparr>hp_malloc_list := t2\<rparr>)" "ht_distinct hc_data t2" "mset (live ?h2) = add_mset mc (mset (ht_nodes t2))" by auto
  have "mset (ht_nodes t2) = mset (live h)" using t2(3) t1(3) d2(2) by (simp add: live_fields)
  moreover have "?h2\<lparr>hp_malloc_list := t2\<rparr> = h\<lparr>hp_malloc_list := t2, hp_errors := hp_errors h @ [Err_FreeMismatch mc]\<rparr>" by (simp add: report_def)
  ultimately show ?thesis using True t1(1) c t2(1,2) by (intro exI[of _ t2]) (simp add: record_freemismatch_error_def mismatch_errors_def)
qed

lemma taken_keys:
  assumes "hp_ok opts arena h" "mset (live h) = add_mset mc (mset ys)"
  shows "\<forall>x \<in> set ys. hc_data x \<noteq> hc_data mc" "block_ok opts arena mc" "mc \<in> set (live h)"
proof -
  have w: "well_held opts arena (live h @ queued h)" by (rule hp_okD(3)[OF assms(1)])
  then have "distinct (map hc_data (mc # ys))" using distinct_keys_mset[of "live h" "mc # ys" hc_data] assms(2) by (simp add: well_held_def)
  then show "\<forall>x \<in> set ys. hc_data x \<noteq> hc_data mc" by (auto simp: image_iff)
  show i: "mc \<in> set (live h)" using assms(2) by (metis set_mset_add_mset_insert set_mset_mset insertI1)
  show "block_ok opts arena mc" using w i by (simp add: well_held_def)
qed

text \<open>The result of freeing a live block.\<close>

definition freed_ok :: "heap_opts \<Rightarrow> (addr \<Rightarrow> bool) \<Rightarrow> heap_chunk \<Rightarrow> heap_error list \<Rightarrow> heap \<Rightarrow> heap \<Rightarrow> bool" where
  "freed_ok opts arena mc es h h' \<longleftrightarrow> hp_ok opts arena h' \<and> mset (live h) = add_mset mc (mset (live h')) \<and>
     (\<exists>mc'. block_sig mc' = block_sig mc \<and> mset (queued h') = add_mset mc' (mset (queued h))) \<and>
     vb (hp_shadow h') = (\<lambda>b. if extent (Malloc_Redzone_SzB opts) mc b then None else vb (hp_shadow h) b) \<and>
     other (hp_shadow h') = other (hp_shadow h) \<and> hp_errors h' = hp_errors h @ es \<and> cli_freed h' = cli_freed h"

text \<open>A live block is taken from the table, and a mismatch is reported.\<close>

lemma take_live:
  assumes "hp_ok opts arena h" "core h0 = core h" "HT_lookup hc_data (hp_malloc_list h) p = Some mc"
  shows "\<exists>h1 t. remove_malloc p h0 = (Some mc, h1) \<and> hc_data mc = p \<and> (if kind \<noteq> hc_allockind mc then record_freemismatch_error opts mc h1 else Some h1) =
      Some (h0\<lparr>hp_malloc_list := t, hp_errors := hp_errors h0 @ mismatch_errors opts kind mc\<rparr>) \<and> ht_distinct hc_data t \<and>
    mset (live h) = add_mset mc (mset (ht_nodes t)) \<and> block_ok opts arena mc \<and> mc \<in> set (live h)"
proof -
  note c = coreD[OF assms(2)]
  have d0: "ht_distinct hc_data (hp_malloc_list h0)" using hp_okD(2)[OF assms(1)] c by simp
  have m: "ht_map hc_data (hp_malloc_list h0) p = Some mc" using assms(3) c by (simp add: ht_map_def)
  then have p: "hc_data mc = p" using live_key[OF d0] by auto
  from remove_malloc_spec[OF d0, of p] m c(3) obtain t1 where
    t1: "remove_malloc p h0 = (Some mc, h0\<lparr>hp_malloc_list := t1\<rparr>)" "ht_distinct hc_data t1" "mset (live h) = add_mset mc (mset (ht_nodes t1))" by auto
  note tk = taken_keys[OF assms(1) t1(3)]
  let ?h1 = "h0\<lparr>hp_malloc_list := t1\<rparr>"
  from mismatch_spec[of ?h1 mc opts kind] t1(2) tk(1,2) obtain t2 where
    t2: "(if kind \<noteq> hc_allockind mc then record_freemismatch_error opts mc ?h1 else Some ?h1) =
      Some (?h1\<lparr>hp_malloc_list := t2, hp_errors := hp_errors h0 @ mismatch_errors opts kind mc\<rparr>)" "ht_distinct hc_data t2" "mset (ht_nodes t2) = mset (ht_nodes t1)"
    by (auto simp: live_fields block_ok_def)
  have "?h1\<lparr>hp_malloc_list := t2, hp_errors := hp_errors h0 @ mismatch_errors opts kind mc\<rparr> =
    h0\<lparr>hp_malloc_list := t2, hp_errors := hp_errors h0 @ mismatch_errors opts kind mc\<rparr>" by simp
  then show ?thesis using t1 t2 p tk(2,3) by (intro exI[of _ ?h1] exI[of _ t2]) simp
qed

lemma handle_free_live:
  assumes "hp_ok opts arena h" "opts_ok opts" "HT_lookup hc_data (hp_malloc_list h) p = Some mc"
  shows "\<exists>h'. handle_free opts env p (Malloc_Redzone_SzB opts) kind h = Some h' \<and> freed_ok opts arena mc (mismatch_errors opts kind mc) h h'"
proof -
  let ?rz = "Malloc_Redzone_SzB opts" and ?h0 = "h\<lparr>cmalloc_n_frees := cmalloc_n_frees h + 1\<rparr>"
  from take_live[OF assms(1) _ assms(3), of ?h0 kind] obtain h1 t where
    t: "remove_malloc p ?h0 = (Some mc, h1)" "hc_data mc = p" "(if kind \<noteq> hc_allockind mc then record_freemismatch_error opts mc h1 else Some h1) =
      Some (?h0\<lparr>hp_malloc_list := t, hp_errors := hp_errors h @ mismatch_errors opts kind mc\<rparr>)" "ht_distinct hc_data t"
    "mset (live h) = add_mset mc (mset (ht_nodes t))" "block_ok opts arena mc" by auto
  define h2 where "h2 = ?h0\<lparr>hp_malloc_list := t, hp_errors := hp_errors h @ mismatch_errors opts kind mc\<rparr>"
  have f2: "hp_shadow h2 = hp_shadow h" "queued h2 = queued h" "hp_malloc_list h2 = t" "hp_errors h2 = hp_errors h @ mismatch_errors opts kind mc"
    "cli_freed h2 = cli_freed h" "queue_ok h2" using hp_okD(5)[OF assms(1)] by (simp_all add: h2_def queue_ok_fields)
  from die_spec[OF assms(2), of h2 ?rz mc env] hp_okD(1)[OF assms(1)] t(6) f2 obtain h' where
    h': "die_and_free_mem opts env mc ?rz h2 = Some h'" "dies ?rz mc h2 h'" by (auto simp: block_ok_def)
  have "hp_ok opts arena h'" by (rule dies_ok[OF assms(1) t(5,4) f2(3,1,2) h'(2)])
  then have "freed_ok opts arena mc (mismatch_errors opts kind mc) h h'"
    using h'(2) t(5) f2 unfolding freed_ok_def dies_def f2(1) by (simp add: live_def)
  moreover have "handle_free opts env p ?rz kind h = Some h'" using t(1-3) h'(1) by (cases "kind = hc_allockind mc") (simp_all add: handle_free_def h2_def)
  ultimately show ?thesis by blast
qed

lemma handle_free_unknown:
  assumes "hp_ok opts arena h" "HT_lookup hc_data (hp_malloc_list h) p = None"
  shows "\<exists>h'. handle_free opts env p rz kind h = Some h' \<and> hp_ok opts arena h' \<and> mset (live h') = mset (live h) \<and> queued h' = queued h \<and>
    hp_shadow h' = hp_shadow h \<and> hp_mem h' = hp_mem h \<and> hp_errors h' = hp_errors h @ [Err_Free p] \<and> cli_freed h' = cli_freed h"
proof -
  let ?h0 = "h\<lparr>cmalloc_n_frees := cmalloc_n_frees h + 1\<rparr>"
  have d0: "ht_distinct hc_data (hp_malloc_list ?h0)" using hp_okD(2)[OF assms(1)] by simp
  from remove_malloc_spec[OF d0, of p] assms(2) obtain t1 where
    t1: "remove_malloc p ?h0 = (None, ?h0\<lparr>hp_malloc_list := t1\<rparr>)" "ht_distinct hc_data t1" "mset (live h) = mset (ht_nodes t1)"
    by (auto simp: live_fields ht_map_def)
  let ?h = "report (Err_Free p) (?h0\<lparr>hp_malloc_list := t1\<rparr>)"
  have "hp_ok opts arena ?h"
    by (rule same_blocks_ok[OF assms(1)]) (use t1(2,3) hp_okD(5)[OF assms(1)] in \<open>simp_all add: queue_ok_fields live_fields, simp_all add: report_def\<close>)
  then show ?thesis using t1 by (simp add: handle_free_def queue_ok_fields live_fields) (simp add: report_def)
qed



section \<open>Allocation\<close>

definition block_at :: "addr \<Rightarrow> u64 \<Rightarrow> heap_chunk" where
  "block_at p n = \<lparr>hc_addr = 0, hc_data = p, hc_szB = n, hc_allockind = MC_AllocMalloc, hc_alignB = 0, hc_where = []\<rparr>"

text \<open>
  What the allocators below Memcheck promise: the structure of a new chunk is memory of Valgrind, which the client cannot access, and a block for the client lies
  with its red zones in the arena, apart from all blocks that have not been given back. No block has \<open>2\<^sup>6\<^sup>2\<close> bytes.
\<close>

definition fresh_chunk :: "call_env \<Rightarrow> heap \<Rightarrow> bool" where
  "fresh_chunk env h \<longleftrightarrow> (\<forall>i < 32. vb (hp_shadow h) (ce_chunk env + of_nat i) = None)"

definition fresh_block :: "heap_opts \<Rightarrow> (addr \<Rightarrow> bool) \<Rightarrow> addr \<Rightarrow> u64 \<Rightarrow> heap \<Rightarrow> bool" where
  "fresh_block opts arena p n h \<longleftrightarrow> (let rz = Malloc_Redzone_SzB opts; mc = block_at p n in
     unat n < 2 ^ 62 \<and> block_fits rz mc \<and> (\<forall>b. extent rz mc b \<longrightarrow> arena b) \<and> (\<forall>y \<in> set (live h @ queued h). apart rz mc y))"

definition env_ok :: "heap_opts \<Rightarrow> (addr \<Rightarrow> bool) \<Rightarrow> call_env \<Rightarrow> u64 \<Rightarrow> heap \<Rightarrow> bool" where
  "env_ok opts arena env n h \<longleftrightarrow> fresh_chunk env h \<and> (ce_block env \<noteq> 0 \<longrightarrow> fresh_block opts arena (ce_block env) n h)"

text \<open>Creating a chunk: some of the oldest blocks in the queues may be released.\<close>

definition created :: "heap_opts \<Rightarrow> heap \<Rightarrow> heap \<Rightarrow> bool" where
  "created opts h h' \<longleftrightarrow> shadow_ok (hp_shadow h') \<and> vb (hp_shadow h') = vb (hp_shadow h) \<and> other (hp_shadow h') = other (hp_shadow h) \<and>
     hp_malloc_list h' = hp_malloc_list h \<and> mset (queued h') \<subseteq># mset (queued h) \<and> queue_ok h' \<and> hp_errors h' = hp_errors h \<and> hp_mem h' = hp_mem h \<and>
     free_queue_volume h' \<le> clo_freelist_vol opts"

lemma mset_drop_sub: "mset (drop i xs) \<subseteq># mset xs"
  by (metis append_take_drop_id mset_append mset_subset_eq_add_right)

lemma check_noaccess:
  assumes "shadow_ok sh" "\<forall>i < unat n. vb sh (a + of_nat i) = None"
  shows "\<exists>sh'. check_mem_is_noaccess a n sh = Some (None, sh') \<and> same_mem sh sh'"
proof -
  from noaccess_spec[OF assms(1), of a n] obtain r sh' where
    r: "check_mem_is_noaccess a n sh = Some (map_option (\<lambda>i. a + of_nat i) r, sh')" "same_mem sh sh'" "first_bad (\<lambda>i. vb sh (a + of_nat i) \<noteq> None) (unat n) r" by blast
  then have "r = None" using assms(2) by (cases r) (auto simp: first_bad_def)
  then show ?thesis using r by simp
qed

lemma create_spec:
  assumes "opts_ok opts" "shadow_ok (hp_shadow h)" "queue_ok h" "fresh_chunk env h"
  shows "\<exists>mc h'. create_MC_Chunk opts env p n al kind h = Some (mc, h') \<and>
    block_sig mc = (p, take_bit 62 n, kind, n_where_pointers (clo_keep_stacktraces opts)) \<and> created opts h h'"
proof -
  let ?vol = "clo_freelist_vol opts"
  obtain h1 where h1: "(if free_queue_volume h > ?vol then release_oldest_block opts h else Some h) = Some h1"
    "hp_shadow h1 = hp_shadow h" "hp_malloc_list h1 = hp_malloc_list h" "mset (queued h1) \<subseteq># mset (queued h)" "queue_ok h1" "hp_errors h1 = hp_errors h"
    "hp_mem h1 = hp_mem h" "free_queue_volume h1 \<le> ?vol"
  proof (cases "free_queue_volume h > ?vol")
    case True
    from release_spec[OF assms(3) True] assms(1) obtain i j where
      e: "release_oldest_block opts h = Some (h\<lparr>freed_big := drop i (freed_big h), freed_small := drop j (freed_small h),
        free_queue_volume := volume_of (drop i (freed_big h) @ drop j (freed_small h)), free_queue_length := int (length (drop i (freed_big h) @ drop j (freed_small h))),
        cli_freed := cli_freed h @ map hc_data (filter (\<lambda>mc. hc_allockind mc \<noteq> MC_AllocCustom) (take i (freed_big h) @ take j (freed_small h)))\<rparr>)"
      "volume_of (drop i (freed_big h) @ drop j (freed_small h)) \<le> ?vol" by (auto simp: opts_ok_def)
    have "mset (drop i (freed_big h)) + mset (drop j (freed_small h)) \<subseteq># mset (freed_big h) + mset (freed_small h)"
      by (rule subset_mset.add_mono[OF mset_drop_sub mset_drop_sub])
    then show ?thesis using that[of "the (release_oldest_block opts h)"] True e(2) unfolding e(1) by (simp add: queued_def queue_ok_def)
  qed (use that[of h] assms(3) in simp)
  have "\<forall>i < unat (32 :: u64). vb (hp_shadow h1) (ce_chunk env + of_nat i) = None" using assms(4) h1(2) by (simp add: fresh_chunk_def)
  from check_noaccess[OF _ this] assms(2) h1(2) obtain sh where
    sh: "check_mem_is_noaccess (ce_chunk env) 32 (hp_shadow h1) = Some (None, sh)" "same_mem (hp_shadow h) sh" by auto
  define mc0 where "mc0 = \<lparr>hc_addr = ce_chunk env, hc_data = p, hc_szB = take_bit 62 n, hc_allockind = kind, hc_alignB = al,
    hc_where = replicate (n_where_pointers (clo_keep_stacktraces opts)) (0 :: u64)\<rparr>"
  define mc where "mc = set_allocated_at opts (ce_context env) mc0"
  have m: "hc_addr mc = ce_chunk env" "block_sig mc = (p, take_bit 62 n, kind, n_where_pointers (clo_keep_stacktraces opts))"
    by (simp_all add: mc_def mc0_def set_allocated_at_def block_sig_def)
  have "create_MC_Chunk opts env p n al kind h = Some (mc, h1\<lparr>hp_shadow := sh\<rparr>)"
    using h1(1) sh(1) m(1) by (simp add: create_MC_Chunk_def flip: mc0_def mc_def)
  moreover have "created opts h (h1\<lparr>hp_shadow := sh\<rparr>)" using h1(2-8) sh(2) by (simp add: created_def same_mem_def queue_ok_fields)
  ultimately show ?thesis using m(2) by blast
qed

text \<open>The result of an allocation.\<close>

definition allocated_ok :: "heap_opts \<Rightarrow> (addr \<Rightarrow> bool) \<Rightarrow> addr \<Rightarrow> u64 \<Rightarrow> MC_AllocKind \<Rightarrow> u8 \<Rightarrow> heap \<Rightarrow> heap \<Rightarrow> bool" where
  "allocated_ok opts arena p n kind v h h' \<longleftrightarrow> hp_ok opts arena h' \<and>
     (\<exists>mc. hc_data mc = p \<and> hc_szB mc = n \<and> hc_allockind mc = kind \<and> mset (live h') = add_mset mc (mset (live h))) \<and>
     mset (queued h') \<subseteq># mset (queued h) \<and> free_queue_volume h' \<le> clo_freelist_vol opts \<and>
     vb (hp_shadow h') = (\<lambda>b. if unat (b - p) < unat n then Some v else vb (hp_shadow h) b) \<and>
     other (hp_shadow h') = other (hp_shadow h) \<and> hp_errors h' = hp_errors h"

lemma take_bit_62: "unat (n :: u64) < 2 ^ 62 \<Longrightarrow> take_bit 62 n = n"
  by (rule word_unat_eq_iff[THEN iffD2]) (simp add: unsigned_take_bit_eq take_bit_nat_eq_self)

lemma fresh_block_ok:
  assumes "fresh_block opts arena p n h" "block_sig mc = (p, n, kind, n_where_pointers (clo_keep_stacktraces opts))" "kind \<noteq> MC_AllocCustom"
  shows "block_ok opts arena mc" "y \<in> set (live h @ queued h) \<Longrightarrow> apart (Malloc_Redzone_SzB opts) mc y"
proof -
  have e: "block_fits rz mc = block_fits rz (block_at p n)" "extent rz mc = extent rz (block_at p n)" for rz
    using assms(2) by (simp_all add: fun_eq_iff block_fits_def extent_def block_at_def block_sig_def)
  show "block_ok opts arena mc" using assms by (simp add: block_ok_def e fresh_block_def Let_def) (simp add: block_sig_def)
  show "y \<in> set (live h @ queued h) \<Longrightarrow> apart (Malloc_Redzone_SzB opts) mc y"
    using assms(1) by (auto simp: fresh_block_def Let_def apart_def e)
qed

text \<open>A chunk for a fresh block that has been added to the table and whose bytes have been made accessible.\<close>

lemma grown_heap_ok:
  assumes "hp_ok opts arena h" "0 < unat (Malloc_Redzone_SzB opts)" "fresh_block opts arena p n h"
    "block_sig mc = (p, n, kind, n_where_pointers (clo_keep_stacktraces opts))" "kind \<noteq> MC_AllocCustom"
    "ht_distinct hc_data (hp_malloc_list h')" "mset (live h') = add_mset mc (mset (live h))" "mset (queued h') \<subseteq># mset (queued h)" "queue_ok h'"
    "shadow_ok (hp_shadow h')"
    "\<And>b. arena b \<Longrightarrow> vb (hp_shadow h') b \<noteq> None \<longleftrightarrow> payload mc b \<or> vb (hp_shadow h) b \<noteq> None"
  shows "hp_ok opts arena h'"
proof -
  have "well_held opts arena (mc # live h @ queued h)"
    by (rule well_held_add[OF hp_okD(3)[OF assms(1)] fresh_block_ok(1)[OF assms(3-5)] _ assms(2)]) (use fresh_block_ok(2)[OF assms(3-5)] in blast)
  moreover have "image_mset block_sig (mset (live h' @ queued h')) \<subseteq># image_mset block_sig (mset (mc # live h @ queued h))"
    using assms(7) image_mset_subseteq_mono[OF assms(8), of block_sig] by simp
  ultimately have w: "well_held opts arena (live h' @ queued h')" by (rule well_held_sub)
  have "set (live h') = insert mc (set (live h))" using assms(7) by (metis set_mset_add_mset_insert set_mset_mset)
  then have "access_ok arena h'" using hp_okD(4)[OF assms(1)] assms(11) by (auto simp: access_ok_def)
  then show ?thesis using w assms(6,9,10) by (simp add: hp_ok_def)
qed


lemma fresh_key:
  assumes "hp_ok opts arena h" "0 < unat (Malloc_Redzone_SzB opts)" "fresh_block opts arena p n h"
    "block_sig mc = (p, n, kind, n_where_pointers (clo_keep_stacktraces opts))" "kind \<noteq> MC_AllocCustom"
  shows "\<forall>x \<in> set (live h @ queued h). hc_data x \<noteq> hc_data mc"
proof -
  have "well_held opts arena (mc # live h @ queued h)"
    by (rule well_held_add[OF hp_okD(3)[OF assms(1)] fresh_block_ok(1)[OF assms(3-5)] _ assms(2)]) (use fresh_block_ok(2)[OF assms(3-5)] in blast)
  then show ?thesis by (auto simp: well_held_def image_iff)
qed

lemma fresh_range:
  assumes "fresh_block opts arena p n h"
  shows "unat n < 2 ^ 62" "unat p + unat n + unat (Malloc_Redzone_SzB opts) < 2 ^ 64" "unat (Malloc_Redzone_SzB opts) \<le> unat p"
  using assms by (simp_all add: fresh_block_def Let_def block_fits_def block_at_def)

lemma sig_payload:
  assumes "block_sig mc = (p, n, k)" "unat p + unat n < 2 ^ 64"
  shows "payload mc b \<longleftrightarrow> unat (b - p) < unat n"
  using assms in_range_off[of p "unat n" b] by (simp add: payload_def block_sig_def)

text \<open>A new chunk in the table.\<close>

lemma create_add_spec:
  assumes "hp_ok opts arena h" "opts_ok opts" "fresh_chunk env h" "fresh_block opts arena p n h" "kind \<noteq> MC_AllocCustom" "core h1 = core h"
  shows "\<exists>mc h2 t. create_MC_Chunk opts env p n al kind h1 = Some (mc, h2) \<and> add_malloc mc h2 = Some (h2\<lparr>hp_malloc_list := t\<rparr>) \<and>
    block_sig mc = (p, n, kind, n_where_pointers (clo_keep_stacktraces opts)) \<and> created opts h1 h2 \<and> ht_distinct hc_data t \<and> mset (ht_nodes t) = add_mset mc (mset (live h)) \<and>
    allocated_at opts (h2\<lparr>hp_malloc_list := t\<rparr>) mc \<noteq> None"
proof -
  note c = coreD[OF assms(6)]
  have r0: "0 < unat (Malloc_Redzone_SzB opts)" using assms(2) by (simp add: opts_ok_def)
  from create_spec[OF assms(2), of h1 env p n al kind] hp_okD(1,5)[OF assms(1)] assms(3) c obtain mc h2 where
    mc: "create_MC_Chunk opts env p n al kind h1 = Some (mc, h2)" "block_sig mc = (p, take_bit 62 n, kind, n_where_pointers (clo_keep_stacktraces opts))"
    "created opts h1 h2" by (auto simp: fresh_chunk_def)
  have sig: "block_sig mc = (p, n, kind, n_where_pointers (clo_keep_stacktraces opts))" using mc(2) take_bit_62[OF fresh_range(1)[OF assms(4)]] by simp
  have l2: "live h2 = live h" "ht_distinct hc_data (hp_malloc_list h2)" using mc(3) c hp_okD(2)[OF assms(1)] by (simp_all add: created_def live_def)
  have "\<forall>x \<in> set (live h2). hc_data x \<noteq> hc_data mc" using fresh_key[OF assms(1) r0 assms(4) sig assms(5)] l2(1) by auto
  from add_malloc_spec[OF l2(2) this] l2(1) obtain t where
    t: "add_malloc mc h2 = Some (h2\<lparr>hp_malloc_list := t\<rparr>)" "ht_distinct hc_data t" "mset (ht_nodes t) = add_mset mc (mset (live h))" by auto
  have "mc \<in> set (live (h2\<lparr>hp_malloc_list := t\<rparr>))" using t(3) by (metis live_fields(1) set_mset_add_mset_insert set_mset_mset insertI1)
  from live_contexts(1)[OF _ this, of opts] t(2) sig assms(5) have "allocated_at opts (h2\<lparr>hp_malloc_list := t\<rparr>) mc \<noteq> None" by (simp add: block_sig_def)
  then show ?thesis using mc(1,3) t sig by blast
qed

lemma range_spec:
  assumes "shadow_ok (hp_shadow h)" "vb (hp_shadow h) = m" "other (hp_shadow h) = ot" "unat a + unat n \<le> 2 ^ 64"
  shows "\<exists>sh. with_shadow (make_mem_undefined a n) h = Some (h\<lparr>hp_shadow := sh\<rparr>) \<and> shadow_ok sh \<and> other sh = ot \<and>
      vb sh = (\<lambda>b. if unat (b - a) < unat n then Some V_BITS8_UNDEFINED else m b)"
    "\<exists>sh. with_shadow (make_mem_noaccess a n) h = Some (h\<lparr>hp_shadow := sh\<rparr>) \<and> shadow_ok sh \<and> other sh = ot \<and>
      vb sh = (\<lambda>b. if unat (b - a) < unat n then None else m b)"
    "\<exists>sh. with_shadow (make_mem_defined a n) h = Some (h\<lparr>hp_shadow := sh\<rparr>) \<and> shadow_ok sh \<and> other sh = ot \<and>
      vb sh = (\<lambda>b. if unat (b - a) < unat n then Some V_BITS8_DEFINED else m b)"
  using make_mem_sets[OF assms(1,4)] unfolding with_shadow_def sets_def set_off_def assms(2,3) by auto

text \<open>The bytes of a new block, and their state.\<close>

lemma first_bytes:
  assumes "opts_ok opts"
  shows "\<exists>h0. (if z then Some (h\<lparr>hp_mem := mem_fill p (unat n) 0 (hp_mem h)\<rparr>) else fill_with (clo_malloc_fill opts) p n h) = Some h0 \<and>
    core h0 = core h \<and> hp_errors h0 = hp_errors h \<and> (\<forall>b. \<not> unat (b - p) < unat n \<longrightarrow> hp_mem h0 b = hp_mem h b) \<and>
    (z \<longrightarrow> (\<forall>b. unat (b - p) < unat n \<longrightarrow> hp_mem h0 b = 0))"
proof (cases z)
  case False
  then show ?thesis using fill_with_core[of "clo_malloc_fill opts" p n h] assms by (auto simp: opts_ok_def)
qed (simp add: mem_fill_def)

lemma first_state:
  assumes "shadow_ok (hp_shadow g)" "vb (hp_shadow g) = m" "other (hp_shadow g) = ot" "unat p + unat n \<le> 2 ^ 64"
  shows "\<exists>sh. (if z then with_shadow (make_mem_defined p n) g else with_shadow (make_mem_undefined p n) g) = Some (g\<lparr>hp_shadow := sh\<rparr>) \<and>
    shadow_ok sh \<and> other sh = ot \<and> vb sh = (\<lambda>b. if unat (b - p) < unat n then Some (if z then V_BITS8_DEFINED else V_BITS8_UNDEFINED) else m b)"
  using range_spec(1,3)[OF assms] by (cases z) simp_all

lemma new_block_spec:
  assumes "hp_ok opts arena h" "opts_ok opts" "env_ok opts arena env n h" "kind \<noteq> MC_AllocCustom"
  shows "\<exists>h'. new_block opts env 0 n al oal z kind add_malloc h = Some (ce_block env, h') \<and>
    (if ce_block env = 0 then h' = h
     else allocated_ok opts arena (ce_block env) n kind (if z then V_BITS8_DEFINED else V_BITS8_UNDEFINED) h h' \<and>
       (\<forall>b. \<not> unat (b - ce_block env) < unat n \<longrightarrow> hp_mem h' b = hp_mem h b) \<and>
       (z \<longrightarrow> (\<forall>b. unat (b - ce_block env) < unat n \<longrightarrow> hp_mem h' b = 0)))"
proof (cases "ce_block env = 0")
  case True
  then show ?thesis using assms(4) by (simp add: new_block_def Let_def)
next
  case False
  let ?p = "ce_block env" and ?v = "if z then V_BITS8_DEFINED else V_BITS8_UNDEFINED"
  have fc: "fresh_chunk env h" and fb: "fresh_block opts arena ?p n h" using assms(3) False by (simp_all add: env_ok_def)
  note fr = fresh_range[OF fb]
  from first_bytes[OF assms(2)] obtain h0 where
    h0: "(if z then Some (h\<lparr>hp_mem := mem_fill ?p (unat n) 0 (hp_mem h)\<rparr>) else fill_with (clo_malloc_fill opts) ?p n h) = Some h0"
    "core h0 = core h" "hp_errors h0 = hp_errors h" "\<forall>b. \<not> unat (b - ?p) < unat n \<longrightarrow> hp_mem h0 b = hp_mem h b"
    "z \<longrightarrow> (\<forall>b. unat (b - ?p) < unat n \<longrightarrow> hp_mem h0 b = 0)" by blast
  have c1: "core (count_alloc n h0) = core h" using h0(2) by simp
  note c = coreD[OF c1]
  from create_add_spec[OF assms(1,2) fc fb assms(4) c1, of oal] obtain mc h2 t where
    mc: "create_MC_Chunk opts env ?p n oal kind (count_alloc n h0) = Some (mc, h2)" "add_malloc mc h2 = Some (h2\<lparr>hp_malloc_list := t\<rparr>)"
    "block_sig mc = (?p, n, kind, n_where_pointers (clo_keep_stacktraces opts))" "created opts (count_alloc n h0) h2" "ht_distinct hc_data t"
    "mset (ht_nodes t) = add_mset mc (mset (live h))" "allocated_at opts (h2\<lparr>hp_malloc_list := t\<rparr>) mc \<noteq> None" by blast
  let ?h3 = "h2\<lparr>hp_malloc_list := t\<rparr>"
  note cr = mc(4)[unfolded created_def c]
  have s3: "shadow_ok (hp_shadow ?h3)" "unat ?p + unat n \<le> 2 ^ 64" using cr fr by simp_all
  from first_state[OF s3(1) _ _ s3(2), of "vb (hp_shadow h)" "other (hp_shadow h)" z] cr obtain sh where
    sh: "(if z then with_shadow (make_mem_defined ?p n) ?h3 else with_shadow (make_mem_undefined ?p n) ?h3) = Some (?h3\<lparr>hp_shadow := sh\<rparr>)"
    "shadow_ok sh" "other sh = other (hp_shadow h)" "vb sh = (\<lambda>b. if unat (b - ?p) < unat n then Some ?v else vb (hp_shadow h) b)" by auto
  let ?h4 = "?h3\<lparr>hp_shadow := sh\<rparr>"
  have e: "new_block opts env 0 n al oal z kind add_malloc h = Some (?p, ?h4)"
    using False assms(4) h0(1) mc(1,2,7) sh(1) by (cases z) (auto simp: new_block_def Let_def)
  have l4: "live ?h4 = ht_nodes t" "queued ?h4 = queued h2" by (simp_all add: live_fields queue_ok_fields)
  have "hp_ok opts arena ?h4"
  proof (rule grown_heap_ok[OF assms(1) _ fb mc(3) assms(4)])
    show "vb (hp_shadow ?h4) b \<noteq> None \<longleftrightarrow> payload mc b \<or> vb (hp_shadow h) b \<noteq> None" for b
      using sh(4) sig_payload[OF mc(3), of b] fr by auto
  qed (use assms(2) mc(5,6) cr sh(2) l4 c in \<open>simp_all add: queue_ok_fields opts_ok_def\<close>)
  moreover have "hc_data mc = ?p" "hc_szB mc = n" "hc_allockind mc = kind" using mc(3) by (simp_all add: block_sig_def)
  ultimately have "allocated_ok opts arena ?p n kind ?v h ?h4"
    unfolding allocated_ok_def using mc(6) cr sh(3,4) l4 c h0(3) by (auto simp: count_alloc_def)
  moreover have "hp_mem ?h4 = hp_mem h0" using cr by (simp add: count_alloc_def)
  ultimately show ?thesis using e False h0(4,5) by simp
qed



section \<open>Reallocation\<close>

text \<open>Red zones and bytes of a fresh block are not accessible.\<close>

lemma fresh_noaccess:
  assumes "hp_ok opts arena h" "fresh_block opts arena p n h" "extent (Malloc_Redzone_SzB opts) (block_at p n) b"
  shows "vb (hp_shadow h) b = None"
proof (rule ccontr)
  assume "vb (hp_shadow h) b \<noteq> None"
  moreover have "arena b" using assms(2,3) by (simp add: fresh_block_def Let_def)
  ultimately obtain y where "y \<in> set (live h)" "payload y b" using hp_okD(4)[OF assms(1)] by (auto simp: access_ok_def)
  then show False using assms(2,3) payload_extent[of y b] by (auto simp: fresh_block_def Let_def apart_def)
qed

lemma front_zone:
  assumes "unat (rz :: u64) \<le> unat p" "unat (b - (p - rz)) < unat rz"
  shows "unat p \<le> unat b + unat rz" "unat b < unat p"
proof -
  have u: "unat (p - rz) = unat p - unat rz" using assms(1) by (simp add: unat_sub word_le_nat_alt)
  have "in_range (p - rz) (unat rz) b" using assms in_range_off[of "p - rz" "unat rz" b] unat_bound[of p] unat_bound[of rz] u by simp
  then show "unat p \<le> unat b + unat rz" "unat b < unat p" using u assms(1) by (auto simp: in_range_def)
qed

lemma zones_extent:
  assumes "unat p + unat n + unat rz < 2 ^ 64" "unat rz \<le> unat p"
  shows "unat (b - (p - rz)) < unat rz \<Longrightarrow> extent rz (block_at p n) b" "unat (b - (p + n)) < unat rz \<Longrightarrow> extent rz (block_at p n) b"
    "unat (b - p) < unat n \<Longrightarrow> extent rz (block_at p n) b"
    "unat (b - (p + n)) < unat rz \<Longrightarrow> \<not> unat (b - p) < unat n"
proof -
  have pn: "unat (p + n) = unat p + unat n" by (rule unat_add_lem[THEN iffD1]) (use assms(1) in simp)
  have i: "unat (b - (p + n)) < unat rz \<longleftrightarrow> in_range (p + n) (unat rz) b" "unat (b - p) < unat n \<longleftrightarrow> in_range p (unat n) b"
    using in_range_off[of "p + n" "unat rz" b] in_range_off[of p "unat n" b] assms(1) pn by simp_all
  show "unat (b - (p - rz)) < unat rz \<Longrightarrow> extent rz (block_at p n) b" using front_zone[OF assms(2), of b] by (simp add: extent_def block_at_def)
  show "unat (b - (p + n)) < unat rz \<Longrightarrow> extent rz (block_at p n) b" "unat (b - p) < unat n \<Longrightarrow> extent rz (block_at p n) b"
    "unat (b - (p + n)) < unat rz \<Longrightarrow> \<not> unat (b - p) < unat n"
    unfolding i by (auto simp: in_range_def pn extent_def block_at_def)
qed

text \<open>The V bits and the bytes after copying a block of \<open>old\<close> bytes to one of \<open>n\<close>.\<close>

definition copied_vb :: "addr \<Rightarrow> u64 \<Rightarrow> addr \<Rightarrow> u64 \<Rightarrow> (addr \<Rightarrow> u8 option) \<Rightarrow> addr \<Rightarrow> u8 option" where
  "copied_vb src old p n m = (\<lambda>b. if unat (b - p) < unat n then (if unat (b - p) < unat old then m (src + (b - p)) else Some V_BITS8_UNDEFINED) else m b)"

definition copied_mem :: "addr \<Rightarrow> u64 \<Rightarrow> addr \<Rightarrow> u64 \<Rightarrow> (addr \<Rightarrow> u8) \<Rightarrow> (addr \<Rightarrow> u8) \<Rightarrow> bool" where
  "copied_mem src old p n m m' \<longleftrightarrow> (\<forall>b. (unat (b - p) < unat n \<and> unat (b - p) < unat old \<longrightarrow> m' b = m (src + (b - p))) \<and> (\<not> unat (b - p) < unat n \<longrightarrow> m' b = m b))"

lemma copy_state_spec:
  assumes "shadow_ok (hp_shadow g)" "unat src + unat k < 2 ^ 64" "unat p + unat k < 2 ^ 64"
  shows "\<exists>sh. with_shadow (copy_address_range_state src p k) g = Some (g\<lparr>hp_shadow := sh\<rparr>) \<and> shadow_ok sh \<and> other sh = other (hp_shadow g) \<and>
    vb sh = (\<lambda>b. if unat (b - p) < unat k then vb (hp_shadow g) (src + (b - p)) else vb (hp_shadow g) b)"
proof -
  have "in_range p (unat k) b = (unat (b - p) < unat k)" for b using in_range_off[of p "unat k" b] assms(3) by simp
  then show ?thesis
    using copy_address_range_moved[OF assms] moved_range[OF assms(3), of src "vb (hp_shadow g)"] by (auto simp: with_shadow_def)
qed

lemma grown_part:
  fixes b :: addr
  assumes "unat old < unat n"
  shows "unat (b - (p + old)) < unat (n - old) \<longleftrightarrow> unat old \<le> unat (b - p) \<and> unat (b - p) < unat n"
proof -
  have n: "unat (n - old) = unat n - unat old" using assms by (simp add: unat_sub word_le_nat_alt)
  have e: "b - (p + old) = b - p - of_nat (unat old)" by simp
  have "unat (b - p - of_nat (unat old)) < unat n - unat old \<longleftrightarrow> unat old \<le> unat (b - p) \<and> unat (b - p) < unat old + (unat n - unat old)"
    by (rule sub_off) (use assms unat_bound[of n] in simp_all)
  then show ?thesis unfolding n e using assms by simp
qed

lemma allocated_at_fields:
  "allocated_at opts (h\<lparr>hp_shadow := sh\<rparr>) mc = allocated_at opts h mc" "allocated_at opts (h\<lparr>hp_mem := m\<rparr>) mc = allocated_at opts h mc"
proof -
  have l: "live_block (h\<lparr>hp_shadow := sh\<rparr>) mc = live_block h mc" "live_block (h\<lparr>hp_mem := m\<rparr>) mc = live_block h mc" by (simp_all add: live_block_def cong: if_cong)
  show "allocated_at opts (h\<lparr>hp_shadow := sh\<rparr>) mc = allocated_at opts h mc" "allocated_at opts (h\<lparr>hp_mem := m\<rparr>) mc = allocated_at opts h mc"
    unfolding allocated_at_def l by (rule refl)+
qed

lemma copy_payload_spec:
  assumes "opts_ok opts" "shadow_ok (hp_shadow g)" "unat src + unat old < 2 ^ 64" "unat p + unat n < 2 ^ 64" "allocated_at opts g mc \<noteq> None"
  shows "\<exists>sh m. copy_payload opts src p old n mc g = Some (g\<lparr>hp_shadow := sh, hp_mem := m\<rparr>) \<and> shadow_ok sh \<and> other sh = other (hp_shadow g) \<and>
    vb sh = copied_vb src old p n (vb (hp_shadow g)) \<and> copied_mem src old p n (hp_mem g) m"
proof (cases "old \<ge> n")
  case True
  then have le: "unat n \<le> unat old" by (simp add: word_le_nat_alt)
  have "unat src + unat n < 2 ^ 64" using assms(3) le by simp
  from copy_state_spec[OF assms(2) this assms(4)] obtain sh where
    sh: "with_shadow (copy_address_range_state src p n) g = Some (g\<lparr>hp_shadow := sh\<rparr>)" "shadow_ok sh" "other sh = other (hp_shadow g)"
    "vb sh = (\<lambda>b. if unat (b - p) < unat n then vb (hp_shadow g) (src + (b - p)) else vb (hp_shadow g) b)" by blast
  have "vb sh = copied_vb src old p n (vb (hp_shadow g))" unfolding sh(4) copied_vb_def using le by (intro ext) auto
  moreover have "copied_mem src old p n (hp_mem g) (mem_copy p src (unat n) (hp_mem g))" using le by (auto simp: copied_mem_def mem_copy_def)
  ultimately show ?thesis using True sh(1-3) by (auto simp: copy_payload_def)
next
  case False
  then have lt: "unat old < unat n" by (simp add: word_le_nat_alt)
  let ?m = "mem_copy p src (unat old) (hp_mem g)"
  have po: "unat p + unat old < 2 ^ 64" using assms(4) lt by simp
  from copy_state_spec[OF assms(2,3) po] obtain sh where
    sh: "with_shadow (copy_address_range_state src p old) g = Some (g\<lparr>hp_shadow := sh\<rparr>)" "shadow_ok sh" "other sh = other (hp_shadow g)"
    "vb sh = (\<lambda>b. if unat (b - p) < unat old then vb (hp_shadow g) (src + (b - p)) else vb (hp_shadow g) b)" by blast
  let ?g = "g\<lparr>hp_shadow := sh, hp_mem := ?m\<rparr>"
  obtain x where x: "allocated_at opts ?g mc = Some x" using assms(5) by (auto simp: allocated_at_fields)
  have u: "unat (p + old) + unat (n - old) \<le> 2 ^ 64"
  proof -
    have "unat (p + old) = unat p + unat old" by (rule unat_add_lem[THEN iffD1]) (use po in simp)
    moreover have "unat (n - old) = unat n - unat old" using lt by (simp add: unat_sub word_le_nat_alt)
    ultimately show ?thesis using assms(4) lt by simp
  qed
  from range_spec(1)[of ?g "vb sh" "other (hp_shadow g)" "p + old" "n - old"] sh(2,3) u obtain sh2 where
    sh2: "with_shadow (make_mem_undefined (p + old) (n - old)) ?g = Some (?g\<lparr>hp_shadow := sh2\<rparr>)" "shadow_ok sh2" "other sh2 = other (hp_shadow g)"
    "vb sh2 = (\<lambda>b. if unat (b - (p + old)) < unat (n - old) then Some V_BITS8_UNDEFINED else vb sh b)" by auto
  from fill_with_core[of "clo_malloc_fill opts" "p + old" "n - old" "?g\<lparr>hp_shadow := sh2\<rparr>"] assms(1) obtain m where
    m: "fill_with (clo_malloc_fill opts) (p + old) (n - old) (?g\<lparr>hp_shadow := sh2\<rparr>) = Some (?g\<lparr>hp_shadow := sh2, hp_mem := m\<rparr>)"
    "\<forall>b. \<not> unat (b - (p + old)) < unat (n - old) \<longrightarrow> m b = ?m b" by (auto simp: opts_ok_def)
  have "vb sh2 = copied_vb src old p n (vb (hp_shadow g))"
    unfolding sh2(4) sh(4) copied_vb_def grown_part[OF lt] using lt by (intro ext) auto
  moreover have "copied_mem src old p n (hp_mem g) m" using m(2) lt unfolding grown_part[OF lt] by (auto simp: copied_mem_def mem_copy_def)
  moreover have "copy_payload opts src p old n mc g = Some (g\<lparr>hp_shadow := sh2, hp_mem := m\<rparr>)"
    using False sh(1) x sh2(1) m(1) by (simp add: copy_payload_def)
  ultimately show ?thesis using sh2(2,3) by blast
qed

text \<open>The new block is filled before the old one is freed. Its red zones are already inaccessible, so that marking them changes nothing.\<close>

definition filled_block :: "heap_opts \<Rightarrow> heap_chunk \<Rightarrow> heap_chunk hashtable \<Rightarrow> heap_chunk \<Rightarrow> addr \<Rightarrow> u64 \<Rightarrow> heap \<Rightarrow> heap \<Rightarrow> heap \<Rightarrow> bool" where
  "filled_block opts old t new p n h g g' \<longleftrightarrow> shadow_ok (hp_shadow g') \<and> other (hp_shadow g') = other (hp_shadow h) \<and>
     vb (hp_shadow g') = copied_vb (hc_data old) (hc_szB old) p n (vb (hp_shadow h)) \<and> ht_distinct hc_data (hp_malloc_list g') \<and>
     mset (live g') = add_mset new (mset (ht_nodes t)) \<and> mset (queued g') \<subseteq># mset (queued h) \<and> queue_ok g' \<and> hp_errors g' = hp_errors g \<and>
     copied_mem (hc_data old) (hc_szB old) p n (hp_mem g) (hp_mem g') \<and> block_sig new = (p, n, MC_AllocMalloc, n_where_pointers (clo_keep_stacktraces opts))"

lemma realloc_filled:
  assumes "hp_ok opts arena h" "opts_ok opts" "fresh_chunk env h" "fresh_block opts arena p n h" "ht_distinct hc_data t"
    "mset (live h) = add_mset old (mset (ht_nodes t))" "block_ok opts arena old" "hp_shadow g = hp_shadow h" "queued g = queued h" "queue_ok g" "hp_malloc_list g = t"
  shows "\<exists>new g1 g2 g3 g4 g5. create_MC_Chunk opts env p n 0 MC_AllocMalloc g = Some (new, g1) \<and> add_malloc new g1 = Some g2 \<and>
    with_shadow (make_mem_noaccess (p - Malloc_Redzone_SzB opts) (Malloc_Redzone_SzB opts)) g2 = Some g3 \<and>
    copy_payload opts (hc_data old) p (hc_szB old) n new g3 = Some g4 \<and> with_shadow (make_mem_noaccess (p + n) (Malloc_Redzone_SzB opts)) g4 = Some g5 \<and>
    filled_block opts old t new p n h g g5"
proof -
  let ?rz = "Malloc_Redzone_SzB opts"
  note fr = fresh_range[OF assms(4)]
  have of: "unat (hc_data old) + unat (hc_szB old) < 2 ^ 64" using assms(7) by (simp add: block_ok_def block_fits_def)
  have r0: "0 < unat ?rz" using assms(2) by (simp add: opts_ok_def)
  from create_spec[OF assms(2), of g env p n 0 MC_AllocMalloc] hp_okD(1)[OF assms(1)] assms(3,8,10) take_bit_62[OF fr(1)] obtain new g1 where
    c: "create_MC_Chunk opts env p n 0 MC_AllocMalloc g = Some (new, g1)" "block_sig new = (p, n, MC_AllocMalloc, n_where_pointers (clo_keep_stacktraces opts))"
    "created opts g g1" by (auto simp: fresh_chunk_def)
  note cr = c(3)[unfolded created_def assms(8,9,11)]
  have sub: "set (ht_nodes t) \<subseteq> set (live h)" using assms(6) by (metis set_mset_add_mset_insert set_mset_mset subset_insertI)
  have "\<forall>x \<in> set (live h @ queued h). hc_data x \<noteq> hc_data new" by (rule fresh_key[OF assms(1) r0 assms(4) c(2)]) simp
  with add_malloc_spec[of g1 new] sub assms(5) cr obtain t2 where
    t2: "add_malloc new g1 = Some (g1\<lparr>hp_malloc_list := t2\<rparr>)" "ht_distinct hc_data t2" "mset (ht_nodes t2) = add_mset new (mset (ht_nodes t))"
    by (auto simp: live_def)
  let ?g2 = "g1\<lparr>hp_malloc_list := t2\<rparr>"
  have no: "extent ?rz (block_at p n) b \<Longrightarrow> vb (hp_shadow h) b = None" for b by (rule fresh_noaccess[OF assms(1,4)])
  note ze = zones_extent[OF fr(2,3)]
  have u1: "unat (p - ?rz) + unat ?rz \<le> 2 ^ 64" using fr(3) unat_bound[of p] by (simp add: unat_sub word_le_nat_alt)
  from range_spec(2)[of ?g2 "vb (hp_shadow h)" "other (hp_shadow h)" "p - ?rz" ?rz] cr u1 obtain sh3 where
    s3: "with_shadow (make_mem_noaccess (p - ?rz) ?rz) ?g2 = Some (?g2\<lparr>hp_shadow := sh3\<rparr>)" "shadow_ok sh3" "other sh3 = other (hp_shadow h)"
    "vb sh3 = (\<lambda>b. if unat (b - (p - ?rz)) < unat ?rz then None else vb (hp_shadow h) b)" by auto
  have v3: "vb sh3 = vb (hp_shadow h)" unfolding s3(4) using no[OF ze(1)] by (intro ext) auto
  let ?g3 = "?g2\<lparr>hp_shadow := sh3\<rparr>"
  have "new \<in> set (live ?g3)" using t2(3) by (metis live_fields(1,4) set_mset_add_mset_insert set_mset_mset insertI1)
  from live_contexts(1)[OF _ this, of opts] t2(2) c(2) have al: "allocated_at opts ?g3 new \<noteq> None" by (simp add: block_sig_def)
  have pn: "unat p + unat n < 2 ^ 64" using fr(2) by simp
  from copy_payload_spec[OF assms(2) _ of pn al] s3(2,3) v3 obtain sh4 m where
    s4: "copy_payload opts (hc_data old) p (hc_szB old) n new ?g3 = Some (?g3\<lparr>hp_shadow := sh4, hp_mem := m\<rparr>)" "shadow_ok sh4" "other sh4 = other (hp_shadow h)"
    "vb sh4 = copied_vb (hc_data old) (hc_szB old) p n (vb (hp_shadow h))" "copied_mem (hc_data old) (hc_szB old) p n (hp_mem g1) m" by auto
  let ?g4 = "?g3\<lparr>hp_shadow := sh4, hp_mem := m\<rparr>"
  have "unat (p + n) = unat p + unat n" by (rule unat_add_lem[THEN iffD1]) (use pn in simp)
  then have u2: "unat (p + n) + unat ?rz \<le> 2 ^ 64" using fr(2) by simp
  from range_spec(2)[of ?g4 "vb sh4" "other (hp_shadow h)" "p + n" ?rz] s4(2,3) u2 obtain sh5 where
    s5: "with_shadow (make_mem_noaccess (p + n) ?rz) ?g4 = Some (?g4\<lparr>hp_shadow := sh5\<rparr>)" "shadow_ok sh5" "other sh5 = other (hp_shadow h)"
    "vb sh5 = (\<lambda>b. if unat (b - (p + n)) < unat ?rz then None else vb sh4 b)" by auto
  have "vb sh5 = vb sh4" unfolding s5(4) s4(4) copied_vb_def using no[OF ze(2)] ze(4) by (intro ext) auto
  then have "filled_block opts old t new p n h g (?g4\<lparr>hp_shadow := sh5\<rparr>)"
    using s5(2,3) s4(4,5) t2(2,3) cr c(2) by (simp add: filled_block_def live_fields queue_ok_fields)
  then show ?thesis using c(1) t2(1) s3(1) s4(1) s5(1) by blast
qed

text \<open>
  The result of moving a block: the new block takes the place of the old one, which is held back; what fits of the bytes and of their V bits is copied, the rest
  of the new block is undefined.
\<close>

definition moved_ok :: "heap_opts \<Rightarrow> (addr \<Rightarrow> bool) \<Rightarrow> heap_chunk \<Rightarrow> addr \<Rightarrow> u64 \<Rightarrow> heap \<Rightarrow> heap \<Rightarrow> bool" where
  "moved_ok opts arena old p n h h' \<longleftrightarrow> hp_ok opts arena h' \<and>
     (\<exists>new. hc_data new = p \<and> hc_szB new = n \<and> hc_allockind new = MC_AllocMalloc \<and> add_mset old (mset (live h')) = add_mset new (mset (live h))) \<and>
     (\<exists>mc' \<in> set (queued h'). block_sig mc' = block_sig old) \<and>
     vb (hp_shadow h') = (\<lambda>b. if extent (Malloc_Redzone_SzB opts) old b then None else copied_vb (hc_data old) (hc_szB old) p n (vb (hp_shadow h)) b) \<and>
     (\<forall>b. unat (b - p) < unat n \<and> unat (b - p) < unat (hc_szB old) \<longrightarrow> hp_mem h' b = hp_mem h (hc_data old + (b - p))) \<and>
     other (hp_shadow h') = other (hp_shadow h) \<and> hp_errors h' = hp_errors h @ mismatch_errors opts MC_AllocMalloc old"

text \<open>Both blocks in the table: a well-formed heap that the code passes through but for the old block, which it has taken out.\<close>

lemma filled_both_ok:
  assumes "hp_ok opts arena h" "opts_ok opts" "fresh_block opts arena p n h" "mset (live h) = add_mset old (mset (ht_nodes t))" "old \<in> set (live h)"
    "filled_block opts old t new p n h g g'"
  shows "\<exists>t'. hp_ok opts arena (g'\<lparr>hp_malloc_list := t'\<rparr>) \<and> mset (ht_nodes t') = add_mset old (mset (live g'))"
proof -
  note f = assms(6)[unfolded filled_block_def]
  note fr = fresh_range[OF assms(3)]
  have r0: "0 < unat (Malloc_Redzone_SzB opts)" using assms(2) by (simp add: opts_ok_def)
  have sn: "block_sig new = (p, n, MC_AllocMalloc, n_where_pointers (clo_keep_stacktraces opts))" using f by simp
  have bo: "block_ok opts arena old" by (rule taken_keys(2)[OF assms(1,4)])
  have "hc_data new \<noteq> hc_data old" using fresh_key[OF assms(1) r0 assms(3) sn] assms(5) by auto
  then have "\<forall>x \<in> set (live g'). hc_data x \<noteq> hc_data old" using taken_keys(1)[OF assms(1,4)] f by (metis set_mset_add_mset_insert set_mset_mset insertE)
  with add_malloc_spec[of g' old] f obtain t' where t': "ht_distinct hc_data t'" "mset (ht_nodes t') = add_mset old (mset (live g'))" by auto
  have src: "vb (hp_shadow h) (hc_data old + (b - p)) \<noteq> None" if "unat (b - p) < unat (hc_szB old)" for b
  proof -
    let ?b = "hc_data old + (b - p)"
    have "payload old ?b" using payload_range(2)[of "Malloc_Redzone_SzB opts" old ?b] bo that by (simp add: block_ok_def)
    then show ?thesis using hp_okD(4)[OF assms(1)] assms(5) bo payload_extent[of old ?b] unfolding access_ok_def block_ok_def by blast
  qed
  have v: "vb (hp_shadow g') b \<noteq> None \<longleftrightarrow> payload new b \<or> vb (hp_shadow h) b \<noteq> None" for b
    using f sig_payload[OF sn, of b] fr(2) src[of b] by (auto simp: copied_vb_def)
  have "hp_ok opts arena (g'\<lparr>hp_malloc_list := t'\<rparr>)"
    by (rule grown_heap_ok[OF assms(1) r0 assms(3) sn]) (use t' f assms(4) v in \<open>simp_all add: live_fields queue_ok_fields\<close>)
  then show ?thesis using t'(2) by blast
qed

lemma realloc_move_spec:
  assumes "hp_ok opts arena h" "opts_ok opts" "fresh_chunk env h" "ce_block env \<noteq> 0" "fresh_block opts arena (ce_block env) n h"
    "HT_lookup hc_data (hp_malloc_list h) p = Some old"
  shows "\<exists>h'. realloc_move opts env p n h = Some (ce_block env, h') \<and> moved_ok opts arena old (ce_block env) n h h'"
proof -
  let ?rz = "Malloc_Redzone_SzB opts" and ?h0 = "count_alloc n (h\<lparr>cmalloc_n_frees := cmalloc_n_frees h + 1\<rparr>)" and ?q = "ce_block env"
  from take_live[OF assms(1) _ assms(6), of ?h0 MC_AllocMalloc] obtain h1 t where
    t: "remove_malloc p ?h0 = (Some old, h1)" "hc_data old = p" "(if MC_AllocMalloc \<noteq> hc_allockind old then record_freemismatch_error opts old h1 else Some h1) =
      Some (?h0\<lparr>hp_malloc_list := t, hp_errors := hp_errors ?h0 @ mismatch_errors opts MC_AllocMalloc old\<rparr>)" "ht_distinct hc_data t"
    "mset (live h) = add_mset old (mset (ht_nodes t))" "block_ok opts arena old" "old \<in> set (live h)" by auto
  define g where "g = ?h0\<lparr>hp_malloc_list := t, hp_errors := hp_errors ?h0 @ mismatch_errors opts MC_AllocMalloc old\<rparr>"
  have f: "hp_shadow g = hp_shadow h" "queued g = queued h" "queue_ok g" "hp_malloc_list g = t" "hp_errors g = hp_errors h @ mismatch_errors opts MC_AllocMalloc old"
    "hp_mem g = hp_mem h" using hp_okD(5)[OF assms(1)] by (simp_all add: g_def queue_ok_fields) (simp_all add: count_alloc_def)
  from realloc_filled[OF assms(1-3,5) t(4-6) f(1-4)] obtain new g1 g2 g3 g4 g5 where
    c: "create_MC_Chunk opts env ?q n 0 MC_AllocMalloc g = Some (new, g1)" "add_malloc new g1 = Some g2" "with_shadow (make_mem_noaccess (?q - ?rz) ?rz) g2 = Some g3"
    "copy_payload opts p ?q (hc_szB old) n new g3 = Some g4" "with_shadow (make_mem_noaccess (?q + n) ?rz) g4 = Some g5" and fi: "filled_block opts old t new ?q n h g g5"
    unfolding t(2) by blast
  note fl = fi[unfolded filled_block_def]
  from filled_both_ok[OF assms(1,2,5) t(5,7) fi] obtain t' where
    t': "hp_ok opts arena (g5\<lparr>hp_malloc_list := t'\<rparr>)" "mset (ht_nodes t') = add_mset old (mset (live g5))" by blast
  from fill_with_core[of "clo_free_fill opts" p "hc_szB old" g5] assms(2) obtain m where
    m: "fill_with (clo_free_fill opts) p (hc_szB old) g5 = Some (g5\<lparr>hp_mem := m\<rparr>)" "\<forall>b. \<not> payload old b \<longrightarrow> m b = hp_mem g5 b"
    using payload_range(2)[of ?rz old] t(2,6) by (auto simp: opts_ok_def block_ok_def)
  let ?g6 = "g5\<lparr>hp_mem := m\<rparr>"
  from die_spec[OF assms(2), of ?g6 ?rz old env] fl t(6) obtain h' where
    h': "die_and_free_mem opts env old ?rz ?g6 = Some h'" "dies ?rz old ?g6 h'" by (auto simp: block_ok_def queue_ok_fields)
  have "realloc_move opts env p n h = Some (?q, h')"
    using t(1,2) t(3)[folded g_def] assms(4) c m(1) h'(1) by (cases "hc_allockind old = MC_AllocMalloc") (simp_all add: realloc_move_def Let_def)
  moreover have "moved_ok opts arena old ?q n h h'"
    unfolding moved_ok_def
  proof (intro conjI)
    show "hp_ok opts arena h'"
      by (rule dies_ok[OF t'(1), of old "hp_malloc_list g5" ?g6]) (use t'(2) fl h'(2) in \<open>simp_all add: live_fields queue_ok_fields\<close>, simp add: live_def)
    show "\<exists>new. hc_data new = ?q \<and> hc_szB new = n \<and> hc_allockind new = MC_AllocMalloc \<and> add_mset old (mset (live h')) = add_mset new (mset (live h))"
      using h'(2) fl t(5) by (intro exI[of _ new]) (simp add: dies_def live_def block_sig_def)
    show "\<exists>mc' \<in> set (queued h'). block_sig mc' = block_sig old" using h'(2) unfolding dies_def by (metis set_mset_add_mset_insert set_mset_mset insertI1)
    have "\<not> payload old b" if "unat (b - ?q) < unat n" for b
    proof -
      have "extent ?rz (block_at ?q n) b" by (rule zones_extent(3)[OF fresh_range(2,3)[OF assms(5)] that])
      then show ?thesis using assms(5) t(7) payload_extent[of old b ?rz] by (auto simp: fresh_block_def Let_def apart_def)
    qed
    then show "\<forall>b. unat (b - ?q) < unat n \<and> unat (b - ?q) < unat (hc_szB old) \<longrightarrow> hp_mem h' b = hp_mem h (hc_data old + (b - ?q))"
      using h'(2) m(2) fl f(6) by (simp add: dies_def copied_mem_def)
  qed (use h'(2) fl f(5) in \<open>simp_all add: dies_def cong: if_cong\<close>)
  ultimately show ?thesis by blast
qed

text \<open>Without memory for the new block the old one stays as it is; a pointer that is no block is reported.\<close>

lemma realloc_fails:
  assumes "hp_ok opts arena h" "ce_block env = 0" "HT_lookup hc_data (hp_malloc_list h) p = Some old"
  shows "\<exists>h'. realloc_move opts env p n h = Some (0, h') \<and> hp_ok opts arena h' \<and> mset (live h') = mset (live h) \<and> queued h' = queued h \<and>
    hp_shadow h' = hp_shadow h \<and> hp_mem h' = hp_mem h \<and> hp_errors h' = hp_errors h @ mismatch_errors opts MC_AllocMalloc old"
proof -
  let ?h0 = "count_alloc n (h\<lparr>cmalloc_n_frees := cmalloc_n_frees h + 1\<rparr>)"
  from take_live[OF assms(1) _ assms(3), of ?h0 MC_AllocMalloc] obtain h1 t where
    t: "remove_malloc p ?h0 = (Some old, h1)" "hc_data old = p" "(if MC_AllocMalloc \<noteq> hc_allockind old then record_freemismatch_error opts old h1 else Some h1) =
      Some (?h0\<lparr>hp_malloc_list := t, hp_errors := hp_errors ?h0 @ mismatch_errors opts MC_AllocMalloc old\<rparr>)" "ht_distinct hc_data t"
    "mset (live h) = add_mset old (mset (ht_nodes t))" by auto
  define g where "g = ?h0\<lparr>hp_malloc_list := t, hp_errors := hp_errors ?h0 @ mismatch_errors opts MC_AllocMalloc old\<rparr>"
  from add_malloc_spec[of g old] taken_keys(1)[OF assms(1) t(5)] t(4,5) obtain t' where
    t': "add_malloc old g = Some (g\<lparr>hp_malloc_list := t'\<rparr>)" "ht_distinct hc_data t'" "mset (ht_nodes t') = mset (live h)"
    by (auto simp: g_def live_fields)
  let ?h = "g\<lparr>hp_malloc_list := t'\<rparr>"
  have f: "hp_shadow ?h = hp_shadow h" "queued ?h = queued h" "queue_ok ?h" "hp_errors ?h = hp_errors h @ mismatch_errors opts MC_AllocMalloc old" "hp_mem ?h = hp_mem h"
    using hp_okD(5)[OF assms(1)] by (simp_all add: g_def queue_ok_fields) (simp_all add: count_alloc_def)
  have "hp_ok opts arena ?h" by (rule same_blocks_ok[OF assms(1)]) (use t' f in \<open>simp_all add: live_fields\<close>)
  moreover have "realloc_move opts env p n h = Some (0, ?h)"
    using t(1,2) t(3)[folded g_def] assms(2) t'(1) by (cases "hc_allockind old = MC_AllocMalloc") (simp_all add: realloc_move_def Let_def)
  ultimately show ?thesis using f t'(3) by (intro exI[of _ ?h]) (simp add: live_fields)
qed

lemma realloc_unknown:
  assumes "hp_ok opts arena h" "HT_lookup hc_data (hp_malloc_list h) p = None"
  shows "\<exists>h'. realloc_move opts env p n h = Some (0, h') \<and> hp_ok opts arena h' \<and> mset (live h') = mset (live h) \<and> queued h' = queued h \<and>
    hp_shadow h' = hp_shadow h \<and> hp_mem h' = hp_mem h \<and> hp_errors h' = hp_errors h @ [Err_Free p]"
proof -
  let ?h0 = "count_alloc n (h\<lparr>cmalloc_n_frees := cmalloc_n_frees h + 1\<rparr>)"
  have c: "core ?h0 = core h" by simp
  note c = coreD[OF c]
  have d0: "ht_distinct hc_data (hp_malloc_list ?h0)" "ht_map hc_data (hp_malloc_list ?h0) p = None"
    unfolding c(2) using hp_okD(2)[OF assms(1)] assms(2) by (simp_all add: ht_map_def)
  from remove_malloc_spec[OF d0(1), of p, unfolded d0(2) c(3)] obtain t1 where
    t1: "remove_malloc p ?h0 = (None, ?h0\<lparr>hp_malloc_list := t1\<rparr>)" "ht_distinct hc_data t1" "mset (live h) = mset (ht_nodes t1)" by auto
  let ?h = "report (Err_Free p) (?h0\<lparr>hp_malloc_list := t1\<rparr>)"
  have f: "hp_shadow ?h = hp_shadow h" "hp_malloc_list ?h = t1" "hp_errors ?h = hp_errors h @ [Err_Free p]" "hp_mem ?h = hp_mem h"
    by (simp_all add: report_def count_alloc_def)
  have "hp_ok opts arena ?h"
    by (rule same_blocks_ok[OF assms(1)]) (use t1(2,3) hp_okD(5)[OF assms(1)] f in \<open>simp_all add: queue_ok_fields live_fields\<close>)
  then show ?thesis using t1 f by (intro exI[of _ ?h]) (simp add: realloc_move_def Let_def queue_ok_fields live_fields)
qed

end
