(* ===== verification/Heap_System.thy ===== *)
theory Heap_System
  imports Heap_Ops
begin

text \<open>
  The heap as a whole: the requests of the client, among them all accesses to memory, run one after the other. In every state that can be reached the invariant of
  the heap holds, and no request fails.
\<close>

section \<open>Requests\<close>

datatype heap_request =
  Malloc u64 | Calloc u64 u64 | Memalign u64 u64 u64 | New u64 | New_Aligned u64 u64 u64 | Vec_New u64 | Vec_New_Aligned u64 u64 u64
| Free addr | Delete addr | Vec_Delete addr | Realloc addr u64 | Memory shadow_request

fun serve :: "heap_opts \<Rightarrow> call_env \<Rightarrow> heap_request \<Rightarrow> heap \<Rightarrow> (addr \<times> heap) option" where
  "serve opts env (Malloc n) h = MC_malloc opts env n h"
| "serve opts env (Calloc k n) h = MC_calloc opts env k n h"
| "serve opts env (Memalign al oal n) h = MC_memalign opts env al oal n h"
| "serve opts env (New n) h = MC_builtin_new opts env n h"
| "serve opts env (New_Aligned n al oal) h = MC_builtin_new_aligned opts env n al oal h"
| "serve opts env (Vec_New n) h = MC_builtin_vec_new opts env n h"
| "serve opts env (Vec_New_Aligned n al oal) h = MC_builtin_vec_new_aligned opts env n al oal h"
| "serve opts env (Free p) h = map_option (Pair 0) (MC_free opts env p h)"
| "serve opts env (Delete p) h = map_option (Pair 0) (MC_builtin_delete opts env p h)"
| "serve opts env (Vec_Delete p) h = map_option (Pair 0) (MC_builtin_vec_delete opts env p h)"
| "serve opts env (Realloc p n) h = MC_realloc opts env p n h"
| "serve opts env (Memory r) h = map_option (Pair 0) (with_shadow (run_request r) h)"

text \<open>The number of bytes that a request asks the client's allocator for.\<close>

fun asked :: "heap_request \<Rightarrow> u64" where
  "asked (Malloc n) = n"
| "asked (Calloc k n) = k * n"
| "asked (Memalign al oal n) = n"
| "asked (New n) = n"
| "asked (New_Aligned n al oal) = n"
| "asked (Vec_New n) = n"
| "asked (Vec_New_Aligned n al oal) = n"
| "asked (Realloc p n) = (if p \<noteq> 0 \<and> n = 0 then 1 else n)"
| "asked _ = 0"

text \<open>The bytes that a request to the shadow memory may make accessible or inaccessible; loads, stores and checks never do.\<close>

fun reshapes :: "shadow_request \<Rightarrow> addr \<Rightarrow> bool" where
  "reshapes (Make_Noaccess a len) b = (unat (b - a) < unat len)"
| "reshapes (Make_Undefined a len) b = (unat (b - a) < unat len)"
| "reshapes (Make_Defined a len) b = (unat (b - a) < unat len)"
| "reshapes (Defined_If_Noaccess a len) b = (unat (b - a) < unat len)"
| "reshapes (Copy_State src dst len) b = (unat (b - dst) < unat len)"
| "reshapes (New_Stack n sp) b = (unat (b - (sp - 128)) < n)"
| "reshapes (Die_Stack n sp) b = (unat (b - (sp - 128 - of_nat n)) < n)"
| "reshapes (New_Stack_Any a len) b = (unat (b - (a - 128)) < unat len)"
| "reshapes (Die_Stack_Any a len) b = (unat (b - (a - 128)) < unat len)"
| "reshapes (Uninit a len) b = (unat (b - a) < unat len)"
| "reshapes (Uninit_128 a) b = (unat (b - a) < 128)"
| "reshapes _ b = False"

text \<open>
  The hypotheses about the rest of the system: the allocators keep their promises, and ranges are mapped, unmapped or pushed on a stack outside of the arena only.
  The client may load and store anywhere, and may free or reallocate any pointer.
\<close>

fun admissible :: "heap_opts \<Rightarrow> (addr \<Rightarrow> bool) \<Rightarrow> call_env \<Rightarrow> heap_request \<Rightarrow> heap \<Rightarrow> bool" where
  "admissible opts arena env (Memory r) h \<longleftrightarrow> request_fits r \<and> (\<forall>b. arena b \<longrightarrow> \<not> reshapes r b)"
| "admissible opts arena env (Free p) h \<longleftrightarrow> True"
| "admissible opts arena env (Delete p) h \<longleftrightarrow> True"
| "admissible opts arena env (Vec_Delete p) h \<longleftrightarrow> True"
| "admissible opts arena env r h \<longleftrightarrow> env_ok opts arena env (asked r) h"

text \<open>At the start no byte of the arena is accessible, and the tables and queues are empty.\<close>

definition heap_start :: "(addr \<Rightarrow> bool) \<Rightarrow> heap \<Rightarrow> bool" where
  "heap_start arena h \<longleftrightarrow> shadow_ok (hp_shadow h) \<and> (\<forall>b. arena b \<longrightarrow> vb (hp_shadow h) b = None) \<and> hp_malloc_list h = HT_construct \<and>
     freed_big h = [] \<and> freed_small h = [] \<and> free_queue_volume h = 0 \<and> free_queue_length h = 0"

inductive heap_reach :: "heap_opts \<Rightarrow> (addr \<Rightarrow> bool) \<Rightarrow> heap \<Rightarrow> bool" for opts arena where
  start: "opts_ok opts \<Longrightarrow> heap_start arena h \<Longrightarrow> heap_reach opts arena h"
| step: "heap_reach opts arena h \<Longrightarrow> admissible opts arena env r h \<Longrightarrow> serve opts env r h = Some (p, h') \<Longrightarrow> heap_reach opts arena h'"


section \<open>Every request keeps the invariant\<close>

lemma spec_keeps: "\<not> reshapes r b \<Longrightarrow> fst (snd (spec_request r (p, m, es))) b = None \<longleftrightarrow> m b = None"
  by (cases r) (auto simp: spec_set_def spec_load_def spec_store_def)

lemma memory_ok:
  assumes "hp_ok opts arena h" "request_fits r" "\<forall>b. arena b \<longrightarrow> \<not> reshapes r b"
  shows "\<exists>sh. with_shadow (run_request r) h = Some (h\<lparr>hp_shadow := sh\<rparr>) \<and> hp_ok opts arena (h\<lparr>hp_shadow := sh\<rparr>)"
proof -
  from request_implements[OF hp_okD(1)[OF assms(1)] assms(2)] obtain sh where
    sh: "run_request r (hp_shadow h) = Some sh" "shadow_ok sh" "abs_shadow sh = spec_request r (abs_shadow (hp_shadow h))" by (auto simp: implements_def)
  have "vb sh = fst (snd (spec_request r (clo_partial_loads_ok (hp_shadow h), vb (hp_shadow h), errors (hp_shadow h))))"
    using sh(3) by (metis abs_shadow_def fst_conv snd_conv)
  then have "\<forall>b. arena b \<longrightarrow> (vb sh b = None) = (vb (hp_shadow h) b = None)" using assms(3) spec_keeps by simp
  then have "hp_ok opts arena (h\<lparr>hp_shadow := sh\<rparr>)"
    using assms(1) sh(2) by (simp add: hp_ok_def access_ok_def queue_ok_fields live_fields)
  then show ?thesis using sh(1) by (auto simp: with_shadow_def)
qed

text \<open>A request that returns and leaves a well-formed heap.\<close>

definition served :: "heap_opts \<Rightarrow> (addr \<Rightarrow> bool) \<Rightarrow> (addr \<times> heap) option \<Rightarrow> bool" where
  "served opts arena x \<longleftrightarrow> (\<exists>p h'. x = Some (p, h') \<and> hp_ok opts arena h')"

lemma served_Some: "served opts arena (Some (p, h)) = hp_ok opts arena h"
  by (simp add: served_def)

lemma served_free: "served opts arena (map_option (Pair 0) x) \<longleftrightarrow> (\<exists>h'. x = Some h' \<and> hp_ok opts arena h')"
  by (cases x) (simp_all add: served_def)

lemma env_core: "core h' = core h \<Longrightarrow> env_ok opts arena env n h' = env_ok opts arena env n h"
proof -
  assume "core h' = core h"
  note c = coreD[OF this]
  show ?thesis unfolding env_ok_def fresh_chunk_def fresh_block_def Let_def c(1,3,4) by (rule refl)
qed

lemma new_block_served:
  assumes "opts_ok opts" "hp_ok opts arena h" "env_ok opts arena env n h" "kind \<noteq> MC_AllocCustom"
  shows "served opts arena (new_block opts env 0 n al oal z kind add_malloc h)"
  using new_block_spec[OF assms(2,1,3,4), of al oal z] assms(2) by (auto simp: served_def allocated_ok_def split: if_splits)

lemma fishy_served:
  assumes "hp_ok opts arena h" "served opts arena (f h)"
  shows "served opts arena (case record_fishy_value_error fn arg v h of (True, h) \<Rightarrow> Some (0, h) | (False, h) \<Rightarrow> f h)"
  using assms core_ok[of "report (Err_FishyValue fn arg v) h" h opts arena] by (simp add: record_fishy_value_error_def served_Some)

lemma free_served:
  assumes "opts_ok opts" "hp_ok opts arena h"
  shows "\<exists>h'. handle_free opts env p (Malloc_Redzone_SzB opts) kind h = Some h' \<and> hp_ok opts arena h'"
proof (cases "HT_lookup hc_data (hp_malloc_list h) p")
  case None
  from handle_free_unknown[OF assms(2) None, of env "Malloc_Redzone_SzB opts" kind] show ?thesis by blast
next
  case (Some mc)
  from handle_free_live[OF assms(2,1) Some, of env kind] show ?thesis by (auto simp: freed_ok_def)
qed

lemma realloc_served:
  assumes "opts_ok opts" "hp_ok opts arena h" "env_ok opts arena env n h"
  shows "served opts arena (realloc_move opts env p n h)"
proof (cases "HT_lookup hc_data (hp_malloc_list h) p")
  case None
  from realloc_unknown[OF assms(2) None, of env n] show ?thesis by (auto simp: served_def)
next
  case (Some mc)
  show ?thesis
  proof (cases "ce_block env = 0")
    case True
    from realloc_fails[OF assms(2) True Some, of n] show ?thesis by (auto simp: served_def)
  next
    case False
    then have "fresh_chunk env h" "fresh_block opts arena (ce_block env) n h" using assms(3) by (simp_all add: env_ok_def)
    from realloc_move_spec[OF assms(2,1) this(1) False this(2) Some] show ?thesis by (auto simp: served_def moved_ok_def)
  qed
qed

lemma MC_realloc_served:
  assumes "opts_ok opts" "hp_ok opts arena h" "env_ok opts arena env (asked (Realloc p n)) h"
  shows "served opts arena (MC_realloc opts env p n h)"
  unfolding MC_realloc_def
proof (rule fishy_served[OF assms(2)])
  let ?h = "if clo_show_realloc_size_zero opts then report (Err_ReallocSizeZero p) h else h"
  have c: "core ?h = core h" by simp
  have ok: "hp_ok opts arena ?h" using assms(2) core_ok[OF c] by blast
  consider "p = 0" | "p \<noteq> 0" "n = 0" | "p \<noteq> 0" "n \<noteq> 0" by blast
  then show "served opts arena
    (if p = 0 then new_block opts env 0 n (clo_alignment opts) 0 False MC_AllocMalloc add_malloc h
     else if n = 0
     then (let h = if clo_show_realloc_size_zero opts then report (Err_ReallocSizeZero p) h else h
           in if clo_realloc_zero_bytes_frees opts then map_option (Pair 0) (handle_free opts env p (Malloc_Redzone_SzB opts) MC_AllocMalloc h)
              else realloc_move opts env p 1 h)
     else realloc_move opts env p n h)"
  proof cases
    case 1
    then show ?thesis using new_block_served[OF assms(1,2)] assms(3) by simp
  next
    case 2
    have "env_ok opts arena env 1 ?h" using assms(3) 2 env_core[OF c] by simp
    from realloc_served[OF assms(1) ok this] free_served[OF assms(1) ok] 2 show ?thesis by (simp add: Let_def served_free)
  next
    case 3
    then show ?thesis using realloc_served[OF assms(1,2)] assms(3) by simp
  qed
qed

lemma serve_ok:
  assumes "opts_ok opts" "hp_ok opts arena h" "admissible opts arena env r h"
  shows "served opts arena (serve opts env r h)"
proof (cases r)
  case (Realloc p n)
  then show ?thesis using MC_realloc_served[OF assms(1,2)] assms(3) by simp
next
  case (Calloc k n)
  then have "served opts arena (new_block opts env 0 (k * n) (clo_alignment opts) 0 True MC_AllocMalloc add_malloc h)"
    using new_block_served[OF assms(1,2)] assms(3) by simp
  then show ?thesis unfolding Calloc serve.simps MC_calloc_def by (intro fishy_served[OF assms(2)])
next
  case (Memory q)
  then show ?thesis using memory_ok[OF assms(2), of q] assms(3) by (auto simp: served_free)
qed (use assms in \<open>simp_all add: MC_malloc_def MC_memalign_def MC_builtin_new_def MC_builtin_new_aligned_def MC_builtin_vec_new_def MC_builtin_vec_new_aligned_def
  MC_free_def MC_builtin_delete_def MC_builtin_vec_delete_def checked_new_def served_free free_served fishy_served new_block_served\<close>)

lemma start_ok: "heap_start arena h \<Longrightarrow> hp_ok opts arena h"
  by (simp add: heap_start_def hp_ok_def construct_distinct live_def queued_def well_held_def access_ok_def queue_ok_def)

lemma reach_ok:
  assumes "heap_reach opts arena h"
  shows "opts_ok opts" "hp_ok opts arena h"
proof -
  show o: "opts_ok opts" using assms by (induction rule: heap_reach.induct) auto
  show "hp_ok opts arena h" using assms
  proof (induction rule: heap_reach.induct)
    case (step h env r p h')
    from serve_ok[OF o step.IH step.hyps(2)] step.hyps(3) show ?case by (simp add: served_Some)
  qed (rule start_ok)
qed

end
