(* ===== verification/Heap_Theorems.thy ===== *)
theory Heap_Theorems
  imports Heap_System
begin

text \<open>The properties of Memcheck's heap, each with an instance.\<close>

section \<open>A small run\<close>

definition sample_opts :: heap_opts where
  "sample_opts = \<lparr>clo_freelist_vol = 20, clo_freelist_big_blocks = 1000000, clo_keep_stacktraces = KS_alloc_and_free, clo_malloc_fill = -1, clo_free_fill = -1,
     clo_show_mismatched_frees = True, clo_show_realloc_size_zero = True, clo_realloc_zero_bytes_frees = True, clo_alignment = 16, Malloc_Redzone_SzB = 16,
     null_ExeContext = 1\<rparr>"

definition sample_arena :: "addr \<Rightarrow> bool" where
  "sample_arena b \<longleftrightarrow> 4096 \<le> unat b \<and> unat b < 65536"

definition sample_heap :: heap where
  "sample_heap = \<lparr>hp_shadow = init_shadow_memory (\<lambda>s l. l) False, hp_mem = (\<lambda>_. 0), hp_malloc_list = HT_construct, hp_mempool_list = HT_construct, freed_big = [],
     freed_small = [], free_queue_volume = 0, free_queue_length = 0, cmalloc_n_mallocs = 0, cmalloc_n_frees = 0, cmalloc_bs_mallocd = 0, hp_errors = [], cli_freed = []\<rparr>"

definition sample_env :: "addr \<Rightarrow> call_env" where
  "sample_env p = \<lparr>ce_block = p, ce_chunk = 1048576, ce_context = 7\<rparr>"

lemma sample_opts_ok: "opts_ok sample_opts"
  by (simp add: opts_ok_def sample_opts_def)

lemma init_None: "vb (init_shadow_memory policy po) b = None"
  using init_abs[of policy po] by (simp add: abs_shadow_def)

lemma sample_start: "heap_reach sample_opts sample_arena sample_heap"
  by (rule heap_reach.start[OF sample_opts_ok]) (simp add: heap_start_def sample_heap_def init_ok init_None)

text \<open>A block of the allocator at \<open>p\<close>, apart from the others.\<close>

lemma sample_fresh:
  assumes "4112 \<le> unat p" "unat p + unat n + 16 < 65536" "\<forall>y \<in> set (live h @ queued h). unat (hc_data y) + unat (hc_szB y) + 32 \<le> unat p"
  shows "fresh_block sample_opts sample_arena p n h"
proof -
  have "apart 16 (block_at p n) y" if "y \<in> set (live h @ queued h)" for y
    using assms(3) that by (fastforce simp: apart_def extent_def block_at_def)
  then show ?thesis using assms(1,2) by (auto simp: fresh_block_def Let_def sample_opts_def block_fits_def block_at_def extent_def sample_arena_def)
qed

lemma sample_env_ok:
  assumes "vb (hp_shadow h) = (\<lambda>b. if unat b < 65536 then f b else None)" "4112 \<le> unat p" "unat p + unat n + 16 < 65536"
    "\<forall>y \<in> set (live h @ queued h). unat (hc_data y) + unat (hc_szB y) + 32 \<le> unat p"
  shows "env_ok sample_opts sample_arena (sample_env p) n h"
proof -
  have "\<not> unat (1048576 + of_nat i :: addr) < 65536" if "i < 32" for i
  proof -
    have "unat (1048576 + of_nat i :: addr) = unat (1048576 :: addr) + unat (of_nat i :: addr)"
      by (rule unat_add_lem[THEN iffD1]) (use that in \<open>simp add: unat_of_nat\<close>)
    then show ?thesis by simp
  qed
  then show ?thesis using sample_fresh[OF assms(2-4)] by (simp add: env_ok_def fresh_chunk_def assms(1) sample_env_def)
qed

lemma fishy_no: "0 \<le> sint v \<Longrightarrow> record_fishy_value_error fn arg v h = (False, h)"
  by (simp add: record_fishy_value_error_def)

lemma single_live: "mset (live h) = {#mc#} \<Longrightarrow> live h = [mc]"
  by simp

lemma sample_malloc:
  "\<exists>h1 mc. MC_malloc sample_opts (sample_env 8192) 24 sample_heap = Some (8192, h1) \<and> heap_reach sample_opts sample_arena h1 \<and> live h1 = [mc] \<and>
    hc_data mc = 8192 \<and> hc_szB mc = 24 \<and> hc_allockind mc = MC_AllocMalloc \<and> queued h1 = [] \<and> HT_lookup hc_data (hp_malloc_list h1) 8192 = Some mc \<and>
    vb (hp_shadow h1) = (\<lambda>b. if unat b < 65536 then (if unat (b - 8192) < 24 then Some V_BITS8_UNDEFINED else None) else None) \<and> hp_errors h1 = []"
proof -
  have l0: "live sample_heap = []" "queued sample_heap = []" "hp_errors sample_heap = []" by (simp_all add: live_def queued_def sample_heap_def construct_distinct)
  have v0: "vb (hp_shadow sample_heap) = (\<lambda>b. if unat b < 65536 then None else None)" by (simp add: sample_heap_def init_None fun_eq_iff)
  have e: "env_ok sample_opts sample_arena (sample_env 8192) 24 sample_heap" by (rule sample_env_ok[OF v0]) (simp_all add: l0)
  have p: "ce_block (sample_env 8192) = 8192" by (simp add: sample_env_def)
  have f: "record_fishy_value_error ''malloc'' ''size'' 24 sample_heap = (False, sample_heap)" by (rule fishy_no) simp
  from new_block_spec[OF reach_ok(2)[OF sample_start] sample_opts_ok e, of MC_AllocMalloc "clo_alignment sample_opts" 0 False] p f obtain h1 where
    h1: "MC_malloc sample_opts (sample_env 8192) 24 sample_heap = Some (8192, h1)"
    "allocated_ok sample_opts sample_arena 8192 24 MC_AllocMalloc V_BITS8_UNDEFINED sample_heap h1" by (auto simp: MC_malloc_def checked_new_def)
  note a = h1(2)[unfolded allocated_ok_def l0]
  obtain mc where mc: "hc_data mc = 8192" "hc_szB mc = 24" "hc_allockind mc = MC_AllocMalloc" "live h1 = [mc]" using a by auto
  have r: "heap_reach sample_opts sample_arena h1"
    by (rule heap_reach.step[OF sample_start, of "sample_env 8192" "Malloc 24" 8192]) (use e h1(1) in simp_all)
  have "HT_lookup hc_data (hp_malloc_list h1) 8192 = Some mc"
    using live_key[OF hp_okD(2)[OF reach_ok(2)[OF r]], of 8192 mc] mc by (simp add: ht_map_def)
  moreover have "unat (b - 8192) < 24 \<Longrightarrow> unat b < 65536" for b :: addr using in_range_off[of 8192 24 b] by (simp add: in_range_def)
  ultimately show ?thesis using h1(1) r mc a by (intro exI[of _ h1] exI[of _ mc]) (auto simp: fun_eq_iff v0)
qed

lemma sample_free:
  "\<exists>h2 mc. heap_reach sample_opts sample_arena h2 \<and> queued h2 = [mc] \<and> hc_data mc = 8192 \<and> hc_szB mc = 24 \<and> live h2 = [] \<and> hp_errors h2 = [] \<and>
    vb (hp_shadow h2) = (\<lambda>b. if unat b < 65536 then None else None)"
proof -
  from sample_malloc obtain h1 mc where m: "heap_reach sample_opts sample_arena h1" "live h1 = [mc]" "hc_data mc = 8192" "hc_szB mc = 24"
    "hc_allockind mc = MC_AllocMalloc" "queued h1 = []" "HT_lookup hc_data (hp_malloc_list h1) 8192 = Some mc" "hp_errors h1 = []"
    "vb (hp_shadow h1) = (\<lambda>b. if unat b < 65536 then (if unat (b - 8192) < 24 then Some V_BITS8_UNDEFINED else None) else None)" by blast
  from handle_free_live[OF reach_ok(2)[OF m(1)] sample_opts_ok m(7), of "sample_env 0" MC_AllocMalloc] obtain h2 where
    h2: "MC_free sample_opts (sample_env 0) 8192 h1 = Some h2" "freed_ok sample_opts sample_arena mc [] h1 h2" by (auto simp: MC_free_def mismatch_errors_def m(5))
  have r: "heap_reach sample_opts sample_arena h2" by (rule heap_reach.step[OF m(1), of "sample_env 0" "Free 8192" 0]) (use h2(1) in simp_all)
  note f = h2(2)[unfolded freed_ok_def m(2,6)]
  obtain mc' where "queued h2 = [mc']" "block_sig mc' = block_sig mc" using f by auto
  moreover have "unat (b - 8192) < 24 \<Longrightarrow> extent 16 mc b" for b :: addr using in_range_off[of 8192 24 b] by (simp add: in_range_def extent_def m(3,4))
  ultimately show ?thesis using r f m(3,4,8) by (intro exI[of _ h2] exI[of _ mc']) (auto simp: block_sig_def fun_eq_iff m(9) sample_opts_def)
qed


section \<open>The invariant\<close>

text \<open>
  C20. In every state that a program can reach, whatever it allocates, frees, reallocates, loads and stores, a byte of the arena is accessible exactly if it is
  a byte of a live block, and no two blocks that are live or held back overlap, with their red zones.
\<close>

theorem heap_accessible_exactly:
  assumes "heap_reach opts arena h"
  shows "(\<forall>b. arena b \<longrightarrow> (vb (hp_shadow h) b \<noteq> None \<longleftrightarrow> (\<exists>mc \<in> set (live h). payload mc b))) \<and>
    (\<forall>x \<in> set (live h @ queued h). \<forall>y \<in> set (live h @ queued h). hc_data x \<noteq> hc_data y \<longrightarrow> apart (Malloc_Redzone_SzB opts) x y) \<and>
    distinct (map hc_data (live h @ queued h))"
  using hp_okD(3,4)[OF reach_ok(2)[OF assms]] by (simp add: access_ok_def well_held_def)

theorem heap_accessible_exactly_witness:
  "\<exists>h. heap_reach sample_opts sample_arena h \<and> vb (hp_shadow h) 8192 \<noteq> None \<and> vb (hp_shadow h) 8216 = None"
proof -
  from sample_malloc obtain h mc where m: "heap_reach sample_opts sample_arena h" "live h = [mc]" "hc_data mc = 8192" "hc_szB mc = 24" by blast
  have e: "vb (hp_shadow h) b \<noteq> None \<longleftrightarrow> (\<exists>mc \<in> set (live h). payload mc b)" if "sample_arena b" for b using heap_accessible_exactly[OF m(1)] that by blast
  have "vb (hp_shadow h) 8192 \<noteq> None" "\<not> vb (hp_shadow h) 8216 \<noteq> None"
    by (subst e; simp add: sample_arena_def payload_def in_range_def m(2-4))+
  then show ?thesis using m(1) by auto
qed

text \<open>
  C21. From every state that can be reached, every request returns: no assertion of the heap, of its tables or of the shadow memory fails, no loop runs forever,
  and the next state is one that can be reached.
\<close>

theorem heap_progress:
  assumes "heap_reach opts arena h" "admissible opts arena env r h"
  shows "\<exists>p h'. serve opts env r h = Some (p, h') \<and> heap_reach opts arena h'"
proof -
  from serve_ok[OF reach_ok[OF assms(1)] assms(2)] obtain p h' where "serve opts env r h = Some (p, h')" by (auto simp: served_def)
  with heap_reach.step[OF assms] show ?thesis by blast
qed

theorem heap_progress_witness:
  "\<exists>h p h'. heap_reach sample_opts sample_arena h \<and> serve sample_opts (sample_env 12288) (Realloc 8192 40) h = Some (p, h') \<and> heap_reach sample_opts sample_arena h'"
proof -
  from sample_malloc obtain h mc where m: "heap_reach sample_opts sample_arena h" "live h = [mc]" "hc_data mc = 8192" "hc_szB mc = 24" "queued h = []"
    "vb (hp_shadow h) = (\<lambda>b. if unat b < 65536 then (if unat (b - 8192) < 24 then Some V_BITS8_UNDEFINED else None) else None)" by blast
  have "env_ok sample_opts sample_arena (sample_env 12288) 40 h" by (rule sample_env_ok[OF m(6)]) (simp_all add: m)
  with heap_progress[OF m(1), of "sample_env 12288" "Realloc 8192 40"] m(1) show ?thesis by auto
qed


section \<open>Invalid accesses\<close>

lemma held_noaccess:
  assumes "hp_ok opts arena h" "extent (Malloc_Redzone_SzB opts) mc b" "mc \<in> set (queued h) \<or> mc \<in> set (live h) \<and> \<not> payload mc b"
  shows "vb (hp_shadow h) b = None"
proof (rule ccontr)
  assume n: "vb (hp_shadow h) b \<noteq> None"
  note w = hp_okD(3)[OF assms(1), unfolded well_held_def]
  have i: "mc \<in> set (live h @ queued h)" using assms(3) by auto
  then have "arena b" using w assms(2) by (auto simp: block_ok_def)
  with n obtain y where y: "y \<in> set (live h)" "payload y b" using hp_okD(4)[OF assms(1)] by (auto simp: access_ok_def)
  have d: "distinct (map hc_data (live h @ queued h))" using w by blast
  have "hc_data y \<noteq> hc_data mc"
  proof
    assume e: "hc_data y = hc_data mc"
    have "y = mc" by (rule inj_onD[OF conjunct2[OF d[unfolded distinct_map]] e]) (use y(1) i in auto)
    then show False using assms(3) y d by (auto simp: distinct_map)
  qed
  then have "apart (Malloc_Redzone_SzB opts) y mc" using w y(1) i by auto
  then show False using payload_extent[OF y(2)] assms(2) by (auto simp: apart_def)
qed

lemma unmapped_reports:
  assumes "shadow_ok sh" "vb sh b = None"
  shows "\<exists>v sh'. helperc_LOADV8 b sh = Some (v, sh') \<and> errors sh' = errors sh @ [\<lparr>err_addr = b, err_szB = 1, err_isWrite = False\<rparr>]"
    "\<exists>sh'. helperc_STOREV8 b w sh = Some sh' \<and> errors sh' = errors sh @ [\<lparr>err_addr = b, err_szB = 1, err_isWrite = True\<rparr>]"
    "unat (b - a) < 4 \<Longrightarrow> \<exists>sh'. mc_STOREV32 a w be sh = Some sh' \<and> errors sh' = errors sh @ [\<lparr>err_addr = a, err_szB = 4, err_isWrite = True\<rparr>]"
    "unat (b - a) < 8 \<Longrightarrow> \<exists>sh'. mc_STOREV64 a w be sh = Some sh' \<and> errors sh' = errors sh @ [\<lparr>err_addr = a, err_szB = 8, err_isWrite = True\<rparr>]"
proof -
  have m: "unat (b - a) < n \<Longrightarrow> \<not> mapped (vb sh) a n" for n a
    using assms(2) by (auto simp: mapped_def intro!: exI[of _ "unat (b - a)"])
  have "\<not> mapped (vb sh) b 1" by (rule m) simp
  moreover have "\<not> exempt p b 1 (vb sh)" for p by (simp add: exempt_def)
  ultimately show "\<exists>v sh'. helperc_LOADV8 b sh = Some (v, sh') \<and> errors sh' = errors sh @ [\<lparr>err_addr = b, err_szB = 1, err_isWrite = False\<rparr>]"
    using LOADV8_spec[OF assms(1), of b] by (auto simp: shadow_loads_def load_result_def Let_def simp del: One_nat_def)
  show "\<exists>sh'. helperc_STOREV8 b w sh = Some sh' \<and> errors sh' = errors sh @ [\<lparr>err_addr = b, err_szB = 1, err_isWrite = True\<rparr>]"
    using STOREV8_spec[OF assms(1), of b w] m[of b 1] by (auto simp: stores_def store_result_def)
  show "unat (b - a) < 4 \<Longrightarrow> \<exists>sh'. mc_STOREV32 a w be sh = Some sh' \<and> errors sh' = errors sh @ [\<lparr>err_addr = a, err_szB = 4, err_isWrite = True\<rparr>]"
    using STOREV32_spec[OF assms(1), of a be w] m[of a 4] by (auto simp: stores_def store_result_def)
  show "unat (b - a) < 8 \<Longrightarrow> \<exists>sh'. mc_STOREV64 a w be sh = Some sh' \<and> errors sh' = errors sh @ [\<lparr>err_addr = a, err_szB = 8, err_isWrite = True\<rparr>]"
    using STOREV64_spec[OF assms(1), of a be w] m[of a 8] by (auto simp: stores_def store_result_def)
qed




section \<open>Allocation, release and reallocation\<close>

definition new_live :: "heap_opts \<Rightarrow> addr \<Rightarrow> u64 \<Rightarrow> u8 \<Rightarrow> heap \<Rightarrow> heap \<Rightarrow> bool" where
  "new_live opts p n v h h' \<longleftrightarrow> (\<exists>mc. hc_data mc = p \<and> hc_szB mc = n \<and> hc_allockind mc = MC_AllocMalloc \<and> mset (live h') = add_mset mc (mset (live h)) \<and>
       (\<forall>b. extent (Malloc_Redzone_SzB opts) mc b \<longrightarrow> vb (hp_shadow h') b = (if payload mc b then Some v else None)) \<and>
       (\<forall>b. \<not> payload mc b \<longrightarrow> vb (hp_shadow h') b = vb (hp_shadow h) b \<and> hp_mem h' b = hp_mem h b)) \<and>
     free_queue_volume h' \<le> clo_freelist_vol opts \<and> hp_errors h' = hp_errors h"

lemma new_block_live:
  assumes "heap_reach opts arena h" "env_ok opts arena env n h" "ce_block env \<noteq> 0"
  shows "\<exists>h'. new_block opts env 0 n al oal z MC_AllocMalloc add_malloc h = Some (ce_block env, h') \<and>
    new_live opts (ce_block env) n (if z then V_BITS8_DEFINED else V_BITS8_UNDEFINED) h h' \<and>
    (z \<longrightarrow> (\<forall>b. unat (b - ce_block env) < unat n \<longrightarrow> hp_mem h' b = 0))"
proof -
  let ?p = "ce_block env" and ?v = "if z then V_BITS8_DEFINED else V_BITS8_UNDEFINED"
  note ok = reach_ok[OF assms(1)]
  have fb: "fresh_block opts arena ?p n h" using assms(2,3) by (simp add: env_ok_def)
  note fr = fresh_range[OF fb]
  from new_block_spec[OF ok(2,1) assms(2), of MC_AllocMalloc al oal z] assms(3) obtain h' where
    h': "new_block opts env 0 n al oal z MC_AllocMalloc add_malloc h = Some (?p, h')" "allocated_ok opts arena ?p n MC_AllocMalloc ?v h h'"
    "\<forall>b. \<not> unat (b - ?p) < unat n \<longrightarrow> hp_mem h' b = hp_mem h b" "z \<longrightarrow> (\<forall>b. unat (b - ?p) < unat n \<longrightarrow> hp_mem h' b = 0)" by auto
  note a = h'(2)[unfolded allocated_ok_def]
  obtain mc where mc: "hc_data mc = ?p" "hc_szB mc = n" "hc_allockind mc = MC_AllocMalloc" "mset (live h') = add_mset mc (mset (live h))" using a by blast
  have p: "payload mc b \<longleftrightarrow> unat (b - ?p) < unat n" for b using sig_payload[of mc ?p n _ b] mc fr(2) by (simp add: block_sig_def)
  have "extent rz mc = extent rz (block_at ?p n)" for rz using mc by (simp add: fun_eq_iff extent_def block_at_def)
  then have "vb (hp_shadow h) b = None" if "extent (Malloc_Redzone_SzB opts) mc b" for b using fresh_noaccess[OF ok(2) fb, of b] that by simp
  then have "new_live opts ?p n ?v h h'" unfolding new_live_def using a mc h'(3) by (intro conjI exI[of _ mc]) (simp_all add: p)
  then show ?thesis using h'(1,4) by blast
qed

text \<open>
  C23. \<^verbatim>\<open>malloc\<close> and \<^verbatim>\<open>calloc\<close> return the block of the client's allocator and enter it as live. All its bytes become accessible, undefined for \<^verbatim>\<open>malloc\<close>, and zero
  and defined for \<^verbatim>\<open>calloc\<close>; its red zones are inaccessible; no other byte changes; and the blocks held back have at most the volume of the option.
\<close>

theorem malloc_calloc_blocks:
  assumes "heap_reach opts arena h" "env_ok opts arena env n h" "ce_block env \<noteq> 0" "0 \<le> sint n" "n = nmemb * size1" "0 \<le> sint nmemb" "0 \<le> sint size1"
  shows "(\<exists>h'. MC_malloc opts env n h = Some (ce_block env, h') \<and> new_live opts (ce_block env) n V_BITS8_UNDEFINED h h') \<and>
    (\<exists>h'. MC_calloc opts env nmemb size1 h = Some (ce_block env, h') \<and> new_live opts (ce_block env) n V_BITS8_DEFINED h h' \<and>
      (\<forall>b. unat (b - ce_block env) < unat n \<longrightarrow> hp_mem h' b = 0))"
  using new_block_live[OF assms(1-3), of "clo_alignment opts" 0 False] new_block_live[OF assms(1-3), of "clo_alignment opts" 0 True] assms(4-7)
  by (simp add: MC_malloc_def MC_calloc_def checked_new_def fishy_no)

theorem malloc_calloc_blocks_witness:
  "(\<exists>h'. MC_malloc sample_opts (sample_env 8192) 24 sample_heap = Some (8192, h') \<and> new_live sample_opts 8192 24 V_BITS8_UNDEFINED sample_heap h') \<and>
    (\<exists>h'. MC_calloc sample_opts (sample_env 8192) 6 4 sample_heap = Some (8192, h') \<and> new_live sample_opts 8192 24 V_BITS8_DEFINED sample_heap h' \<and>
      (\<forall>b. unat (b - 8192) < unat (24 :: u64) \<longrightarrow> hp_mem h' b = 0))"
proof -
  have v: "vb (hp_shadow sample_heap) = (\<lambda>b. if unat b < 65536 then None else None)" by (simp add: sample_heap_def init_None fun_eq_iff)
  have e: "env_ok sample_opts sample_arena (sample_env 8192) 24 sample_heap"
    by (rule sample_env_ok[OF v]) (simp_all add: live_def queued_def sample_heap_def construct_distinct)
  have p: "ce_block (sample_env 8192) = 8192" by (simp add: sample_env_def)
  show ?thesis by (rule malloc_calloc_blocks[OF sample_start e, of 6 4, unfolded p]) simp_all
qed

text \<open>
  C24. Freeing a live block with the right or the wrong function removes it from the live blocks and holds it back. All its bytes and its red zones become
  inaccessible, no other byte changes its state, nothing is given back to the allocator, and an error is reported exactly if the function was the wrong one and the
  option asks for it.
\<close>

theorem free_revokes:
  assumes "heap_reach opts arena h" "HT_lookup hc_data (hp_malloc_list h) p = Some mc"
    "f = (MC_free, MC_AllocMalloc) \<or> f = (MC_builtin_delete, MC_AllocNew) \<or> f = (MC_builtin_vec_delete, MC_AllocNewVec)"
  shows "\<exists>h' mc'. fst f opts env p h = Some h' \<and> mset (live h) = add_mset mc (mset (live h')) \<and> block_sig mc' = block_sig mc \<and>
    mset (queued h') = add_mset mc' (mset (queued h)) \<and> cli_freed h' = cli_freed h \<and>
    vb (hp_shadow h') = (\<lambda>b. if extent (Malloc_Redzone_SzB opts) mc b then None else vb (hp_shadow h) b) \<and>
    hp_errors h' = hp_errors h @ (if hc_allockind mc \<noteq> snd f \<and> clo_show_mismatched_frees opts then [Err_FreeMismatch mc] else [])"
proof -
  from handle_free_live[OF reach_ok(2,1)[OF assms(1)] assms(2), of env "snd f"] obtain h' where
    h': "handle_free opts env p (Malloc_Redzone_SzB opts) (snd f) h = Some h'" "freed_ok opts arena mc (mismatch_errors opts (snd f) mc) h h'" by blast
  have "fst f opts env p h = Some h'" using assms(3) h'(1) by (auto simp: MC_free_def MC_builtin_delete_def MC_builtin_vec_delete_def)
  moreover have "mismatch_errors opts (snd f) mc = (if hc_allockind mc \<noteq> snd f \<and> clo_show_mismatched_frees opts then [Err_FreeMismatch mc] else [])"
    by (auto simp: mismatch_errors_def)
  ultimately show ?thesis using h'(2) unfolding freed_ok_def by auto
qed

theorem free_revokes_witness:
  "\<exists>h h' mc. heap_reach sample_opts sample_arena h \<and> MC_builtin_delete sample_opts (sample_env 0) 8192 h = Some h' \<and> hp_errors h' = [Err_FreeMismatch mc]"
proof -
  from sample_malloc obtain h mc where m: "heap_reach sample_opts sample_arena h" "HT_lookup hc_data (hp_malloc_list h) 8192 = Some mc" "hp_errors h = []"
    "hc_allockind mc = MC_AllocMalloc" by blast
  from free_revokes[OF m(1,2), of "(MC_builtin_delete, MC_AllocNew)" "sample_env 0"] m show ?thesis by (auto simp: sample_opts_def)
qed

text \<open>
  C25. Freeing a pointer that is not the start of a live block, such as one that has been freed before, reports exactly that and changes neither the blocks nor
  memory.
\<close>

theorem bad_free_reported:
  assumes "heap_reach opts arena h" "\<forall>mc \<in> set (live h). hc_data mc \<noteq> p"
    "f = MC_free \<or> f = MC_builtin_delete \<or> f = MC_builtin_vec_delete"
  shows "\<exists>h'. f opts env p h = Some h' \<and> hp_errors h' = hp_errors h @ [Err_Free p] \<and> mset (live h') = mset (live h) \<and> queued h' = queued h \<and>
    hp_shadow h' = hp_shadow h \<and> hp_mem h' = hp_mem h"
proof -
  note ok = reach_ok(2)[OF assms(1)]
  have n: "HT_lookup hc_data (hp_malloc_list h) p = None" using live_None[OF hp_okD(2)[OF ok]] assms(2) by (simp add: ht_map_def)
  note u = handle_free_unknown[OF ok n, of env "Malloc_Redzone_SzB opts"]
  from assms(3) show ?thesis
    using u[of MC_AllocMalloc] u[of MC_AllocNew] u[of MC_AllocNewVec] by (auto simp: MC_free_def MC_builtin_delete_def MC_builtin_vec_delete_def)
qed

theorem bad_free_reported_witness:
  "\<exists>h h'. heap_reach sample_opts sample_arena h \<and> 8192 \<in> hc_data ` set (queued h) \<and> MC_free sample_opts (sample_env 0) 8192 h = Some h' \<and>
    hp_errors h' = [Err_Free 8192]"
proof -
  from sample_free obtain h mc where m: "heap_reach sample_opts sample_arena h" "queued h = [mc]" "hc_data mc = 8192" "live h = []" "hp_errors h = []" by blast
  from bad_free_reported[OF m(1), of 8192 MC_free "sample_env 0"] m show ?thesis by auto
qed

text \<open>
  C26. \<^verbatim>\<open>realloc\<close> of a live block to another size: the new block starts with the bytes of the old one and their V bits, as many as fit, and the rest of it is
  undefined; it takes the place of the old block, which becomes inaccessible with its red zones and is held back.
\<close>

theorem realloc_moves_block:
  assumes "heap_reach opts arena h" "env_ok opts arena env n h" "ce_block env = q" "q \<noteq> 0" "p \<noteq> 0" "n \<noteq> 0" "0 \<le> sint n"
    "HT_lookup hc_data (hp_malloc_list h) p = Some old"
  shows "\<exists>h' new. MC_realloc opts env p n h = Some (q, h') \<and> hc_data new = q \<and> hc_szB new = n \<and> hc_allockind new = MC_AllocMalloc \<and>
    add_mset old (mset (live h')) = add_mset new (mset (live h)) \<and> (\<exists>mc \<in> set (queued h'). block_sig mc = block_sig old) \<and>
    (\<forall>b. unat (b - q) < unat n \<and> unat (b - q) < unat (hc_szB old) \<longrightarrow> hp_mem h' b = hp_mem h (p + (b - q)) \<and> vb (hp_shadow h') b = vb (hp_shadow h) (p + (b - q))) \<and>
    (\<forall>b. unat (b - q) < unat n \<and> \<not> unat (b - q) < unat (hc_szB old) \<longrightarrow> vb (hp_shadow h') b = Some V_BITS8_UNDEFINED) \<and>
    (\<forall>b. extent (Malloc_Redzone_SzB opts) old b \<longrightarrow> vb (hp_shadow h') b = None) \<and>
    (\<forall>b. \<not> extent (Malloc_Redzone_SzB opts) old b \<and> \<not> unat (b - q) < unat n \<longrightarrow> vb (hp_shadow h') b = vb (hp_shadow h) b)"
proof -
  note ok = reach_ok[OF assms(1)]
  have l: "old \<in> set (live h)" "hc_data old = p" using live_key[OF hp_okD(2)[OF ok(2)], of p old] assms(8) by (auto simp: ht_map_def)
  have f: "fresh_chunk env h" "fresh_block opts arena q n h" using assms(2-4) by (auto simp: env_ok_def)
  have "MC_realloc opts env p n h = realloc_move opts env p n h" using assms(5-7) by (simp add: MC_realloc_def fishy_no)
  with realloc_move_spec[OF ok(2,1) f(1) _ _ assms(8), of n] f(2) assms(3,4) obtain h' where
    h': "MC_realloc opts env p n h = Some (q, h')" "moved_ok opts arena old q n h h'" by auto
  have "\<not> extent (Malloc_Redzone_SzB opts) old b" if "unat (b - q) < unat n" for b
    using zones_extent(3)[OF fresh_range(2,3)[OF f(2)] that] f(2) l(1) by (auto simp: fresh_block_def Let_def apart_def)
  then show ?thesis using h' l(2) unfolding moved_ok_def copied_vb_def by auto
qed

theorem realloc_moves_block_witness:
  "\<exists>h h'. heap_reach sample_opts sample_arena h \<and> MC_realloc sample_opts (sample_env 12288) 8192 40 h = Some (12288, h') \<and> vb (hp_shadow h') 12327 = Some V_BITS8_UNDEFINED"
proof -
  from sample_malloc obtain h mc where m: "heap_reach sample_opts sample_arena h" "live h = [mc]" "hc_data mc = 8192" "hc_szB mc = 24" "queued h = []"
    "vb (hp_shadow h) = (\<lambda>b. if unat b < 65536 then (if unat (b - 8192) < 24 then Some V_BITS8_UNDEFINED else None) else None)"
    "HT_lookup hc_data (hp_malloc_list h) 8192 = Some mc" by blast
  have "env_ok sample_opts sample_arena (sample_env 12288) 40 h" by (rule sample_env_ok[OF m(6)]) (simp_all add: m)
  from realloc_moves_block[OF m(1) this, of 12288 8192 mc] m(4,7) obtain h' where
    "MC_realloc sample_opts (sample_env 12288) 8192 40 h = Some (12288, h')"
    "\<forall>b. unat (b - 12288) < unat (40 :: u64) \<and> \<not> unat (b - 12288) < unat (hc_szB mc) \<longrightarrow> vb (hp_shadow h') b = Some V_BITS8_UNDEFINED"
    by (auto simp: sample_env_def)
  then show ?thesis using m(1,4) by (intro exI[of _ h] exI[of _ h']) simp
qed

lemma volume_last:
  assumes "0 < n" "n \<le> length xs"
  shows "volume_of (drop (n - 1) xs) = volume_of (drop n xs) + uint (hc_szB (last (take n xs)))"
proof -
  have "take n xs \<noteq> []" using assms by auto
  from last_conv_nth[OF this] have "last (take n xs) = xs ! (n - 1)" using assms by (simp add: min_def)
  then show ?thesis using assms Cons_nth_drop_Suc[of "n - 1" xs, symmetric] by simp
qed

text \<open>
  C27. When the blocks held back have more than the allowed volume, they are released in the order of their queue, big ones first, until their volume is within the
  bound and no longer; what is left is counted exactly.
\<close>

theorem freed_blocks_released_in_order:
  assumes "heap_reach opts arena h" "free_queue_volume h > clo_freelist_vol opts"
  shows "\<exists>h' big small. release_oldest_block opts h = Some h' \<and> freed_big h = big @ freed_big h' \<and> freed_small h = small @ freed_small h' \<and>
    cli_freed h' = cli_freed h @ map hc_data (big @ small) \<and>
    free_queue_volume h' = volume_of (queued h') \<and> free_queue_length h' = int (length (queued h')) \<and> free_queue_volume h' \<le> clo_freelist_vol opts \<and>
    (small \<noteq> [] \<longrightarrow> freed_big h' = []) \<and>
    (big @ small \<noteq> [] \<longrightarrow> free_queue_volume h' + uint (hc_szB (last (big @ small))) > clo_freelist_vol opts)"
proof -
  note ok = reach_ok[OF assms(1)]
  have v: "0 \<le> clo_freelist_vol opts" using ok(1) by (simp add: opts_ok_def)
  from release_spec[OF hp_okD(5)[OF ok(2)] assms(2) v] obtain i j where
    r: "release_oldest_block opts h = Some (h\<lparr>freed_big := drop i (freed_big h), freed_small := drop j (freed_small h),
      free_queue_volume := volume_of (drop i (freed_big h) @ drop j (freed_small h)),
      free_queue_length := int (length (drop i (freed_big h) @ drop j (freed_small h))),
      cli_freed := cli_freed h @ map hc_data (filter (\<lambda>mc. hc_allockind mc \<noteq> MC_AllocCustom) (take i (freed_big h) @ take j (freed_small h)))\<rparr>)"
    "i \<le> length (freed_big h)" "j \<le> length (freed_small h)" "volume_of (drop i (freed_big h) @ drop j (freed_small h)) \<le> clo_freelist_vol opts"
    "0 < j \<longrightarrow> i = length (freed_big h)" "\<forall>k < i. volume_of (drop k (freed_big h) @ freed_small h) > clo_freelist_vol opts"
    "\<forall>k < j. volume_of (drop k (freed_small h)) > clo_freelist_vol opts" by blast
  let ?b = "freed_big h" and ?s = "freed_small h"
  have "hc_allockind mc \<noteq> MC_AllocCustom" if "mc \<in> set ?b \<union> set ?s" for mc
    using hp_okD(3)[OF ok(2)] that by (auto simp: well_held_def block_ok_def queued_def)
  then have fl: "filter (\<lambda>mc. hc_allockind mc \<noteq> MC_AllocCustom) (take i ?b @ take j ?s) = take i ?b @ take j ?s"
    by (subst filter_id_conv) (auto dest: in_set_takeD)
  have "volume_of (drop i ?b) + volume_of (drop j ?s) + uint (hc_szB (last (take i ?b @ take j ?s))) > clo_freelist_vol opts" if "take i ?b @ take j ?s \<noteq> []"
  proof (cases "j = 0")
    case True
    then have "0 < i" using that by auto
    then show ?thesis using r(6)[rule_format, of "i - 1"] volume_last[of i ?b] r(2) True by simp
  next
    case False
    then show ?thesis using r(7)[rule_format, of "j - 1"] volume_last[of j ?s] r(3,5) by (cases "take j ?s") auto
  qed
  then show ?thesis unfolding r(1) fl using r(4,5)
    by - (rule exI, rule exI[of _ "take i ?b"], rule exI[of _ "take j ?s"], rule conjI, rule refl, auto simp: queued_def)
qed

theorem freed_blocks_released_in_order_witness:
  "\<exists>h h'. heap_reach sample_opts sample_arena h \<and> length (queued h) = 1 \<and> release_oldest_block sample_opts h = Some h' \<and> queued h' = []"
proof -
  from sample_free obtain h mc where m: "heap_reach sample_opts sample_arena h" "queued h = [mc]" "hc_szB mc = 24" by blast
  have q: "free_queue_volume h = 24" using hp_okD(5)[OF reach_ok(2)[OF m(1)]] m(2,3) by (simp add: queue_ok_def)
  have v: "clo_freelist_vol sample_opts = 20" by (simp add: sample_opts_def)
  have "clo_freelist_vol sample_opts < free_queue_volume h" by (simp add: q v)
  from freed_blocks_released_in_order[OF m(1) this] obtain h' big small where
    r: "release_oldest_block sample_opts h = Some h'" "freed_big h = big @ freed_big h'" "freed_small h = small @ freed_small h'"
    "free_queue_volume h' = volume_of (queued h')" "free_queue_volume h' \<le> 20" unfolding v by blast
  have "queued h' = []" using r(2-5) m(2,3) unfolding queued_def by (cases "freed_big h'"; cases "freed_small h'"; auto simp: append_eq_Cons_conv)
  then show ?thesis using m(1,2) r(1) by auto
qed

end
