(* ===== verification/Heap_Pools.thy ===== *)
theory Heap_Pools
  imports Heap_Theorems
begin

text \<open>
  Memory pools: the loop that frees the blocks inside a block of a pool, which removes nodes from the table that it runs over, and a failing assertion of
  \<^verbatim>\<open>MC_(mempool_trim)\<close>.
\<close>

section \<open>Freeing the blocks inside a block of a pool\<close>

definition in_pool_block :: "addr \<Rightarrow> addr \<Rightarrow> heap_chunk \<Rightarrow> bool" where
  "in_pool_block StartAddr EndAddr mc \<longleftrightarrow> hc_data mc \<ge> StartAddr \<and> hc_data mc + hc_szB mc \<le> EndAddr"

text \<open>The blocks of a list that lie inside have died.\<close>

definition all_died :: "u64 \<Rightarrow> heap_chunk list \<Rightarrow> heap \<Rightarrow> heap \<Rightarrow> bool" where
  "all_died rz mcs h h' \<longleftrightarrow> shadow_ok (hp_shadow h') \<and> queue_ok h' \<and>
     image_mset block_sig (mset (queued h')) = image_mset block_sig (mset mcs) + image_mset block_sig (mset (queued h)) \<and>
     vb (hp_shadow h') = (\<lambda>b. if \<exists>mc \<in> set mcs. extent rz mc b then None else vb (hp_shadow h) b) \<and> hp_errors h' = hp_errors h"

lemma all_died_Nil: "shadow_ok (hp_shadow h) \<Longrightarrow> queue_ok h \<Longrightarrow> all_died rz [] h h"
  by (simp add: all_died_def)

lemma all_died_Cons: "dies rz mc h h1 \<Longrightarrow> all_died rz mcs h1 h' \<Longrightarrow> all_died rz (mc # mcs) h h'"
  by (auto simp: all_died_def dies_def fun_eq_iff)

lemma all_died_fields: "all_died rz mcs (h\<lparr>hp_malloc_list := t\<rparr>) h' = all_died rz mcs h h'"
  by (simp add: all_died_def queue_ok_fields cong: if_cong)

lemma free_mallocs_loop_spec:
  assumes "iter_ok (hp_malloc_list h)" "ht_ok hc_data (hp_malloc_list h)" "length (iter_rest (hp_malloc_list h)) < fuel" "opts_ok opts"
    "shadow_ok (hp_shadow h)" "queue_ok h" "\<forall>mc \<in> set (iter_rest (hp_malloc_list h)). block_fits rz mc"
  shows "\<exists>h'. free_mallocs_loop fuel opts env rz s e h = Some h' \<and> ht_ok hc_data (hp_malloc_list h') \<and>
    live h' = iter_past (hp_malloc_list h) @ filter (\<lambda>mc. \<not> in_pool_block s e mc) (iter_rest (hp_malloc_list h)) \<and>
    all_died rz (filter (in_pool_block s e) (iter_rest (hp_malloc_list h))) h h'"
  using assms
proof (induction fuel arbitrary: h)
  case (Suc fuel)
  let ?t = "hp_malloc_list h"
  note nx = next_spec[OF Suc.prems(1)]
  show ?case
  proof (cases "iter_rest ?t")
    case Nil
    then show ?thesis using nx Suc.prems iter_split[OF Suc.prems(1)] by (simp add: live_def all_died_Nil)
  next
    case (Cons x xs)
    then obtain t1 where t1: "HT_Next ?t = Some (Some x, t1)" "iter_ok t1" "iter_rest t1 = xs" "iter_past t1 = iter_past ?t @ [x]" "ht_iterNode t1 \<noteq> None"
      "ht_chains t1 = ht_chains ?t" "ht_n_elements t1 = ht_n_elements ?t" using nx by auto
    have o1: "ht_ok hc_data t1" by (rule next_ok[OF Suc.prems(2) t1(6,7)])
    let ?h1 = "h\<lparr>hp_malloc_list := t1\<rparr>"
    obtain t2 h2 where t2: "(if in_pool_block s e x then do { t \<leftarrow> HT_remove_at_Iter t1; die_and_free_mem opts env x rz (?h1\<lparr>hp_malloc_list := t\<rparr>) } else Some ?h1) = Some h2"
      "hp_malloc_list h2 = t2" "iter_ok t2" "ht_ok hc_data t2" "iter_rest t2 = xs" "iter_past t2 = iter_past ?t @ (if in_pool_block s e x then [] else [x])"
      "shadow_ok (hp_shadow h2)" "queue_ok h2" "in_pool_block s e x \<longrightarrow> dies rz x (h\<lparr>hp_malloc_list := t2\<rparr>) h2" "\<not> in_pool_block s e x \<longrightarrow> h2 = ?h1"
    proof (cases "in_pool_block s e x")
      case True
      from remove_at_iter_spec[OF t1(2,5) o1] t1(2-4) obtain t2 where
        t2: "HT_remove_at_Iter t1 = Some t2" "iter_ok t2" "ht_ok hc_data t2" "iter_rest t2 = xs" "iter_past t2 = iter_past ?t" by auto
      from die_spec[OF Suc.prems(4), of "h\<lparr>hp_malloc_list := t2\<rparr>" rz x env] Suc.prems(5-7) Cons obtain h2 where
        h2: "die_and_free_mem opts env x rz (h\<lparr>hp_malloc_list := t2\<rparr>) = Some h2" "dies rz x (h\<lparr>hp_malloc_list := t2\<rparr>) h2" by (auto simp: queue_ok_fields)
      show ?thesis by (rule that[of h2 t2]) (use True t2 h2 in \<open>simp_all add: dies_def\<close>)
    next
      case False
      show ?thesis by (rule that[of ?h1 t1]) (use False t1 o1 Suc.prems(5,6) in \<open>simp_all add: queue_ok_fields\<close>)
    qed
    from Suc.IH[of h2] t2(2-8) Suc.prems(3,4,7) Cons obtain h' where
      h': "free_mallocs_loop fuel opts env rz s e h2 = Some h'" "ht_ok hc_data (hp_malloc_list h')"
      "live h' = iter_past t2 @ filter (\<lambda>mc. \<not> in_pool_block s e mc) xs" "all_died rz (filter (in_pool_block s e) xs) h2 h'" by auto
    have "all_died rz (filter (in_pool_block s e) (x # xs)) h h'"
      using t2(9,10) h'(4) all_died_Cons[of rz x "h\<lparr>hp_malloc_list := t2\<rparr>" h2] by (cases "in_pool_block s e x") (auto simp: all_died_fields)
    moreover have "free_mallocs_loop (Suc fuel) opts env rz s e h = Some h'" using t1(1) t2(1) h'(1)
      by (cases "in_pool_block s e x") (auto simp: Let_def bind_eq_Some_conv simp flip: in_pool_block_def)
    ultimately show ?thesis using h'(2,3) t2(6) Cons by auto
  qed
qed simp

text \<open>
  C28. The loop that frees all blocks inside a block of a pool ends, although it removes nodes from the table that it runs over: it frees every live block inside the
  range exactly once and leaves exactly the others in the table.
\<close>

theorem pool_block_frees_inside:
  assumes "heap_reach opts arena h" "hm_auto_free mp" "unat (hm_rzB mp) \<le> unat (Malloc_Redzone_SzB opts)"
  shows "\<exists>h'. free_mallocs_in_mempool_block opts env mp s e h = Some h' \<and> live h' = filter (\<lambda>mc. \<not> in_pool_block s e mc) (live h) \<and>
    image_mset block_sig (mset (queued h')) = image_mset block_sig (mset (filter (in_pool_block s e) (live h))) + image_mset block_sig (mset (queued h)) \<and>
    vb (hp_shadow h') = (\<lambda>b. if \<exists>mc \<in> set (live h). in_pool_block s e mc \<and> extent (hm_rzB mp) mc b then None else vb (hp_shadow h) b) \<and> hp_errors h' = hp_errors h"
proof -
  note ok = reach_ok[OF assms(1)]
  let ?h = "h\<lparr>hp_malloc_list := HT_ResetIter (hp_malloc_list h)\<rparr>"
  have o: "ht_ok hc_data (HT_ResetIter (hp_malloc_list h))" using hp_okD(2)[OF ok(2)] by (simp add: ht_distinct_def reset_iter)
  have f: "\<forall>mc \<in> set (live h). block_fits (hm_rzB mp) mc"
  proof
    fix mc assume "mc \<in> set (live h)"
    then have "block_fits (Malloc_Redzone_SzB opts) mc" using hp_okD(3)[OF ok(2)] by (simp add: well_held_def block_ok_def)
    then show "block_fits (hm_rzB mp) mc" using assms(3) by (simp add: block_fits_def)
  qed
  have n: "length (concat (ht_chains (hp_malloc_list ?h))) = length (live h)" by (simp add: live_def ht_nodes_def HT_ResetIter_def)
  from free_mallocs_loop_spec[of ?h "length (live h) + 1" opts "hm_rzB mp" env s e] o f ok(1) hp_okD(1,5)[OF ok(2)] obtain h' where
    h': "free_mallocs_loop (length (live h) + 1) opts env (hm_rzB mp) s e ?h = Some h'" "live h' = filter (\<lambda>mc. \<not> in_pool_block s e mc) (live h)"
    "all_died (hm_rzB mp) (filter (in_pool_block s e) (live h)) h h'" by (auto simp: reset_iter queue_ok_fields all_died_fields live_def)
  have "free_mallocs_in_mempool_block opts env mp s e h = Some h'" unfolding free_mallocs_in_mempool_block_def Let_def n h'(1) using assms(2) by simp
  then show ?thesis using h'(2,3) unfolding all_died_def by (auto simp: fun_eq_iff)
qed

definition sample_pool :: heap_pool where
  "sample_pool = \<lparr>hm_pool = 4096, hm_rzB = 0, hm_is_zeroed = False, hm_auto_free = True, hm_metapool = True, hm_chunks = HT_construct\<rparr>"

theorem pool_block_frees_inside_witness:
  "\<exists>h h'. heap_reach sample_opts sample_arena h \<and> length (live h) = 1 \<and> free_mallocs_in_mempool_block sample_opts (sample_env 0) sample_pool 8000 9000 h = Some h' \<and> live h' = []"
proof -
  from sample_malloc obtain h mc where m: "heap_reach sample_opts sample_arena h" "live h = [mc]" "hc_data mc = 8192" "hc_szB mc = 24" by blast
  have "in_pool_block 8000 9000 mc" by (simp add: in_pool_block_def m(3,4))
  with pool_block_frees_inside[OF m(1), of sample_pool "sample_env 0" 8000 9000] m(1,2) show ?thesis by (auto simp: sample_pool_def)
qed


section \<open>Trimming\<close>

lemma single_chunk:
  assumes "ht_distinct hc_data (hm_chunks mp)" "ht_nodes (hm_chunks mp) = [mc]"
  shows "HT_to_array (hm_chunks mp) = Some [mc]" "\<exists>t. HT_remove hc_data (hm_chunks mp) (hc_data mc) = (Some mc, t)"
proof -
  have "ht_n_elements (hm_chunks mp) = 1" using assms by (simp add: ht_distinct_def ht_ok_def)
  then show "HT_to_array (hm_chunks mp) = Some [mc]" using assms(2) by (simp add: HT_to_array_def ht_nodes_def Let_def)
  have "ht_map hc_data (hm_chunks mp) (hc_data mc) = Some mc" using assms by (simp add: ht_map_Some)
  then show "\<exists>t. HT_remove hc_data (hm_chunks mp) (hc_data mc) = (Some mc, t)" using ht_take[OF assms(1), of "hc_data mc"] by auto
qed

text \<open>
  C30. \<^verbatim>\<open>MC_(mempool_trim)\<close> computes the end of a chunk with the size of the extent in place of the size of the chunk: a valid request that trims the front of a chunk by
  at least the size of the extent fails the assertion that the result is not empty, although the chunk reaches into the extent.
\<close>

theorem mempool_trim_aborts:
  assumes "lookup_pool pool h = Some mp" "ht_distinct hc_data (hm_chunks mp)" "ht_nodes (hm_chunks mp) = [mc]" "unat a + unat szB < 2 ^ 64"
    "hc_data mc < a" "a < hc_data mc + hc_szB mc" "hc_data mc + hc_szB mc \<le> a + szB" "hc_szB mc \<noteq> 0" "unat (hc_data mc) + unat szB \<le> unat a"
  shows "mempool_trim opts env pool a szB h = None"
proof -
  let ?d = "hc_data mc" and ?e = "hc_data mc + hc_szB mc - 1"
  have as: "unat (a + szB) = unat a + unat szB" by (rule unat_add_lem[THEN iffD1]) (use assms(4) in simp)
  have ds: "unat (?d + szB) = unat ?d + unat szB" by (rule unat_add_lem[THEN iffD1]) (use assms(4,5) in \<open>simp add: word_less_nat_alt\<close>)
  have e1: "unat ?e = unat (?d + hc_szB mc) - 1" using assms(6) by (simp add: unat_sub word_le_nat_alt word_less_nat_alt)
  have i: "\<not> EXTENT_CONTAINS a szB ?d" "EXTENT_CONTAINS a szB ?e"
    using assms(5-7) as e1 by (auto simp: EXTENT_CONTAINS_def word_le_nat_alt word_less_nat_alt)
  from single_chunk(2)[OF assms(2,3)] obtain t where t: "HT_remove hc_data (hm_chunks mp) ?d = (Some mc, t)" by blast
  have "\<not> a + szB < ?d + szB" "\<not> a < ?d + szB" using assms(5,9) as ds by (simp_all add: word_less_nat_alt)
  then have "trim_chunk opts env pool a szB (hm_rzB mp) mc h = None"
    using i t assms(1,5,8) by (simp add: trim_chunk_def remove_pool_chunk_def Let_def)
  then show ?thesis using assms(1) single_chunk(1)[OF assms(2,3)] by (simp add: mempool_trim_def)
qed

definition sample_chunk :: heap_chunk where
  "sample_chunk = \<lparr>hc_addr = 0, hc_data = 8192, hc_szB = 64, hc_allockind = MC_AllocCustom, hc_alignB = 0, hc_where = [0, 0]\<rparr>"

theorem mempool_trim_aborts_witness:
  "\<exists>h mp. lookup_pool 4096 h = Some mp \<and> ht_nodes (hm_chunks mp) = [sample_chunk] \<and> mempool_trim sample_opts (sample_env 0) 4096 8240 32 h = None"
proof -
  from ht_add[OF construct_distinct(1), of hc_data sample_chunk] obtain t where t: "ht_distinct hc_data t" "mset (ht_nodes t) = {#sample_chunk#}"
    by (auto simp: construct_distinct)
  let ?mp = "sample_pool\<lparr>hm_chunks := t\<rparr>"
  from ht_add[OF construct_distinct(1), of hm_pool ?mp] obtain ps where ps: "ht_map hm_pool ps = [hm_pool ?mp \<mapsto> ?mp]" by (auto simp: construct_distinct)
  let ?h = "sample_heap\<lparr>hp_mempool_list := ps\<rparr>"
  have "HT_lookup hm_pool ps 4096 = Some ?mp" using fun_cong[OF ps, of 4096] by (simp add: ht_map_def sample_pool_def)
  then have l: "lookup_pool 4096 ?h = Some ?mp" by (simp add: lookup_pool_def)
  have n: "ht_distinct hc_data (hm_chunks ?mp)" "ht_nodes (hm_chunks ?mp) = [sample_chunk]" using t by simp_all
  have "mempool_trim sample_opts (sample_env 0) 4096 8240 32 ?h = None"
    by (rule mempool_trim_aborts[OF l n]) (simp_all add: sample_chunk_def)
  then show ?thesis using l n(2) by blast
qed

end
