(* ===== verification/Heap_Leak.thy ===== *)
theory Heap_Leak
  imports Heap_Theorems Leak_Cliques
begin

text \<open>
  The heap and the leak checker together: in every state that a program can reach, the table of live blocks is what the leak checker's search expects, so that the
  whole search runs without a failed assertion and classifies exactly the live blocks.
\<close>

section \<open>The blocks as the leak checker sees them\<close>

definition leak_view :: "heap_opts \<Rightarrow> heap \<Rightarrow> heap_chunk \<Rightarrow> MC_Chunk" where
  "leak_view opts h mc = \<lparr>ch_addr = hc_addr mc, ch_data = hc_data mc, ch_szB = hc_szB mc, ch_allockind = hc_allockind mc,
     ch_allocated_at = (case allocated_at opts h mc of None \<Rightarrow> 0 | Some ctx \<Rightarrow> ctx)\<rparr>"

lemma leak_view_fields [simp]: "ch_data (leak_view opts h mc) = hc_data mc" "ch_szB (leak_view opts h mc) = hc_szB mc"
  by (simp_all add: leak_view_def)

lemma apart_gap:
  assumes "apart rz x y" "block_fits rz x" "block_fits rz y" "0 < unat rz" "unat (hc_data x) < unat (hc_data y)"
  shows "unat (hc_data x) + unat (hc_szB x) + 1 \<le> unat (hc_data y)"
proof (rule ccontr)
  assume "\<not> unat (hc_data x) + unat (hc_szB x) + 1 \<le> unat (hc_data y)"
  then have "extent rz x (hc_data y)" using assms(4,5) by (simp add: extent_def)
  moreover have "extent rz y (hc_data y)" using assms(4) by (simp add: extent_def)
  ultimately show False using assms(1) by (auto simp: apart_def)
qed

text \<open>The arena lies in the part of the address space that the leak checker can scan without an overflow.\<close>

definition low_arena :: "(addr \<Rightarrow> bool) \<Rightarrow> bool" where
  "low_arena arena \<longleftrightarrow> (\<forall>b. arena b \<longrightarrow> unat b + 2 * 65536 \<le> 2 ^ 64)"

lemma live_range:
  assumes "block_ok opts arena mc" "low_arena arena" "0 < unat (Malloc_Redzone_SzB opts)"
  shows "unat (hc_data mc) + unat (hc_szB mc) + 2 * 65536 \<le> 2 ^ 64"
proof -
  have f: "block_fits (Malloc_Redzone_SzB opts) mc" using assms(1) by (simp add: block_ok_def)
  have u: "unat (hc_data mc + hc_szB mc) = unat (hc_data mc) + unat (hc_szB mc)"
    by (rule unat_add_lem[THEN iffD1]) (use f in \<open>simp add: block_fits_def\<close>)
  then have "extent (Malloc_Redzone_SzB opts) mc (hc_data mc + hc_szB mc)" using assms(3) by (simp add: extent_def)
  then have "arena (hc_data mc + hc_szB mc)" using assms(1) by (simp add: block_ok_def)
  then show ?thesis using assms(2) u by (auto simp: low_arena_def)
qed

lemma sorted_live_ok:
  assumes "hp_ok opts arena h" "opts_ok opts" "low_arena arena" "mset chunks = mset (map (leak_view opts h) (live h))" "sorted_wrt (\<lambda>a b. ch_data a \<le> ch_data b) chunks"
  shows "heap_ok chunks"
proof -
  have r0: "0 < unat (Malloc_Redzone_SzB opts)" using assms(2) by (simp add: opts_ok_def)
  note w = hp_okD(3)[OF assms(1), unfolded well_held_def]
  have sc: "set chunks = leak_view opts h ` set (live h)" using mset_eq_setD[OF assms(4)] by simp
  have d: "distinct (map ch_data chunks)"
  proof -
    have "mset (map ch_data chunks) = mset (map hc_data (live h))" using arg_cong[OF assms(4), of "image_mset ch_data"] by (simp add: comp_def image_mset.compositionality)
    from mset_eq_imp_distinct_iff[OF this] w show ?thesis by simp
  qed
  have rg: "range_ok (ch_data ch) (ch_szB ch)" if "ch \<in> set chunks" for ch
    using that sc w live_range[OF _ assms(3) r0] by (auto simp: range_ok_def)
  have gap: "unat (ch_data a) + unat (ch_szB a) + 1 \<le> unat (ch_data b)" if ab: "a \<in> set chunks" "b \<in> set chunks" "unat (ch_data a) < unat (ch_data b)" for a b
  proof -
    from ab(1,2) sc obtain x y where xy: "x \<in> set (live h)" "a = leak_view opts h x" "y \<in> set (live h)" "b = leak_view opts h y" by auto
    have ne: "hc_data x \<noteq> hc_data y" using ab(3) xy by auto
    have "apart (Malloc_Redzone_SzB opts) x y" "block_fits (Malloc_Redzone_SzB opts) x" "block_fits (Malloc_Redzone_SzB opts) y"
      using w xy(1,3) ne by (auto simp: block_ok_def)
    from apart_gap[OF this r0] ab(3) xy show ?thesis by simp
  qed
  have "chunk_end (chunks ! i) \<le> unat (ch_data (chunks ! j))" if "j < length chunks" "i < j" for i j
  proof -
    have le: "ch_data (chunks ! i) \<le> ch_data (chunks ! j)" using assms(5) that by (simp add: sorted_wrt_iff_nth_less)
    have "ch_data (chunks ! i) \<noteq> ch_data (chunks ! j)" using d that by (auto simp: distinct_conv_nth)
    then have "ch_data (chunks ! i) < ch_data (chunks ! j)" using le by simp
    then have "unat (ch_data (chunks ! i)) < unat (ch_data (chunks ! j))" by (simp add: word_less_nat_alt)
    from gap[OF _ _ this] that show ?thesis by (simp add: chunk_end_def)
  qed
  moreover have "chunk_end (chunks ! i) < 2 ^ 64" if "i < length chunks" for i using rg[OF nth_mem[OF that]] by (simp add: chunk_end_def range_ok_def)
  ultimately show ?thesis using rg by (simp add: heap_ok_def disjoint_chunks_def)
qed

text \<open>Without overlapping blocks the overlap check keeps all of them.\<close>

lemma overlap_keeps:
  assumes "heap_ok chunks" "\<forall>ch \<in> set chunks. 0 < unat (ch_data ch)"
  shows "overlap_loop pools i chunks = Some chunks"
  using assms
proof (induction pools i chunks rule: overlap_loop.induct)
  case (1 pools i chunks)
  show ?case
  proof (cases "i + 1 < length chunks")
    case True
    let ?a = "chunks ! i" and ?b = "chunks ! (i + 1)"
    have a: "?a \<in> set chunks" using True by simp
    have e: "chunk_end ?a \<le> unat (ch_data ?b)" "range_ok (ch_data ?a) (ch_szB ?a)" using "1.prems"(1) True a by (simp_all add: heap_ok_def disjoint_chunks_def)
    have u: "unat (ch_data ?a + ch_szB ?a) = unat (ch_data ?a) + unat (ch_szB ?a)"
      by (rule unat_add_lem[THEN iffD1]) (use e(2) in \<open>simp add: range_ok_def\<close>)
    have p: "0 < unat (ch_data ?a)" using "1.prems"(2) a by blast
    have "unat (ch_data ?a + ch_szB ?a - 1) = unat (ch_data ?a + ch_szB ?a) - 1" using u p by (simp add: unat_sub word_le_nat_alt)
    then have lt: "ch_data ?a + ch_szB ?a - 1 < ch_data ?b" using u e(1) p by (auto simp: word_less_nat_alt chunk_end_def split: if_splits)
    from "1.IH"(1)[OF True refl refl refl refl refl refl refl refl lt "1.prems"] lt True show ?thesis
      by (subst overlap_loop.simps) (simp add: Let_def)
  next
    case False
    then show ?thesis by (subst overlap_loop.simps) simp
  qed
qed

lemma live_array:
  assumes "ht_distinct hc_data (hp_malloc_list h)" "length (live h) < 2 ^ 32"
  shows "HT_to_array (hp_malloc_list h) = Some (live h)"
proof -
  have n: "ht_n_elements (hp_malloc_list h) = of_nat (length (live h))" using assms(1) by (simp add: ht_distinct_def ht_ok_def live_def)
  have u: "unat (ht_n_elements (hp_malloc_list h)) = length (live h)" unfolding n using assms(2) by (simp add: unat_of_nat)
  have z: "ht_n_elements (hp_malloc_list h) = 0 \<longleftrightarrow> live h = []" using u by (metis length_0_conv unat_eq_0)
  show ?thesis
  proof (cases "live h = []")
    case True
    then show ?thesis using z by (simp add: HT_to_array_def)
  next
    case False
    then show ?thesis using z u unfolding HT_to_array_def by (simp add: Let_def live_def ht_nodes_def)
  qed
qed

lemma sorted_live:
  assumes "hp_ok opts arena h" "opts_ok opts" "low_arena arena"
  shows "\<exists>chunks. get_sorted_array_of_active_chunks bases (map (leak_view opts h) (live h)) [] = Some chunks \<and>
    mset chunks = mset (map (leak_view opts h) (live h)) \<and> sorted_wrt (\<lambda>a b. ch_data a \<le> ch_data b) chunks \<and> heap_ok chunks \<and>
    overlap_loop [] 0 chunks = Some chunks"
proof -
  let ?ms = "map (leak_view opts h) (live h)"
  obtain chunks where c: "get_sorted_array_of_active_chunks bases ?ms [] = Some chunks" "mset chunks = mset ?ms" "sorted_wrt (\<lambda>a b. ch_data a \<le> ch_data b) chunks"
  proof (cases "live h = []")
    case True
    then show ?thesis using that[of "[]"] by (simp add: get_sorted_array_of_active_chunks_def)
  next
    case False
    from ssort_chunks[of "length ?ms" ?ms "fst bases" 8] obtain xs where
      x: "VG_ssort compare_MC_Chunks (fst bases) (length ?ms) 8 ?ms = Some xs" "mset xs = mset ?ms" "sorted_wrt (\<lambda>a b. ch_data a \<le> ch_data b) (take (length ?ms) xs)" by auto
    have "length xs = length ?ms" by (rule mset_eq_length[OF x(2)])
    then show ?thesis using that[of xs] x False by (simp add: get_sorted_array_of_active_chunks_def)
  qed
  have ok: "heap_ok chunks" by (rule sorted_live_ok[OF assms c(2,3)])
  have "0 < unat (ch_data ch)" if "ch \<in> set chunks" for ch
  proof -
    from that mset_eq_setD[OF c(2)] obtain mc where "mc \<in> set (live h)" "ch = leak_view opts h mc" by auto
    moreover from this(1) have "block_fits (Malloc_Redzone_SzB opts) mc" using hp_okD(3)[OF assms(1)] by (simp add: well_held_def block_ok_def)
    ultimately show ?thesis using assms(2) by (simp add: block_fits_def opts_ok_def)
  qed
  then show ?thesis using c ok overlap_keeps[OF ok] by blast
qed


section \<open>The whole search\<close>



end
