(* ===== verification/Spec2Isabelle.thy ===== *)
theory Spec2Isabelle
  imports Driver Libc_Str_Props Libc_Mem_Props Leak_Cliques Leak_Report Leak_Scan Oset_Theorems Heap_Pools Heap_Leak
begin

text \<open>
  Verification of \<^bold>\<open>hpctools\<close>: the dense linear solvers of the repository with their benchmark and test programs, and
  the parts of the Valgrind 3.22.0 tree it carries (\<^verbatim>\<open>src/task3/valgrind-3.22.0\<close>, for amd64 Linux) that decide what Memcheck, the tool
  the programs are profiled with, reports.


  \<^bold>\<open>The programs and how they are modelled\<close>

  Failure is a value. A C program can fail where HOL cannot (an access out of bounds, an \<^verbatim>\<open>int\<close> that overflows, a failed assertion),
  so every operation that can fail returns an option and \<^term>\<open>None\<close> is the failure; the theorems that an operation is correct also say that it
  returns \<^term>\<open>Some\<close>. Loops are folds (\<open>foldO\<close>, and \<open>foldR\<close> with early return, in \<open>Prelude\<close>), functions with a measure, or take fuel.

  \<^item> \<open>Arith_Ops\<close>, \<open>Dgesv\<close>, \<open>Dgesv_Loops\<close>, \<open>Dgesv_Exact\<close>: \<^verbatim>\<open>my_dgesv\<close> of \<^verbatim>\<open>src/dgesv.c\<close> and \<^verbatim>\<open>src/dgesv-optimal1.c\<close> (partial pivoting, OpenMP) and of
    \<^verbatim>\<open>src/task1/dgesv.c\<close> (serial). Double arithmetic is a record of operations. The loops are proved safe for every such record; the parallel back
    substitution is an arbitrary legal interleaving of the iterations and gives the result of one thread. Under exact arithmetic (the
    locale \<open>exact_arith\<close>, interpreted on every linearly ordered field) the elimination keeps the solutions of the system, a returned 0 means that
    \<^verbatim>\<open>b\<close> holds the only solution, and a singular matrix is rejected.
  \<^item> \<open>Timer\<close>, \<open>Driver\<close>: \<^verbatim>\<open>timer.c\<close>, \<^verbatim>\<open>main.c\<close>, \<^verbatim>\<open>test.c\<close>. The C library, the clock and LAPACK are arguments with their contract as hypotheses. The matrix
    generator, the comparison of the results and the whole programs, with the wrap-around of the unsigned size products.
  \<^item> \<open>Libc_Str\<close>, \<open>Libc_Mem\<close>, \<open>Libc_Sort\<close> with their \<open>_Props\<close>: Valgrind's private C library, \<^verbatim>\<open>coregrind/m_libcbase.c\<close>. Strings are byte lists and
    reading past the list is a failure; the memory functions work on a byte memory with their word-sized and unrolled loops; the sort is
    the Bentley-McIlroy quicksort over an abstract comparison function (the locale \<open>comparator\<close>, interpreted on the two comparison functions the
    leak checker sorts with).
  \<^item> \<open>Leak\<close>, \<open>Leak_Props\<close>, \<open>Leak_Cliques\<close>, \<open>Leak_Report\<close>: \<^verbatim>\<open>memcheck/mc_leakcheck.c\<close>. The sorted array of blocks and its binary search, the scan of memory with
    the heuristics for interior pointers, the marking, the cliques of indirectly lost blocks, and the loss records with the summary.
    Client memory and the address space manager are fields of the record \<open>lc_env\<close>. A block is scanned again at most once, so \<open>2n + 1\<close> rounds of
    the mark stack are enough for \<open>n\<close> blocks, and a scan of \<open>len\<close> bytes takes at most \<open>len div 8 + 2\<close> rounds; both are proved.
  \<^item> \<open>Shadow\<close>, \<open>Shadow_Range\<close>, \<open>Shadow_Access\<close>, \<open>Shadow_Stack\<close>: the shadow memory of \<^verbatim>\<open>memcheck/mc_main.c\<close>. State: the primary map, the auxiliary map with its
    self-organising front cache, the secondary maps with two bits per byte (three of them distinguished and shared), the counters of the maps, the
    table of the V bits of partially defined bytes with its garbage collection, and the list of reported address errors. Operations:
    setting, copying and checking ranges; the load and store handlers with their fast, semi-fast and slow cases; the unrolled
    routines for a moving stack pointer. Addresses and V bits are 64-bit and 8-bit words, so that masks, shifts and wrap-around are those of the code.
  \<^item> \<open>Oset\<close>, \<open>Oset_Props\<close>, \<open>Oset_Sets\<close>, \<open>Oset_Theorems\<close>: the ordered sets of \<^verbatim>\<open>coregrind/m_oset.c\<close>, AVL trees with an iterator that keeps an explicit stack. Trees are
    values, the comparison and the key of an element are arguments. The locale \<open>key_order\<close>, interpreted on the comparison of first words, has the proofs for every
    comparison that is a linear order: insertion and removal keep balance and order (removal with fuel of three times the height plus three, which is
    proved to be enough), and a set is a finite map. The stack of 32 nodes is enough for every set of fewer than 9227464 elements, and not for some set of that size.
  \<^item> \<open>Hashtab\<close>, \<open>Hashtab_Props\<close>: the hash tables of \<^verbatim>\<open>coregrind/m_hashtable.c\<close>, an array of chains that grows through a list of primes, with an iterator that
    allows the removal of its node. Through the locale \<open>data_refinement\<close> of \<open>Prelude\<close> a table is a finite map for every history of requests, and a loop that removes nodes
    while it runs over the table visits every node once.
  \<^item> \<open>Heap\<close>, \<open>Heap_Props\<close>, \<open>Heap_Ops\<close>, \<open>Heap_System\<close>, \<open>Heap_Theorems\<close>, \<open>Heap_Pools\<close>: Memcheck's replacement of the heap, \<^verbatim>\<open>memcheck/mc_malloc_wrappers.c\<close>. State (the record \<open>heap\<close>):
    the shadow memory, the bytes of the client, the hash tables of live blocks and of pools, the two queues of freed blocks with their volume, the statistics, the
    reported errors and the blocks given back. Operations: allocation of all kinds, release, reallocation, resizing in place, and memory pools. What the allocators
    below Memcheck answer to a call is its environment \<open>call_env\<close>.


  \<^bold>\<open>What is proved of the heap\<close>

  The invariant \<open>hp_ok\<close> says that the blocks that are live or held back lie with their red zones in the arena and apart from each other, that the queues are counted, and
  that exactly the bytes of live blocks are accessible in the arena. \<open>Heap_Ops\<close> has the specification of every operation. \<open>Heap_System\<close> defines the requests of a
  client, among them all requests to the shadow memory, and the states they reach (\<open>heap_reach\<close>), and shows by rule induction that the invariant holds in all of them. The
  hypotheses about the rest of the system are in \<open>admissible\<close>: a new block lies in the arena, apart from all blocks that have not been given back, and has fewer than
  \<open>2\<^sup>6\<^sup>2\<close> bytes; a new chunk structure is memory that the client cannot access; and other memory is mapped, unmapped or used as a stack outside of the arena only. What the client
  frees, loads and stores is arbitrary. \<open>Heap_Theorems\<close> states the properties: no request fails, accesses to freed blocks and red zones are reported, and what allocation,
  release and reallocation do.



  \<^bold>\<open>What is proved of the shadow memory\<close>

  The abstraction \<open>vb\<close> gives every address its V bits, or \<^term>\<open>None\<close> where it is not accessible; the invariant \<open>shadow_ok\<close> is about the front cache,
  the auxiliary map and the table. \<open>Shadow_Bits\<close> and \<open>Shadow_Cells\<close> hold the facts on packed bits, \<open>Shadow_Aux\<close> shows that the auxiliary map with its cache is a
  map, \<open>Shadow_Bytes\<close> that reading and writing one byte refine \<open>vb\<close> whenever a collection happens, \<open>Shadow_Range_Props\<close>, \<open>Shadow_Copy\<close> and \<open>Shadow_Checks\<close> give the
  ranges, \<open>Shadow_Loops\<close> (the locale \<open>byte_memory\<close>, interpreted on the byte operations), \<open>Shadow_Fast\<close>, \<open>Shadow_Loads\<close>, \<open>Shadow_Wide\<close> and \<open>Shadow_Stores\<close> the handlers,
  \<open>Shadow_Stack_Props\<close> the stack. \<open>Shadow_System\<close> puts the requests together: by the locale \<open>simulation\<close> of \<open>Prelude\<close>, every sequence of requests from the
  initial state runs without a failed assertion and acts as an abstract machine on \<open>vb\<close> and the reports. \<open>Shadow_Theorems\<close> states the properties.


  \<^bold>\<open>How the parts interact\<close>

  The benchmark calls the solver and the timers. The leak checker sorts its blocks with \<^verbatim>\<open>VG_(ssort)\<close>, compares file names with \<^verbatim>\<open>VG_(strcmp)\<close> and
  asks the shadow memory which words it may read: \<open>Leak_Scan\<close> shows that on the answers of the modelled shadow memory a scan reads exactly the
  aligned words all of whose bytes are accessible and defined, so that nothing the rest of the leak checker relies on is assumed of them. The auxiliary map and the table of V bits are association lists in
  \<open>Shadow\<close> and ordered sets in the code: \<open>Oset_Theorems\<close> shows that such a set answers lookups and takes insertions as the list does. The heap keeps its
  blocks in the hash tables and marks them in the shadow memory, whose request machine \<open>Heap_System\<close> runs as a part of its own. \<open>Heap_Leak\<close> hands the table of live blocks of
  any heap that can be reached to the leak checker: its whole search succeeds and classifies exactly these blocks.


  \<^bold>\<open>Not modelled\<close>

  Rounding of doubles (a parameter), the text of \<^verbatim>\<open>printf\<close> output and \<^verbatim>\<open>free\<close>. In Memcheck: origin tracking, the assembly versions of the helpers, the
  suppression and printing of errors (a report is logged with its arguments where \<^verbatim>\<open>MC_(record_address_error)\<close> is called), the dispatch of client requests
  and the instrumentation of VEX code. Of the heap: messages, the printing check \<^verbatim>\<open>check_mempool_sane\<close> and profiling by xtree; the properties of heap states are about programs
  without pools and without resizing in place, which are modelled. The new limit of the table of V bits after a collection is computed in floating point and is a parameter
  that may be any number. Allocation of a secondary map does not fail (the program ends otherwise), the counters of the maps are integers
  without bound, and the statistics of searches are left out. The rest of Valgrind (the core, VEX, the other tools) is vendored
  infrastructure that the repository only carries; the Perl module \<^verbatim>\<open>IO-1.55\<close>, the recorded profiles and the installed copies are third-party
  code and data.
\<close>


section \<open>The leak checker on the shadow memory\<close>



end
